(* ===== verification/Slot.thy ===== *)
theory Slot
  imports Prelude
begin

text \<open>
  \<open>src/pool/slot.rs\<close>: one dispatched command and whether it may still be interrupted. The
  mutex-protected enum is a datatype, each locked method one function on it; the interrupt a slot
  holds is a value of the type parameter, and an operation that calls it answers the value called.

  The lemmas walk arbitrary sequences of calls: at most one start is accepted, at most one
  interrupt is ever called, and it is the one the accepted start handed over.
\<close>

section \<open>The slot and its methods\<close>

datatype 'i Slot = Waiting | Running 'i | Finished | Cancelled

definition CommandSlot_new :: "'i Slot" where
  "CommandSlot_new = Waiting"

text \<open>The interrupts called, and the slot afterwards.\<close>

fun CommandSlot_cancel :: "'i Slot \<Rightarrow> 'i list \<times> 'i Slot" where
  "CommandSlot_cancel (Running interrupt) = ([interrupt], Cancelled)"
| "CommandSlot_cancel _ = ([], Cancelled)"

fun CommandSlot_start :: "'i Slot \<Rightarrow> 'i \<Rightarrow> bool \<times> 'i Slot" where
  "CommandSlot_start Waiting interrupt = (True, Running interrupt)"
| "CommandSlot_start s interrupt = (False, s)"

fun CommandSlot_finish :: "'i Slot \<Rightarrow> 'i Slot" where
  "CommandSlot_finish (Running interrupt) = Finished"
| "CommandSlot_finish s = s"

text \<open>Dropping the \<open>Disarm\<close> guard gives the interrupt up.\<close>

definition Disarm_drop :: "'i Slot \<Rightarrow> 'i Slot" where
  "Disarm_drop slot = CommandSlot_finish slot"

section \<open>Sequences of calls\<close>

datatype 'i slot_call = Call_start 'i | Call_disarm | Call_cancel

text \<open>What a call did: the starts it accepted and the interrupts it called.\<close>

fun slot_call_effect :: "'i slot_call \<Rightarrow> 'i Slot \<Rightarrow> 'i list \<times> 'i list \<times> 'i Slot" where
  "slot_call_effect (Call_start i) s =
     (let (accepted, s') = CommandSlot_start s i in ((if accepted then [i] else []), [], s'))"
| "slot_call_effect Call_disarm s = ([], [], Disarm_drop s)"
| "slot_call_effect Call_cancel s =
     (let (fired, s') = CommandSlot_cancel s in ([], fired, s'))"

fun slot_calls :: "'i slot_call list \<Rightarrow> 'i Slot \<Rightarrow> 'i list \<times> 'i list \<times> 'i Slot" where
  "slot_calls [] s = ([], [], s)"
| "slot_calls (c # cs) s =
     (let (a, f, s1) = slot_call_effect c s; (a', f', s2) = slot_calls cs s1
      in (a @ a', f @ f', s2))"

section \<open>Lemmas\<close>

lemma CommandSlot_start_iff [step_simps]:
  "CommandSlot_start s i = (True, s') \<longleftrightarrow> s = Waiting \<and> s' = Running i"
  "CommandSlot_start s i = (False, s') \<longleftrightarrow> s \<noteq> Waiting \<and> s' = s"
  by (cases s; auto)+

lemma CommandSlot_cancel_fst [step_simps]:
  "CommandSlot_cancel s = (fired, s') \<longleftrightarrow>
     s' = Cancelled \<and> fired = (case s of Running i \<Rightarrow> [i] | _ \<Rightarrow> [])"
  by (cases s) auto

lemma CommandSlot_finish_iff [step_simps]:
  "CommandSlot_finish s = Running i \<longleftrightarrow> False"
  "CommandSlot_finish s = Waiting \<longleftrightarrow> s = Waiting"
  "CommandSlot_finish s = Cancelled \<longleftrightarrow> s = Cancelled"
  by (cases s; simp)+

lemma slot_calls_settled:
  assumes "s = Finished \<or> s = Cancelled"
  shows "\<exists>s'. slot_calls cs s = ([], [], s') \<and> (s' = Finished \<or> s' = Cancelled)"
  using assms
proof (induction cs arbitrary: s)
  case (Cons c cs)
  then obtain s1 where s1: "slot_call_effect c s = ([], [], s1)" "s1 = Finished \<or> s1 = Cancelled"
    by (cases c) (auto simp: Disarm_drop_def)
  from Cons.IH [OF s1(2)] s1(1) show ?case by auto
qed simp

lemma slot_calls_running:
  "\<exists>fired s'. slot_calls cs (Running i) = ([], fired, s') \<and> (fired = [] \<or> fired = [i])"
proof (induction cs)
  case (Cons c cs)
  show ?case
  proof (cases c)
    case (Call_start j)
    with Cons show ?thesis by auto
  next
    case Call_disarm
    with slot_calls_settled [of Finished cs] show ?thesis by (auto simp: Disarm_drop_def)
  next
    case Call_cancel
    with slot_calls_settled [of Cancelled cs] show ?thesis by auto
  qed
qed simp

text \<open>From a new slot: one command at most, one interrupt at most, and the right one.\<close>

lemma slot_calls_new:
  assumes "slot_calls cs CommandSlot_new = (accepted, fired, s')"
  shows "length accepted \<le> 1 \<and> (fired = [] \<or> fired = accepted \<and> length accepted = 1)"
  using assms
proof (induction cs arbitrary: accepted fired s')
  case (Cons c cs)
  show ?case
  proof (cases c)
    case (Call_start i)
    with Cons.prems slot_calls_running [of cs i] show ?thesis by (auto simp: CommandSlot_new_def)
  next
    case Call_disarm
    with Cons show ?thesis by (auto simp: CommandSlot_new_def Disarm_drop_def split: prod.splits)
  next
    case Call_cancel
    with Cons.prems slot_calls_settled [of Cancelled cs] show ?thesis
      by (auto simp: CommandSlot_new_def)
  qed
qed simp

lemma slot_calls_append:
  "slot_calls (cs @ ds) s =
     (let (a, f, s1) = slot_calls cs s; (a', f', s2) = slot_calls ds s1 in (a @ a', f @ f', s2))"
  by (induction cs arbitrary: s) (auto simp: Let_def split: prod.splits)

lemma slot_calls_disarmed: "fst (snd (slot_calls (Call_start i # Call_disarm # cs) s)) = []"
proof (cases s)
  case Waiting
  with slot_calls_settled [of Finished cs] show ?thesis by (auto simp: Disarm_drop_def)
next
  case (Running j)
  with slot_calls_settled [of Finished cs] show ?thesis by (auto simp: Disarm_drop_def)
next
  case Finished
  with slot_calls_settled [of Finished cs] show ?thesis by (auto simp: Disarm_drop_def)
next
  case Cancelled
  with slot_calls_settled [of Cancelled cs] show ?thesis by (auto simp: Disarm_drop_def)
qed

section \<open>Properties\<close>

text \<open>Whatever sequence of starts, disarms and cancels is applied to a new slot, at most one
  command is started and at most one interrupt is called, and it is the one handed over by the
  command that was started; and once a command that asked to start has been disarmed, no later
  call interrupts anything.\<close>

theorem slot_interrupts_once:
  "(case slot_calls cs CommandSlot_new of (accepted, fired, s') \<Rightarrow>
      length accepted \<le> 1 \<and> (fired = [] \<or> fired = accepted \<and> length accepted = 1)) \<and>
   fst (snd (slot_calls (cs @ Call_start i # Call_disarm # ds) CommandSlot_new)) =
     fst (snd (slot_calls cs CommandSlot_new))"
proof
  show "case slot_calls cs CommandSlot_new of (accepted, fired, s') \<Rightarrow>
      length accepted \<le> 1 \<and> (fired = [] \<or> fired = accepted \<and> length accepted = 1)"
    using slot_calls_new [of cs] by (auto split: prod.split)
  show "fst (snd (slot_calls (cs @ Call_start i # Call_disarm # ds) CommandSlot_new)) =
     fst (snd (slot_calls cs CommandSlot_new))"
    using slot_calls_disarmed [of i ds]
    by (simp add: slot_calls_append Let_def split_beta del: slot_calls.simps)
qed

end
