(* ===== verification/Idles.thy ===== *)
theory Idles
  imports Prelude "HOL-Library.Multiset"
begin

text \<open>
  \<open>src/pool/reaper.rs\<close>: the free sessions, since when each has been free, and the decision of
  which ones to close. The struct under the mutex is the record \<open>pool_state\<close>; the session type is
  the type parameter, as it is in the source. A method that reads the clock takes the instant it
  read. The reaper thread's loop is one iteration, \<open>reap_turn\<close>, whose outcome says what it does
  with the pool unlocked.

  The lemmas give the scan of \<open>State::reap\<close> in closed form: it takes the longest-idle due
  sessions, never more than the pool can spare, keeps the rest in order, and never asks to be
  woken after no time at all.
\<close>

section \<open>The bookkeeping\<close>

record 's Idle =
  idle_session :: 's
  idle_since :: instant

record 's pool_state =
  ps_idle :: "'s Idle list"
  ps_open :: u32
  ps_closing :: bool

definition Idle_taken :: "instant \<Rightarrow> 's \<Rightarrow> 's Idle" where
  "Idle_taken now session = \<lparr>idle_session = session, idle_since = now\<rparr>"

definition Idles_new :: "instant \<Rightarrow> 's list \<Rightarrow> u32 \<Rightarrow> 's pool_state" where
  "Idles_new now sessions opened =
     \<lparr>ps_idle = map (Idle_taken now) sessions, ps_open = opened, ps_closing = False\<rparr>"

text \<open>The half of \<open>give_back\<close> that holds the lock; the wakeup that follows is the caller's.\<close>

definition Idles_give_back :: "instant \<Rightarrow> 's \<Rightarrow> 's pool_state \<Rightarrow> 's pool_state" where
  "Idles_give_back now session st = st\<lparr>ps_idle := ps_idle st @ [Idle_taken now session]\<rparr>"

definition Idles_stop_reaping :: "'s pool_state \<Rightarrow> 's pool_state" where
  "Idles_stop_reaping st = st\<lparr>ps_closing := True\<rparr>"

text \<open>\<open>Vec::pop\<close>: the back of the list.\<close>

definition State_take :: "'s pool_state \<Rightarrow> 's option \<times> 's pool_state" where
  "State_take st =
     (if ps_idle st = [] then (None, st)
      else (Some (idle_session (last (ps_idle st))), st\<lparr>ps_idle := butlast (ps_idle st)\<rparr>))"

definition State_closed :: "u32 \<Rightarrow> 's pool_state \<Rightarrow> 's pool_state" where
  "State_closed sessions st = st\<lparr>ps_open := ps_open st - sessions\<rparr>"

section \<open>The reaper\<close>

text \<open>
  The loop of \<open>State::reap\<close> over the free sessions, oldest first, with its three accumulators:
  what is expired, what is kept, and the wait. \<open>saturating_duration_since\<close> is subtraction on
  natural numbers.
\<close>

fun reap_scan ::
  "duration \<Rightarrow> instant \<Rightarrow> 's Idle list \<Rightarrow> u32 \<Rightarrow> duration \<Rightarrow> 's list \<times> 's Idle list \<times> duration" where
  "reap_scan timeout now [] spare wait = ([], [], wait)"
| "reap_scan timeout now (entry # es) spare wait =
     (let waited = now - idle_since entry in
      if spare > 0 \<and> waited \<ge> timeout then
        let (expired, kept, w) = reap_scan timeout now es (spare - 1) wait
        in (idle_session entry # expired, kept, w)
      else
        let (expired, kept, w) =
          reap_scan timeout now es spare (if spare > 0 then min wait (timeout - waited) else wait)
        in (expired, entry # kept, w))"

definition saturating_sub :: "u32 \<Rightarrow> u32 \<Rightarrow> u32" where
  "saturating_sub a b = (if b \<le> a then a - b else 0)"

definition State_reap ::
  "u32 \<Rightarrow> duration \<Rightarrow> instant \<Rightarrow> 's pool_state \<Rightarrow> ('s list \<times> duration) \<times> 's pool_state" where
  "State_reap mn timeout now st =
     (let spare = saturating_sub (ps_open st) mn in
      if spare = 0 \<or> ps_idle st = [] then (([], timeout), st)
      else
        let (expired, kept, wait) = reap_scan timeout now (ps_idle st) spare timeout
        in ((expired, wait), st\<lparr>ps_idle := kept\<rparr>))"

text \<open>One turn of the reaper's loop, from one acquisition of the lock to its release.\<close>

datatype 's reap_outcome = Reaper_stops | Reaper_destroys "'s list" | Reaper_waits duration

definition reap_turn ::
  "u32 \<Rightarrow> duration \<Rightarrow> instant \<Rightarrow> 's pool_state \<Rightarrow> 's reap_outcome \<times> 's pool_state" where
  "reap_turn mn timeout now st =
     (if ps_closing st then (Reaper_stops, st)
      else
        let ((expired, wait), st') = State_reap mn timeout now st
        in if expired \<noteq> [] then (Reaper_destroys expired, st') else (Reaper_waits wait, st'))"

text \<open>After the expired sessions are destroyed, with the lock held again.\<close>

definition reap_destroyed :: "'s list \<Rightarrow> 's pool_state \<Rightarrow> 's pool_state" where
  "reap_destroyed expired st = State_closed (word_of_nat (length expired)) st"

section \<open>The scan in closed form\<close>

definition due :: "duration \<Rightarrow> instant \<Rightarrow> 's Idle \<Rightarrow> bool" where
  "due timeout now e \<longleftrightarrow> timeout \<le> now - idle_since e"

text \<open>The reference: take the first \<open>n\<close> due entries of the list, keep the others.\<close>

fun expire :: "('a \<Rightarrow> bool) \<Rightarrow> nat \<Rightarrow> 'a list \<Rightarrow> 'a list \<times> 'a list" where
  "expire P n [] = ([], [])"
| "expire P n (x # xs) =
     (if 0 < n \<and> P x then apfst (Cons x) (expire P (n - 1) xs)
      else apsnd (Cons x) (expire P n xs))"

lemma expire_taken: "fst (expire P n xs) = take n (filter P xs)"
  by (induction P n xs rule: expire.induct) (auto simp: take_Cons' gr0_conv_Suc)

lemma expire_mset: "mset (fst (expire P n xs)) + mset (snd (expire P n xs)) = mset xs"
  by (induction P n xs rule: expire.induct) auto

lemma expire_kept_subseq: "subseq (snd (expire P n xs)) xs"
  by (induction P n xs rule: expire.induct) auto

lemma expire_kept_due:
  "length (fst (expire P n xs)) < n \<Longrightarrow> x \<in> set (snd (expire P n xs)) \<Longrightarrow> \<not> P x"
  by (induction P n xs rule: expire.induct) (auto split: if_splits)

lemma reap_scan_expired:
  "fst (reap_scan timeout now es spare wait) =
     map idle_session (fst (expire (due timeout now) (unat spare) es))"
  by (induction timeout now es spare wait rule: reap_scan.induct)
    (auto simp: Let_def split_beta due_def word_gt_0_unat unat_dec)

lemma reap_scan_kept:
  "fst (snd (reap_scan timeout now es spare wait)) =
     snd (expire (due timeout now) (unat spare) es)"
  by (induction timeout now es spare wait rule: reap_scan.induct)
    (auto simp: Let_def split_beta due_def word_gt_0_unat unat_dec)

text \<open>The wait: positive, never past the one it started from, and never past the moment a kept
  session the pool could still spare comes due.\<close>

lemma reap_scan_wait_pos:
  "0 < wait \<Longrightarrow> 0 < timeout \<Longrightarrow> 0 < snd (snd (reap_scan timeout now es spare wait))"
  by (induction timeout now es spare wait rule: reap_scan.induct)
    (auto simp: Let_def split_beta)

lemma reap_scan_wait_le: "snd (snd (reap_scan timeout now es spare wait)) \<le> wait"
proof (induction timeout now es spare wait rule: reap_scan.induct)
  case (2 timeout now entry es spare wait)
  then show ?case by (cases "spare > 0") (auto simp: Let_def split_beta)
qed simp

lemma reap_scan_wait_due:
  "length (fst (expire (due timeout now) (unat spare) es)) < unat spare \<Longrightarrow>
   e \<in> set (snd (expire (due timeout now) (unat spare) es)) \<Longrightarrow>
     snd (snd (reap_scan timeout now es spare wait)) \<le> timeout - (now - idle_since e)"
proof (induction timeout now es spare wait rule: reap_scan.induct)
  case (2 timeout now entry es spare wait)
  show ?case
  proof (cases "spare > 0 \<and> due timeout now entry")
    case True
    with 2 show ?thesis
      by (auto simp: Let_def split_beta due_def word_gt_0_unat unat_dec split: if_splits)
  next
    case False
    with 2(3) have "spare > 0" by (auto simp: word_gt_0_unat)
    with False 2(2-4) reap_scan_wait_le [of timeout now es spare
        "min wait (timeout - (now - idle_since entry))"]
    show ?thesis by (auto simp: Let_def split_beta due_def word_gt_0_unat)
  qed
qed simp

section \<open>The operations\<close>

lemma unat_saturating_sub [word_counts]: "unat (saturating_sub a b) = unat a - unat b"
  by (auto simp: saturating_sub_def unat_minus word_le_nat_alt)

lemma saturating_sub_0_iff: "saturating_sub a b = 0 \<longleftrightarrow> unat a \<le> unat b"
  by (simp add: word_eq_0_unat word_counts)

lemma expire_0: "expire P 0 xs = ([], xs)"
  by (induction xs) auto

lemma State_reap_expire:
  assumes "State_reap mn timeout now st = ((expired, wait), st')"
  shows "expired = map idle_session
           (fst (expire (due timeout now) (unat (ps_open st) - unat mn) (ps_idle st)))"
    and "st' = st\<lparr>ps_idle :=
           snd (expire (due timeout now) (unat (ps_open st) - unat mn) (ps_idle st))\<rparr>"
proof -
  let ?spare = "saturating_sub (ps_open st) mn"
  have "(expired, wait, st') =
      (if ?spare = 0 \<or> ps_idle st = [] then ([], timeout, st)
       else (fst (reap_scan timeout now (ps_idle st) ?spare timeout),
             snd (snd (reap_scan timeout now (ps_idle st) ?spare timeout)),
             st\<lparr>ps_idle := fst (snd (reap_scan timeout now (ps_idle st) ?spare timeout))\<rparr>))"
    using assms by (auto simp: State_reap_def Let_def split_beta split: if_splits)
  then show "expired = map idle_session
           (fst (expire (due timeout now) (unat (ps_open st) - unat mn) (ps_idle st)))"
    and "st' = st\<lparr>ps_idle :=
           snd (expire (due timeout now) (unat (ps_open st) - unat mn) (ps_idle st))\<rparr>"
    by (auto simp: reap_scan_expired reap_scan_kept saturating_sub_0_iff expire_0 word_counts
        split: if_splits)
qed

text \<open>The contract of a reaping: sessions are only moved, never more than the spare ones.\<close>

lemma State_reap_frame:
  assumes "State_reap mn timeout now st = ((expired, wait), st')"
  shows "ps_open st' = ps_open st" and "ps_closing st' = ps_closing st"
    and "mset (map idle_session (ps_idle st)) =
           mset expired + mset (map idle_session (ps_idle st'))"
    and "length expired \<le> unat (ps_open st) - unat mn"
    and "subseq (ps_idle st') (ps_idle st)"
proof -
  let ?x = "expire (due timeout now) (unat (ps_open st) - unat mn) (ps_idle st)"
  note eqs = State_reap_expire [OF assms]
  show "ps_open st' = ps_open st" and "ps_closing st' = ps_closing st"
    and "subseq (ps_idle st') (ps_idle st)"
    by (simp_all add: eqs(2) expire_kept_subseq)
  show "length expired \<le> unat (ps_open st) - unat mn"
    by (simp add: eqs(1) expire_taken)
  have "image_mset idle_session (mset (ps_idle st)) =
      image_mset idle_session (mset (fst ?x) + mset (snd ?x))"
    by (simp add: expire_mset)
  then show "mset (map idle_session (ps_idle st)) =
      mset expired + mset (map idle_session (ps_idle st'))"
    by (simp add: eqs)
qed

lemma State_reap_wait:
  assumes "State_reap mn timeout now st = ((expired, wait), st')" and "0 < timeout"
  shows "0 < wait \<and> wait \<le> timeout"
  using assms reap_scan_wait_pos [of timeout timeout now "ps_idle st"]
    reap_scan_wait_le [of timeout now "ps_idle st" _ timeout]
  by (auto simp: State_reap_def Let_def split: if_splits prod.splits) (metis snd_conv)+

lemma State_reap_wait_due:
  assumes reap: "State_reap mn timeout now st = ((expired, wait), st')"
    and spare: "length expired < unat (ps_open st) - unat mn"
    and e: "e \<in> set (ps_idle st')"
  shows "wait \<le> timeout - (now - idle_since e)" and "\<not> due timeout now e"
proof -
  let ?s = "saturating_sub (ps_open st) mn"
  note eqs = State_reap_expire [OF reap]
  have l: "length (fst (expire (due timeout now) (unat ?s) (ps_idle st))) < unat ?s"
    using spare by (simp add: eqs(1) word_counts)
  have k: "e \<in> set (snd (expire (due timeout now) (unat ?s) (ps_idle st)))"
    using e by (simp add: eqs(2) word_counts)
  show "\<not> due timeout now e" using expire_kept_due [OF l k] .
  from k have "ps_idle st \<noteq> []" by auto
  moreover from l have "?s \<noteq> 0" by auto
  ultimately have "wait = snd (snd (reap_scan timeout now (ps_idle st) ?s timeout))"
    using reap by (auto simp: State_reap_def Let_def split_beta split: if_splits)
  with reap_scan_wait_due [OF l k] show "wait \<le> timeout - (now - idle_since e)" by simp
qed

lemma State_take_iff [step_simps]:
  "State_take st = (None, st') \<longleftrightarrow> ps_idle st = [] \<and> st' = st"
  "State_take st = (Some s, st') \<longleftrightarrow>
     (\<exists>es e. ps_idle st = es @ [e] \<and> s = idle_session e \<and> st' = st\<lparr>ps_idle := es\<rparr>)"
  by (auto simp: State_take_def) (metis append_butlast_last_id)

section \<open>Properties\<close>

text \<open>What a reaping takes. It takes the longest-free sessions that have been free for at least
  the timeout, as many as the pool can spare above its floor and no more; keeps the others in
  order; leaves the count of open sessions alone; and the wait it answers is positive, at most the
  timeout, and, while the pool can still spare a session, never past the moment the next one kept
  comes due.\<close>

theorem reap_takes_longest_idle:
  assumes "State_reap mn timeout now st = ((expired, wait), st')" and "0 < timeout"
  shows "expired =
      map idle_session (take (unat (ps_open st) - unat mn) (filter (due timeout now) (ps_idle st))) \<and>
    mset (map idle_session (ps_idle st)) = mset expired + mset (map idle_session (ps_idle st')) \<and>
    subseq (ps_idle st') (ps_idle st) \<and> ps_open st' = ps_open st \<and>
    0 < wait \<and> wait \<le> timeout \<and>
    (length expired < unat (ps_open st) - unat mn \<longrightarrow>
      (\<forall>e \<in> set (ps_idle st'). \<not> due timeout now e \<and> wait \<le> timeout - (now - idle_since e)))"
  using State_reap_frame [OF assms(1)] State_reap_wait [OF assms] State_reap_wait_due [OF assms(1)]
    State_reap_expire(1) [OF assms(1), unfolded expire_taken]
  by blast

theorem reap_takes_longest_idle_witness:
  "State_reap 1 10 25 (Idles_new 0 [7, 8, 9 :: nat] 3) = (([7, 8], 10),
     (Idles_new 0 [9] 3)) \<and> (0 :: nat) < 10 \<and> subseq [Idle_taken 0 (9 :: nat)] (map (Idle_taken 0) [7, 8, 9])"
proof -
  have reap: "State_reap 1 10 25 (Idles_new 0 [7, 8, 9 :: nat] 3) = (([7, 8], 10), Idles_new 0 [9] 3)"
    by (simp add: State_reap_def saturating_sub_def Idles_new_def Idle_taken_def)
  from reap_takes_longest_idle [OF this] this show ?thesis by (simp add: Idles_new_def)
qed

end
