(* ===== verification/Bytes.thy ===== *)
theory Bytes
  imports Prelude
begin

text \<open>
  What the wire parser uses of the Rust standard library: little-endian integers
  (\<open>i32::from_le_bytes\<close>), \<open>str::from_utf8\<close> as a check on the bytes (a Rust string is its UTF-8
  bytes, so a model string is a list of 8-bit characters), checked addition on \<open>usize\<close>, and the
  hexadecimal form of an integer.
\<close>

section \<open>Little-endian integers\<close>

fun le_nat :: "bytes \<Rightarrow> nat" where
  "le_nat [] = 0"
| "le_nat (b # bs) = unat b + 256 * le_nat bs"

definition i32_from_le_bytes :: "bytes \<Rightarrow> i32" where
  "i32_from_le_bytes bs = word_of_nat (le_nat bs)"

definition u32_from_le_bytes :: "bytes \<Rightarrow> u32" where
  "u32_from_le_bytes bs = word_of_nat (le_nat bs)"

fun le_bytes :: "nat \<Rightarrow> nat \<Rightarrow> bytes" where
  "le_bytes 0 n = []"
| "le_bytes (Suc k) n = word_of_nat (n mod 256) # le_bytes k (n div 256)"

lemma length_le_bytes [simp]: "length (le_bytes k n) = k"
  by (induction k arbitrary: n) auto

lemma le_bytes_4:
  "le_bytes 4 n = [word_of_nat (n mod 256), word_of_nat (n div 256 mod 256),
     word_of_nat (n div 256 div 256 mod 256), word_of_nat (n div 256 div 256 div 256 mod 256)]"
proof -
  have "(4::nat) = Suc (Suc (Suc (Suc 0)))" by simp
  then show ?thesis by (simp only: le_bytes.simps)
qed

lemma unat_byte: "n < 256 \<Longrightarrow> unat (word_of_nat n :: u8) = n"
  by (simp add: unat_of_nat take_bit_nat_eq_self)

lemma le_nat_le_bytes [simp]: "n < 256 ^ k \<Longrightarrow> le_nat (le_bytes k n) = n"
proof (induction k arbitrary: n)
  case (Suc k)
  then have "n div 256 < 256 ^ k" by (simp add: less_mult_imp_div_less mult.commute)
  with Suc.IH show ?case by (simp add: unat_byte)
qed simp

lemma le_bytes_le_nat [simp]: "le_bytes (length bs) (le_nat bs) = bs"
proof (induction bs)
  case (Cons b bs)
  have "unat b < 256" using unsigned_less [of b] by simp
  with Cons show ?case by simp
qed simp

lemma le_nat_bound: "le_nat bs < 256 ^ length bs"
proof (induction bs)
  case (Cons b bs)
  have "unat b < 256" using unsigned_less [of b] by simp
  with Cons show ?case by simp
qed simp

lemma sint_i32_le:
  assumes "n < 2 ^ 31"
  shows "sint (i32_from_le_bytes (le_bytes 4 n)) = int n"
proof -
  have "le_nat (le_bytes 4 n) = n" using assms by (intro le_nat_le_bytes) simp
  with assms show ?thesis
    by (simp add: i32_from_le_bytes_def sint_uint unsigned_of_nat take_bit_nat_eq_self
        signed_take_bit_int_eq_self)
qed

section \<open>Bytes and characters\<close>

definition char_of_byte :: "u8 \<Rightarrow> char" where
  "char_of_byte b = char_of (unat b)"

definition byte_of_char :: "char \<Rightarrow> u8" where
  "byte_of_char c = word_of_nat (of_char c)"

definition string_of_bytes :: "bytes \<Rightarrow> string" where
  "string_of_bytes = map char_of_byte"

definition bytes_of_string :: "string \<Rightarrow> bytes" where
  "bytes_of_string = map byte_of_char"

lemma of_char_lt_256: "(of_char c :: nat) < 256"
  by (cases c) (simp add: of_char_def horner_sum_simps less_eq_Suc_le)

lemma char_of_byte_of_char [simp]: "char_of_byte (byte_of_char c) = c"
  using of_char_lt_256 [of c] by (simp add: char_of_byte_def byte_of_char_def unat_byte)

lemma string_of_bytes_of_string [simp]: "string_of_bytes (bytes_of_string s) = s"
  by (induction s) (simp_all add: string_of_bytes_def bytes_of_string_def)

lemma length_bytes_of_string [simp]: "length (bytes_of_string s) = length s"
  by (simp add: bytes_of_string_def)

section \<open>UTF-8\<close>

definition is_cont :: "nat \<Rightarrow> bool" where
  "is_cont b \<longleftrightarrow> 0x80 \<le> b \<and> b \<le> 0xBF"

text \<open>The table of well-formed sequences \<open>str::from_utf8\<close> checks against.\<close>

fun utf8_ok :: "nat list \<Rightarrow> bool" where
  "utf8_ok [] = True"
| "utf8_ok (a # as) =
     (if a < 0x80 then utf8_ok as
      else case as of
        [] \<Rightarrow> False
      | b # bs \<Rightarrow>
          if 0xC2 \<le> a \<and> a \<le> 0xDF then is_cont b \<and> utf8_ok bs
          else (case bs of
              [] \<Rightarrow> False
            | c # cs \<Rightarrow>
                if a = 0xE0 then 0xA0 \<le> b \<and> b \<le> 0xBF \<and> is_cont c \<and> utf8_ok cs
                else if a = 0xED then 0x80 \<le> b \<and> b \<le> 0x9F \<and> is_cont c \<and> utf8_ok cs
                else if 0xE1 \<le> a \<and> a \<le> 0xEF then is_cont b \<and> is_cont c \<and> utf8_ok cs
                else (case cs of
                    [] \<Rightarrow> False
                  | d # ds \<Rightarrow>
                      if a = 0xF0 then 0x90 \<le> b \<and> b \<le> 0xBF \<and> is_cont c \<and> is_cont d \<and> utf8_ok ds
                      else if a = 0xF4 then 0x80 \<le> b \<and> b \<le> 0x8F \<and> is_cont c \<and> is_cont d \<and> utf8_ok ds
                      else if 0xF1 \<le> a \<and> a \<le> 0xF3
                        then is_cont b \<and> is_cont c \<and> is_cont d \<and> utf8_ok ds
                      else False)))"

definition from_utf8 :: "bytes \<Rightarrow> string option" where
  "from_utf8 bs = (if utf8_ok (map unat bs) then Some (string_of_bytes bs) else None)"

definition is_ascii :: "string \<Rightarrow> bool" where
  "is_ascii s \<longleftrightarrow> list_all (\<lambda>c. (of_char c :: nat) < 0x80) s"

lemma utf8_ok_ascii: "list_all (\<lambda>n. n < 0x80) ns \<Longrightarrow> utf8_ok ns"
  by (induction ns) auto

lemma from_utf8_ascii:
  assumes "is_ascii s"
  shows "from_utf8 (bytes_of_string s) = Some s"
proof -
  have "map unat (bytes_of_string s) = map of_char s"
    using of_char_lt_256 by (simp add: bytes_of_string_def byte_of_char_def unat_byte)
  moreover have "utf8_ok (map of_char s)"
    using assms by (intro utf8_ok_ascii) (simp add: is_ascii_def list_all_iff)
  ultimately show ?thesis by (simp add: from_utf8_def)
qed

section \<open>Checked addition and hexadecimal\<close>

definition checked_add :: "nat \<Rightarrow> nat \<Rightarrow> nat option" where
  "checked_add a b = (if a + b < 2 ^ 64 then Some (a + b) else None)"

definition hex_digit :: "nat \<Rightarrow> char" where
  "hex_digit n = ''0123456789abcdef'' ! n"

fun show_hex :: "nat \<Rightarrow> string" where
  "show_hex n = (if n < 16 then [hex_digit n] else show_hex (n div 16) @ [hex_digit (n mod 16)])"

declare show_hex.simps [simp del]

end
