(* ===== verification/Bson_Iface.thy ===== *)
theory Bson_Iface
  imports Bytes
begin

text \<open>
  The interface to the \<open>bson\<close> crate, which is not part of the repository. A document is an
  abstract type \<open>'d\<close>; the operations of \<open>bson::Document\<close> that the sources call are the
  fields of a record \<open>'d bson_lib\<close>, which every definition that builds or reads a document takes
  as its first argument. \<open>'d bson\<close> has one constructor for each variant of \<open>bson::Bson\<close> the
  sources construct or match; every other variant is \<open>BOther\<close>.

  What the sources rely on is the predicate \<open>bson_laws\<close>: a document is a map with insertion
  order, \<open>get\<close> reads what \<open>insert\<close> wrote, \<open>remove\<close> takes a key out and keeps the order of
  the others. \<open>codec_laws\<close> adds that decoding inverts encoding and that an encoded
  document starts with its own length. Theorems that need these name
  them as hypotheses; \<open>alist_lib\<close> is the association-list reference implementation on which
  they are shown to hold together.
\<close>

section \<open>Floating point\<close>

text \<open>
  An \<open>f64\<close> as the value it denotes: sign, integer significand and binary exponent. The sources
  compare against zero and convert from the two integer types.
\<close>

datatype f64 = F64_nan | F64_inf bool | F64_fin bool nat int

fun f64_is_zero :: "f64 \<Rightarrow> bool" where
  "f64_is_zero (F64_fin s m e) = (m = 0)"
| "f64_is_zero _ = False"

fun bit_length :: "nat \<Rightarrow> nat" where
  "bit_length n = (if n = 0 then 0 else Suc (bit_length (n div 2)))"

declare bit_length.simps [simp del]

text \<open>\<open>as f64\<close>: 53 bits of significand, ties to even.\<close>

definition f64_of_int :: "int \<Rightarrow> f64" where
  "f64_of_int i =
     (let n = nat \<bar>i\<bar>; s = bit_length n - 53; q = n div 2 ^ s; r = n mod 2 ^ s;
          m = (if 2 ^ s < 2 * r \<or> 2 * r = 2 ^ s \<and> odd q then q + 1 else q)
      in F64_fin (i < 0) m (int s))"

section \<open>Values and documents\<close>

datatype 'd bson =
    BDouble f64
  | BString string
  | BArray "'d bson list"
  | BDocument 'd
  | BBoolean bool
  | BInt32 i32
  | BInt64 i64
  | BObjectId nat
  | BBinary u8 bytes
  | BOther nat

record 'd bson_lib =
  doc_new :: 'd
  doc_get :: "'d \<Rightarrow> string \<Rightarrow> 'd bson option"
  doc_insert :: "'d \<Rightarrow> string \<Rightarrow> 'd bson \<Rightarrow> 'd"
  doc_remove :: "'d \<Rightarrow> string \<Rightarrow> 'd bson option \<times> 'd"
  doc_keys :: "'d \<Rightarrow> string list"
  doc_to_vec :: "'d \<Rightarrow> string + bytes"
  doc_from_reader :: "bytes \<Rightarrow> string + 'd"
  bson_debug :: "'d bson \<Rightarrow> string"
  uuid_text :: "u8 \<Rightarrow> bytes \<Rightarrow> string option"

text \<open>The \<open>doc!\<close> macro inserts its pairs into a new document in order.\<close>

definition doc_of :: "'d bson_lib \<Rightarrow> (string \<times> 'd bson) list \<Rightarrow> 'd" where
  "doc_of B kvs = foldl (\<lambda>d (k, v). doc_insert B d k v) (doc_new B) kvs"

text \<open>The typed accessors: the value under the key when it has the type asked for.\<close>

definition contains_key :: "'d bson_lib \<Rightarrow> 'd \<Rightarrow> string \<Rightarrow> bool" where
  "contains_key B d k = (doc_get B d k \<noteq> None)"

fun as_str :: "'d bson \<Rightarrow> string option" where
  "as_str (BString s) = Some s"
| "as_str _ = None"

fun as_document :: "'d bson \<Rightarrow> 'd option" where
  "as_document (BDocument d) = Some d"
| "as_document _ = None"

fun as_array :: "'d bson \<Rightarrow> 'd bson list option" where
  "as_array (BArray xs) = Some xs"
| "as_array _ = None"

fun as_bool :: "'d bson \<Rightarrow> bool option" where
  "as_bool (BBoolean b) = Some b"
| "as_bool _ = None"

fun as_i64 :: "'d bson \<Rightarrow> i64 option" where
  "as_i64 (BInt64 i) = Some i"
| "as_i64 _ = None"

definition get_str :: "'d bson_lib \<Rightarrow> 'd \<Rightarrow> string \<Rightarrow> string option" where
  "get_str B d k = Option.bind (doc_get B d k) as_str"

definition get_array :: "'d bson_lib \<Rightarrow> 'd \<Rightarrow> string \<Rightarrow> 'd bson list option" where
  "get_array B d k = Option.bind (doc_get B d k) as_array"

definition get_document :: "'d bson_lib \<Rightarrow> 'd \<Rightarrow> string \<Rightarrow> 'd option" where
  "get_document B d k = Option.bind (doc_get B d k) as_document"

definition get_bool :: "'d bson_lib \<Rightarrow> 'd \<Rightarrow> string \<Rightarrow> bool option" where
  "get_bool B d k = Option.bind (doc_get B d k) as_bool"

definition get_i64 :: "'d bson_lib \<Rightarrow> 'd \<Rightarrow> string \<Rightarrow> i64 option" where
  "get_i64 B d k = Option.bind (doc_get B d k) as_i64"

lemmas accessor_defs = contains_key_def get_str_def get_array_def get_document_def get_bool_def
  get_i64_def

section \<open>What the sources rely on\<close>

definition bson_laws :: "'d bson_lib \<Rightarrow> bool" where
  "bson_laws B \<longleftrightarrow>
     (\<forall>k. doc_get B (doc_new B) k = None) \<and>
     (\<forall>d k v k'. doc_get B (doc_insert B d k v) k' = (if k' = k then Some v else doc_get B d k')) \<and>
     (\<forall>d k. fst (doc_remove B d k) = doc_get B d k) \<and>
     (\<forall>d k k'. doc_get B (snd (doc_remove B d k)) k' = (if k' = k then None else doc_get B d k')) \<and>
     (\<forall>d k. k \<in> set (doc_keys B d) \<longleftrightarrow> doc_get B d k \<noteq> None) \<and>
     doc_keys B (doc_new B) = [] \<and>
     (\<forall>d k v. doc_keys B (doc_insert B d k v) =
        (if k \<in> set (doc_keys B d) then doc_keys B d else doc_keys B d @ [k])) \<and>
     (\<forall>d k. doc_keys B (snd (doc_remove B d k)) = removeAll k (doc_keys B d))"

definition codec_laws :: "'d bson_lib \<Rightarrow> bool" where
  "codec_laws B \<longleftrightarrow>
     (\<forall>d bs. doc_to_vec B d = Inr bs \<longrightarrow>
        doc_from_reader B bs = Inr d \<and> 5 \<le> length bs \<and> length bs < 2 ^ 31 \<and>
        take 4 bs = le_bytes 4 (length bs))"

lemma bson_laws_get:
  assumes "bson_laws B"
  shows "doc_get B (doc_new B) k = None"
    and "doc_get B (doc_insert B d k v) k' = (if k' = k then Some v else doc_get B d k')"
    and "fst (doc_remove B d k) = doc_get B d k"
    and "doc_get B (snd (doc_remove B d k)) k' = (if k' = k then None else doc_get B d k')"
    and "k \<in> set (doc_keys B d) \<longleftrightarrow> doc_get B d k \<noteq> None"
  using assms unfolding bson_laws_def by blast+

lemma bson_laws_keys:
  assumes "bson_laws B"
  shows "doc_keys B (doc_new B) = []"
    and "doc_keys B (doc_insert B d k v) =
        (if k \<in> set (doc_keys B d) then doc_keys B d else doc_keys B d @ [k])"
    and "doc_keys B (snd (doc_remove B d k)) = removeAll k (doc_keys B d)"
  using assms unfolding bson_laws_def by blast+

lemma doc_get_doc_of:
  assumes "bson_laws B"
  shows "doc_get B (doc_of B kvs) k = map_of (rev kvs) k"
proof (induction kvs rule: rev_induct)
  case Nil
  show ?case using assms by (simp add: doc_of_def bson_laws_get)
next
  case (snoc kv kvs)
  then show ?case
    using assms by (cases kv) (simp add: doc_of_def bson_laws_get)
qed

lemma doc_keys_doc_of:
  assumes "bson_laws B" and "distinct (map fst kvs)"
  shows "doc_keys B (doc_of B kvs) = map fst kvs"
  using assms(2)
proof (induction kvs rule: rev_induct)
  case Nil
  show ?case using assms(1) by (simp add: doc_of_def bson_laws_keys)
next
  case (snoc kv kvs)
  obtain k v where [simp]: "kv = (k, v)" by (cases kv)
  have "doc_keys B (doc_of B (kvs @ [kv])) =
      (if k \<in> set (doc_keys B (doc_of B kvs)) then doc_keys B (doc_of B kvs)
       else doc_keys B (doc_of B kvs) @ [k])"
    using assms(1) by (simp add: doc_of_def bson_laws_keys)
  with snoc show ?case by simp
qed

lemma bit_length_0 [simp]: "bit_length 0 = 0"
  by (simp add: bit_length.simps)

lemma bit_length_pos: "0 < n \<Longrightarrow> bit_length n = Suc (bit_length (n div 2))"
  by (subst bit_length.simps) simp

lemma two_pow_bit_length: "0 < n \<Longrightarrow> 2 ^ (bit_length n - 1) \<le> n"
proof (induction n rule: bit_length.induct)
  case (1 n)
  show ?case
  proof (cases "n div 2 = 0")
    case True
    with 1 show ?thesis by (simp add: bit_length_pos)
  next
    case False
    with 1 have "2 ^ (bit_length (n div 2) - 1) \<le> n div 2" by simp
    moreover from False have "0 < bit_length (n div 2)" by (simp add: bit_length_pos)
    ultimately have "2 ^ bit_length (n div 2) \<le> n"
      by (cases "bit_length (n div 2)") auto
    with 1 show ?thesis by (simp add: bit_length_pos)
  qed
qed

text \<open>The conversion of an integer is zero only for zero, whatever is rounded away.\<close>

lemma f64_of_int_zero [simp]: "f64_is_zero (f64_of_int i) \<longleftrightarrow> i = 0"
proof (cases "i = 0")
  case True
  then show ?thesis by (simp add: f64_of_int_def)
next
  case False
  define n where "n = nat \<bar>i\<bar>"
  define s where "s = bit_length n - 53"
  from False have n: "0 < n" by (simp add: n_def)
  have "s \<le> bit_length n - 1" by (simp add: s_def)
  then have "(2::nat) ^ s \<le> 2 ^ (bit_length n - 1)" by (rule power_increasing) simp
  also have "\<dots> \<le> n" using n by (rule two_pow_bit_length)
  finally have "0 < n div 2 ^ s" by (simp add: div_greater_zero_iff)
  with False show ?thesis
    by (auto simp: f64_of_int_def Let_def n_def [symmetric] s_def [symmetric])
qed

section \<open>A reference implementation\<close>

datatype adoc = ADoc "(string \<times> adoc bson) list"

fun entries :: "adoc \<Rightarrow> (string \<times> adoc bson) list" where
  "entries (ADoc kvs) = kvs"

fun set_entry :: "string \<Rightarrow> 'v \<Rightarrow> (string \<times> 'v) list \<Rightarrow> (string \<times> 'v) list" where
  "set_entry k v [] = [(k, v)]"
| "set_entry k v ((k', v') # kvs) =
     (if k' = k then (k, v) # kvs else (k', v') # set_entry k v kvs)"

definition alist_lib :: "adoc bson_lib" where
  "alist_lib =
     \<lparr>doc_new = ADoc [],
      doc_get = (\<lambda>d k. map_of (entries d) k),
      doc_insert = (\<lambda>d k v. ADoc (set_entry k v (entries d))),
      doc_remove = (\<lambda>d k. (map_of (entries d) k, ADoc (filter (\<lambda>(k', _). k' \<noteq> k) (entries d)))),
      doc_keys = (\<lambda>d. map fst (entries d)),
      doc_to_vec = (\<lambda>d. Inl ''no codec''),
      doc_from_reader = (\<lambda>bs. Inl ''no codec''),
      bson_debug = (\<lambda>b. ''a value''),
      uuid_text = (\<lambda>t bs. None)\<rparr>"

lemma map_of_set_entry: "map_of (set_entry k v kvs) k' = (if k' = k then Some v else map_of kvs k')"
  by (induction kvs) auto

lemma map_fst_set_entry:
  "map fst (set_entry k v kvs) =
     (if k \<in> fst ` set kvs then map fst kvs else map fst kvs @ [k])"
  by (induction kvs) (fastforce split: if_splits)+

lemma map_of_remove_entry:
  "map_of (filter (\<lambda>(k', _). k' \<noteq> k) kvs) k' = (if k' = k then None else map_of kvs k')"
  by (induction kvs) auto

lemma map_fst_remove_entry:
  "map fst (filter (\<lambda>(k', _). k' \<noteq> k) kvs) = removeAll k (map fst kvs)"
  by (induction kvs) auto

lemma bson_laws_alist: "bson_laws alist_lib"
  by (auto simp: bson_laws_def alist_lib_def map_of_set_entry map_fst_set_entry
      map_of_remove_entry map_fst_remove_entry map_of_eq_None_iff image_iff)

end
