(* ===== verification/Options.thy ===== *)
theory Options
  imports Prelude
begin

text \<open>
  The limits an open can be told, and the range checks that make an unusable one
  unconstructable: \<open>embedded-mongodb-sys/src/options.rs\<close> (the limits WiredTiger reads while it
  is opened, and the struct they cross the C boundary in), the newtype of
  \<open>src/limits/floor.rs\<close>, and \<open>src/options.rs\<close> (the session-pool policy and the options object).

  A newtype with a private field is a one-constructor datatype; its well-formedness predicate says
  what its checked constructor guarantees. The lemmas show that each constructor accepts exactly
  its range and that the policy's invariant \<open>Concurrency_wf\<close> holds of everything the
  constructors answer.
\<close>

section \<open>Range checks and engine limits\<close>

record OutOfRange =
  oor_name :: string
  oor_unit :: string
  oor_value :: u32
  oor_low :: u32
  oor_high :: u32

definition OutOfRange_display :: "OutOfRange \<Rightarrow> string" where
  "OutOfRange_display e =
     oor_name e @ '' must be between '' @ show_nat (unat (oor_low e)) @ '' and '' @
     show_nat (unat (oor_high e)) @ '' '' @ oor_unit e @ '', got '' @ show_nat (unat (oor_value e))"

definition check_range ::
  "string \<Rightarrow> string \<Rightarrow> u32 \<Rightarrow> u32 \<Rightarrow> u32 \<Rightarrow> OutOfRange + u32" where
  "check_range name unit value low high =
     (if low \<le> value \<and> value \<le> high then Inr value
      else Inl \<lparr>oor_name = name, oor_unit = unit, oor_value = value, oor_low = low,
                oor_high = high\<rparr>)"

datatype CacheSize = CacheSize u32
datatype JournalFileSize = JournalFileSize u32
datatype Preallocation = Enabled | Disabled

definition CacheSize_MIN_MEBIBYTES :: u32 where "CacheSize_MIN_MEBIBYTES = 1"
definition CacheSize_MAX_MEBIBYTES :: u32 where "CacheSize_MAX_MEBIBYTES = 10000000"

definition CacheSize_from_mebibytes :: "u32 \<Rightarrow> OutOfRange + CacheSize" where
  "CacheSize_from_mebibytes mebibytes =
     map_ok CacheSize
       (check_range ''cache size'' ''MiB'' mebibytes CacheSize_MIN_MEBIBYTES CacheSize_MAX_MEBIBYTES)"

fun CacheSize_mebibytes :: "CacheSize \<Rightarrow> u32" where
  "CacheSize_mebibytes (CacheSize n) = n"

definition JournalFileSize_MIN_KIBIBYTES :: u32 where "JournalFileSize_MIN_KIBIBYTES = 100"
definition JournalFileSize_MAX_KIBIBYTES :: u32 where
  "JournalFileSize_MAX_KIBIBYTES = 2 * 1024 * 1024"

definition JournalFileSize_from_kibibytes :: "u32 \<Rightarrow> OutOfRange + JournalFileSize" where
  "JournalFileSize_from_kibibytes kibibytes =
     map_ok JournalFileSize
       (check_range ''journal file size'' ''KiB'' kibibytes JournalFileSize_MIN_KIBIBYTES
          JournalFileSize_MAX_KIBIBYTES)"

fun JournalFileSize_kibibytes :: "JournalFileSize \<Rightarrow> u32" where
  "JournalFileSize_kibibytes (JournalFileSize n) = n"

fun Preallocation_native :: "Preallocation \<Rightarrow> u32" where
  "Preallocation_native Enabled = 1"
| "Preallocation_native Disabled = 2"

record EngineOptions =
  eo_cache :: "CacheSize option"
  eo_journal_file_size :: "JournalFileSize option"
  eo_journal_preallocation :: "Preallocation option"

definition EngineOptions_new :: EngineOptions where
  "EngineOptions_new =
     \<lparr>eo_cache = None, eo_journal_file_size = None, eo_journal_preallocation = None\<rparr>"

definition EngineOptions_cache_size :: "EngineOptions \<Rightarrow> CacheSize \<Rightarrow> EngineOptions" where
  "EngineOptions_cache_size self cache = self\<lparr>eo_cache := Some cache\<rparr>"

definition EngineOptions_journal_file_size ::
  "EngineOptions \<Rightarrow> JournalFileSize \<Rightarrow> EngineOptions" where
  "EngineOptions_journal_file_size self sz = self\<lparr>eo_journal_file_size := Some sz\<rparr>"

definition EngineOptions_journal_preallocation ::
  "EngineOptions \<Rightarrow> Preallocation \<Rightarrow> EngineOptions" where
  "EngineOptions_journal_preallocation self p = self\<lparr>eo_journal_preallocation := Some p\<rparr>"

text \<open>The wire form: zero is the engine's default in every field.\<close>

record NativeOpenOptions =
  cache_size_mb :: u32
  journal_file_max_kb :: u32
  journal_prealloc :: u32

definition EngineOptions_to_ffi :: "EngineOptions \<Rightarrow> NativeOpenOptions" where
  "EngineOptions_to_ffi self =
     \<lparr>cache_size_mb = (case eo_cache self of None \<Rightarrow> 0 | Some c \<Rightarrow> CacheSize_mebibytes c),
      journal_file_max_kb =
        (case eo_journal_file_size self of None \<Rightarrow> 0 | Some j \<Rightarrow> JournalFileSize_kibibytes j),
      journal_prealloc =
        (case eo_journal_preallocation self of None \<Rightarrow> 0 | Some p \<Rightarrow> Preallocation_native p)\<rparr>"

section \<open>The free-disk floor\<close>

datatype FreeDiskFloor = FreeDiskFloor u32

definition FreeDiskFloor_MIN_MEBIBYTES :: u32 where "FreeDiskFloor_MIN_MEBIBYTES = 1"
definition FreeDiskFloor_MAX_MEBIBYTES :: u32 where "FreeDiskFloor_MAX_MEBIBYTES = - 1"

definition FreeDiskFloor_from_mebibytes :: "u32 \<Rightarrow> OutOfRange + FreeDiskFloor" where
  "FreeDiskFloor_from_mebibytes mebibytes =
     map_ok FreeDiskFloor
       (check_range ''free disk floor'' ''MiB'' mebibytes FreeDiskFloor_MIN_MEBIBYTES
          FreeDiskFloor_MAX_MEBIBYTES)"

fun FreeDiskFloor_mebibytes :: "FreeDiskFloor \<Rightarrow> u32" where
  "FreeDiskFloor_mebibytes (FreeDiskFloor n) = n"

section \<open>The session-pool policy\<close>

record Concurrency =
  cc_min :: u32
  cc_max :: u32
  cc_idle_timeout :: "duration option"

definition Concurrency_MIN_COUNT :: u32 where "Concurrency_MIN_COUNT = 1"
definition Concurrency_MAX_COUNT :: u32 where "Concurrency_MAX_COUNT = 256"
definition Concurrency_DEFAULT_COUNT :: u32 where "Concurrency_DEFAULT_COUNT = 8"

definition Concurrency_preallocated :: "u32 \<Rightarrow> Concurrency" where
  "Concurrency_preallocated count = \<lparr>cc_min = count, cc_max = count, cc_idle_timeout = None\<rparr>"

definition Concurrency_DEFAULT :: Concurrency where
  "Concurrency_DEFAULT = Concurrency_preallocated Concurrency_DEFAULT_COUNT"

definition Concurrency_from_count :: "u32 \<Rightarrow> OutOfRange + Concurrency" where
  "Concurrency_from_count count =
     map_ok Concurrency_preallocated
       (check_range ''concurrency'' ''sessions'' count Concurrency_MIN_COUNT Concurrency_MAX_COUNT)"

text \<open>\<open>as_millis\<close> of a nanosecond count, saturated into a \<open>u32\<close>.\<close>

definition saturated_millis :: "duration \<Rightarrow> u32" where
  "saturated_millis d =
     (let ms = d div 1000000 in if ms < 2 ^ 32 then word_of_nat ms else - 1)"

definition Concurrency_dynamic :: "u32 \<Rightarrow> u32 \<Rightarrow> duration \<Rightarrow> OutOfRange + Concurrency" where
  "Concurrency_dynamic min' max' idle_timeout =
     and_then (check_range ''maximum concurrency'' ''sessions'' max' Concurrency_MIN_COUNT
         Concurrency_MAX_COUNT)
       (\<lambda>mx. and_then (check_range ''minimum concurrency'' ''sessions'' min' Concurrency_MIN_COUNT mx)
         (\<lambda>mn. and_then (check_range ''idle timeout'' ''milliseconds''
                            (saturated_millis idle_timeout) 1 (- 1))
           (\<lambda>_. if mn = mx then Inr (Concurrency_preallocated mn)
                else Inr \<lparr>cc_min = mn, cc_max = mx, cc_idle_timeout = Some idle_timeout\<rparr>)))"

section \<open>The options object\<close>

record OpenOptions =
  oo_engine :: EngineOptions
  oo_free_disk_floor :: "FreeDiskFloor option"
  oo_concurrency :: "Concurrency option"

definition OpenOptions_new :: OpenOptions where
  "OpenOptions_new =
     \<lparr>oo_engine = EngineOptions_new, oo_free_disk_floor = None, oo_concurrency = None\<rparr>"

definition OpenOptions_cache_size :: "OpenOptions \<Rightarrow> CacheSize \<Rightarrow> OpenOptions" where
  "OpenOptions_cache_size self cache =
     self\<lparr>oo_engine := EngineOptions_cache_size (oo_engine self) cache\<rparr>"

definition OpenOptions_journal_file_size :: "OpenOptions \<Rightarrow> JournalFileSize \<Rightarrow> OpenOptions" where
  "OpenOptions_journal_file_size self sz =
     self\<lparr>oo_engine := EngineOptions_journal_file_size (oo_engine self) sz\<rparr>"

definition OpenOptions_journal_preallocation :: "OpenOptions \<Rightarrow> Preallocation \<Rightarrow> OpenOptions" where
  "OpenOptions_journal_preallocation self p =
     self\<lparr>oo_engine := EngineOptions_journal_preallocation (oo_engine self) p\<rparr>"

definition OpenOptions_free_disk_floor :: "OpenOptions \<Rightarrow> FreeDiskFloor \<Rightarrow> OpenOptions" where
  "OpenOptions_free_disk_floor self floor = self\<lparr>oo_free_disk_floor := Some floor\<rparr>"

definition OpenOptions_set_concurrency :: "OpenOptions \<Rightarrow> Concurrency \<Rightarrow> OpenOptions" where
  "OpenOptions_set_concurrency self c = self\<lparr>oo_concurrency := Some c\<rparr>"

definition resolve_concurrency :: "OpenOptions option \<Rightarrow> Concurrency" where
  "resolve_concurrency options =
     unwrap_or Concurrency_DEFAULT (Option.bind options oo_concurrency)"

section \<open>Well-formedness\<close>

definition CacheSize_wf :: "CacheSize \<Rightarrow> bool" where
  "CacheSize_wf c \<longleftrightarrow> CacheSize_MIN_MEBIBYTES \<le> CacheSize_mebibytes c \<and>
     CacheSize_mebibytes c \<le> CacheSize_MAX_MEBIBYTES"

definition JournalFileSize_wf :: "JournalFileSize \<Rightarrow> bool" where
  "JournalFileSize_wf j \<longleftrightarrow> JournalFileSize_MIN_KIBIBYTES \<le> JournalFileSize_kibibytes j \<and>
     JournalFileSize_kibibytes j \<le> JournalFileSize_MAX_KIBIBYTES"

definition EngineOptions_wf :: "EngineOptions \<Rightarrow> bool" where
  "EngineOptions_wf e \<longleftrightarrow>
     pred_option CacheSize_wf (eo_cache e) \<and>
     pred_option JournalFileSize_wf (eo_journal_file_size e)"

text \<open>
  What the pool and the worker queue rely on: at least one session, the floor below the ceiling,
  the ceiling at most 256, and an idle timeout of at least a millisecond exactly when there is
  room above the floor.
\<close>

definition Concurrency_wf :: "Concurrency \<Rightarrow> bool" where
  "Concurrency_wf c \<longleftrightarrow>
     1 \<le> unat (cc_min c) \<and> unat (cc_min c) \<le> unat (cc_max c) \<and> unat (cc_max c) \<le> 256 \<and>
     (cc_idle_timeout c = None \<longleftrightarrow> cc_min c = cc_max c) \<and>
     (case cc_idle_timeout c of None \<Rightarrow> True | Some t \<Rightarrow> 1000000 \<le> t)"

section \<open>Lemmas\<close>

lemma check_range_Inr_iff:
  "check_range name unit value low high = Inr v \<longleftrightarrow> v = value \<and> low \<le> value \<and> value \<le> high"
  by (auto simp: check_range_def)

lemma check_range_Inl_iff:
  "(\<exists>e. check_range name unit value low high = Inl e) \<longleftrightarrow> \<not> (low \<le> value \<and> value \<le> high)"
  by (auto simp: check_range_def)

lemma CacheSize_from_mebibytes_wf: "CacheSize_from_mebibytes n = Inr c \<Longrightarrow> CacheSize_wf c"
  by (auto simp: CacheSize_from_mebibytes_def CacheSize_wf_def map_ok_Inr_iff check_range_Inr_iff)

lemma JournalFileSize_from_kibibytes_wf:
  "JournalFileSize_from_kibibytes n = Inr j \<Longrightarrow> JournalFileSize_wf j"
  by (auto simp: JournalFileSize_from_kibibytes_def JournalFileSize_wf_def map_ok_Inr_iff
      check_range_Inr_iff)

lemma EngineOptions_wf_builders:
  "EngineOptions_wf EngineOptions_new"
  "EngineOptions_wf e \<Longrightarrow> CacheSize_wf c \<Longrightarrow> EngineOptions_wf (EngineOptions_cache_size e c)"
  "EngineOptions_wf e \<Longrightarrow> JournalFileSize_wf j \<Longrightarrow>
     EngineOptions_wf (EngineOptions_journal_file_size e j)"
  "EngineOptions_wf e \<Longrightarrow> EngineOptions_wf (EngineOptions_journal_preallocation e p)"
  by (simp_all add: EngineOptions_wf_def EngineOptions_new_def EngineOptions_cache_size_def
      EngineOptions_journal_file_size_def EngineOptions_journal_preallocation_def)

lemma saturated_millis_pos: "1 \<le> saturated_millis d \<longleftrightarrow> 1000000 \<le> d"
proof (cases "d div 1000000 < 2 ^ 32")
  case True
  then have "unat (word_of_nat (d div 1000000) :: u32) = d div 1000000"
    by (simp add: unat_of_nat take_bit_nat_eq_self_iff)
  with True show ?thesis
    by (auto simp: saturated_millis_def word_le_nat_alt)
next
  case False
  then have "1000000 \<le> d" by simp
  with False show ?thesis by (simp add: saturated_millis_def)
qed

lemma Concurrency_dynamic_Inr:
  "Concurrency_dynamic mn mx t = Inr c \<longleftrightarrow>
     1 \<le> mn \<and> mn \<le> mx \<and> mx \<le> 256 \<and> 1000000 \<le> t \<and>
     c = (if mn = mx then Concurrency_preallocated mn
          else \<lparr>cc_min = mn, cc_max = mx, cc_idle_timeout = Some t\<rparr>)"
  by (auto simp: Concurrency_dynamic_def and_then_Inr_iff check_range_Inr_iff saturated_millis_pos
      Concurrency_MIN_COUNT_def Concurrency_MAX_COUNT_def)

lemma Concurrency_preallocated_wf:
  "1 \<le> n \<Longrightarrow> n \<le> 256 \<Longrightarrow> Concurrency_wf (Concurrency_preallocated n)"
  by (simp add: Concurrency_wf_def Concurrency_preallocated_def word_le_nat_alt)

lemma Concurrency_dynamic_wf: "Concurrency_dynamic mn mx t = Inr c \<Longrightarrow> Concurrency_wf c"
  by (auto simp: Concurrency_dynamic_Inr Concurrency_preallocated_def Concurrency_wf_def
      word_le_nat_alt)

lemma Concurrency_from_count_wf: "Concurrency_from_count n = Inr c \<Longrightarrow> Concurrency_wf c"
  by (auto simp: Concurrency_from_count_def map_ok_Inr_iff check_range_Inr_iff
      Concurrency_MIN_COUNT_def Concurrency_MAX_COUNT_def Concurrency_preallocated_wf)

lemma Concurrency_DEFAULT_wf: "Concurrency_wf Concurrency_DEFAULT"
  by (simp add: Concurrency_DEFAULT_def Concurrency_DEFAULT_COUNT_def Concurrency_preallocated_wf
      word_le_nat_alt)

lemma size_not_zero:
  "CacheSize_wf c \<Longrightarrow> CacheSize_mebibytes c \<noteq> 0"
  "JournalFileSize_wf j \<Longrightarrow> JournalFileSize_kibibytes j \<noteq> 0"
  by (auto simp: CacheSize_wf_def CacheSize_MIN_MEBIBYTES_def JournalFileSize_wf_def
      JournalFileSize_MIN_KIBIBYTES_def word_le_nat_alt)

lemma inj_mebibytes: "inj CacheSize_mebibytes"
  by (rule injI) (metis CacheSize.exhaust CacheSize_mebibytes.simps)

lemma inj_kibibytes: "inj JournalFileSize_kibibytes"
  by (rule injI) (metis JournalFileSize.exhaust JournalFileSize_kibibytes.simps)

lemma inj_native: "inj Preallocation_native"
proof (rule injI)
  fix p q assume "Preallocation_native p = Preallocation_native q"
  then show "p = q" by (cases p; cases q) simp_all
qed

lemma Preallocation_native_not_zero: "Preallocation_native p \<noteq> 0"
  by (cases p) simp_all

text \<open>An optional field coded with zero for unset.\<close>

lemma zero_coded_iff:
  assumes "pred_option (\<lambda>x. f x \<noteq> 0) a"
  shows "(case a of None \<Rightarrow> 0 | Some x \<Rightarrow> f x) = 0 \<longleftrightarrow> a = None"
  using assms by (cases a) auto

lemma zero_coded_eq_iff:
  assumes "inj f" and "pred_option (\<lambda>x. f x \<noteq> 0) a" and "pred_option (\<lambda>x. f x \<noteq> 0) b"
  shows "(case a of None \<Rightarrow> 0 | Some x \<Rightarrow> f x) = (case b of None \<Rightarrow> 0 | Some x \<Rightarrow> f x) \<longleftrightarrow> a = b"
  using assms by (cases a; cases b) (auto dest: injD)

lemma EngineOptions_wf_coded:
  assumes "EngineOptions_wf e"
  shows "pred_option (\<lambda>c. CacheSize_mebibytes c \<noteq> 0) (eo_cache e)"
    and "pred_option (\<lambda>j. JournalFileSize_kibibytes j \<noteq> 0) (eo_journal_file_size e)"
    and "pred_option (\<lambda>p. Preallocation_native p \<noteq> 0) (eo_journal_preallocation e)"
  using assms
  by (auto simp: EngineOptions_wf_def option.pred_set size_not_zero Preallocation_native_not_zero)

section \<open>Properties\<close>

text \<open>C40: The pool's policy is well formed by construction: a fixed policy of between 1 and 256
  sessions, and an elastic one exactly when the ceiling is at most 256, the floor is between 1 and
  the ceiling and the timeout is at least a millisecond; every policy a constructor answers, and
  the one an open without options uses, has at least one session, its floor below its ceiling, and
  an idle timeout exactly when there is something to reap.\<close>

theorem concurrency_policies:
  "((\<exists>c. Concurrency_from_count n = Inr c) \<longleftrightarrow> 1 \<le> unat n \<and> unat n \<le> 256) \<and>
   ((\<exists>c. Concurrency_dynamic mn mx t = Inr c) \<longleftrightarrow>
      1 \<le> unat mn \<and> unat mn \<le> unat mx \<and> unat mx \<le> 256 \<and> 1000000 \<le> t) \<and>
   pred_sum (\<lambda>_. True) Concurrency_wf (Concurrency_from_count n) \<and>
   pred_sum (\<lambda>_. True) Concurrency_wf (Concurrency_dynamic mn mx t) \<and>
   Concurrency_wf (resolve_concurrency None) \<and>
   Concurrency_wf (resolve_concurrency (Some OpenOptions_new))"
proof (intro conjI)
  show "(\<exists>c. Concurrency_from_count n = Inr c) \<longleftrightarrow> 1 \<le> unat n \<and> unat n \<le> 256"
    by (auto simp: Concurrency_from_count_def map_ok_Inr_iff check_range_Inr_iff word_le_nat_alt
        Concurrency_MIN_COUNT_def Concurrency_MAX_COUNT_def)
  show "(\<exists>c. Concurrency_dynamic mn mx t = Inr c) \<longleftrightarrow>
      1 \<le> unat mn \<and> unat mn \<le> unat mx \<and> unat mx \<le> 256 \<and> 1000000 \<le> t"
    by (auto simp: Concurrency_dynamic_Inr word_le_nat_alt)
  show "pred_sum (\<lambda>_. True) Concurrency_wf (Concurrency_from_count n)"
    using Concurrency_from_count_wf [of n] by (cases "Concurrency_from_count n") auto
  show "pred_sum (\<lambda>_. True) Concurrency_wf (Concurrency_dynamic mn mx t)"
    using Concurrency_dynamic_wf [of mn mx t] by (cases "Concurrency_dynamic mn mx t") auto
qed (simp_all add: resolve_concurrency_def OpenOptions_new_def Concurrency_DEFAULT_wf)

text \<open>Nothing is lost crossing the C boundary: for options built from checked sizes, a field of
  the native struct is zero exactly when the option was left unset, and two different sets of
  options cross as different structs.\<close>

theorem engine_options_cross_faithfully:
  assumes "EngineOptions_wf e" and "EngineOptions_wf e'"
  shows "(cache_size_mb (EngineOptions_to_ffi e) = 0 \<longleftrightarrow> eo_cache e = None) \<and>
    (journal_file_max_kb (EngineOptions_to_ffi e) = 0 \<longleftrightarrow> eo_journal_file_size e = None) \<and>
    (journal_prealloc (EngineOptions_to_ffi e) = 0 \<longleftrightarrow> eo_journal_preallocation e = None) \<and>
    (EngineOptions_to_ffi e = EngineOptions_to_ffi e' \<longleftrightarrow> e = e')"
  using EngineOptions_wf_coded [OF assms(1)] EngineOptions_wf_coded [OF assms(2)]
  by (auto simp: EngineOptions_to_ffi_def zero_coded_iff zero_coded_eq_iff inj_mebibytes
      inj_kibibytes inj_native intro: EngineOptions.equality)

theorem engine_options_cross_faithfully_witness:
  "EngineOptions_wf (EngineOptions_cache_size EngineOptions_new (CacheSize 256)) \<and>
   EngineOptions_to_ffi (EngineOptions_cache_size EngineOptions_new (CacheSize 256)) \<noteq>
     EngineOptions_to_ffi EngineOptions_new"
proof -
  have wf: "EngineOptions_wf (EngineOptions_cache_size EngineOptions_new (CacheSize 256))"
    by (simp add: EngineOptions_wf_builders CacheSize_wf_def CacheSize_MIN_MEBIBYTES_def
        CacheSize_MAX_MEBIBYTES_def word_le_nat_alt)
  from engine_options_cross_faithfully [OF this EngineOptions_wf_builders(1)] wf show ?thesis
    by (simp add: EngineOptions_cache_size_def EngineOptions_new_def)
qed

end
