(* ===== verification/Errors.thy ===== *)
theory Errors
  imports Bson_Iface Options
begin

text \<open>
  The error type every layer answers (\<open>src/error.rs\<close>, with the engine crate's own
  \<open>embedded-mongodb-sys/src/error.rs\<close>), its messages, and the check that turns a command's reply
  document into the reply or the failure it reports. A \<open>cxx\<close> exception, a \<open>bson\<close> error and an
  \<open>std::io\<close> error are the text they display.

  The lemmas say exactly which replies are accepted, and that every failure carries the reply it
  was read from.
\<close>

section \<open>The errors\<close>

datatype sys_error = Sys_Closed | Sys_Native string

fun sys_error_display :: "sys_error \<Rightarrow> string" where
  "sys_error_display Sys_Closed = ''embedded MongoDB client is closed''"
| "sys_error_display (Sys_Native e) = ''embedded MongoDB error: '' @ e"

datatype 'd error =
    Bson string
  | Closed
  | EngineThread string
  | FreeDiskFloorNotRestored FreeDiskFloor "'d error" "'d error"
  | InvalidArgument string
  | InvalidResponse string
  | Native sys_error
  | NonUtf8Path
  | Server "i64 option" string 'd

fun error_display :: "'d error \<Rightarrow> string" where
  "error_display (Bson e) = ''BSON error: '' @ e"
| "error_display Closed = ''embedded MongoDB client is closed''"
| "error_display (EngineThread e) =
     ''could not start an embedded MongoDB worker thread: '' @ e"
| "error_display (FreeDiskFloorNotRestored floor c r) =
     ''the free disk floor could not be moved to '' @
     show_nat (unat (FreeDiskFloor_mebibytes floor)) @
     '' MiB and the floors could not be put back either, so the engine is on floors nobody chose'' @
     '' -- the move failed with: '' @ error_display c @
     ''; putting them back failed with: '' @ error_display r"
| "error_display (InvalidArgument e) = e"
| "error_display (InvalidResponse e) = ''invalid embedded MongoDB response: '' @ e"
| "error_display (Native e) = sys_error_display e"
| "error_display NonUtf8Path = ''database path is not valid UTF-8''"
| "error_display (Server c m d) =
     ''MongoDB error'' @ (case c of None \<Rightarrow> [] | Some n \<Rightarrow> '' '' @ show_int (sint n)) @ '': '' @ m"

fun error_of_sys :: "sys_error \<Rightarrow> 'd error" where
  "error_of_sys Sys_Closed = Closed"
| "error_of_sys e = Native e"

section \<open>Replies\<close>

fun int_code :: "'d bson option \<Rightarrow> i64 option" where
  "int_code (Some (BInt32 c)) = Some (scast c)"
| "int_code (Some (BInt64 c)) = Some c"
| "int_code _ = None"

definition server_error :: "'d bson_lib \<Rightarrow> 'd \<Rightarrow> 'd error" where
  "server_error B resp =
     (let first = Option.bind (get_array B resp ''writeErrors'')
                    (\<lambda>es. case es of [] \<Rightarrow> None | e # _ \<Rightarrow> as_document e);
          details = unwrap_or resp (or_else first (get_document B resp ''writeConcernError''))
      in Server (int_code (doc_get B details ''code''))
           (unwrap_or ''MongoDB command failed'' (get_str B details ''errmsg''))
           resp)"

fun ok_value :: "'d bson option \<Rightarrow> f64 option" where
  "ok_value (Some (BDouble d)) = Some d"
| "ok_value (Some (BInt32 i)) = Some (f64_of_int (sint i))"
| "ok_value (Some (BInt64 i)) = Some (f64_of_int (sint i))"
| "ok_value _ = None"

fun has_write_errors :: "'d bson option \<Rightarrow> bool" where
  "has_write_errors (Some (BArray errors)) = (errors \<noteq> [])"
| "has_write_errors _ = False"

definition validate_response :: "'d bson_lib \<Rightarrow> 'd \<Rightarrow> 'd error + 'd" where
  "validate_response B resp =
     (case ok_value (doc_get B resp ''ok'') of
        None \<Rightarrow> Inl (InvalidResponse ''command response has no valid ok field'')
      | Some ok \<Rightarrow>
          if f64_is_zero ok \<or> has_write_errors (doc_get B resp ''writeErrors'') \<or>
             contains_key B resp ''writeConcernError''
          then Inl (server_error B resp)
          else Inr resp)"

section \<open>Lemmas\<close>

lemma validate_response_Inr_iff:
  "validate_response B resp = Inr d \<longleftrightarrow>
     d = resp \<and>
     (\<exists>ok. ok_value (doc_get B resp ''ok'') = Some ok \<and> \<not> f64_is_zero ok) \<and>
     \<not> has_write_errors (doc_get B resp ''writeErrors'') \<and>
     doc_get B resp ''writeConcernError'' = None"
  by (auto simp: validate_response_def contains_key_def split: option.splits)

lemma server_error_is_Server: "\<exists>c m. server_error B resp = Server c m resp"
  by (auto simp: server_error_def Let_def)

lemma validate_response_Inl_cases:
  assumes "validate_response B resp = Inl e"
  obtains "e = InvalidResponse ''command response has no valid ok field''"
      "ok_value (doc_get B resp ''ok'') = None"
  | "e = server_error B resp"
  using assms by (auto simp: validate_response_def split: option.splits if_splits)

lemma validate_response_not_closed: "validate_response B resp \<noteq> Inl Closed"
  using server_error_is_Server [of B resp]
  by (auto simp: validate_response_def split: option.splits)

lemma error_of_sys_simps [simp]:
  "error_of_sys e = Closed \<longleftrightarrow> e = Sys_Closed"
  by (cases e) auto

lemma ok_value_nonzero:
  "(\<exists>ok. ok_value v = Some ok \<and> \<not> f64_is_zero ok) \<longleftrightarrow>
     (case v of Some (BDouble d) \<Rightarrow> \<not> f64_is_zero d | Some (BInt32 i) \<Rightarrow> i \<noteq> 0
              | Some (BInt64 i) \<Rightarrow> i \<noteq> 0 | _ \<Rightarrow> False)"
  by (cases v rule: ok_value.cases) (auto simp: signed_eq_0_iff)

lemma server_error_code_message:
  "server_error B resp = Server c m d \<Longrightarrow>
     d = resp \<and>
     (\<forall>e es w. doc_get B resp ''writeErrors'' = Some (BArray (BDocument e # es)) \<longrightarrow>
        c = int_code (doc_get B e ''code'')) \<and>
     (doc_get B resp ''writeErrors'' = None \<and> doc_get B resp ''writeConcernError'' = None \<longrightarrow>
        c = int_code (doc_get B resp ''code''))"
  by (auto simp: server_error_def accessor_defs Let_def)

section \<open>Properties\<close>

text \<open>A reply is accepted exactly when it says so: its \<open>ok\<close> field is a double, 32-bit or
  64-bit integer other than zero, it carries no write error and no write concern error; and then it
  is answered unchanged. A reply that is refused is an error that carries the whole reply, unless
  it has no usable \<open>ok\<close> field at all; and the code the error names is the first write error's,
  where there is one, and otherwise, without a write concern error, the reply's own.\<close>

theorem reply_accepted_iff:
  "(\<forall>d. validate_response B resp = Inr d \<longleftrightarrow>
      d = resp \<and>
      (case doc_get B resp ''ok'' of
         Some (BDouble x) \<Rightarrow> \<not> f64_is_zero x | Some (BInt32 i) \<Rightarrow> i \<noteq> 0
       | Some (BInt64 i) \<Rightarrow> i \<noteq> 0 | _ \<Rightarrow> False) \<and>
      (case doc_get B resp ''writeErrors'' of Some (BArray es) \<Rightarrow> es = [] | _ \<Rightarrow> True) \<and>
      doc_get B resp ''writeConcernError'' = None) \<and>
   (\<forall>e. validate_response B resp = Inl e \<longrightarrow>
      e = InvalidResponse ''command response has no valid ok field'' \<or>
      (\<exists>c m. e = Server c m resp \<and>
         (\<forall>w ws. doc_get B resp ''writeErrors'' = Some (BArray (BDocument w # ws)) \<longrightarrow>
            c = int_code (doc_get B w ''code'')) \<and>
         (doc_get B resp ''writeErrors'' = None \<and> doc_get B resp ''writeConcernError'' = None \<longrightarrow>
            c = int_code (doc_get B resp ''code''))))"
proof (intro conjI allI impI)
  fix d
  have "\<not> has_write_errors v \<longleftrightarrow> (case v of Some (BArray es) \<Rightarrow> es = [] | _ \<Rightarrow> True)" for v :: "'a bson option"
    by (cases v rule: has_write_errors.cases) auto
  then show "validate_response B resp = Inr d \<longleftrightarrow>
      d = resp \<and>
      (case doc_get B resp ''ok'' of
         Some (BDouble x) \<Rightarrow> \<not> f64_is_zero x | Some (BInt32 i) \<Rightarrow> i \<noteq> 0
       | Some (BInt64 i) \<Rightarrow> i \<noteq> 0 | _ \<Rightarrow> False) \<and>
      (case doc_get B resp ''writeErrors'' of Some (BArray es) \<Rightarrow> es = [] | _ \<Rightarrow> True) \<and>
      doc_get B resp ''writeConcernError'' = None"
    unfolding validate_response_Inr_iff ok_value_nonzero by blast
next
  fix e assume "validate_response B resp = Inl e"
  then show "e = InvalidResponse ''command response has no valid ok field'' \<or>
      (\<exists>c m. e = Server c m resp \<and>
         (\<forall>w ws. doc_get B resp ''writeErrors'' = Some (BArray (BDocument w # ws)) \<longrightarrow>
            c = int_code (doc_get B w ''code'')) \<and>
         (doc_get B resp ''writeErrors'' = None \<and> doc_get B resp ''writeConcernError'' = None \<longrightarrow>
            c = int_code (doc_get B resp ''code'')))"
  proof (cases rule: validate_response_Inl_cases)
    case 2
    then obtain c m where "e = Server c m resp" using server_error_is_Server [of B resp] by auto
    with 2 server_error_code_message [of B resp c m resp] show ?thesis by metis
  qed simp
qed

theorem reply_accepted_iff_witness:
  "validate_response alist_lib (ADoc [(''ok'', BInt32 0), (''code'', BInt32 11000)]) =
     Inl (Server (Some 11000) ''MongoDB command failed''
       (ADoc [(''ok'', BInt32 0), (''code'', BInt32 11000)]))"
proof -
  let ?r = "ADoc [(''ok'', BInt32 0), (''code'', BInt32 11000)]"
  have "validate_response alist_lib ?r \<noteq> Inr ?r"
    using reply_accepted_iff [of alist_lib ?r] by (simp add: alist_lib_def)
  then show ?thesis
    by (simp add: validate_response_def server_error_def alist_lib_def accessor_defs Let_def)
qed

end
