(* ===== verification/Session_Pool.thy ===== *)
theory Session_Pool
  imports Slot Idles Errors
begin

text \<open>
  \<open>src/pool/sessions.rs\<close> and the reaper thread of \<open>src/pool/reaper.rs\<close>, run together: which
  session a caller gets, when the pool opens another, and what an interrupt can reach.

  Each critical section of the pool's mutex is one definition. The threads are a step relation:
  any number of callers inside \<open>SessionPool::run\<close>, the reaper, and anybody cancelling any
  command at any moment. A caller's place in \<open>run\<close> is a value of \<open>caller\<close>; waiting on the
  \<open>returned\<close> condition variable is the place \<open>Sleeping\<close>, which only a notification (or a
  spurious wakeup) leaves. Sessions are numbered as the engine opens them.

  The invariant accounts for every session and every reservation. From it follow the ceiling on
  open sessions, the safety of the interrupt and the absence of lost wakeups.
\<close>

section \<open>Opening the pool\<close>

type_synonym sid = nat

text \<open>The engine's \<open>open_session\<close> is a parameter: a state-passing function of its own state.\<close>

fun open_sessions ::
  "('rt \<Rightarrow> (sys_error + 's) \<times> 'rt) \<Rightarrow> nat \<Rightarrow> 'rt \<Rightarrow> (sys_error + 's list) \<times> 'rt" where
  "open_sessions open_session 0 rt = (Inr [], rt)"
| "open_sessions open_session (Suc n) rt =
     (case open_session rt of
        (Inl e, rt') \<Rightarrow> (Inl e, rt')
      | (Inr s, rt') \<Rightarrow>
          (case open_sessions open_session n rt' of
             (Inl e, rt'') \<Rightarrow> (Inl e, rt'')
           | (Inr ss, rt'') \<Rightarrow> (Inr (s # ss), rt'')))"

record ('s, 'h) SessionPool =
  sp_limits :: Concurrency
  sp_idles :: "'s pool_state"
  sp_reaper :: "'h option"

text \<open>What spawning the thread answered, an error being logged and dropped.\<close>

fun start_reaper :: "string + 'h \<Rightarrow> 'h option" where
  "start_reaper (Inr reaper) = Some reaper"
| "start_reaper (Inl error) = None"

definition SessionPool_open ::
  "('rt \<Rightarrow> (sys_error + 's) \<times> 'rt) \<Rightarrow> string + 'h \<Rightarrow> instant \<Rightarrow> 'rt \<Rightarrow> Concurrency
     \<Rightarrow> ('d error + ('s, 'h) SessionPool) \<times> 'rt" where
  "SessionPool_open open_session spawned now rt limits =
     (case open_sessions open_session (unat (cc_min limits)) rt of
        (Inl e, rt') \<Rightarrow> (Inl (error_of_sys e), rt')
      | (Inr sessions, rt') \<Rightarrow>
          (Inr \<lparr>sp_limits = limits,
                sp_idles = Idles_new now sessions (cc_min limits),
                sp_reaper = Option.bind (cc_idle_timeout limits)
                    (\<lambda>timeout. start_reaper spawned)\<rparr>, rt'))"

section \<open>The critical sections\<close>

datatype 's checkout_outcome = Checked_out 's | Reserved | Must_wait

text \<open>One turn of the loop of \<open>checkout\<close>.\<close>

definition checkout_turn ::
  "Concurrency \<Rightarrow> 's pool_state \<Rightarrow> 's checkout_outcome \<times> 's pool_state" where
  "checkout_turn limits st =
     (case State_take st of
        (Some session, st') \<Rightarrow> (Checked_out session, st')
      | (None, st') \<Rightarrow>
          if ps_open st' < cc_max limits then (Reserved, st'\<lparr>ps_open := ps_open st' + 1\<rparr>)
          else (Must_wait, st'))"

text \<open>The failure branch of \<open>grow\<close>: the reservation goes back.\<close>

definition grow_failed :: "'s pool_state \<Rightarrow> 's pool_state" where
  "grow_failed st = st\<lparr>ps_open := ps_open st - 1\<rparr>"

text \<open>Dropping a checkout hands its session back, when it still has one.\<close>

definition Checkout_drop :: "instant \<Rightarrow> 's option \<Rightarrow> 's pool_state \<Rightarrow> 's pool_state" where
  "Checkout_drop now session st =
     (case session of None \<Rightarrow> st | Some s \<Rightarrow> Idles_give_back now s st)"

text \<open>The pool's own drop, up to joining the reaper it stops.\<close>

definition SessionPool_drop :: "'h option \<Rightarrow> 's pool_state \<Rightarrow> 's pool_state" where
  "SessionPool_drop reaper st = (case reaper of None \<Rightarrow> st | Some _ \<Rightarrow> Idles_stop_reaping st)"

section \<open>The threads\<close>

datatype 'd run_outcome = Not_run | Answer "'d error + bytes" | Unwound

datatype 'd caller =
    Checking
  | Sleeping
  | Growing
  | Holding sid
  | Commanding sid
  | Commanded sid "'d run_outcome"
  | Returning sid "'d run_outcome"
  | Notifying "'d run_outcome"
  | Answered "'d run_outcome"

datatype reaper = No_reaper | Reaper_looks | Reaper_closes "sid list" | Reaper_gone

record 'd pool_sys =
  sy_state :: "sid pool_state"
  sy_callers :: "'d caller list"
  sy_slots :: "sid Slot list"
  sy_reaper :: reaper
  sy_next :: sid

definition pool_init :: "Concurrency \<Rightarrow> 'd pool_sys \<Rightarrow> bool" where
  "pool_init limits sy \<longleftrightarrow>
     Concurrency_wf limits \<and>
     (\<exists>now (spawned :: string + unit) pool n.
        SessionPool_open (\<lambda>n. (Inr n, Suc n)) spawned now 0 limits = (Inr pool :: 'd error + _, n) \<and>
        sy = \<lparr>sy_state = sp_idles pool, sy_callers = [], sy_slots = [],
              sy_reaper = (if sp_reaper pool = None then No_reaper else Reaper_looks), sy_next = n\<rparr>)"

definition place :: "nat \<Rightarrow> 'd caller \<Rightarrow> 'd pool_sys \<Rightarrow> 'd pool_sys" where
  "place i c sy = sy\<lparr>sy_callers := (sy_callers sy)[i := c]\<rparr>"

definition is_at :: "nat \<Rightarrow> 'd caller \<Rightarrow> 'd pool_sys \<Rightarrow> bool" where
  "is_at i c sy \<longleftrightarrow> i < length (sy_callers sy) \<and> sy_callers sy ! i = c"

fun wake :: "'d caller \<Rightarrow> 'd caller" where
  "wake Sleeping = Checking"
| "wake c = c"

fun after_checkout :: "sid checkout_outcome \<Rightarrow> 'd caller" where
  "after_checkout (Checked_out s) = Holding s"
| "after_checkout Reserved = Growing"
| "after_checkout Must_wait = Sleeping"

fun after_turn :: "sid reap_outcome \<Rightarrow> reaper" where
  "after_turn Reaper_stops = Reaper_gone"
| "after_turn (Reaper_destroys xs) = Reaper_closes xs"
| "after_turn (Reaper_waits d) = Reaper_looks"

text \<open>
  The steps, in the order of the source. \<open>run\<close>: a call arrives while the pool is not being
  dropped; \<open>checkout\<close> looks; \<open>grow\<close> opens a session or gives the reservation back; \<open>start\<close> arms
  the slot or refuses; the command ends by answering or by unwinding; \<open>Disarm\<close> drops, then the
  checkout drops, then \<open>notify_one\<close> runs with the lock released. \<open>cancel\<close> may happen to any
  command at any moment. The reaper looks, and closes what it took. Dropping the pool needs every
  call to be over, because each borrows it.
\<close>

inductive pool_step :: "Concurrency \<Rightarrow> 'd pool_sys \<Rightarrow> 'd pool_sys \<Rightarrow> bool" for limits where
  run_arrives:
    "\<not> ps_closing (sy_state sy) \<Longrightarrow>
     pool_step limits sy (sy\<lparr>sy_callers := sy_callers sy @ [Checking],
                             sy_slots := sy_slots sy @ [CommandSlot_new]\<rparr>)"
| run_checkout:
    "is_at i Checking sy \<Longrightarrow> checkout_turn limits (sy_state sy) = (out, st) \<Longrightarrow>
     pool_step limits sy (place i (after_checkout out) (sy\<lparr>sy_state := st\<rparr>))"
| run_wakes:
    "is_at i Sleeping sy \<Longrightarrow> pool_step limits sy (place i Checking sy)"
| run_grows:
    "is_at i Growing sy \<Longrightarrow>
     pool_step limits sy (place i (Holding (sy_next sy)) (sy\<lparr>sy_next := Suc (sy_next sy)\<rparr>))"
| run_grow_fails:
    "is_at i Growing sy \<Longrightarrow>
     pool_step limits sy (place i (Notifying (Answer (Inl (error_of_sys e))))
       (sy\<lparr>sy_state := grow_failed (sy_state sy)\<rparr>))"
| run_starts:
    "is_at i (Holding s) sy \<Longrightarrow> CommandSlot_start (sy_slots sy ! i) s = (started, slot) \<Longrightarrow>
     pool_step limits sy (place i (if started then Commanding s else Returning s Not_run)
       (sy\<lparr>sy_slots := (sy_slots sy)[i := slot]\<rparr>))"
| run_command_ends:
    "is_at i (Commanding s) sy \<Longrightarrow> out \<noteq> Not_run \<Longrightarrow>
     pool_step limits sy (place i (Commanded s out) sy)"
| run_disarms:
    "is_at i (Commanded s out) sy \<Longrightarrow>
     pool_step limits sy (place i (Returning s out)
       (sy\<lparr>sy_slots := (sy_slots sy)[i := Disarm_drop (sy_slots sy ! i)]\<rparr>))"
| run_gives_back:
    "is_at i (Returning s out) sy \<Longrightarrow>
     pool_step limits sy (place i (Notifying out)
       (sy\<lparr>sy_state := Checkout_drop now (Some s) (sy_state sy)\<rparr>))"
| run_notifies_one:
    "is_at i (Notifying out) sy \<Longrightarrow> is_at j Sleeping sy \<Longrightarrow>
     pool_step limits sy (place j Checking (place i (Answered out) sy))"
| run_notifies_none:
    "is_at i (Notifying out) sy \<Longrightarrow> Sleeping \<notin> set (sy_callers sy) \<Longrightarrow>
     pool_step limits sy (place i (Answered out) sy)"
| slot_cancelled:
    "i < length (sy_slots sy) \<Longrightarrow> CommandSlot_cancel (sy_slots sy ! i) = (fired, slot) \<Longrightarrow>
     pool_step limits sy (sy\<lparr>sy_slots := (sy_slots sy)[i := slot]\<rparr>)"
| reaper_turns:
    "sy_reaper sy = Reaper_looks \<Longrightarrow> cc_idle_timeout limits = Some timeout \<Longrightarrow>
     reap_turn (cc_min limits) timeout now (sy_state sy) = (turn, st) \<Longrightarrow>
     pool_step limits sy (sy\<lparr>sy_state := st, sy_reaper := after_turn turn\<rparr>)"
| reaper_closed:
    "sy_reaper sy = Reaper_closes expired \<Longrightarrow>
     pool_step limits sy (sy\<lparr>sy_state := reap_destroyed expired (sy_state sy),
       sy_callers := map wake (sy_callers sy), sy_reaper := Reaper_looks\<rparr>)"
| pool_dropped:
    "sy_reaper sy \<noteq> No_reaper \<Longrightarrow> \<forall>c \<in> set (sy_callers sy). \<exists>out. c = Answered out \<Longrightarrow>
     pool_step limits sy (sy\<lparr>sy_state := SessionPool_drop (Some (sy_reaper sy)) (sy_state sy)\<rparr>)"

section \<open>The invariant\<close>

fun held :: "'d caller \<Rightarrow> sid multiset" where
  "held (Holding s) = {#s#}"
| "held (Commanding s) = {#s#}"
| "held (Commanded s _) = {#s#}"
| "held (Returning s _) = {#s#}"
| "held _ = {#}"

fun closing_sessions :: "reaper \<Rightarrow> sid list" where
  "closing_sessions (Reaper_closes xs) = xs"
| "closing_sessions _ = []"

fun is_growing :: "'d caller \<Rightarrow> nat" where
  "is_growing Growing = 1"
| "is_growing _ = 0"

fun is_rousing :: "'d caller \<Rightarrow> nat" where
  "is_rousing Checking = 1"
| "is_rousing (Notifying _) = 1"
| "is_rousing _ = 0"

text \<open>Every session the engine has open, wherever it is.\<close>

definition all_sessions :: "'d pool_sys \<Rightarrow> sid multiset" where
  "all_sessions sy =
     mset (map idle_session (ps_idle (sy_state sy))) +
     (\<Sum>c\<leftarrow>sy_callers sy. held c) + mset (closing_sessions (sy_reaper sy))"

definition pool_counted :: "Concurrency \<Rightarrow> 'd pool_sys \<Rightarrow> bool" where
  "pool_counted limits sy \<longleftrightarrow>
     (\<forall>s. count (all_sessions sy) s \<le> 1) \<and>
     (\<forall>s \<in># all_sessions sy. s < sy_next sy) \<and>
     unat (ps_open (sy_state sy)) =
       size (all_sessions sy) + (\<Sum>c\<leftarrow>sy_callers sy. is_growing c) \<and>
     unat (ps_open (sy_state sy)) \<le> unat (cc_max limits)"

definition pool_armed :: "'d pool_sys \<Rightarrow> bool" where
  "pool_armed sy \<longleftrightarrow>
     length (sy_slots sy) = length (sy_callers sy) \<and>
     (\<forall>i < length (sy_slots sy). \<forall>s. sy_slots sy ! i = Running s \<longrightarrow>
        sy_callers sy ! i = Commanding s \<or> (\<exists>out. sy_callers sy ! i = Commanded s out))"

text \<open>What a checkout could have without waiting: free sessions and room under the ceiling.\<close>

definition capacity :: "Concurrency \<Rightarrow> 's pool_state \<Rightarrow> nat" where
  "capacity limits st = length (ps_idle st) + (unat (cc_max limits) - unat (ps_open st))"

definition pool_roused :: "Concurrency \<Rightarrow> 'd pool_sys \<Rightarrow> bool" where
  "pool_roused limits sy \<longleftrightarrow>
     (Sleeping \<in> set (sy_callers sy) \<longrightarrow>
        capacity limits (sy_state sy) \<le> (\<Sum>c\<leftarrow>sy_callers sy. is_rousing c))"

definition pool_inv :: "Concurrency \<Rightarrow> 'd pool_sys \<Rightarrow> bool" where
  "pool_inv limits sy \<longleftrightarrow>
     Concurrency_wf limits \<and> pool_counted limits sy \<and> pool_armed sy \<and> pool_roused limits sy"

section \<open>The invariant is kept\<close>

lemma place_simps [simp]:
  "sy_state (place i c sy) = sy_state sy" "sy_slots (place i c sy) = sy_slots sy"
  "sy_reaper (place i c sy) = sy_reaper sy" "sy_next (place i c sy) = sy_next sy"
  "sy_callers (place i c sy) = (sy_callers sy)[i := c]"
  by (simp_all add: place_def)

lemma place_sum:
  fixes f :: "'d caller \<Rightarrow> 'b::comm_monoid_add"
  assumes "is_at i c sy"
  shows "sum_list (map f ((sy_callers sy)[i := c'])) + f c = sum_list (map f (sy_callers sy)) + f c'"
  using sum_list_replace [of i "sy_callers sy" f c'] assms by (simp add: is_at_def)

lemma wake_simps [simp]:
  "held (wake c) = held c" "is_growing (wake c) = is_growing c" "wake c = Sleeping \<longleftrightarrow> False"
  "Sleeping = wake c \<longleftrightarrow> False"
  "wake c = Commanding s \<longleftrightarrow> c = Commanding s" "wake c = Commanded s out \<longleftrightarrow> c = Commanded s out"
  by (cases c; simp)+

lemma counted_same:
  assumes "pool_counted limits sy"
    and "all_sessions sy' = all_sessions sy" and "sy_next sy' = sy_next sy"
    and "ps_open (sy_state sy') = ps_open (sy_state sy)"
    and "(\<Sum>c\<leftarrow>sy_callers sy'. is_growing c) = (\<Sum>c\<leftarrow>sy_callers sy. is_growing c)"
  shows "pool_counted limits sy'"
  using assms by (simp add: pool_counted_def)

lemma checkout_turn_cases:
  assumes "checkout_turn limits st = (out, st')"
  obtains (taken) es e where "ps_idle st = es @ [e]" "out = Checked_out (idle_session e)"
      "st' = st\<lparr>ps_idle := es\<rparr>"
  | (reserved) "ps_idle st = []" "unat (ps_open st) < unat (cc_max limits)" "out = Reserved"
      "st' = st\<lparr>ps_open := ps_open st + 1\<rparr>"
  | (full) "ps_idle st = []" "unat (cc_max limits) \<le> unat (ps_open st)" "out = Must_wait" "st' = st"
  using assms
  by (cases "State_take st")
    (auto simp: checkout_turn_def step_simps word_less_nat_alt split: option.splits if_splits)

lemma wf_max: "Concurrency_wf limits \<Longrightarrow> unat (cc_max limits) \<le> 256"
  "Concurrency_wf limits \<Longrightarrow> 1 \<le> unat (cc_max limits)"
  by (auto simp: Concurrency_wf_def)

lemma counted_checkout:
  assumes wf: "Concurrency_wf limits" and inv: "pool_counted limits sy"
    and i: "is_at i Checking sy" and turn: "checkout_turn limits (sy_state sy) = (out, st)"
  shows "pool_counted limits (place i (after_checkout out) (sy\<lparr>sy_state := st\<rparr>))"
  using turn
proof (cases rule: checkout_turn_cases)
  case (taken es e)
  with place_sum [OF i, of held] place_sum [OF i, of is_growing] show ?thesis
    by (intro counted_same [OF inv]) (auto simp: all_sessions_def)
next
  case reserved
  with inv wf_max [OF wf] place_sum [OF i, of held] place_sum [OF i, of is_growing] show ?thesis
    by (auto simp: pool_counted_def all_sessions_def word_counts)
next
  case full
  with place_sum [OF i, of held] place_sum [OF i, of is_growing] show ?thesis
    by (intro counted_same [OF inv]) (auto simp: all_sessions_def)
qed

lemma counted_grows:
  assumes inv: "pool_counted limits sy" and i: "is_at i Growing sy"
  shows "pool_counted limits (place i (Holding (sy_next sy)) (sy\<lparr>sy_next := Suc (sy_next sy)\<rparr>))"
    (is "pool_counted _ ?sy'")
proof -
  have all: "all_sessions ?sy' = add_mset (sy_next sy) (all_sessions sy)"
    using place_sum [OF i, of held] by (simp add: all_sessions_def)
  have grow: "Suc (\<Sum>c\<leftarrow>sy_callers ?sy'. is_growing c) = (\<Sum>c\<leftarrow>sy_callers sy. is_growing c)"
    using place_sum [OF i, of is_growing] by simp
  have "count (all_sessions sy) (sy_next sy) = 0"
    using inv by (auto simp: pool_counted_def count_eq_zero_iff)
  with inv all grow show ?thesis
    by (auto simp: pool_counted_def less_Suc_eq)
qed

lemma counted_grow_fails:
  assumes inv: "pool_counted limits sy" and i: "is_at i Growing sy"
  shows "pool_counted limits (place i (Notifying out) (sy\<lparr>sy_state := grow_failed (sy_state sy)\<rparr>))"
    (is "pool_counted _ ?sy'")
proof -
  have all: "all_sessions ?sy' = all_sessions sy"
    using place_sum [OF i, of held] by (simp add: all_sessions_def grow_failed_def)
  have grow: "Suc (\<Sum>c\<leftarrow>sy_callers ?sy'. is_growing c) = (\<Sum>c\<leftarrow>sy_callers sy. is_growing c)"
    using place_sum [OF i, of is_growing] by simp
  with inv have pos: "0 < unat (ps_open (sy_state sy))" by (simp add: pool_counted_def)
  show ?thesis using inv all grow unat_dec [OF pos]
    by (auto simp: pool_counted_def grow_failed_def)
qed

lemma counted_turns:
  assumes inv: "pool_counted limits sy" and r: "sy_reaper sy = Reaper_looks"
    and turn: "reap_turn mn timeout now (sy_state sy) = (turn, st)"
  shows "pool_counted limits (sy\<lparr>sy_state := st, sy_reaper := after_turn turn\<rparr>)"
proof (cases "ps_closing (sy_state sy)")
  case True
  with r turn show ?thesis
    by (intro counted_same [OF inv]) (auto simp: reap_turn_def all_sessions_def)
next
  case False
  obtain expired wait st' where reap: "State_reap mn timeout now (sy_state sy) = ((expired, wait), st')"
    by (metis surj_pair)
  note frame = State_reap_frame [OF reap]
  from False reap turn have "st = st'" and
    "turn = (if expired \<noteq> [] then Reaper_destroys expired else Reaper_waits wait)"
    by (auto simp: reap_turn_def split: if_splits)
  with frame r show ?thesis
    by (intro counted_same [OF inv]) (auto simp: all_sessions_def)
qed

lemma counted_closed:
  assumes inv: "pool_counted limits sy" and r: "sy_reaper sy = Reaper_closes expired"
  shows "pool_counted limits (sy\<lparr>sy_state := reap_destroyed expired (sy_state sy),
       sy_callers := map wake (sy_callers sy), sy_reaper := Reaper_looks\<rparr>)"
    (is "pool_counted _ ?sy'")
proof -
  let ?n = "word_of_nat (length expired) :: u32"
  have all: "all_sessions sy = all_sessions ?sy' + mset expired"
    using r by (simp add: all_sessions_def reap_destroyed_def State_closed_def comp_def)
  then have le: "length expired \<le> unat (ps_open (sy_state sy))"
    using inv by (simp add: pool_counted_def)
  then have "length expired < 2 ^ 32" using u32_bound [of "ps_open (sy_state sy)"] by linarith
  then have n: "unat ?n = length expired" by (simp add: unat_of_nat take_bit_nat_eq_self_iff)
  have "unat (ps_open (sy_state ?sy')) = unat (ps_open (sy_state sy)) - length expired"
    using le n by (simp add: reap_destroyed_def State_closed_def word_counts)
  moreover have "\<forall>s. count (all_sessions ?sy') s \<le> count (all_sessions sy) s" by (simp add: all)
  moreover have "(\<Sum>c\<leftarrow>sy_callers ?sy'. is_growing c) = (\<Sum>c\<leftarrow>sy_callers sy. is_growing c)"
    by (simp add: comp_def)
  ultimately show ?thesis using inv
    unfolding pool_counted_def by (auto simp: all intro: add_leD1)
qed

lemma counted_moves:
  assumes "pool_counted limits sy" and i: "is_at i c sy"
    and "sy_state sy' = sy_state sy" and "sy_next sy' = sy_next sy" and "sy_reaper sy' = sy_reaper sy"
    and "sy_callers sy' = (sy_callers sy)[i := c']"
    and "held c' = held c" and "is_growing c' = is_growing c"
  shows "pool_counted limits sy'"
  using assms(3-) place_sum [OF i, of held c'] place_sum [OF i, of is_growing c']
  by (intro counted_same [OF assms(1)]) (simp_all add: all_sessions_def)

lemma counted_gives_back:
  assumes inv: "pool_counted limits sy" and i: "is_at i (Returning s out) sy"
  shows "pool_counted limits (place i (Notifying out)
       (sy\<lparr>sy_state := Checkout_drop now (Some s) (sy_state sy)\<rparr>))"
  using place_sum [OF i, of held "Notifying out"] place_sum [OF i, of is_growing "Notifying out"]
  by (intro counted_same [OF inv])
    (simp_all add: all_sessions_def Checkout_drop_def Idles_give_back_def Idle_taken_def)

lemma counted_step:
  assumes "pool_step limits sy sy'" and wf: "Concurrency_wf limits" and inv: "pool_counted limits sy"
  shows "pool_counted limits sy'"
  using assms(1)
proof cases
  case run_checkout
  with counted_checkout [OF wf inv] show ?thesis by simp
next
  case run_grows
  with counted_grows [OF inv] show ?thesis by simp
next
  case run_grow_fails
  with counted_grow_fails [OF inv] show ?thesis by simp
next
  case reaper_turns
  with counted_turns [OF inv] show ?thesis by simp
next
  case reaper_closed
  with counted_closed [OF inv] show ?thesis by simp
next
  case run_gives_back
  with counted_gives_back [OF inv] show ?thesis by simp
next
  case run_arrives
  with inv show ?thesis by (simp add: pool_counted_def all_sessions_def)
next
  case slot_cancelled
  with inv show ?thesis by (simp add: pool_counted_def all_sessions_def)
next
  case pool_dropped
  with inv show ?thesis
    by (simp add: pool_counted_def all_sessions_def SessionPool_drop_def Idles_stop_reaping_def)
next
  case (run_notifies_one i out j)
  have counted: "pool_counted limits (place i (Answered out) sy)"
    using counted_moves [OF inv run_notifies_one(2), of "place i (Answered out) sy" "Answered out"]
    by simp
  have "is_at j Sleeping (place i (Answered out) sy)"
    using run_notifies_one by (auto simp: is_at_def nth_list_update)
  from counted_moves [OF counted this, of sy' Checking] show ?thesis
    by (simp add: run_notifies_one(1))
next
  case (run_wakes i)
  with counted_moves [OF inv run_wakes(2), of sy' "Checking"] show ?thesis by simp
next
  case (run_starts i s started slot)
  with counted_moves [OF inv run_starts(2), of sy' "if started then Commanding s else Returning s Not_run"] show ?thesis by simp
next
  case (run_command_ends i s out)
  with counted_moves [OF inv run_command_ends(2), of sy' "Commanded s out"] show ?thesis by simp
next
  case (run_disarms i s out)
  with counted_moves [OF inv run_disarms(2), of sy' "Returning s out"] show ?thesis by simp
next
  case (run_notifies_none i out)
  with counted_moves [OF inv run_notifies_none(2), of sy' "Answered out"] show ?thesis by simp
qed

lemma pool_armed_alt:
  "pool_armed sy \<longleftrightarrow> list_all2 (\<lambda>slot c. \<forall>s. slot = Running s \<longrightarrow>
      c = Commanding s \<or> (\<exists>out. c = Commanded s out)) (sy_slots sy) (sy_callers sy)"
  by (auto simp: pool_armed_def list_all2_conv_all_nth)

lemma armed_place:
  assumes "pool_armed sy"
    and "\<And>s. slot = Running s \<Longrightarrow> c = Commanding s \<or> (\<exists>out. c = Commanded s out)"
    and "sy_slots sy' = (sy_slots sy)[i := slot]" and "sy_callers sy' = (sy_callers sy)[i := c]"
  shows "pool_armed sy'"
  using assms by (auto simp: pool_armed_alt intro!: list_all2_update_cong)

definition commands_on :: "sid \<Rightarrow> 'd caller \<Rightarrow> bool" where
  "commands_on s c \<longleftrightarrow> c = Commanding s \<or> (\<exists>out. c = Commanded s out)"

lemma armed_running:
  "pool_armed sy \<Longrightarrow> is_at i c sy \<Longrightarrow> sy_slots sy ! i = Running s \<Longrightarrow> commands_on s c"
  by (auto simp: pool_armed_def is_at_def commands_on_def)

lemma armed_moves:
  assumes "pool_armed sy" and "is_at i c sy"
    and "sy_slots sy' = sy_slots sy" and "sy_callers sy' = (sy_callers sy)[i := c']"
    and "\<And>s. commands_on s c \<Longrightarrow> commands_on s c'"
  shows "pool_armed sy'"
  using assms(3-) armed_running [OF assms(1,2)]
  by (intro armed_place [OF assms(1), where i = i and slot = "sy_slots sy ! i" and c = c'])
    (auto simp: commands_on_def)

lemma armed_step:
  assumes "pool_step limits sy sy'" and inv: "pool_armed sy"
  shows "pool_armed sy'"
  using assms(1)
proof cases
  case run_arrives
  with inv show ?thesis by (auto simp: pool_armed_alt CommandSlot_new_def intro: list_all2_appendI)
next
  case (run_starts i s started slot)
  show ?thesis
  proof (rule armed_place [OF inv, where i = i and slot = slot])
    show "sy_callers sy' = (sy_callers sy)
        [i := if started then Commanding s else Returning s Not_run]"
      and "sy_slots sy' = (sy_slots sy)[i := slot]"
      by (simp_all add: run_starts(1))
    fix s' assume "slot = Running s'"
    with run_starts(3) armed_running [OF inv run_starts(2), of s']
    show "(if started then Commanding s else Returning s Not_run) = Commanding s' \<or>
        (\<exists>out. (if started then Commanding s else Returning s Not_run) = Commanded s' out)"
      by (cases started) (auto simp: step_simps commands_on_def)
  qed
next
  case (run_disarms i s out)
  then show ?thesis
    by (intro armed_place [OF inv, where i = i and slot = "Disarm_drop (sy_slots sy ! i)"
          and c = "Returning s out"])
      (auto simp: step_simps Disarm_drop_def)
next
  case (slot_cancelled i fired slot)
  then show ?thesis
    by (intro armed_place [OF inv, where i = i and slot = slot and c = "sy_callers sy ! i"])
      (auto simp: step_simps)
next
  case (run_notifies_one i out j)
  have armed: "pool_armed (place i (Answered out) sy)"
    using armed_moves [OF inv run_notifies_one(2), of "place i (Answered out) sy" "Answered out"]
    by (simp add: commands_on_def)
  have "is_at j Sleeping (place i (Answered out) sy)"
    using run_notifies_one by (auto simp: is_at_def nth_list_update)
  from armed_moves [OF armed this, of sy' Checking] show ?thesis
    by (simp add: run_notifies_one(1) commands_on_def)
next
  case (reaper_closed expired)
  with inv show ?thesis
    by (auto simp: pool_armed_def)
next
  case reaper_turns
  with inv show ?thesis by (simp add: pool_armed_def)
next
  case pool_dropped
  with inv show ?thesis by (simp add: pool_armed_def)
next
  case (run_checkout i out st)
  with armed_moves [OF inv run_checkout(2), of sy' "after_checkout out"] show ?thesis by (simp add: commands_on_def)
next
  case (run_wakes i)
  with armed_moves [OF inv run_wakes(2), of sy' "Checking"] show ?thesis by (simp add: commands_on_def)
next
  case (run_grows i)
  with armed_moves [OF inv run_grows(2), of sy' "Holding (sy_next sy)"] show ?thesis by (simp add: commands_on_def)
next
  case (run_grow_fails i e)
  with armed_moves [OF inv run_grow_fails(2), of sy' "Notifying (Answer (Inl (error_of_sys e)))"] show ?thesis by (simp add: commands_on_def)
next
  case (run_command_ends i s out)
  with armed_moves [OF inv run_command_ends(2), of sy' "Commanded s out"] show ?thesis by (simp add: commands_on_def)
next
  case (run_gives_back i s out now)
  with armed_moves [OF inv run_gives_back(2), of sy' "Notifying out"] show ?thesis by (simp add: commands_on_def)
next
  case (run_notifies_none i out)
  with armed_moves [OF inv run_notifies_none(2), of sy' "Answered out"] show ?thesis by (simp add: commands_on_def)
qed

lemma roused_moves:
  assumes inv: "pool_roused limits sy" and i: "is_at i c sy"
    and "sy_callers sy' = (sy_callers sy)[i := c']" and "c' \<noteq> Sleeping"
    and "capacity limits (sy_state sy') + is_rousing c \<le> capacity limits (sy_state sy) + is_rousing c'"
  shows "pool_roused limits sy'"
  using assms(3-) place_sum [OF i, of is_rousing c'] inv
    set_update_subset_insert [of "sy_callers sy" i c']
  by (auto simp: pool_roused_def)

lemma roused_checkout:
  assumes wf: "Concurrency_wf limits" and inv: "pool_roused limits sy"
    and i: "is_at i Checking sy" and turn: "checkout_turn limits (sy_state sy) = (out, st)"
  shows "pool_roused limits (place i (after_checkout out) (sy\<lparr>sy_state := st\<rparr>))"
  using turn
proof (cases rule: checkout_turn_cases)
  case taken
  then show ?thesis by (intro roused_moves [OF inv i]) (auto simp: capacity_def)
next
  case reserved
  with wf_max [OF wf] have "unat (ps_open (sy_state sy) + 1) = unat (ps_open (sy_state sy)) + 1"
    by (simp add: word_counts)
  with reserved show ?thesis by (intro roused_moves [OF inv i]) (auto simp: capacity_def)
next
  case full
  then show ?thesis by (simp add: pool_roused_def capacity_def)
qed

lemma roused_grow_fails:
  assumes counted: "pool_counted limits sy" and inv: "pool_roused limits sy"
    and i: "is_at i Growing sy"
  shows "pool_roused limits (place i (Notifying out) (sy\<lparr>sy_state := grow_failed (sy_state sy)\<rparr>))"
proof -
  have "0 < unat (ps_open (sy_state sy))"
    using counted place_sum [OF i, of is_growing Sleeping] by (simp add: pool_counted_def)
  then have "unat (ps_open (sy_state sy) - 1) = unat (ps_open (sy_state sy)) - 1"
    by (rule unat_dec)
  then show ?thesis
    by (intro roused_moves [OF inv i]) (auto simp: capacity_def grow_failed_def)
qed

lemma roused_turns:
  assumes inv: "pool_roused limits sy"
    and turn: "reap_turn mn timeout now (sy_state sy) = (turn, st)"
  shows "pool_roused limits (sy\<lparr>sy_state := st, sy_reaper := r\<rparr>)"
proof -
  have "ps_open st = ps_open (sy_state sy) \<and> length (ps_idle st) \<le> length (ps_idle (sy_state sy))"
    using turn State_reap_frame [of mn timeout now "sy_state sy"]
    by (auto simp: reap_turn_def Let_def split: if_splits prod.splits dest!: list_emb_length)
  with inv show ?thesis by (auto simp: pool_roused_def capacity_def)
qed

lemma roused_step:
  assumes "pool_step limits sy sy'" and wf: "Concurrency_wf limits"
    and counted: "pool_counted limits sy" and inv: "pool_roused limits sy"
  shows "pool_roused limits sy'"
  using assms(1)
proof cases
  case run_checkout
  with roused_checkout [OF wf inv] show ?thesis by simp
next
  case run_grow_fails
  with roused_grow_fails [OF counted inv] show ?thesis by simp
next
  case reaper_turns
  with roused_turns [OF inv] show ?thesis by simp
next
  case reaper_closed
  then show ?thesis by (auto simp: pool_roused_def)
next
  case run_arrives
  with inv show ?thesis by (auto simp: pool_roused_def)
next
  case slot_cancelled
  with inv show ?thesis by (simp add: pool_roused_def)
next
  case pool_dropped
  with inv show ?thesis
    by (simp add: pool_roused_def capacity_def SessionPool_drop_def Idles_stop_reaping_def)
next
  case (run_notifies_one i out j)
  let ?mid = "place i (Answered out) sy"
  have j: "is_at j Sleeping ?mid"
    using run_notifies_one by (auto simp: is_at_def nth_list_update)
  have "Sleeping \<in> set (sy_callers sy)"
    using run_notifies_one(3) by (auto simp: is_at_def in_set_conv_nth)
  with inv have "capacity limits (sy_state sy) \<le> (\<Sum>c\<leftarrow>sy_callers sy. is_rousing c)"
    by (simp add: pool_roused_def)
  with place_sum [OF run_notifies_one(2), of is_rousing "Answered out"]
    place_sum [OF j, of is_rousing Checking] show ?thesis
    by (simp add: pool_roused_def run_notifies_one(1))
next
  case (run_notifies_none i out)
  then show ?thesis
    using set_update_subset_insert [of "sy_callers sy" i "Answered out"]
    by (auto simp: pool_roused_def)
next
  case (run_wakes i)
  with roused_moves [OF inv run_wakes(2), of sy' "Checking"] show ?thesis by (simp)
next
  case (run_grows i)
  with roused_moves [OF inv run_grows(2), of sy' "Holding (sy_next sy)"] show ?thesis by (simp)
next
  case (run_starts i s started slot)
  with roused_moves [OF inv run_starts(2), of sy' "if started then Commanding s else Returning s Not_run"] show ?thesis by (simp)
next
  case (run_command_ends i s out)
  with roused_moves [OF inv run_command_ends(2), of sy' "Commanded s out"] show ?thesis by (simp)
next
  case (run_disarms i s out)
  with roused_moves [OF inv run_disarms(2), of sy' "Returning s out"] show ?thesis by (simp)
next
  case (run_gives_back i s out now)
  with roused_moves [OF inv run_gives_back(2), of sy' "Notifying out"] show ?thesis by (simp add: capacity_def Checkout_drop_def Idles_give_back_def)
qed

lemma open_sessions_counter:
  "open_sessions (\<lambda>n. (Inr n, Suc n)) k n = (Inr [n..<n + k], n + k)"
  by (induction k arbitrary: n) (auto simp: upt_conv_Cons)

lemma count_mset_upt: "count (mset [a..<b]) s \<le> 1"
  using distinct_count_atmost_1 [of "[a..<b]"] by (simp add: count_mset_0_iff)

lemma pool_init_state:
  assumes "pool_init limits sy"
  obtains "Concurrency_wf limits" "map idle_session (ps_idle (sy_state sy)) = [0..<unat (cc_min limits)]"
    "ps_open (sy_state sy) = cc_min limits" "sy_callers sy = []" "sy_slots sy = []"
    "closing_sessions (sy_reaper sy) = []" "sy_next sy = unat (cc_min limits)"
proof -
  from assms obtain now spawned pool n where "Concurrency_wf limits"
    and pool: "SessionPool_open (\<lambda>n. (Inr n, Suc n)) (spawned :: string + unit) now 0 limits =
      (Inr pool :: unit error + _, n)"
    and sy: "sy = \<lparr>sy_state = sp_idles pool, sy_callers = [], sy_slots = [],
              sy_reaper = (if sp_reaper pool = None then No_reaper else Reaper_looks), sy_next = n\<rparr>"
    by (auto simp: pool_init_def SessionPool_open_def open_sessions_counter)
  from pool have "n = unat (cc_min limits)" and
    "sp_idles pool = Idles_new now [0..<unat (cc_min limits)] (cc_min limits)"
    by (auto simp: SessionPool_open_def open_sessions_counter)
  with sy show thesis
    by (intro that) (auto simp: \<open>Concurrency_wf limits\<close> Idles_new_def Idle_taken_def comp_def)
qed

lemma pool_init_inv:
  assumes "pool_init limits sy"
  shows "pool_inv limits sy"
  using assms
proof (cases rule: pool_init_state)
  case 1
  then have all: "all_sessions sy = mset [0..<unat (cc_min limits)]"
    by (simp add: all_sessions_def del: mset_upt)
  from 1(1) have "unat (cc_min limits) \<le> unat (cc_max limits)" by (simp add: Concurrency_wf_def)
  with 1 show ?thesis
    using count_mset_upt [of 0 "unat (cc_min limits)"]
    by (auto simp: pool_inv_def pool_counted_def pool_armed_def pool_roused_def all)
qed

lemma pool_inv_step:
  "pool_inv limits sy \<Longrightarrow> pool_step limits sy sy' \<Longrightarrow> pool_inv limits sy'"
  by (auto simp: pool_inv_def intro: counted_step armed_step roused_step)

interpretation pool: invariant_system "pool_init limits" "pool_step limits" "pool_inv limits"
  for limits
  by unfold_locales (auto intro: pool_init_inv pool_inv_step)

abbreviation pool_reachable :: "Concurrency \<Rightarrow> 'd pool_sys \<Rightarrow> bool" where
  "pool_reachable limits \<equiv> reach (pool_init limits) (pool_step limits)"

section \<open>What the invariant gives\<close>

lemma held_iff: "s \<in># held c \<longleftrightarrow> c = Holding s \<or> commands_on s c \<or> (\<exists>out. c = Returning s out)"
  by (cases c) (auto simp: commands_on_def)

lemma count_sum_list_map: "count (sum_list (map f xs)) s = (\<Sum>x\<leftarrow>xs. count (f x) s)"
  by (induction xs) auto

lemma count_two_le:
  assumes "i < length xs" and "j < length xs" and "i \<noteq> j"
  shows "count (f (xs ! i)) s + count (f (xs ! j)) s \<le> count (sum_list (map f xs)) s"
proof -
  let ?g = "\<lambda>x. count (f x) s"
  have "(\<Sum>k\<in>{i, j}. ?g (xs ! k)) \<le> (\<Sum>k<length xs. ?g (xs ! k))"
    using assms by (intro sum_mono2) auto
  also have "\<dots> = (\<Sum>x\<leftarrow>xs. ?g x)"
    by (simp add: sum_list_sum_nth atLeast0LessThan)
  finally show ?thesis using assms by (simp add: count_sum_list_map)
qed

lemma count_one_le:
  assumes "i < length xs"
  shows "count (f (xs ! i)) s \<le> count (sum_list (map f xs)) s"
  using assms by (auto simp: count_sum_list_map intro!: member_le_sum_list)

text \<open>A session some caller holds is nowhere else.\<close>

lemma held_alone:
  assumes "pool_counted limits sy" and i: "i < length (sy_callers sy)"
    and s: "s \<in># held (sy_callers sy ! i)"
  shows "s \<notin> set (map idle_session (ps_idle (sy_state sy)))"
    and "s \<notin> set (closing_sessions (sy_reaper sy))"
    and "j < length (sy_callers sy) \<Longrightarrow> j \<noteq> i \<Longrightarrow> s \<notin># held (sy_callers sy ! j)"
proof -
  have one: "count (mset (map idle_session (ps_idle (sy_state sy)))) s +
      count (\<Sum>c\<leftarrow>sy_callers sy. held c) s + count (mset (closing_sessions (sy_reaper sy))) s \<le> 1"
    using assms(1) unfolding pool_counted_def all_sessions_def by (simp only: count_union)
  have pos: "1 \<le> count (held (sy_callers sy ! i)) s" using s by (simp add: Suc_le_eq)
  have "count (mset (map idle_session (ps_idle (sy_state sy)))) s = 0"
    and "count (mset (closing_sessions (sy_reaper sy))) s = 0"
    using one pos count_one_le [OF i, of held s] by linarith+
  then show "s \<notin> set (map idle_session (ps_idle (sy_state sy)))"
    and "s \<notin> set (closing_sessions (sy_reaper sy))"
    by (simp_all only: count_mset_0_iff not_False_eq_True)
  assume "j < length (sy_callers sy)" "j \<noteq> i"
  then have "count (held (sy_callers sy ! j)) s = 0"
    using count_two_le [OF i, of j held s] one pos by linarith
  then show "s \<notin># held (sy_callers sy ! j)" by (simp only: count_eq_zero_iff not_False_eq_True)
qed

section \<open>Progress\<close>

definition busy :: "'d caller \<Rightarrow> bool" where
  "busy c \<longleftrightarrow> c \<noteq> Sleeping \<and> (\<forall>out. c \<noteq> Answered out)"

lemma step_moves:
  assumes "pool_step limits sy (place i c' sy1)" and "c' \<noteq> c"
    and "length (sy_callers sy1) = length (sy_callers sy)" and "is_at i c sy"
  shows "\<exists>sy'. pool_step limits sy sy' \<and> \<not> is_at i c sy'"
  using assms by (intro exI [of _ "place i c' sy1"]) (auto simp: is_at_def)

lemma busy_can_step:
  assumes c: "is_at i c sy" and busy: "busy c"
  shows "\<exists>sy'. pool_step limits sy sy' \<and> \<not> is_at i c sy'"
proof (cases c)
  case Checking
  obtain out st where "checkout_turn limits (sy_state sy) = (out, st)"
    by (cases "checkout_turn limits (sy_state sy)")
  from step_moves [OF pool_step.run_checkout [OF c [unfolded Checking] this] _ _ c] show ?thesis
    by (cases out) (auto simp: Checking)
next
  case Growing
  from step_moves [OF pool_step.run_grows [OF c [unfolded Growing]] _ _ c] show ?thesis
    by (simp add: Growing)
next
  case (Holding s)
  obtain started slot where "CommandSlot_start (sy_slots sy ! i) s = (started, slot)"
    by (cases "CommandSlot_start (sy_slots sy ! i) s")
  from step_moves [OF pool_step.run_starts [OF c [unfolded Holding] this] _ _ c] show ?thesis
    by (simp add: Holding)
next
  case (Commanding s)
  from step_moves [OF pool_step.run_command_ends [OF c [unfolded Commanding], of Unwound] _ _ c]
  show ?thesis by (simp add: Commanding)
next
  case (Commanded s out)
  from step_moves [OF pool_step.run_disarms [OF c [unfolded Commanded]] _ _ c] show ?thesis
    by (simp add: Commanded)
next
  case (Returning s out)
  from step_moves [OF pool_step.run_gives_back [OF c [unfolded Returning]] _ _ c] show ?thesis
    by (simp add: Returning)
next
  case (Notifying out)
  show ?thesis
  proof (cases "Sleeping \<in> set (sy_callers sy)")
    case False
    from step_moves [OF pool_step.run_notifies_none [OF c [unfolded Notifying] this] _ _ c]
    show ?thesis by (simp add: Notifying)
  next
    case True
    then obtain j where j: "is_at j Sleeping sy" by (auto simp: is_at_def in_set_conv_nth)
    from j c Notifying have "\<not> is_at i c (place j Checking (place i (Answered out) sy))"
      by (auto simp: is_at_def nth_list_update)
    with pool_step.run_notifies_one [OF c [unfolded Notifying] j] show ?thesis by blast
  qed
qed (use busy in \<open>auto simp: busy_def\<close>)

lemma no_sleeper_alone:
  assumes inv: "pool_inv limits sy" and asleep: "Sleeping \<in> set (sy_callers sy)"
    and none: "\<nexists>i c. is_at i c sy \<and> busy c"
  shows "\<exists>xs. sy_reaper sy = Reaper_closes xs"
proof -
  have quiet: "c = Sleeping \<or> (\<exists>out. c = Answered out)" if "c \<in> set (sy_callers sy)" for c
    using none that by (auto simp: is_at_def busy_def in_set_conv_nth)
  have "(\<Sum>c\<leftarrow>sy_callers sy. is_rousing c) = 0"
    by (rule sum_list_zero) (auto dest: quiet)
  moreover have "(\<Sum>c\<leftarrow>sy_callers sy. is_growing c) = 0"
    by (rule sum_list_zero) (auto dest: quiet)
  moreover have "(\<Sum>c\<leftarrow>sy_callers sy. held c) = 0"
    by (rule sum_list_zero) (auto dest: quiet)
  ultimately have "closing_sessions (sy_reaper sy) \<noteq> []"
    using inv asleep wf_max [of limits]
    by (auto simp: pool_inv_def pool_roused_def pool_counted_def capacity_def all_sessions_def
        simp del: sum_list_eq_0_iff)
  then show ?thesis by (cases "sy_reaper sy") auto
qed

section \<open>A run of the pool\<close>

text \<open>One session, one command running on it, and a second caller waiting for the session.\<close>

definition demo_limits :: Concurrency where
  "demo_limits = Concurrency_preallocated 1"

definition demo_sys :: "sid Idle list \<Rightarrow> unit caller list \<Rightarrow> sid Slot list \<Rightarrow> unit pool_sys" where
  "demo_sys idle callers slots =
     \<lparr>sy_state = \<lparr>ps_idle = idle, ps_open = 1, ps_closing = False\<rparr>, sy_callers = callers,
      sy_slots = slots, sy_reaper = No_reaper, sy_next = 1\<rparr>"

lemmas demo_defs = demo_sys_def demo_limits_def Concurrency_preallocated_def Idle_taken_def
  CommandSlot_new_def place_def is_at_def checkout_turn_def State_take_def

lemma demo_start: "pool_reachable demo_limits (demo_sys [Idle_taken 0 0] [] [])"
proof (rule reach_init)
  show "pool_init demo_limits (demo_sys [Idle_taken 0 0] [] [])"
    unfolding pool_init_def
    by (intro conjI exI [of _ 0] exI [of _ "Inr ()"]
        exI [of _ "\<lparr>sp_limits = demo_limits, sp_idles = Idles_new 0 [0] 1, sp_reaper = None\<rparr>"]
        exI [of _ "1 :: nat"])
      (simp_all add: demo_defs Concurrency_wf_def SessionPool_open_def Idles_new_def)
qed

lemma demo_running:
  "pool_reachable demo_limits (demo_sys [] [Commanding 0] [Running 0])"
proof -
  have 1: "pool_step demo_limits (demo_sys [Idle_taken 0 0] [] [])
      (demo_sys [Idle_taken 0 0] [Checking] [Waiting])"
    using pool_step.run_arrives [of "demo_sys [Idle_taken 0 0] [] []" demo_limits]
    by (simp add: demo_defs)
  have 2: "pool_step demo_limits (demo_sys [Idle_taken 0 0] [Checking] [Waiting])
      (demo_sys [] [Holding 0] [Waiting])"
    using pool_step.run_checkout [of 0 "demo_sys [Idle_taken 0 0] [Checking] [Waiting]" demo_limits
        "Checked_out 0" "\<lparr>ps_idle = [], ps_open = 1, ps_closing = False\<rparr>"]
    by (simp add: demo_defs)
  have 3: "pool_step demo_limits (demo_sys [] [Holding 0] [Waiting])
      (demo_sys [] [Commanding 0] [Running 0])"
    using pool_step.run_starts [of 0 0 "demo_sys [] [Holding 0] [Waiting]" True "Running 0" demo_limits]
    by (simp add: demo_defs)
  show ?thesis by (rule reach_step [OF reach_step [OF reach_step [OF demo_start 1] 2] 3])
qed

lemma demo_waiting:
  "pool_reachable demo_limits (demo_sys [] [Commanding 0, Sleeping] [Running 0, Waiting])"
proof -
  have 1: "pool_step demo_limits (demo_sys [] [Commanding 0] [Running 0])
      (demo_sys [] [Commanding 0, Checking] [Running 0, Waiting])"
    using pool_step.run_arrives [of "demo_sys [] [Commanding 0] [Running 0]" demo_limits]
    by (simp add: demo_defs)
  have 2: "pool_step demo_limits (demo_sys [] [Commanding 0, Checking] [Running 0, Waiting])
      (demo_sys [] [Commanding 0, Sleeping] [Running 0, Waiting])"
    using pool_step.run_checkout [of 1 "demo_sys [] [Commanding 0, Checking] [Running 0, Waiting]"
        demo_limits Must_wait "\<lparr>ps_idle = [], ps_open = 1, ps_closing = False\<rparr>"]
    by (simp add: demo_defs)
  show ?thesis by (rule reach_step [OF reach_step [OF demo_running 1] 2])
qed

section \<open>Properties\<close>

text \<open>C1: An interrupt reaches only the command it was armed for. Whenever cancelling the command
  of some caller calls an interrupt, in any reachable state of the pool, the session it kills is
  one that caller is running its own command on: no other caller holds that session, it is not
  free in the pool, and the reaper is not closing it.\<close>

theorem interrupt_hits_own_command:
  assumes "pool_reachable limits sy" and "i < length (sy_slots sy)"
    and "CommandSlot_cancel (sy_slots sy ! i) = (fired, slot)" and "s \<in> set fired"
  shows "commands_on s (sy_callers sy ! i) \<and>
    (\<forall>j < length (sy_callers sy). j \<noteq> i \<longrightarrow> s \<notin># held (sy_callers sy ! j)) \<and>
    s \<notin> set (map idle_session (ps_idle (sy_state sy))) \<and>
    s \<notin> set (closing_sessions (sy_reaper sy))"
proof -
  have inv: "pool_inv limits sy" by (rule pool.reach_inv [OF assms(1)])
  then have armed: "pool_armed sy" and counted: "pool_counted limits sy"
    by (auto simp: pool_inv_def)
  from assms(3,4) have "sy_slots sy ! i = Running s"
    by (cases "sy_slots sy ! i") auto
  with armed assms(2) have own: "commands_on s (sy_callers sy ! i)"
    by (auto simp: pool_armed_def commands_on_def)
  with armed assms(2) have i: "i < length (sy_callers sy)" and s: "s \<in># held (sy_callers sy ! i)"
    by (auto simp: pool_armed_def held_iff)
  with own held_alone [OF counted i s] show ?thesis by blast
qed

theorem interrupt_hits_own_command_witness:
  "commands_on 0 (Commanding 0 :: unit caller) \<and> 0 \<notin># held (Sleeping :: unit caller)"
  using interrupt_hits_own_command [OF demo_waiting, of 0 "[0]" Cancelled 0]
  by (simp add: demo_sys_def)

text \<open>C9: The ceiling. In every reachable state the sessions the engine has open, wherever they
  are (free, on loan or being closed by the reaper), together with the ones callers are about to
  open, are exactly the pool's counter and never more than the policy's maximum; and no session is
  in two places.\<close>

theorem sessions_within_ceiling:
  assumes "pool_reachable limits sy"
  shows "size (all_sessions sy) + (\<Sum>c\<leftarrow>sy_callers sy. is_growing c) = unat (ps_open (sy_state sy)) \<and>
    unat (ps_open (sy_state sy)) \<le> unat (cc_max limits) \<and>
    (\<forall>s. count (all_sessions sy) s \<le> 1)"
  using pool.reach_inv [OF assms] by (simp add: pool_inv_def pool_counted_def)

theorem sessions_within_ceiling_witness:
  "size (all_sessions (demo_sys [] [Commanding 0, Sleeping] [Running 0, Waiting])) = 1 \<and>
   unat (ps_open (sy_state (demo_sys [] [Commanding 0, Sleeping] [Running 0, Waiting]))) \<le>
     unat (cc_max demo_limits)"
  using sessions_within_ceiling [OF demo_waiting] by (simp add: demo_sys_def all_sessions_def)

text \<open>C8: No caller waits for ever for a wakeup that was lost. In any reachable state with a caller
  asleep in \<open>checkout\<close>: if a session is free or there is room under the ceiling, some other caller
  is about to look for one or about to notify; and in any case some caller that is neither asleep
  nor done can take a step of its own, or the reaper is closing sessions and will wake everybody.\<close>

theorem sleepers_are_woken:
  assumes "pool_reachable limits sy" and "Sleeping \<in> set (sy_callers sy)"
  shows "(0 < capacity limits (sy_state sy) \<longrightarrow> (\<exists>i c. is_at i c sy \<and> 0 < is_rousing c)) \<and>
    ((\<exists>i c sy'. is_at i c sy \<and> busy c \<and> pool_step limits sy sy' \<and> \<not> is_at i c sy') \<or>
     (\<exists>xs. sy_reaper sy = Reaper_closes xs))"
proof
  have inv: "pool_inv limits sy" by (rule pool.reach_inv [OF assms(1)])
  then show "(\<exists>i c sy'. is_at i c sy \<and> busy c \<and> pool_step limits sy sy' \<and> \<not> is_at i c sy') \<or>
      (\<exists>xs. sy_reaper sy = Reaper_closes xs)"
    using no_sleeper_alone [OF inv assms(2)] busy_can_step [of _ _ sy limits] by blast
  show "0 < capacity limits (sy_state sy) \<longrightarrow> (\<exists>i c. is_at i c sy \<and> 0 < is_rousing c)"
    using inv assms(2) sum_list_pos_ex [of is_rousing "sy_callers sy"]
    by (auto simp: pool_inv_def pool_roused_def is_at_def simp del: sum_list_eq_0_iff)
qed

theorem sleepers_are_woken_witness:
  "\<exists>i c sy'. is_at i c (demo_sys [] [Commanding 0, Sleeping] [Running 0, Waiting]) \<and> busy c \<and>
     pool_step demo_limits (demo_sys [] [Commanding 0, Sleeping] [Running 0, Waiting]) sy' \<and>
     \<not> is_at i c sy'"
  using sleepers_are_woken [OF demo_waiting] by (auto simp: demo_sys_def)

end
