(* ===== verification/Worker_State.thy ===== *)
theory Worker_State
  imports Errors
begin

text \<open>
  \<open>src/nonblocking/state.rs\<close> and the locked sections of \<open>src/nonblocking/queue.rs\<close> and
  \<open>src/nonblocking/shutdown.rs\<close>: the async layer's job queue, the counts every decision about
  workers is made from, and the rendezvous of a close.

  A job is the closure it carries (a type parameter) or a stop that names its rendezvous; the
  handle on the engine is a type parameter too. The four counters are \<open>u32\<close> and wrap, so that the
  absence of an underflow is a theorem about the threads (in \<open>Worker_Pool\<close>) and not an assumption
  here. The lemmas are the effect of each method on each branch, including that a pool asks for a
  worker exactly when its queue holds more than the free workers and the ones on their way can
  take.
\<close>

section \<open>Jobs, phases and counts\<close>

datatype ('r, 'sd) Job = Run 'r | Stop 'sd

record 'c Spawn =
  spawn_client :: 'c
  spawn_index :: u32

datatype Phase = Open | Closing | Abandoned

record ('r, 'sd, 'c) worker_state =
  ws_queue :: "('r, 'sd) Job list"
  ws_alive :: u32
  ws_pending :: u32
  ws_idle :: u32
  ws_started :: u32
  ws_phase :: Phase
  ws_client :: "'c option"

definition State_new :: "('r, 'sd, 'c) worker_state" where
  "State_new = \<lparr>ws_queue = [], ws_alive = 0, ws_pending = 0, ws_idle = 0, ws_started = 0,
     ws_phase = Open, ws_client = None\<rparr>"

definition State_reserve ::
  "('r, 'sd, 'c) worker_state \<Rightarrow> u32 \<times> ('r, 'sd, 'c) worker_state" where
  "State_reserve st =
     (ws_started st,
      st\<lparr>ws_alive := ws_alive st + 1, ws_pending := ws_pending st + 1,
         ws_started := ws_started st + 1\<rparr>)"

definition State_arrived :: "('r, 'sd, 'c) worker_state \<Rightarrow> ('r, 'sd, 'c) worker_state" where
  "State_arrived st = st\<lparr>ws_pending := ws_pending st - 1\<rparr>"

text \<open>\<open>VecDeque::pop_back\<close> looks at the last element; a job that is no stop is put back.\<close>

definition State_spawn_failed ::
  "('r, 'sd, 'c) worker_state \<Rightarrow> 'sd option \<times> ('r, 'sd, 'c) worker_state" where
  "State_spawn_failed st =
     (let st1 = st\<lparr>ws_alive := ws_alive st - 1, ws_pending := ws_pending st - 1\<rparr> in
      case ws_phase st1 of
        Closing \<Rightarrow>
          (if ws_queue st1 = [] then (None, st1)
           else case last (ws_queue st1) of
                  Stop shutdown \<Rightarrow> (Some shutdown, st1\<lparr>ws_queue := butlast (ws_queue st1)\<rparr>)
                | Run job \<Rightarrow> (None, st1))
      | _ \<Rightarrow> (None, st1))"

definition State_publish :: "'c \<Rightarrow> ('r, 'sd, 'c) worker_state \<Rightarrow> ('r, 'sd, 'c) worker_state" where
  "State_publish client st = (if ws_phase st = Open then st\<lparr>ws_client := Some client\<rparr> else st)"

definition wants_worker :: "u32 \<Rightarrow> ('r, 'sd, 'c) worker_state \<Rightarrow> bool" where
  "wants_worker mx st \<longleftrightarrow>
     ws_alive st < mx \<and> unat (ws_idle st + ws_pending st) < length (ws_queue st)"

definition State_queue_job ::
  "('r, 'sd) Job \<Rightarrow> u32 \<Rightarrow> ('r, 'sd, 'c) worker_state
     \<Rightarrow> ('d error + 'c Spawn option) \<times> ('r, 'sd, 'c) worker_state" where
  "State_queue_job job mx st =
     (if ws_phase st \<noteq> Open then (Inl Closed, st)
      else
        let st1 = st\<lparr>ws_queue := ws_queue st @ [job]\<rparr> in
        if wants_worker mx st1 then
          (case ws_client st1 of
             None \<Rightarrow> (Inr None, st1)
           | Some client \<Rightarrow>
               let (index, st2) = State_reserve st1
               in (Inr (Some \<lparr>spawn_client = client, spawn_index = index\<rparr>), st2))
        else (Inr None, st1))"

definition State_waiting :: "('r, 'sd, 'c) worker_state \<Rightarrow> ('r, 'sd, 'c) worker_state" where
  "State_waiting st = st\<lparr>ws_idle := ws_idle st + 1\<rparr>"

definition State_resumed :: "('r, 'sd, 'c) worker_state \<Rightarrow> ('r, 'sd, 'c) worker_state" where
  "State_resumed st = st\<lparr>ws_idle := ws_idle st - 1\<rparr>"

text \<open>The worker's handle, its second argument, goes with it.\<close>

definition State_retired ::
  "'c option \<Rightarrow> ('r, 'sd, 'c) worker_state \<Rightarrow> 'c option \<times> ('r, 'sd, 'c) worker_state" where
  "State_retired client st =
     (None, st\<lparr>ws_idle := ws_idle st - 1, ws_alive := ws_alive st - 1\<rparr>)"

definition State_take_job ::
  "('r, 'sd, 'c) worker_state \<Rightarrow> ('r, 'sd) Job option \<times> ('r, 'sd, 'c) worker_state" where
  "State_take_job st =
     (case ws_queue st of [] \<Rightarrow> (None, st) | job # q \<Rightarrow> (Some job, st\<lparr>ws_queue := q\<rparr>))"

definition State_abandoned :: "('r, 'sd, 'c) worker_state \<Rightarrow> bool" where
  "State_abandoned st \<longleftrightarrow> ws_phase st = Abandoned"

definition serving :: "('r, 'sd, 'c) worker_state \<Rightarrow> u32" where
  "serving st = ws_alive st - ws_pending st"

definition State_sparable :: "u32 \<Rightarrow> ('r, 'sd, 'c) worker_state \<Rightarrow> bool" where
  "State_sparable mn st \<longleftrightarrow> ws_phase st = Open \<and> mn < serving st"

text \<open>The rendezvous is built from the count by the caller's function.\<close>

definition State_begin_close ::
  "(u32 \<Rightarrow> 'sd) \<Rightarrow> ('r, 'sd, 'c) worker_state
     \<Rightarrow> ('d error + 'sd) \<times> ('r, 'sd, 'c) worker_state" where
  "State_begin_close rendezvous st =
     (if ws_phase st \<noteq> Open \<or> ws_alive st = 0 then (Inl Closed, st)
      else
        let shutdown = rendezvous (ws_alive st) in
        (Inr shutdown,
         st\<lparr>ws_phase := Closing, ws_client := None,
            ws_queue := ws_queue st @ replicate (unat (ws_alive st)) (Stop shutdown)\<rparr>))"

definition State_abandon :: "('r, 'sd, 'c) worker_state \<Rightarrow> ('r, 'sd, 'c) worker_state" where
  "State_abandon st =
     (if ws_phase st \<noteq> Open then st else st\<lparr>ws_phase := Abandoned, ws_client := None\<rparr>)"

section \<open>Waiting for a job\<close>

text \<open>
  One turn of the loop of \<open>Pool::next_job\<close>, from holding the lock to giving it up. The instant
  \<open>sparable_since\<close> is the loop's local variable; \<open>started\<close> is the clock when it is first set and
  \<open>now\<close> when the elapsed time is read. A wait answers the variable and the time left, if any.
\<close>

datatype ('r, 'sd) next_job =
    Takes "('r, 'sd) Job"
  | Leaves
  | Waits "instant option" "duration option"

definition next_job_turn ::
  "Concurrency \<Rightarrow> instant \<Rightarrow> instant \<Rightarrow> instant option \<Rightarrow> 'c option \<Rightarrow> ('r, 'sd, 'c) worker_state
     \<Rightarrow> ('r, 'sd) next_job \<times> 'c option \<times> ('r, 'sd, 'c) worker_state" where
  "next_job_turn limits started now sparable_since client st =
     (case State_take_job st of
        (Some job, st1) \<Rightarrow> (Takes job, client, State_resumed st1)
      | (None, st1) \<Rightarrow>
          if State_abandoned st1 then (Leaves, State_retired client st1)
          else
            let sparable = State_sparable (cc_min limits) st1 in
            case opt_filter (\<lambda>_. sparable) (cc_idle_timeout limits) of
              None \<Rightarrow> (Waits None None, client, st1)
            | Some timeout \<Rightarrow>
                let since = unwrap_or started sparable_since;
                    remaining = timeout - (now - since)
                in if remaining = 0 then (Leaves, State_retired client st1)
                   else (Waits (Some since) (Some remaining), client, st1))"

section \<open>The rendezvous of a close\<close>

text \<open>
  \<open>Shutdown\<close>: how many workers have yet to count themselves out, the handles deposited, and
  whether the reply is still to be sent. \<open>retire\<close> is three atomic actions: the deposit, the
  decrement, and, for the one whose decrement reached zero, the close through the surviving
  handle. \<open>Arc::into_inner\<close> answers the client only when no other handle is left.
\<close>

record Shutdown =
  sd_remaining :: nat
  sd_handles :: nat
  sd_reply :: bool

definition Shutdown_new :: "u32 \<Rightarrow> Shutdown" where
  "Shutdown_new workers = \<lparr>sd_remaining = unat workers, sd_handles = 0, sd_reply = True\<rparr>"

definition retire_deposit :: "Shutdown \<Rightarrow> Shutdown" where
  "retire_deposit sd = sd\<lparr>sd_handles := sd_handles sd + 1\<rparr>"

text \<open>\<open>fetch_sub\<close> answers the value before; \<open>True\<close> is the worker that goes on to close.\<close>

definition retire_decrement :: "Shutdown \<Rightarrow> bool \<times> Shutdown" where
  "retire_decrement sd = (sd_remaining sd = 1, sd\<lparr>sd_remaining := sd_remaining sd - 1\<rparr>)"

datatype close_answer = Engine_close_ran | Not_the_sole_owner

text \<open>\<open>others\<close> counts the handles that are neither deposited nor the survivor.\<close>

definition retire_close :: "nat \<Rightarrow> Shutdown \<Rightarrow> close_answer option \<times> Shutdown" where
  "retire_close others sd =
     (let answer = (if 0 < sd_handles sd \<and> others = 0 then Engine_close_ran else Not_the_sole_owner)
      in (if sd_reply sd then Some answer else None, sd\<lparr>sd_handles := 0, sd_reply := False\<rparr>))"

section \<open>Lemmas\<close>

lemma State_take_job_iff [step_simps]:
  "State_take_job st = (None, st') \<longleftrightarrow> ws_queue st = [] \<and> st' = st"
  "State_take_job st = (Some job, st') \<longleftrightarrow>
     (\<exists>q. ws_queue st = job # q \<and> st' = st\<lparr>ws_queue := q\<rparr>)"
  by (auto simp: State_take_job_def split: list.splits)

lemma State_begin_close_Inr [step_simps]:
  "State_begin_close rendezvous st = (Inr sd, st') \<longleftrightarrow>
     ws_phase st = Open \<and> ws_alive st \<noteq> 0 \<and> sd = rendezvous (ws_alive st) \<and>
     st' = st\<lparr>ws_phase := Closing, ws_client := None,
            ws_queue := ws_queue st @ replicate (unat (ws_alive st)) (Stop sd)\<rparr>"
  by (auto simp: State_begin_close_def Let_def)

lemma State_queue_job_cases:
  assumes "State_queue_job job mx st = (r, st')"
  obtains (refused) "ws_phase st \<noteq> Open" "r = Inl Closed" "st' = st"
  | (queued) "ws_phase st = Open" "r = Inr None" "st' = st\<lparr>ws_queue := ws_queue st @ [job]\<rparr>"
  | (spawns) client where "ws_phase st = Open" "ws_client st = Some client"
      "ws_alive st < mx"
      "unat (ws_idle st + ws_pending st) < length (ws_queue st) + 1"
      "r = Inr (Some \<lparr>spawn_client = client, spawn_index = ws_started st\<rparr>)"
      "st' = st\<lparr>ws_queue := ws_queue st @ [job], ws_alive := ws_alive st + 1,
          ws_pending := ws_pending st + 1, ws_started := ws_started st + 1\<rparr>"
  using assms
  by (auto simp: State_queue_job_def wants_worker_def State_reserve_def Let_def
      split: if_splits option.splits)

lemma next_job_turn_cases:
  assumes "next_job_turn limits started now since client st = (out, client', st')"
  obtains (takes) job q where "ws_queue st = job # q" "out = Takes job" "client' = client"
      "st' = st\<lparr>ws_queue := q, ws_idle := ws_idle st - 1\<rparr>"
  | (leaves) "ws_queue st = []" "out = Leaves" "client' = None"
      "ws_phase st = Abandoned \<or> State_sparable (cc_min limits) st"
      "st' = st\<lparr>ws_idle := ws_idle st - 1, ws_alive := ws_alive st - 1\<rparr>"
  | (waits) since' left where "ws_queue st = []" "out = Waits since' left" "client' = client"
      "st' = st" "ws_phase st \<noteq> Abandoned"
proof -
  obtain job st1 where take: "State_take_job st = (job, st1)" by (cases "State_take_job st")
  show thesis
  proof (cases job)
    case (Some j)
    then obtain q where q: "ws_queue st = j # q" "st1 = st\<lparr>ws_queue := q\<rparr>"
      using take by (auto simp: step_simps)
    with assms take Some have "out = Takes j" "client' = client" "st' = State_resumed st1"
      by (auto simp: next_job_turn_def)
    with q show thesis by (intro takes [of j q]) (auto simp: State_resumed_def)
  next
    case None
    then have st1: "ws_queue st = []" "st1 = st" using take by (auto simp: step_simps)
    show thesis
    proof (cases "out = Leaves")
      case True
      with assms take None st1 show thesis
        by (intro leaves)
          (auto simp: next_job_turn_def State_retired_def State_abandoned_def Let_def
            split: if_splits option.splits dest: opt_filter_Some_iff [THEN iffD1])
    next
      case False
      with assms take None st1 show thesis
        by (intro waits [of "case out of Waits s l \<Rightarrow> s | _ \<Rightarrow> None"
              "case out of Waits s l \<Rightarrow> l | _ \<Rightarrow> None"])
          (auto simp: next_job_turn_def State_abandoned_def Let_def
            split: if_splits option.splits)
    qed
  qed
qed

end
