(* ===== verification/Worker_Pool.thy ===== *)
theory Worker_Pool
  imports Worker_State
begin

text \<open>
  The threads of the async layer, run together: \<open>src/nonblocking/workers.rs\<close> (how workers start,
  serve and stop), the waits and wakeups of \<open>src/nonblocking/queue.rs\<close>, the rendezvous of
  \<open>src/nonblocking/shutdown.rs\<close>, and the calls of \<open>src/nonblocking/engine.rs\<close> that reach them
  (dispatch, close, the drop of the last handle).

  Every thread is an \<open>agent\<close> at some place of the source; the step relation interleaves the locked
  sections of \<open>Worker_State\<close>. A handle on the engine (an \<open>Arc\<close>) is counted at every place that
  holds one. The invariant ties the counters (idle, pending, alive and the rendezvous' own) to the places of the agents, the stops in the
  queue to the workers left to take them, and the sleepers to a pending wakeup. From it follow:
  a close is answered at most once, every run of a closing pool is finite and can only stop with the
  close answered, a queued job always has somebody to run it, and no counter ever wraps.
\<close>

section \<open>Places\<close>

datatype agent =
    Opening nat
  | Opening_spawn nat
  | Notifying_one bool
  | Spawning
  | Letting_go
  | Arriving
  | Asking
  | Looking "instant option"
  | Dozing "instant option"
  | Working
  | Stopping
  | Deposited
  | Last_out
  | Rousing
  | Gone

record 'r wsys =
  wy_state :: "('r, unit, unit) worker_state"
  wy_agents :: "agent list"
  wy_shutdown :: "Shutdown option"
  wy_answers :: "close_answer list"
  wy_held :: bool

text \<open>
  \<open>wy_held\<close>: the caller's \<open>Handle\<close> has not been dropped. It is built before the open is awaited and
  dropped once, by the last clone of \<open>Engine\<close>; queueing a job and closing are calls on it.

  At first the open's thread has counted itself and has the rest of the floor to start.
\<close>

definition workers_init :: "Concurrency \<Rightarrow> 'r wsys \<Rightarrow> bool" where
  "workers_init limits sy \<longleftrightarrow>
     Concurrency_wf limits \<and>
     sy = \<lparr>wy_state = snd (State_reserve State_new),
           wy_agents = [Opening (unat (cc_min limits) - 1)],
           wy_shutdown = None, wy_answers = [], wy_held = True\<rparr>"

fun is_opening :: "agent \<Rightarrow> bool" where
  "is_opening (Opening _) = True"
| "is_opening (Opening_spawn _) = True"
| "is_opening _ = False"

fun is_dozing :: "agent \<Rightarrow> bool" where
  "is_dozing (Dozing _) = True"
| "is_dozing _ = False"

definition opened :: "'r wsys \<Rightarrow> bool" where
  "opened sy \<longleftrightarrow> \<not> list_ex is_opening (wy_agents sy)"

text \<open>How many handles on the engine each place holds.\<close>

fun holds :: "agent \<Rightarrow> nat" where
  "holds (Opening _) = 1"
| "holds (Opening_spawn _) = 2"
| "holds (Notifying_one b) = of_bool b"
| "holds Spawning = 1"
| "holds Letting_go = 1"
| "holds Arriving = 1"
| "holds Asking = 1"
| "holds (Looking _) = 1"
| "holds (Dozing _) = 1"
| "holds Working = 1"
| "holds Stopping = 1"
| "holds _ = 0"

abbreviation total :: "(agent \<Rightarrow> nat) \<Rightarrow> 'r wsys \<Rightarrow> nat" where
  "total f sy \<equiv> \<Sum>a\<leftarrow>wy_agents sy. f a"

text \<open>The handles outside the rendezvous' vault.\<close>

definition handles_outside :: "'r wsys \<Rightarrow> nat" where
  "handles_outside sy = of_bool (ws_client (wy_state sy) \<noteq> None) + total holds sy"

section \<open>Steps\<close>

definition shift :: "nat \<Rightarrow> agent \<Rightarrow> agent list \<Rightarrow> 'r wsys \<Rightarrow> 'r wsys" where
  "shift i a as sy = sy\<lparr>wy_agents := (wy_agents sy)[i := a] @ as\<rparr>"

definition agent_at :: "nat \<Rightarrow> agent \<Rightarrow> 'r wsys \<Rightarrow> bool" where
  "agent_at i a sy \<longleftrightarrow> i < length (wy_agents sy) \<and> wy_agents sy ! i = a"

fun rouse :: "agent \<Rightarrow> agent" where
  "rouse (Dozing since) = Looking since"
| "rouse a = a"

fun after_notify :: "bool \<Rightarrow> agent" where
  "after_notify True = Spawning"
| "after_notify False = Gone"

fun after_look :: "('r, 'sd) next_job \<Rightarrow> agent" where
  "after_look (Takes (Run job)) = Working"
| "after_look (Takes (Stop shutdown)) = Stopping"
| "after_look Leaves = Gone"
| "after_look (Waits since left) = Dozing since"

text \<open>
  In the order of the sources. \<open>start\<close>: the open's thread reserves and spawns the floor, then
  publishes its handle and serves. \<open>Engine::dispatch\<close>: queue the job, notify one, start the worker
  asked for; a worker that could not be started gives its count back and, if a close began in
  between, retires in its place. \<open>serve\<close>: arrive, then ask for jobs; \<open>next_job\<close> counts the worker
  as waiting and looks in one locked section, and looks again each time it wakes. A command that
  panics is caught, so running one always comes back to asking. \<open>Shutdown::retire\<close>: deposit,
  decrement, and the last one closes. \<open>Engine::close\<close> and the drop of the last \<open>Handle\<close> change
  the phase under the lock and notify everybody after it. The drop happens once; it may fall
  anywhere here, also beside a dispatch whose borrow of the handle would put it off.
\<close>

inductive worker_step :: "Concurrency \<Rightarrow> 'r wsys \<Rightarrow> 'r wsys \<Rightarrow> bool" for limits where
  open_reserves:
    "agent_at i (Opening (Suc n)) sy \<Longrightarrow>
     worker_step limits sy (shift i (Opening_spawn n) []
       (sy\<lparr>wy_state := snd (State_reserve (wy_state sy))\<rparr>))"
| open_spawns:
    "agent_at i (Opening_spawn n) sy \<Longrightarrow> worker_step limits sy (shift i (Opening n) [Arriving] sy)"
| open_spawn_fails:
    "agent_at i (Opening_spawn n) sy \<Longrightarrow> State_spawn_failed (wy_state sy) = (None, st) \<Longrightarrow>
     worker_step limits sy (shift i (Opening n) [] (sy\<lparr>wy_state := st\<rparr>))"
| open_publishes:
    "agent_at i (Opening 0) sy \<Longrightarrow>
     worker_step limits sy (shift i Arriving [] (sy\<lparr>wy_state := State_publish () (wy_state sy)\<rparr>))"
| dispatches:
    "opened sy \<Longrightarrow>
     State_queue_job (Run job) (cc_max limits) (wy_state sy) = (Inr spawn :: unit error + _, st) \<Longrightarrow>
     wy_held sy \<Longrightarrow>
     worker_step limits sy (sy\<lparr>wy_state := st,
       wy_agents := wy_agents sy @ [Notifying_one (spawn \<noteq> None)]\<rparr>)"
| notifies_one:
    "agent_at i (Notifying_one b) sy \<Longrightarrow> agent_at j (Dozing since) sy \<Longrightarrow>
     worker_step limits sy (shift j (Looking since) [] (shift i (after_notify b) [] sy))"
| notifies_none:
    "agent_at i (Notifying_one b) sy \<Longrightarrow> \<not> list_ex is_dozing (wy_agents sy) \<Longrightarrow>
     worker_step limits sy (shift i (after_notify b) [] sy)"
| spawns:
    "agent_at i Spawning sy \<Longrightarrow> worker_step limits sy (shift i Letting_go [Arriving] sy)"
| spawn_fails:
    "agent_at i Spawning sy \<Longrightarrow> State_spawn_failed (wy_state sy) = (shutdown, st) \<Longrightarrow>
     worker_step limits sy (shift i (if shutdown = None then Letting_go else Stopping) []
       (sy\<lparr>wy_state := st\<rparr>))"
| lets_go:
    "agent_at i Letting_go sy \<Longrightarrow> worker_step limits sy (shift i Gone [] sy)"
| arrives:
    "agent_at i Arriving sy \<Longrightarrow>
     worker_step limits sy (shift i Asking [] (sy\<lparr>wy_state := State_arrived (wy_state sy)\<rparr>))"
| asks:
    "agent_at i Asking sy \<Longrightarrow>
     next_job_turn limits started now None (Some ()) (State_waiting (wy_state sy)) =
       (out, held, st) \<Longrightarrow>
     worker_step limits sy (shift i (after_look out) [] (sy\<lparr>wy_state := st\<rparr>))"
| looks:
    "agent_at i (Looking since) sy \<Longrightarrow>
     next_job_turn limits started now since (Some ()) (wy_state sy) = (out, held, st) \<Longrightarrow>
     worker_step limits sy (shift i (after_look out) [] (sy\<lparr>wy_state := st\<rparr>))"
| wakes:
    "agent_at i (Dozing since) sy \<Longrightarrow> worker_step limits sy (shift i (Looking since) [] sy)"
| finishes:
    "agent_at i Working sy \<Longrightarrow> worker_step limits sy (shift i Asking [] sy)"
| deposits:
    "agent_at i Stopping sy \<Longrightarrow> wy_shutdown sy = Some sd \<Longrightarrow>
     worker_step limits sy (shift i Deposited [] (sy\<lparr>wy_shutdown := Some (retire_deposit sd)\<rparr>))"
| decrements:
    "agent_at i Deposited sy \<Longrightarrow> wy_shutdown sy = Some sd \<Longrightarrow>
     retire_decrement sd = (last_out, sd') \<Longrightarrow>
     worker_step limits sy (shift i (if last_out then Last_out else Gone) []
       (sy\<lparr>wy_shutdown := Some sd'\<rparr>))"
| closes:
    "agent_at i Last_out sy \<Longrightarrow> wy_shutdown sy = Some sd \<Longrightarrow>
     retire_close (handles_outside sy) sd = (answer, sd') \<Longrightarrow>
     worker_step limits sy (shift i Gone [] (sy\<lparr>wy_shutdown := Some sd',
       wy_answers := wy_answers sy @ (case answer of None \<Rightarrow> [] | Some r \<Rightarrow> [r])\<rparr>))"
| close_begins:
    "opened sy \<Longrightarrow>
     State_begin_close (\<lambda>_. ()) (wy_state sy) = (Inr shutdown :: unit error + _, st) \<Longrightarrow>
     wy_held sy \<Longrightarrow>
     worker_step limits sy (sy\<lparr>wy_state := st,
       wy_shutdown := Some (Shutdown_new (ws_alive (wy_state sy))),
       wy_agents := wy_agents sy @ [Rousing]\<rparr>)"
| abandons:
    "wy_held sy \<Longrightarrow>
     worker_step limits sy (sy\<lparr>wy_state := State_abandon (wy_state sy),
       wy_agents := wy_agents sy @ [Rousing], wy_held := False\<rparr>)"
| rouses:
    "agent_at i Rousing sy \<Longrightarrow>
     worker_step limits sy (sy\<lparr>wy_agents := map rouse ((wy_agents sy)[i := Gone])\<rparr>)"

section \<open>The invariant\<close>

text \<open>Counted in \<open>alive\<close>; of those, still on their way; free; and sure to reach the queue.\<close>

fun counted :: "agent \<Rightarrow> nat" where
  "counted (Opening _) = 1"
| "counted (Opening_spawn _) = 2"
| "counted (Notifying_one b) = of_bool b"
| "counted Spawning = 1"
| "counted Arriving = 1"
| "counted Asking = 1"
| "counted (Looking _) = 1"
| "counted (Dozing _) = 1"
| "counted Working = 1"
| "counted _ = 0"

fun on_way :: "agent \<Rightarrow> nat" where
  "on_way (Opening _) = 1"
| "on_way (Opening_spawn _) = 2"
| "on_way (Notifying_one b) = of_bool b"
| "on_way Spawning = 1"
| "on_way Arriving = 1"
| "on_way _ = 0"

fun free :: "agent \<Rightarrow> nat" where
  "free (Looking _) = 1"
| "free (Dozing _) = 1"
| "free _ = 0"

fun sure :: "agent \<Rightarrow> nat" where
  "sure (Opening _) = 1"
| "sure (Opening_spawn _) = 1"
| "sure Arriving = 1"
| "sure Asking = 1"
| "sure (Looking _) = 1"
| "sure (Dozing _) = 1"
| "sure Working = 1"
| "sure _ = 0"

fun to_start :: "agent \<Rightarrow> nat" where
  "to_start (Opening n) = n"
| "to_start (Opening_spawn n) = n"
| "to_start _ = 0"

fun retiring :: "agent \<Rightarrow> nat" where
  "retiring Stopping = 1"
| "retiring Deposited = 1"
| "retiring _ = 0"

fun deposited :: "agent \<Rightarrow> nat" where
  "deposited Deposited = 1"
| "deposited Last_out = 1"
| "deposited _ = 0"

fun last_out :: "agent \<Rightarrow> nat" where
  "last_out Last_out = 1"
| "last_out _ = 0"

fun alert :: "agent \<Rightarrow> nat" where
  "alert (Looking _) = 1"
| "alert (Notifying_one _) = 1"
| "alert _ = 0"

fun letting_go :: "agent \<Rightarrow> nat" where
  "letting_go Letting_go = 1"
| "letting_go _ = 0"

definition counts_ok :: "Concurrency \<Rightarrow> 'r wsys \<Rightarrow> bool" where
  "counts_ok limits sy \<longleftrightarrow>
     total counted sy \<le> unat (ws_alive (wy_state sy)) \<and>
     (ws_phase (wy_state sy) \<noteq> Closing \<longrightarrow> unat (ws_alive (wy_state sy)) = total counted sy) \<and>
     unat (ws_alive (wy_state sy)) + total to_start sy \<le> unat (cc_max limits) \<and>
     unat (ws_pending (wy_state sy)) = total on_way sy \<and>
     unat (ws_idle (wy_state sy)) = total free sy"

definition queue_ok :: "'r wsys \<Rightarrow> bool" where
  "queue_ok sy \<longleftrightarrow>
     (\<exists>jobs. ws_queue (wy_state sy) = map Run jobs @
        replicate (if ws_phase (wy_state sy) = Closing then total counted sy else 0) (Stop ()) \<and>
        (ws_phase (wy_state sy) = Open \<or> jobs \<noteq> [] \<longrightarrow> 0 < total sure sy))"

definition close_ok :: "'r wsys \<Rightarrow> bool" where
  "close_ok sy \<longleftrightarrow>
     (case wy_shutdown sy of
        None \<Rightarrow> ws_phase (wy_state sy) \<noteq> Closing \<and> wy_answers sy = [] \<and>
          total retiring sy = 0 \<and> total last_out sy = 0
      | Some sd \<Rightarrow> ws_phase (wy_state sy) = Closing \<and> opened sy \<and>
          ws_client (wy_state sy) = None \<and>
          sd_remaining sd = total counted sy + total retiring sy \<and>
          total deposited sy \<le> sd_handles sd \<and>
          (sd_reply sd \<longleftrightarrow> wy_answers sy = []) \<and>
          (if sd_remaining sd = 0 then 0 else 1) + total last_out sy + length (wy_answers sy) = 1)"

definition wake_ok :: "'r wsys \<Rightarrow> bool" where
  "wake_ok sy \<longleftrightarrow>
     (list_ex is_dozing (wy_agents sy) \<longrightarrow>
        Rousing \<in> set (wy_agents sy) \<or>
        ws_phase (wy_state sy) \<noteq> Abandoned \<and> length (ws_queue (wy_state sy)) \<le> total alert sy)"

definition workers_inv :: "Concurrency \<Rightarrow> 'r wsys \<Rightarrow> bool" where
  "workers_inv limits sy \<longleftrightarrow>
     Concurrency_wf limits \<and> counts_ok limits sy \<and> queue_ok sy \<and> close_ok sy \<and> wake_ok sy"

section \<open>Totals after a step\<close>

declare sum_list_eq_0_iff [simp del]

lemma shift_simps [simp]:
  "wy_state (shift i a as sy) = wy_state sy" "wy_shutdown (shift i a as sy) = wy_shutdown sy"
  "wy_answers (shift i a as sy) = wy_answers sy"
  "wy_agents (shift i a as sy) = (wy_agents sy)[i := a] @ as"
  by (simp_all add: shift_def)

lemma total_shift:
  assumes "agent_at i a0 sy"
  shows "total f (shift i a as sy) + f a0 = total f sy + f a + sum_list (map f as)"
  using sum_list_replace [of i "wy_agents sy" f a] assms by (simp add: agent_at_def)

text \<open>All the totals of a shift at once, over any state that keeps the agents.\<close>

lemma totals:
  assumes "agent_at i a0 sy0" and "wy_agents sy = wy_agents sy0"
  shows "total counted (shift i a as sy) + counted a0 = total counted sy + counted a + sum_list (map counted as)"
    and "total on_way (shift i a as sy) + on_way a0 = total on_way sy + on_way a + sum_list (map on_way as)"
    and "total free (shift i a as sy) + free a0 = total free sy + free a + sum_list (map free as)"
    and "total sure (shift i a as sy) + sure a0 = total sure sy + sure a + sum_list (map sure as)"
    and "total to_start (shift i a as sy) + to_start a0 = total to_start sy + to_start a + sum_list (map to_start as)"
    and "total retiring (shift i a as sy) + retiring a0 = total retiring sy + retiring a + sum_list (map retiring as)"
    and "total deposited (shift i a as sy) + deposited a0 = total deposited sy + deposited a + sum_list (map deposited as)"
    and "total last_out (shift i a as sy) + last_out a0 = total last_out sy + last_out a + sum_list (map last_out as)"
    and "total alert (shift i a as sy) + alert a0 = total alert sy + alert a + sum_list (map alert as)"
    and "total letting_go (shift i a as sy) + letting_go a0 = total letting_go sy + letting_go a + sum_list (map letting_go as)"
  using total_shift [of i a0 sy] assms by (simp_all add: agent_at_def)

lemma total_ge: "agent_at i a sy \<Longrightarrow> (f :: agent \<Rightarrow> nat) a \<le> total f sy"
  by (auto simp: agent_at_def intro!: member_le_sum_list)

lemma rouse_simps [simp]:
  "counted (rouse a) = counted a" "on_way (rouse a) = on_way a" "free (rouse a) = free a"
  "sure (rouse a) = sure a" "to_start (rouse a) = to_start a" "retiring (rouse a) = retiring a"
  "deposited (rouse a) = deposited a" "last_out (rouse a) = last_out a"
  "is_dozing (rouse a) = False" "is_opening (rouse a) = is_opening a"
  by (cases a; simp)+

lemma agent_at_shift:
  assumes "agent_at j a sy" and "agent_at i b sy" and "a \<noteq> b"
  shows "agent_at j a (shift i c as sy)"
  using assms by (auto simp: agent_at_def nth_append nth_list_update)

lemma to_start_opening: "\<not> is_opening a \<Longrightarrow> to_start a = 0"
  by (cases a) auto

lemma opened_to_start: "opened sy \<Longrightarrow> total to_start sy = 0"
  by (rule sum_list_zero) (auto simp: opened_def list_ex_iff to_start_opening)

lemma after_notify_simps [simp]:
  "counted (after_notify b) = of_bool b" "on_way (after_notify b) = of_bool b"
  "free (after_notify b) = 0" "sure (after_notify b) = 0" "to_start (after_notify b) = 0"
  "retiring (after_notify b) = 0" "deposited (after_notify b) = 0" "last_out (after_notify b) = 0"
  "alert (after_notify b) = 0" "is_dozing (after_notify b) = False"
  "is_opening (after_notify b) = False"
  by (cases b; simp)+

lemma publish_simps [simp]:
  "ws_alive (State_publish c st) = ws_alive st" "ws_pending (State_publish c st) = ws_pending st"
  "ws_idle (State_publish c st) = ws_idle st" "ws_phase (State_publish c st) = ws_phase st"
  "ws_queue (State_publish c st) = ws_queue st"
  by (simp_all add: State_publish_def)

section \<open>The counters\<close>

lemma of_word_le: "unat (x :: u32) \<le> 256 \<Longrightarrow> unat (x + 1) = unat x + 1"
  by (simp add: word_counts)

lemma counts_bound:
  assumes "Concurrency_wf limits" and "counts_ok limits sy"
  shows "unat (ws_alive (wy_state sy)) \<le> 256"
  using assms by (simp add: Concurrency_wf_def counts_ok_def)

lemma on_way_le_counted: "on_way a + free a \<le> counted a"
  by (cases a) auto

lemma totals_le: "total on_way sy + total free sy \<le> total counted sy"
proof -
  have "(\<Sum>a\<leftarrow>as. on_way a) + (\<Sum>a\<leftarrow>as. free a) \<le> (\<Sum>a\<leftarrow>as. counted a)" for as
  proof (induction as)
    case (Cons a as)
    with on_way_le_counted [of a] show ?case by simp
  qed simp
  then show ?thesis .
qed

text \<open>A counter keeps being the total it counts when both move together.\<close>

lemma counts_cong:
  assumes "counts_ok limits sy"
    and "unat (ws_alive (wy_state sy')) + total counted sy = unat (ws_alive (wy_state sy)) + total counted sy'"
    and "unat (ws_alive (wy_state sy')) + total to_start sy' \<le> unat (cc_max limits)"
    and "unat (ws_pending (wy_state sy')) = total on_way sy'"
    and "unat (ws_idle (wy_state sy')) = total free sy'"
    and "ws_phase (wy_state sy') \<noteq> Closing \<Longrightarrow> ws_phase (wy_state sy) \<noteq> Closing"
  shows "counts_ok limits sy'"
  using assms by (auto simp: counts_ok_def)

lemma counts_keep:
  assumes "counts_ok limits sy" and at: "agent_at i a0 sy"
    and "wy_state sy1 = wy_state sy" and "wy_agents sy1 = wy_agents sy"
    and "counted a + (\<Sum>b\<leftarrow>as. counted b) = counted a0" and "to_start a + (\<Sum>b\<leftarrow>as. to_start b) = to_start a0"
    and "on_way a + (\<Sum>b\<leftarrow>as. on_way b) = on_way a0" and "free a + (\<Sum>b\<leftarrow>as. free b) = free a0"
  shows "counts_ok limits (shift i a as sy1)"
  using assms(1,3-) totals [OF at assms(4), where a = a and as = as]
  by (intro counts_cong [OF assms(1)]) (simp_all add: counts_ok_def)

lemma counts_spawn_failed:
  assumes inv: "counts_ok limits sy" and at: "agent_at i a0 sy"
    and fail: "State_spawn_failed (wy_state sy) = (shutdown, st)"
    and a: "counted a + 1 = counted a0" "to_start a = to_start a0" "on_way a + 1 = on_way a0" "free a = free a0"
  shows "counts_ok limits (shift i a [] (sy\<lparr>wy_state := st\<rparr>))"
proof -
  note t = totals [OF at, of "sy\<lparr>wy_state := st\<rparr>" a "[]"]
  have st: "ws_alive st = ws_alive (wy_state sy) - 1" "ws_pending st = ws_pending (wy_state sy) - 1"
    "ws_idle st = ws_idle (wy_state sy)" "ws_phase st = ws_phase (wy_state sy)"
    using fail by (auto simp: State_spawn_failed_def Let_def split: Phase.splits if_splits Job.splits)
  have "0 < total counted sy" "0 < total on_way sy" using t a by simp_all
  then have "0 < unat (ws_alive (wy_state sy))" "0 < unat (ws_pending (wy_state sy))"
    using inv by (auto simp: counts_ok_def)
  then have "unat (ws_alive st) + 1 = unat (ws_alive (wy_state sy))"
    "unat (ws_pending st) + 1 = unat (ws_pending (wy_state sy))"
    by (simp_all add: st word_counts)
  with t a st inv show ?thesis
    by (intro counts_cong [OF inv]) (simp_all add: counts_ok_def)
qed

lemma counts_look:
  assumes inv: "counts_ok limits sy" and at: "agent_at i a0 sy"
    and turn: "next_job_turn limits started now since (Some ()) st0 = (out, held, st)"
    and st0: "ws_alive st0 = ws_alive (wy_state sy)" "ws_pending st0 = ws_pending (wy_state sy)"
      "ws_phase st0 = ws_phase (wy_state sy)"
      "unat (ws_idle st0) = total free sy + 1 - free a0"
    and a0: "counted a0 = 1" "to_start a0 = 0" "on_way a0 = 0" "free a0 \<le> 1"
    and stop: "\<And>q. ws_queue st0 = Stop () # q \<Longrightarrow> ws_phase (wy_state sy) = Closing"
  shows "counts_ok limits (shift i (after_look out) [] (sy\<lparr>wy_state := st\<rparr>))"
proof -
  note t = totals [OF at, of "sy\<lparr>wy_state := st\<rparr>" "after_look out" "[]"]
  have idle: "0 < unat (ws_idle st0)" using st0 a0 total_ge [OF at, of free] by simp
  from turn show ?thesis
  proof (cases rule: next_job_turn_cases)
    case (takes job q)
    show ?thesis
    proof (cases job)
      case (Run r)
      with takes idle st0 a0 t inv show ?thesis
        by (intro counts_cong [OF inv]) (auto simp: counts_ok_def word_counts)
    next
      case (Stop sd)
      with takes idle st0 a0 t inv stop [of q] show ?thesis
        by (auto simp: counts_ok_def word_counts)
    qed
  next
    case leaves
    have "0 < total counted sy" using total_ge [OF at, of counted] a0 by simp
    then have "0 < unat (ws_alive (wy_state sy))" using inv by (auto simp: counts_ok_def)
    with leaves st0 a0 t inv idle show ?thesis
      by (intro counts_cong [OF inv]) (auto simp: counts_ok_def word_counts)
  next
    case (waits since' left)
    with st0 a0 t inv show ?thesis
      by (intro counts_cong [OF inv]) (auto simp: counts_ok_def)
  qed
qed

lemma queue_stop_closing: "queue_ok sy \<Longrightarrow> ws_queue (wy_state sy) = Stop () # q \<Longrightarrow> ws_phase (wy_state sy) = Closing"
  by (auto simp: queue_ok_def Cons_eq_append_conv split: if_splits)

lemma counts_step:
  assumes step: "worker_step limits sy sy'" and wf: "Concurrency_wf limits"
    and inv: "counts_ok limits sy" and queue: "queue_ok sy"
  shows "counts_ok limits sy'"
proof -
  note bound = counts_bound [OF wf inv]
  from inv have le: "unat (ws_pending (wy_state sy)) + unat (ws_idle (wy_state sy)) \<le> 256"
    using totals_le [of sy] bound by (simp add: counts_ok_def)
  have inc: "unat (ws_alive (wy_state sy) + 1) = unat (ws_alive (wy_state sy)) + 1"
    "unat (ws_pending (wy_state sy) + 1) = unat (ws_pending (wy_state sy)) + 1"
    "unat (ws_idle (wy_state sy) + 1) = unat (ws_idle (wy_state sy)) + 1"
    using bound le by (intro of_word_le; linarith)+
  from step show ?thesis
  proof cases
    case (open_reserves i n)
    with totals(1,2,3,5) [OF open_reserves(2), of "sy\<lparr>wy_state := snd (State_reserve (wy_state sy))\<rparr>"
        "Opening_spawn n" "[]"] inv inc show ?thesis
      by (intro counts_cong [OF inv]) (simp_all add: counts_ok_def State_reserve_def)
  next
    case (open_spawns i n)
    then show ?thesis using counts_keep [OF inv open_spawns(2), of sy "Opening n" "[Arriving]"] by simp
  next
    case (open_spawn_fails i n st)
    then show ?thesis using counts_spawn_failed [OF inv open_spawn_fails(2,3)] by simp
  next
    case (open_publishes i)
    with totals [OF open_publishes(2), of "sy\<lparr>wy_state := State_publish () (wy_state sy)\<rparr>"
        "Arriving" "[]"] inv show ?thesis
      by (intro counts_cong [OF inv]) (simp_all add: counts_ok_def)
  next
    case (dispatches job spawn st)
    from dispatches(3) show ?thesis
    proof (cases rule: State_queue_job_cases)
      case (spawns client)
      then have "unat (ws_alive (wy_state sy)) < unat (cc_max limits)" by (simp add: word_less_nat_alt)
      moreover note opened_to_start [OF dispatches(2)]
      ultimately show ?thesis using dispatches(1) spawns inv inc
        by (intro counts_cong [OF inv]) (simp_all add: counts_ok_def)
    qed (use dispatches(1) inv in \<open>auto intro!: counts_cong [OF inv] simp: counts_ok_def\<close>)
  next
    case (spawn_fails i shutdown st)
    then show ?thesis using counts_spawn_failed [OF inv spawn_fails(2,3)] by simp
  next
    case (arrives i)
    have "0 < unat (ws_pending (wy_state sy))"
      using total_ge [OF arrives(2), of on_way] inv by (simp add: counts_ok_def)
    with arrives totals [OF arrives(2), of "sy\<lparr>wy_state := State_arrived (wy_state sy)\<rparr>"
        "Asking" "[]"] inv show ?thesis
      by (intro counts_cong [OF inv]) (simp_all add: counts_ok_def State_arrived_def word_counts)
  next
    case (asks i started now out held st)
    have "unat (ws_idle (wy_state sy) + 1) = total free sy + 1"
      using inv inc by (simp add: counts_ok_def)
    with asks counts_look [OF inv asks(2,3)] queue_stop_closing [OF queue] show ?thesis
      by (simp add: State_waiting_def)
  next
    case (looks i since started now out held st)
    with counts_look [OF inv looks(2,3)] queue_stop_closing [OF queue] inv show ?thesis
      by (simp add: counts_ok_def)
  next
    case (decrements i sd last_out sd')
    with counts_keep [OF inv decrements(2), of "sy\<lparr>wy_shutdown := Some sd'\<rparr>"
        "if last_out then Last_out else Gone" "[]"] show ?thesis by (cases last_out) simp_all
  next
    case (notifies_one i b j since)
    have "counts_ok limits (shift i (after_notify b) [] sy)"
      using counts_keep [OF inv notifies_one(2), of sy] by simp
    from counts_keep [OF this agent_at_shift [OF notifies_one(3,2)], of _ "Looking since" "[]"]
    show ?thesis by (simp add: notifies_one(1))
  next
    case (close_begins shutdown st)
    with inv show ?thesis by (auto simp: counts_ok_def step_simps)
  next
    case abandons
    with inv show ?thesis by (auto simp: counts_ok_def State_abandon_def)
  next
    case (rouses i)
    have "counts_ok limits (shift i Gone [] sy)"
      using counts_keep [OF inv rouses(2), of sy Gone "[]"] by simp
    then show ?thesis
      by (simp add: rouses(1) counts_ok_def comp_def)
  next
    case (notifies_none i b)
    with counts_keep [OF inv notifies_none(2), of "sy" "after_notify b" "[]"] show ?thesis by simp
  next
    case (spawns i)
    with counts_keep [OF inv spawns(2), of "sy" "Letting_go" "[Arriving]"] show ?thesis by simp
  next
    case (lets_go i)
    with counts_keep [OF inv lets_go(2), of "sy" "Gone" "[]"] show ?thesis by simp
  next
    case (wakes i since)
    with counts_keep [OF inv wakes(2), of "sy" "Looking since" "[]"] show ?thesis by simp
  next
    case (finishes i)
    with counts_keep [OF inv finishes(2), of "sy" "Asking" "[]"] show ?thesis by simp
  next
    case (deposits i sd)
    with counts_keep [OF inv deposits(2), of "sy\<lparr>wy_shutdown := Some (retire_deposit sd)\<rparr>" "Deposited" "[]"] show ?thesis by simp
  next
    case (closes i sd answer sd')
    with counts_keep [OF inv closes(2), of "sy\<lparr>wy_shutdown := Some sd', wy_answers := wy_answers sy @ (case answer of None \<Rightarrow> [] | Some r \<Rightarrow> [r])\<rparr>" "Gone" "[]"] show ?thesis by simp
  qed
qed

section \<open>The queue\<close>

text \<open>What stands in the queue once the runs are gone, and who is sure to come for it.\<close>

lemma queue_okI:
  assumes "ws_queue (wy_state sy) = map Run jobs @
      replicate (if ws_phase (wy_state sy) = Closing then total counted sy else 0) (Stop ())"
    and "ws_phase (wy_state sy) = Open \<or> jobs \<noteq> [] \<Longrightarrow> 0 < total sure sy"
  shows "queue_ok sy"
  using assms by (auto simp: queue_ok_def)

lemma queue_keep:
  assumes "queue_ok sy" and at: "agent_at i a0 sy"
    and "ws_queue (wy_state sy1) = ws_queue (wy_state sy)"
    and "ws_phase (wy_state sy1) = ws_phase (wy_state sy)" and "wy_agents sy1 = wy_agents sy"
    and "counted a + (\<Sum>b\<leftarrow>as. counted b) = counted a0" and "sure a0 \<le> sure a + (\<Sum>b\<leftarrow>as. sure b)"
  shows "queue_ok (shift i a as sy1)"
proof -
  from assms(1) obtain jobs where jobs: "ws_queue (wy_state sy) = map Run jobs @
        replicate (if ws_phase (wy_state sy) = Closing then total counted sy else 0) (Stop ())"
      "ws_phase (wy_state sy) = Open \<or> jobs \<noteq> [] \<longrightarrow> 0 < total sure sy"
    by (auto simp: queue_ok_def)
  with assms(3-) totals(1,4) [OF at assms(5), where a = a and as = as] show ?thesis
    by (intro queue_okI [of _ jobs]) auto
qed

lemma queue_spawn_failed:
  assumes inv: "queue_ok sy" and at: "agent_at i a0 sy"
    and fail: "State_spawn_failed (wy_state sy) = (shutdown, st)"
    and a: "counted a + 1 = counted a0" "sure a = sure a0"
  shows "queue_ok (shift i a [] (sy\<lparr>wy_state := st\<rparr>))"
    and "shutdown \<noteq> None \<longleftrightarrow> ws_phase (wy_state sy) = Closing"
proof -
  let ?st = "wy_state sy"
  from inv obtain jobs where jobs: "ws_queue ?st = map Run jobs @
        replicate (if ws_phase ?st = Closing then total counted sy else 0) (Stop ())"
      "ws_phase ?st = Open \<or> jobs \<noteq> [] \<longrightarrow> 0 < total sure sy"
    by (auto simp: queue_ok_def)
  have t: "total counted (shift i a [] (sy\<lparr>wy_state := st\<rparr>)) + 1 = total counted sy"
    "total sure (shift i a [] (sy\<lparr>wy_state := st\<rparr>)) = total sure sy"
    using totals(1,4) [OF at, of "sy\<lparr>wy_state := st\<rparr>" a "[]"] a by simp_all
  then obtain n where n: "total counted sy = Suc n"
    "total counted (shift i a [] (sy\<lparr>wy_state := st\<rparr>)) = n" by (cases "total counted sy") auto
  have "queue_ok (shift i a [] (sy\<lparr>wy_state := st\<rparr>)) \<and> (shutdown \<noteq> None \<longleftrightarrow> ws_phase ?st = Closing)"
  proof (cases "ws_phase ?st = Closing")
    case True
    have q: "ws_queue ?st = (map Run jobs @ replicate n (Stop ())) @ [Stop ()]"
      using jobs(1) True n(1) by (simp add: replicate_append_same)
    from fail True have "shutdown = Some ()" "ws_phase st = Closing"
      "ws_queue st = map Run jobs @ replicate n (Stop ())"
      by (auto simp: State_spawn_failed_def Let_def q butlast_append)
    with True jobs t n show ?thesis by (auto intro!: queue_okI [of _ jobs])
  next
    case False
    with fail have "shutdown = None" "ws_phase st = ws_phase ?st" "ws_queue st = ws_queue ?st"
      by (auto simp: State_spawn_failed_def Let_def split: Phase.splits)
    with False jobs t show ?thesis by (auto intro!: queue_okI [of _ jobs])
  qed
  then show "queue_ok (shift i a [] (sy\<lparr>wy_state := st\<rparr>))"
    and "shutdown \<noteq> None \<longleftrightarrow> ws_phase (wy_state sy) = Closing" by blast+
qed

lemma replicate_eq_Cons: "replicate n x = y # ys \<longleftrightarrow> 0 < n \<and> y = x \<and> ys = replicate (n - 1) x"
  by (cases n) auto

lemma opening_not_closing:
  "close_ok sy \<Longrightarrow> agent_at i a sy \<Longrightarrow> is_opening a \<Longrightarrow> ws_phase (wy_state sy) \<noteq> Closing"
  by (auto simp: close_ok_def opened_def list_ex_iff agent_at_def split: option.splits)

lemma counted_sure: "total counted sy - total on_way sy \<le> total sure sy"
proof -
  have "counted a \<le> on_way a + sure a" for a by (cases a) auto
  then have "(\<Sum>a\<leftarrow>as. counted a) \<le> (\<Sum>a\<leftarrow>as. on_way a) + (\<Sum>a\<leftarrow>as. sure a)" for as
    by (induction as) (auto intro: order_trans [OF add_mono] simp: ac_simps)
  from this [of "wy_agents sy"] show ?thesis by simp
qed

lemma queue_look:
  assumes wf: "Concurrency_wf limits" and counts: "counts_ok limits sy" and inv: "queue_ok sy"
    and at: "agent_at i a0 sy" and a0: "a0 = Asking \<or> (\<exists>s. a0 = Looking s)"
    and turn: "next_job_turn limits started now since (Some ()) st0 = (out, held, st)"
    and st0: "ws_alive st0 = ws_alive (wy_state sy)" "ws_pending st0 = ws_pending (wy_state sy)"
      "ws_phase st0 = ws_phase (wy_state sy)" "ws_queue st0 = ws_queue (wy_state sy)"
  shows "queue_ok (shift i (after_look out) [] (sy\<lparr>wy_state := st\<rparr>))" (is "queue_ok ?sy'")
proof -
  from inv obtain jobs where jobs: "ws_queue st0 = map Run jobs @
        replicate (if ws_phase st0 = Closing then total counted sy else 0) (Stop ())"
      "ws_phase st0 = Open \<or> jobs \<noteq> [] \<longrightarrow> 0 < total sure sy"
    by (auto simp: queue_ok_def st0)
  have one: "counted a0 = 1" "sure a0 = 1" "on_way a0 = 0" using a0 by auto
  note t = totals(1,4) [OF at, of "sy\<lparr>wy_state := st\<rparr>" "after_look out" "[]"]
  from turn show ?thesis
  proof (cases rule: next_job_turn_cases)
    case (takes job q)
    show ?thesis
    proof (cases jobs)
      case (Cons r jobs')
      with takes jobs(1) have "job = Run r" by simp
      with Cons takes jobs t one show ?thesis by (intro queue_okI [of _ jobs']) auto
    next
      case Nil
      with takes jobs(1) have closing: "ws_phase st0 = Closing" and job: "job = Stop ()"
        by (auto split: if_splits simp: replicate_eq_Cons)
      with Nil takes jobs(1) t one show ?thesis
        by (intro queue_okI [of _ "[]"]) (auto simp: replicate_eq_Cons)
    qed
  next
    case leaves
    have "0 < total sure ?sy'" if "ws_phase st0 = Open"
    proof -
      have "unat (cc_min limits) < unat (ws_alive st0 - ws_pending st0)"
        using leaves(4) that by (auto simp: State_sparable_def serving_def word_less_nat_alt)
      also have "\<dots> = total counted sy - total on_way sy"
        using counts totals_le [of sy] st0 that by (simp add: counts_ok_def word_counts)
      also have "\<dots> \<le> total sure sy" by (rule counted_sure)
      finally have "1 < total sure sy" using wf by (auto simp: Concurrency_wf_def)
      with t one leaves show ?thesis by simp
    qed
    with leaves jobs(1) show ?thesis
      by (intro queue_okI [of _ "[]"]) (auto simp: st0 State_sparable_def)
  next
    case (waits since' left)
    with jobs t one show ?thesis by (intro queue_okI [of _ jobs]) auto
  qed
qed

lemma queue_step:
  assumes step: "worker_step limits sy sy'" and wf: "Concurrency_wf limits"
    and counts: "counts_ok limits sy" and inv: "queue_ok sy" and close: "close_ok sy"
  shows "queue_ok sy'"
proof -
  from inv obtain jobs where jobs: "ws_queue (wy_state sy) = map Run jobs @
        replicate (if ws_phase (wy_state sy) = Closing then total counted sy else 0) (Stop ())"
      "ws_phase (wy_state sy) = Open \<or> jobs \<noteq> [] \<longrightarrow> 0 < total sure sy"
    by (auto simp: queue_ok_def)
  from step show ?thesis
  proof cases
    case (open_reserves i n)
    with jobs opening_not_closing [OF close open_reserves(2)]
      totals(4) [OF open_reserves(2), of "sy\<lparr>wy_state := snd (State_reserve (wy_state sy))\<rparr>"
        "Opening_spawn n" "[]"]
    show ?thesis by (intro queue_okI [of _ jobs]) (auto simp: State_reserve_def)
  next
    case (dispatches job spawn st)
    from dispatches(3) have "ws_phase st = Open" "ws_phase (wy_state sy) = Open"
      "ws_queue st = ws_queue (wy_state sy) @ [Run job]"
      by (cases rule: State_queue_job_cases; simp)+
    with dispatches(1) jobs show ?thesis by (intro queue_okI [of _ "jobs @ [job]"]) auto
  next
    case (notifies_one i b j since)
    have "queue_ok (shift i (after_notify b) [] sy)"
      using queue_keep [OF inv notifies_one(2), of sy "after_notify b" "[]"] by simp
    from queue_keep [OF this agent_at_shift [OF notifies_one(3,2)], of _ "Looking since" "[]"]
    show ?thesis by (simp add: notifies_one(1))
  next
    case (decrements i sd last_out sd')
    with queue_keep [OF inv decrements(2), of "sy\<lparr>wy_shutdown := Some sd'\<rparr>"
        "if last_out then Last_out else Gone" "[]"] show ?thesis by (cases last_out) simp_all
  next
    case (close_begins shutdown st)
    with jobs counts show ?thesis
      by (intro queue_okI [of _ jobs]) (auto simp: step_simps counts_ok_def)
  next
    case abandons
    with jobs show ?thesis by (intro queue_okI [of _ jobs]) (auto simp: State_abandon_def)
  next
    case (rouses i)
    have "queue_ok (shift i Gone [] sy)"
      using queue_keep [OF inv rouses(2), of sy Gone "[]"] by simp
    then show ?thesis
      by (cases "ws_phase (wy_state sy) = Closing") (simp_all add: rouses(1) queue_ok_def comp_def)
  next
    case (open_spawn_fails i n st)
    then show ?thesis using queue_spawn_failed(1) [OF inv open_spawn_fails(2,3)] by simp
  next
    case (spawn_fails i shutdown st)
    then show ?thesis using queue_spawn_failed(1) [OF inv spawn_fails(2,3)] by simp
  next
    case (asks i started now out held st)
    with queue_look [OF wf counts inv asks(2) _ asks(3)] show ?thesis
      by (simp add: State_waiting_def)
  next
    case (looks i since started now out held st)
    with queue_look [OF wf counts inv looks(2) _ looks(3)] show ?thesis by simp
  next
    case (open_spawns i n)
    with queue_keep [OF inv open_spawns(2), of "sy" "Opening n" "[Arriving]"] show ?thesis by (simp add: State_arrived_def)
  next
    case (open_publishes i)
    with queue_keep [OF inv open_publishes(2), of "sy\<lparr>wy_state := State_publish () (wy_state sy)\<rparr>" "Arriving" "[]"] show ?thesis by (simp add: State_arrived_def)
  next
    case (notifies_none i b)
    with queue_keep [OF inv notifies_none(2), of "sy" "after_notify b" "[]"] show ?thesis by (simp add: State_arrived_def)
  next
    case (spawns i)
    with queue_keep [OF inv spawns(2), of "sy" "Letting_go" "[Arriving]"] show ?thesis by (simp add: State_arrived_def)
  next
    case (lets_go i)
    with queue_keep [OF inv lets_go(2), of "sy" "Gone" "[]"] show ?thesis by (simp add: State_arrived_def)
  next
    case (arrives i)
    with queue_keep [OF inv arrives(2), of "sy\<lparr>wy_state := State_arrived (wy_state sy)\<rparr>" "Asking" "[]"] show ?thesis by (simp add: State_arrived_def)
  next
    case (wakes i since)
    with queue_keep [OF inv wakes(2), of "sy" "Looking since" "[]"] show ?thesis by (simp add: State_arrived_def)
  next
    case (finishes i)
    with queue_keep [OF inv finishes(2), of "sy" "Asking" "[]"] show ?thesis by (simp add: State_arrived_def)
  next
    case (deposits i sd)
    with queue_keep [OF inv deposits(2), of "sy\<lparr>wy_shutdown := Some (retire_deposit sd)\<rparr>" "Deposited" "[]"] show ?thesis by (simp add: State_arrived_def)
  next
    case (closes i sd answer sd')
    with queue_keep [OF inv closes(2), of "sy\<lparr>wy_shutdown := Some sd', wy_answers := wy_answers sy @ (case answer of None \<Rightarrow> [] | Some r \<Rightarrow> [r])\<rparr>" "Gone" "[]"] show ?thesis by (simp add: State_arrived_def)
  qed
qed

section \<open>The rendezvous\<close>

lemma close_keep:
  assumes "close_ok sy" and at: "agent_at i a0 sy"
    and "ws_phase (wy_state sy1) = ws_phase (wy_state sy)" and "ws_client (wy_state sy1) = ws_client (wy_state sy)"
    and "wy_agents sy1 = wy_agents sy" and "wy_shutdown sy1 = wy_shutdown sy" and "wy_answers sy1 = wy_answers sy"
    and "counted a + retiring a + (\<Sum>b\<leftarrow>as. counted b + retiring b) = counted a0 + retiring a0"
    and "retiring a + (\<Sum>b\<leftarrow>as. retiring b) = retiring a0 \<or> ws_phase (wy_state sy) = Closing"
    and "deposited a + (\<Sum>b\<leftarrow>as. deposited b) = deposited a0"
    and "last_out a + (\<Sum>b\<leftarrow>as. last_out b) = last_out a0"
    and "is_opening a \<or> list_ex is_opening as \<Longrightarrow> is_opening a0"
  shows "close_ok (shift i a as sy1)"
proof -
  have op: "opened sy \<Longrightarrow> opened (shift i a as sy1)"
    using assms(5,12) at set_update_subset_insert [of "wy_agents sy" i a]
    by (fastforce simp: opened_def list_ex_iff agent_at_def)
  have "total counted (shift i a as sy1) + total retiring (shift i a as sy1) =
      total counted sy + total retiring sy"
    using totals(1,6) [OF at assms(5), where a = a and as = as] assms(5,8) by (simp add: sum_list_addf)
  moreover have "total deposited (shift i a as sy1) = total deposited sy"
    "total last_out (shift i a as sy1) = total last_out sy"
    using totals(7,8) [OF at assms(5), where a = a and as = as] assms(5,10,11) by simp_all
  moreover have "total retiring (shift i a as sy1) = total retiring sy \<or> ws_phase (wy_state sy) = Closing"
    using totals(6) [OF at assms(5), where a = a and as = as] assms(5,9) by auto
  ultimately show ?thesis
    using assms(1,3,4,6,7) op
    unfolding close_ok_def by (auto split: option.splits simp del: shift_simps(4) simp: shift_simps(1-3))
qed

lemma close_not_closing:
  assumes "close_ok sy" and at: "agent_at i a0 sy"
    and "sy' = shift i a [] (sy\<lparr>wy_state := st\<rparr>)"
    and "ws_phase (wy_state sy) \<noteq> Closing" and "ws_phase st \<noteq> Closing"
    and "retiring a = retiring a0" and "last_out a = last_out a0"
  shows "close_ok sy'"
  using assms totals(6,8) [OF at, of "sy\<lparr>wy_state := st\<rparr>" a "[]"]
  by (auto simp: close_ok_def split: option.splits)

lemma spawn_failed_frame:
  "State_spawn_failed st = (shutdown, st') \<Longrightarrow> ws_phase st' = ws_phase st \<and> ws_client st' = ws_client st"
  by (auto simp: State_spawn_failed_def Let_def split: Phase.splits if_splits Job.splits)

lemma close_look:
  assumes inv: "close_ok sy" and queue: "queue_ok sy"
    and at: "agent_at i a0 sy" and a0: "a0 = Asking \<or> (\<exists>s. a0 = Looking s)"
    and turn: "next_job_turn limits started now since (Some ()) st0 = (out, held, st)"
    and st0: "ws_phase st0 = ws_phase (wy_state sy)" "ws_client st0 = ws_client (wy_state sy)"
      "ws_queue st0 = ws_queue (wy_state sy)"
  shows "close_ok (shift i (after_look out) [] (sy\<lparr>wy_state := st\<rparr>))"
proof -
  have one: "counted a0 = 1" "retiring a0 = 0" "deposited a0 = 0" "last_out a0 = 0" using a0 by auto
  note keep = close_keep [OF inv at, of "sy\<lparr>wy_state := st\<rparr>" "after_look out" "[]"]
  from turn show ?thesis
  proof (cases rule: next_job_turn_cases)
    case (takes job q)
    then show ?thesis
      using keep one st0 queue_stop_closing [OF queue, of q] by (cases job) auto
  next
    case leaves
    then show ?thesis
      using close_not_closing [OF inv at, of _ Gone st] one st0 by (auto simp: State_sparable_def)
  next
    case waits
    then show ?thesis using keep one st0 by simp
  qed
qed

lemma close_deposits:
  assumes inv: "close_ok sy" and at: "agent_at i Stopping sy" and sd: "wy_shutdown sy = Some sd"
  shows "close_ok (shift i Deposited [] (sy\<lparr>wy_shutdown := Some (retire_deposit sd)\<rparr>))"
  using inv sd totals(1,6,7,8) [OF at, of "sy\<lparr>wy_shutdown := Some (retire_deposit sd)\<rparr>" Deposited "[]"]
  by (auto simp: close_ok_def retire_deposit_def opened_def list_ex_iff
      dest!: set_update_subset_insert [THEN subsetD])

lemma close_decrements:
  assumes inv: "close_ok sy" and at: "agent_at i Deposited sy" and sd: "wy_shutdown sy = Some sd"
    and dec: "retire_decrement sd = (lst, sd')"
  shows "close_ok (shift i (if lst then Last_out else Gone) [] (sy\<lparr>wy_shutdown := Some sd'\<rparr>))"
proof -
  note t = totals(1,6,7,8) [OF at, of "sy\<lparr>wy_shutdown := Some sd'\<rparr>" "if lst then Last_out else Gone" "[]"]
  from dec have d: "lst = (sd_remaining sd = 1)" "sd' = sd\<lparr>sd_remaining := sd_remaining sd - 1\<rparr>"
    by (auto simp: retire_decrement_def)
  from inv sd total_ge [OF at, of retiring] have pos: "0 < sd_remaining sd"
    by (auto simp: close_ok_def)
  show ?thesis using inv sd t d pos
    by (cases lst) (auto simp: close_ok_def opened_def list_ex_iff
        dest!: set_update_subset_insert [THEN subsetD])
qed

lemma deposited_le: "total deposited sy \<le> total retiring sy + total last_out sy"
proof -
  have "deposited a \<le> retiring a + last_out a" for a by (cases a) auto
  then have "(\<Sum>a\<leftarrow>as. deposited a) \<le> (\<Sum>a\<leftarrow>as. retiring a) + (\<Sum>a\<leftarrow>as. last_out a)" for as
    by (induction as) (auto intro: order_trans [OF add_mono] simp: ac_simps)
  from this [of "wy_agents sy"] show ?thesis by simp
qed

lemma close_closes:
  assumes inv: "close_ok sy" and at: "agent_at i Last_out sy" and sd: "wy_shutdown sy = Some sd"
    and cl: "retire_close n sd = (answer, sd')"
  shows "close_ok (shift i Gone [] (sy\<lparr>wy_shutdown := Some sd',
       wy_answers := wy_answers sy @ (case answer of None \<Rightarrow> [] | Some r \<Rightarrow> [r])\<rparr>))"
    (is "close_ok (shift i Gone [] ?sy1)")
proof -
  note t = totals(1,6,7,8) [OF at, of ?sy1 Gone "[]"]
  have e: "(if sd_remaining sd = 0 then 0 else 1) + total last_out sy + length (wy_answers sy) = 1"
    using inv unfolding close_ok_def sd option.case by blast
  have l: "1 \<le> total last_out sy" using total_ge [OF at, of last_out] by simp
  have "sd_remaining sd = 0" using e l by (cases "sd_remaining sd = 0") auto
  moreover from this e l have "length (wy_answers sy) = 0" "total last_out sy = 1" by linarith+
  ultimately have z: "sd_remaining sd = 0" "wy_answers sy = []" "total last_out sy = 1" "sd_reply sd"
    using inv sd by (auto simp: close_ok_def)
  then have "total retiring sy = 0" using inv sd by (simp add: close_ok_def)
  moreover have "total deposited sy \<le> total retiring sy + total last_out sy"
    by (rule deposited_le)
  ultimately have "total deposited sy = 1"
    using total_ge [OF at, of deposited] z by simp
  with inv sd t z cl show ?thesis
    by (auto simp: close_ok_def opened_def list_ex_iff retire_close_def Let_def
        dest!: set_update_subset_insert [THEN subsetD])
qed

lemma close_step:
  assumes step: "worker_step limits sy sy'" and counts: "counts_ok limits sy"
    and queue: "queue_ok sy" and inv: "close_ok sy"
  shows "close_ok sy'"
proof -
  from step show ?thesis
  proof cases
    case (dispatches job spawn st)
    from dispatches(3) have "ws_phase st = Open" "ws_phase (wy_state sy) = Open"
      by (cases rule: State_queue_job_cases; simp)+
    with dispatches(1) inv show ?thesis by (auto simp: close_ok_def split: option.splits)
  next
    case (notifies_one i b j since)
    have "close_ok (shift i (after_notify b) [] sy)"
      using close_keep [OF inv notifies_one(2), of sy "after_notify b" "[]"] by simp
    from close_keep [OF this agent_at_shift [OF notifies_one(3,2)],
        of "shift i (after_notify b) [] sy" "Looking since" "[]"]
    show ?thesis by (simp add: notifies_one(1))
  next
    case (spawn_fails i shutdown st)
    note frame = spawn_failed_frame [OF spawn_fails(3)]
    show ?thesis
    proof (cases "ws_phase (wy_state sy) = Closing")
      case True
      then have "shutdown \<noteq> None"
        using queue_spawn_failed(2) [OF queue spawn_fails(2,3), of Letting_go] by simp
      then show ?thesis
        using True spawn_fails(1) frame close_keep [OF inv spawn_fails(2), of "sy\<lparr>wy_state := st\<rparr>" Stopping "[]"]
        by simp
    next
      case False
      then have "shutdown = None"
        using queue_spawn_failed(2) [OF queue spawn_fails(2,3), of Letting_go] by (cases shutdown) auto
      then show ?thesis
        using False spawn_fails(1) frame close_not_closing [OF inv spawn_fails(2), of sy' Letting_go st] by simp
    qed
  next
    case (asks i started now out held st)
    with close_look [OF inv queue asks(2) _ asks(3)] show ?thesis by (simp add: State_waiting_def)
  next
    case (looks i since started now out held st)
    with close_look [OF inv queue looks(2) _ looks(3)] show ?thesis by simp
  next
    case (deposits i sd)
    with close_deposits [OF inv deposits(2,3)] show ?thesis by simp
  next
    case (decrements i sd last_out sd')
    with close_decrements [OF inv decrements(2,3,4)] show ?thesis by simp
  next
    case (closes i sd answer sd')
    with close_closes [OF inv closes(2,3,4)] show ?thesis by simp
  next
    case (close_begins shutdown st)
    then have "ws_phase (wy_state sy) = Open" by (simp add: step_simps)
    with inv have none: "wy_shutdown sy = None" "wy_answers sy = []" "total retiring sy = 0"
      "total last_out sy = 0"
      by (auto simp: close_ok_def split: option.splits)
    then have "total deposited sy = 0" using deposited_le [of sy] by simp
    with none close_begins counts show ?thesis
      by (auto simp: close_ok_def step_simps Shutdown_new_def counts_ok_def opened_def
          word_eq_0_unat)
  next
    case abandons
    with inv show ?thesis
      by (auto simp: close_ok_def State_abandon_def opened_def split: option.splits)
  next
    case (rouses i)
    have "close_ok (shift i Gone [] sy)"
      using close_keep [OF inv rouses(2), of sy Gone "[]"] by simp
    then show ?thesis
      by (auto simp: rouses(1) close_ok_def opened_def comp_def list_ex_iff split: option.splits)
  next
    case (open_spawns i n)
    with close_keep [OF inv open_spawns(2), of "sy" "Opening n" "[Arriving]"] show ?thesis
      by (simp add: State_arrived_def)
  next
    case (notifies_none i b)
    with close_keep [OF inv notifies_none(2), of "sy" "after_notify b" "[]"] show ?thesis
      by (simp add: State_arrived_def)
  next
    case (spawns i)
    with close_keep [OF inv spawns(2), of "sy" "Letting_go" "[Arriving]"] show ?thesis
      by (simp add: State_arrived_def)
  next
    case (lets_go i)
    with close_keep [OF inv lets_go(2), of "sy" "Gone" "[]"] show ?thesis
      by (simp add: State_arrived_def)
  next
    case (arrives i)
    with close_keep [OF inv arrives(2), of "sy\<lparr>wy_state := State_arrived (wy_state sy)\<rparr>" "Asking" "[]"] show ?thesis
      by (simp add: State_arrived_def)
  next
    case (wakes i since)
    with close_keep [OF inv wakes(2), of "sy" "Looking since" "[]"] show ?thesis
      by (simp add: State_arrived_def)
  next
    case (finishes i)
    with close_keep [OF inv finishes(2), of "sy" "Asking" "[]"] show ?thesis
      by (simp add: State_arrived_def)
  next
    case (open_reserves i n)
    with opening_not_closing [OF inv open_reserves(2)]
      close_not_closing [OF inv open_reserves(2), of sy' "Opening_spawn n" "snd (State_reserve (wy_state sy))"] show ?thesis
      by (auto simp: State_reserve_def State_spawn_failed_def Let_def split: Phase.splits)
  next
    case (open_spawn_fails i n st)
    with opening_not_closing [OF inv open_spawn_fails(2)]
      close_not_closing [OF inv open_spawn_fails(2), of sy' "Opening n" "st"] show ?thesis
      by (auto simp: State_reserve_def State_spawn_failed_def Let_def split: Phase.splits)
  next
    case (open_publishes i)
    with opening_not_closing [OF inv open_publishes(2)]
      close_not_closing [OF inv open_publishes(2), of sy' "Arriving" "State_publish () (wy_state sy)"] show ?thesis
      by (auto simp: State_reserve_def State_spawn_failed_def Let_def split: Phase.splits)
  qed
qed

section \<open>Wakeups\<close>

lemma rousing_shift:
  assumes "Rousing \<in> set (wy_agents sy)" and at: "agent_at i a0 sy" and "a0 \<noteq> Rousing"
  shows "Rousing \<in> set (wy_agents (shift i a as sy))"
proof -
  from assms(1) obtain k where k: "k < length (wy_agents sy)" "wy_agents sy ! k = Rousing"
    by (auto simp: in_set_conv_nth)
  with at assms(3) have "(wy_agents sy)[i := a] ! k = Rousing"
    by (auto simp: agent_at_def nth_list_update)
  with k have "Rousing \<in> set ((wy_agents sy)[i := a])" by (metis length_list_update nth_mem)
  then show ?thesis by simp
qed

lemma wake_keep:
  assumes "wake_ok sy" and at: "agent_at i a0 sy"
    and "ws_phase (wy_state sy1) = ws_phase (wy_state sy)"
    and "ws_phase (wy_state sy) = Abandoned \<or> length (ws_queue (wy_state sy1)) + alert a0 \<le>
      length (ws_queue (wy_state sy)) + alert a + (\<Sum>b\<leftarrow>as. alert b)"
    and "wy_agents sy1 = wy_agents sy"
    and "\<not> is_dozing a" and "\<not> list_ex is_dozing as" and "a0 \<noteq> Rousing"
  shows "wake_ok (shift i a as sy1)"
proof -
  have doz: "list_ex is_dozing (wy_agents sy)" if "list_ex is_dozing (wy_agents (shift i a as sy1))"
    using that assms(5-7) set_update_subset_insert [of "wy_agents sy" i a]
    by (auto simp: list_ex_iff)
  have "Rousing \<in> set (wy_agents (shift i a as sy1))" if "Rousing \<in> set (wy_agents sy)"
    using rousing_shift [OF that at assms(8)] assms(5) by simp
  with assms(1,3,4,5) doz totals(9) [OF at assms(5), where a = a and as = as] show ?thesis
    by (auto simp: wake_ok_def)
qed

lemma wake_spawn_failed:
  assumes inv: "wake_ok sy" and at: "agent_at i a0 sy"
    and fail: "State_spawn_failed (wy_state sy) = (shutdown, st)"
    and a: "alert a0 = 0" "a0 \<noteq> Rousing" "\<not> is_dozing a"
  shows "wake_ok (shift i a [] (sy\<lparr>wy_state := st\<rparr>))"
proof -
  have "length (ws_queue st) \<le> length (ws_queue (wy_state sy))"
    using fail by (auto simp: State_spawn_failed_def Let_def split: Phase.splits if_splits Job.splits)
  with spawn_failed_frame [OF fail] a show ?thesis
    by (intro wake_keep [OF inv at]) auto
qed

lemma wake_look:
  assumes inv: "wake_ok sy" and at: "agent_at i a0 sy" and a0: "a0 = Asking \<or> (\<exists>s. a0 = Looking s)"
    and turn: "next_job_turn limits started now since (Some ()) st0 = (out, held, st)"
    and st0: "ws_phase st0 = ws_phase (wy_state sy)" "ws_queue st0 = ws_queue (wy_state sy)"
  shows "wake_ok (shift i (after_look out) [] (sy\<lparr>wy_state := st\<rparr>))"
  using turn
proof (cases rule: next_job_turn_cases)
  case (takes job q)
  have q: "ws_queue (wy_state sy) = job # q" using takes st0 by simp
  have "alert a0 \<le> 1" "a0 \<noteq> Rousing" using a0 by auto
  moreover have "\<not> is_dozing (after_look out)" "alert (after_look out) = 0"
    using takes by (cases job; simp)+
  ultimately show ?thesis
    using takes(4) st0(1) q by (intro wake_keep [OF inv at]) simp_all
next
  case leaves
  have "a0 \<noteq> Rousing" using a0 by auto
  show ?thesis
  proof (cases "ws_phase st0 = Abandoned")
    case True
    with leaves st0 \<open>a0 \<noteq> Rousing\<close> show ?thesis by (intro wake_keep [OF inv at]) auto
  next
    case False
    with leaves st0 show ?thesis by (simp add: wake_ok_def)
  qed
next
  case (waits since' left)
  with st0 show ?thesis by (simp add: wake_ok_def)
qed

lemma wake_step:
  assumes step: "worker_step limits sy sy'" and inv: "wake_ok sy"
  shows "wake_ok sy'"
proof -
  from step show ?thesis
  proof cases
    case (dispatches job spawn st)
    from dispatches(3) have "ws_phase st = Open" "ws_phase (wy_state sy) = Open"
      "ws_queue st = ws_queue (wy_state sy) @ [Run job]"
      by (cases rule: State_queue_job_cases; simp)+
    with dispatches(1) inv show ?thesis by (auto simp: wake_ok_def)
  next
    case (notifies_one i b j since)
    let ?mid = "shift i (after_notify b) [] sy"
    have j: "agent_at j (Dozing since) ?mid" by (rule agent_at_shift [OF notifies_one(3,2)]) simp
    have t: "total alert sy' = total alert sy"
      using totals(9) [OF notifies_one(2), of sy "after_notify b" "[]"]
        totals(9) [OF j, of ?mid "Looking since" "[]"] by (simp add: notifies_one(1))
    have r: "Rousing \<in> set (wy_agents sy')" if "Rousing \<in> set (wy_agents sy)"
      using rousing_shift [OF rousing_shift [OF that notifies_one(2)] j, of "Looking since" "[]"] by (simp add: notifies_one(1))
    have "list_ex is_dozing (wy_agents sy)"
      using notifies_one(3) by (metis agent_at_def is_dozing.simps(1) list_ex_iff nth_mem)
    with inv t r show ?thesis by (auto simp: wake_ok_def notifies_one(1))
  next
    case (notifies_none i b)
    have "\<not> list_ex is_dozing (wy_agents sy')"
      using notifies_none(1,3) set_update_subset_insert [of "wy_agents sy" i "after_notify b"]
      by (auto simp: list_ex_iff)
    then show ?thesis by (simp add: wake_ok_def)
  next
    case (open_spawn_fails i n st)
    with wake_spawn_failed [OF inv open_spawn_fails(2,3)] show ?thesis by simp
  next
    case (spawn_fails i shutdown st)
    with wake_spawn_failed [OF inv spawn_fails(2,3)] show ?thesis by simp
  next
    case (asks i started now out held st)
    with wake_look [OF inv asks(2) _ asks(3)] show ?thesis by (simp add: State_waiting_def)
  next
    case (looks i since started now out held st)
    with wake_look [OF inv looks(2) _ looks(3)] show ?thesis by simp
  next
    case (decrements i sd last_out sd')
    with wake_keep [OF inv decrements(2), of "sy\<lparr>wy_shutdown := Some sd'\<rparr>"
        "if last_out then Last_out else Gone" "[]"] show ?thesis by (cases last_out) simp_all
  next
    case close_begins
    then show ?thesis by (simp add: wake_ok_def)
  next
    case abandons
    then show ?thesis by (simp add: wake_ok_def)
  next
    case (rouses i)
    then show ?thesis by (auto simp: wake_ok_def list_ex_iff)
  next
    case (open_reserves i n)
    with wake_keep [OF inv open_reserves(2), of "sy\<lparr>wy_state := snd (State_reserve (wy_state sy))\<rparr>" "Opening_spawn n" "[]"] show ?thesis
      by (simp add: State_arrived_def State_reserve_def)
  next
    case (open_spawns i n)
    with wake_keep [OF inv open_spawns(2), of "sy" "Opening n" "[Arriving]"] show ?thesis
      by (simp add: State_arrived_def State_reserve_def)
  next
    case (open_publishes i)
    with wake_keep [OF inv open_publishes(2), of "sy\<lparr>wy_state := State_publish () (wy_state sy)\<rparr>" "Arriving" "[]"] show ?thesis
      by (simp add: State_arrived_def State_reserve_def)
  next
    case (spawns i)
    with wake_keep [OF inv spawns(2), of "sy" "Letting_go" "[Arriving]"] show ?thesis
      by (simp add: State_arrived_def State_reserve_def)
  next
    case (lets_go i)
    with wake_keep [OF inv lets_go(2), of "sy" "Gone" "[]"] show ?thesis
      by (simp add: State_arrived_def State_reserve_def)
  next
    case (arrives i)
    with wake_keep [OF inv arrives(2), of "sy\<lparr>wy_state := State_arrived (wy_state sy)\<rparr>" "Asking" "[]"] show ?thesis
      by (simp add: State_arrived_def State_reserve_def)
  next
    case (wakes i since)
    with wake_keep [OF inv wakes(2), of "sy" "Looking since" "[]"] show ?thesis
      by (simp add: State_arrived_def State_reserve_def)
  next
    case (finishes i)
    with wake_keep [OF inv finishes(2), of "sy" "Asking" "[]"] show ?thesis
      by (simp add: State_arrived_def State_reserve_def)
  next
    case (deposits i sd)
    with wake_keep [OF inv deposits(2), of "sy\<lparr>wy_shutdown := Some (retire_deposit sd)\<rparr>" "Deposited" "[]"] show ?thesis
      by (simp add: State_arrived_def State_reserve_def)
  next
    case (closes i sd answer sd')
    with wake_keep [OF inv closes(2), of "sy\<lparr>wy_shutdown := Some sd', wy_answers := wy_answers sy @ (case answer of None \<Rightarrow> [] | Some r \<Rightarrow> [r])\<rparr>" "Gone" "[]"] show ?thesis
      by (simp add: State_arrived_def State_reserve_def)
  qed
qed

section \<open>The invariant is kept\<close>

lemma workers_init_inv:
  assumes "workers_init limits sy"
  shows "workers_inv limits sy"
proof -
  from assms have wf: "Concurrency_wf limits"
    and sy: "sy = \<lparr>wy_state = snd (State_reserve State_new),
           wy_agents = [Opening (unat (cc_min limits) - 1)], wy_shutdown = None, wy_answers = [], wy_held = True\<rparr>"
    by (auto simp: workers_init_def)
  from wf have "1 + (unat (cc_min limits) - 1) \<le> unat (cc_max limits)"
    by (auto simp: Concurrency_wf_def)
  with wf show ?thesis
    by (auto simp: sy workers_inv_def counts_ok_def queue_ok_def close_ok_def wake_ok_def
        State_reserve_def State_new_def)
qed

lemma workers_inv_step:
  "workers_inv limits sy \<Longrightarrow> worker_step limits sy sy' \<Longrightarrow> workers_inv limits sy'"
  unfolding workers_inv_def
  using counts_step queue_step close_step wake_step by blast

interpretation workers: invariant_system "workers_init limits" "worker_step limits"
  "workers_inv limits" for limits
  by unfold_locales (auto intro: workers_init_inv workers_inv_step)

abbreviation workers_reachable :: "Concurrency \<Rightarrow> 'r wsys \<Rightarrow> bool" where
  "workers_reachable limits \<equiv> reach (workers_init limits) (worker_step limits)"

section \<open>Progress\<close>

definition active :: "agent \<Rightarrow> bool" where
  "active a \<longleftrightarrow> a \<noteq> Gone \<and> \<not> is_dozing a"

lemma dozing_iff: "is_dozing a \<longleftrightarrow> (\<exists>s. a = Dozing s)"
  by (cases a) auto

text \<open>A step of the thread at place \<open>i\<close>: it leaves the place it was at.\<close>

lemma own_step:
  assumes "agent_at i a sy" and "worker_step limits sy (shift i b as sy1)"
    and "wy_agents sy1 = wy_agents sy" and "b \<noteq> a"
  shows "\<exists>sy'. worker_step limits sy sy' \<and> wy_agents sy' ! i \<noteq> a"
  using assms by (intro exI [of _ "shift i b as sy1"]) (auto simp: shift_def agent_at_def nth_append)

lemma notifier_can_step:
  assumes at: "agent_at i (Notifying_one b) sy"
  shows "\<exists>sy'. worker_step limits sy sy' \<and> wy_agents sy' ! i \<noteq> Notifying_one b"
proof (cases "list_ex is_dozing (wy_agents sy)")
  case True
  then obtain j since where j: "agent_at j (Dozing since) sy"
    by (auto simp: list_ex_iff dozing_iff in_set_conv_nth agent_at_def)
  have "i \<noteq> j" using at j by (auto simp: agent_at_def)
  with at have "wy_agents (shift j (Looking since) [] (shift i (after_notify b) [] sy)) ! i = after_notify b"
    by (simp add: shift_def agent_at_def)
  moreover have "after_notify b \<noteq> Notifying_one b" by (cases b) auto
  ultimately show ?thesis using worker_step.notifies_one [OF at j] by metis
next
  case False
  from own_step [OF at worker_step.notifies_none [OF at False]] show ?thesis by (cases b) simp_all
qed

lemma after_look_moves: "after_look out \<noteq> Asking" "after_look out \<noteq> Looking s"
  by (cases out rule: after_look.cases; simp)+

lemma active_can_step:
  assumes inv: "workers_inv limits sy" and at: "agent_at i a sy" and "active a"
  shows "\<exists>sy'. worker_step limits sy sy' \<and> wy_agents sy' ! i \<noteq> a"
proof (cases a)
  case (Opening n)
  show ?thesis
  proof (cases n)
    case 0
    with at Opening own_step [OF at worker_step.open_publishes [of i sy limits]] show ?thesis by simp
  next
    case (Suc m)
    with at Opening own_step [OF at worker_step.open_reserves [of i m sy limits]] show ?thesis by simp
  qed
next
  case (Opening_spawn n)
  from own_step [OF at worker_step.open_spawns [OF at [unfolded Opening_spawn]]] Opening_spawn show ?thesis by simp
next
  case (Notifying_one b)
  with notifier_can_step at show ?thesis by blast
next
  case Spawning
  from own_step [OF at worker_step.spawns [OF at [unfolded Spawning]]] Spawning show ?thesis by simp
next
  case Letting_go
  from own_step [OF at worker_step.lets_go [OF at [unfolded Letting_go]]] Letting_go show ?thesis by simp
next
  case Arriving
  from own_step [OF at worker_step.arrives [OF at [unfolded Arriving]]] Arriving show ?thesis by simp
next
  case Asking
  obtain out held st where "next_job_turn limits 0 0 None (Some ()) (State_waiting (wy_state sy)) = (out, held, st)"
    by (metis surj_pair)
  from own_step [OF at worker_step.asks [OF at [unfolded Asking] this]] Asking show ?thesis
    by (simp add: after_look_moves)
next
  case (Looking s)
  obtain out held st where "next_job_turn limits 0 0 s (Some ()) (wy_state sy) = (out, held, st)"
    by (metis surj_pair)
  from own_step [OF at worker_step.looks [OF at [unfolded Looking] this]] Looking show ?thesis
    by (simp add: after_look_moves)
next
  case Working
  from own_step [OF at worker_step.finishes [OF at [unfolded Working]]] Working show ?thesis by simp
next
  case Rousing
  with at worker_step.rouses [OF at [unfolded Rousing]] show ?thesis
    by (intro exI [of _ "sy\<lparr>wy_agents := map rouse ((wy_agents sy)[i := Gone])\<rparr>"])
      (simp add: agent_at_def)
next
  case Stopping
  with inv at total_ge [OF at, of retiring] obtain sd where "wy_shutdown sy = Some sd"
    by (auto simp: workers_inv_def close_ok_def split: option.splits)
  from own_step [OF at worker_step.deposits [OF at [unfolded Stopping] this]] Stopping
  show ?thesis by simp
next
  case Deposited
  with inv at total_ge [OF at, of retiring] obtain sd where sd: "wy_shutdown sy = Some sd"
    by (auto simp: workers_inv_def close_ok_def split: option.splits)
  obtain lst sd' where "retire_decrement sd = (lst, sd')" by (cases "retire_decrement sd")
  from own_step [OF at worker_step.decrements [OF at [unfolded Deposited] sd this]] Deposited
  show ?thesis by simp
next
  case Last_out
  with inv at total_ge [OF at, of last_out] obtain sd where sd: "wy_shutdown sy = Some sd"
    by (auto simp: workers_inv_def close_ok_def split: option.splits)
  obtain ans sd' where "retire_close (handles_outside sy) sd = (ans, sd')"
    by (cases "retire_close (handles_outside sy) sd")
  from own_step [OF at worker_step.closes [OF at [unfolded Last_out] sd this]] Last_out
  show ?thesis by simp
qed (use \<open>active a\<close> in \<open>auto simp: active_def\<close>)

lemma live_worker_active:
  assumes inv: "workers_inv limits sy" and "0 < total counted sy + total retiring sy + total last_out sy"
    and work: "ws_queue (wy_state sy) \<noteq> []"
  shows "\<exists>i a. agent_at i a sy \<and> active a"
proof (rule ccontr)
  assume none: "\<nexists>i a. agent_at i a sy \<and> active a"
  have quiet: "a = Gone \<or> is_dozing a" if "a \<in> set (wy_agents sy)" for a
    using none that by (auto simp: agent_at_def active_def in_set_conv_nth)
  have "total alert sy = 0" "total retiring sy = 0" "total last_out sy = 0"
    by (auto intro!: sum_list_zero dest!: quiet simp: dozing_iff)
  moreover have "Rousing \<notin> set (wy_agents sy)" using quiet by force
  moreover have "list_ex is_dozing (wy_agents sy)"
  proof (rule ccontr)
    assume "\<not> ?thesis"
    then have "a = Gone" if "a \<in> set (wy_agents sy)" for a
      using quiet that by (auto simp: list_ex_iff)
    then have "total counted sy = 0" by (intro sum_list_zero) fastforce
    with assms(2) calculation show False by simp
  qed
  ultimately show False using inv work by (auto simp: workers_inv_def wake_ok_def)
qed

lemma sure_counted: "total sure sy \<le> total counted sy"
proof -
  have "sure a \<le> counted a" for a by (cases a) auto
  then show ?thesis by (intro sum_list_mono)
qed

lemma queued_job_active:
  assumes inv: "workers_inv limits sy" and work: "ws_queue (wy_state sy) \<noteq> []"
  shows "\<exists>i a. agent_at i a sy \<and> active a"
proof (rule live_worker_active [OF inv _ work])
  from inv obtain jobs where "ws_queue (wy_state sy) = map Run jobs @
        replicate (if ws_phase (wy_state sy) = Closing then total counted sy else 0) (Stop ())"
      "jobs \<noteq> [] \<longrightarrow> 0 < total sure sy"
    by (auto simp: workers_inv_def queue_ok_def)
  with work sure_counted [of sy] show "0 < total counted sy + total retiring sy + total last_out sy"
    by (cases "jobs = []") (auto split: if_splits)
qed

lemma unanswered_close_active:
  assumes inv: "workers_inv limits sy" and closing: "ws_phase (wy_state sy) = Closing"
    and none: "wy_answers sy = []"
  shows "\<exists>i a. agent_at i a sy \<and> active a"
proof (cases "0 < total counted sy")
  case True
  with inv closing have "ws_queue (wy_state sy) \<noteq> []" by (auto simp: workers_inv_def queue_ok_def)
  then show ?thesis by (rule queued_job_active [OF inv])
next
  case False
  with inv closing none have "0 < total retiring sy + total last_out sy"
    by (auto simp: workers_inv_def close_ok_def split: option.splits if_splits)
  then have "0 < (\<Sum>a\<leftarrow>wy_agents sy. retiring a + last_out a)" by (simp add: sum_list_addf)
  from sum_list_pos_ex [OF this] obtain i where i: "i < length (wy_agents sy)"
    "0 < retiring (wy_agents sy ! i) + last_out (wy_agents sy ! i)" by auto
  then have "active (wy_agents sy ! i)"
    by (cases "wy_agents sy ! i") (auto simp: active_def)
  with i(1) show ?thesis by (auto simp: agent_at_def)
qed

section \<open>A close ends\<close>

text \<open>
  What is left to do: ten for every job in the queue, the way every thread has to go, and the drop
  of the handle.
\<close>

fun way_left :: "agent \<Rightarrow> nat" where
  "way_left (Notifying_one b) = (if b then 8 else 1)"
| "way_left Spawning = 7"
| "way_left Letting_go = 1"
| "way_left Arriving = 5"
| "way_left Asking = 4"
| "way_left (Looking _) = 4"
| "way_left (Dozing _) = 5"
| "way_left Working = 5"
| "way_left Stopping = 3"
| "way_left Deposited = 2"
| "way_left Last_out = 1"
| "way_left Rousing = 1"
| "way_left _ = 0"

definition close_rank :: "'r wsys \<Rightarrow> nat" where
  "close_rank sy =
     10 * length (ws_queue (wy_state sy)) + total way_left sy + (if wy_held sy then 2 else 0)"

lemma wy_held_shift [simp]: "wy_held (shift i a as sy) = wy_held sy"
  by (simp add: shift_def)

lemma rank_shift:
  assumes at: "agent_at i a0 sy" and "wy_agents sy1 = wy_agents sy"
    and "ws_phase (wy_state sy1) = ws_phase (wy_state sy)" and "wy_held sy1 = wy_held sy"
    and "10 * length (ws_queue (wy_state sy1)) + way_left a + (\<Sum>b\<leftarrow>as. way_left b) <
      10 * length (ws_queue (wy_state sy)) + way_left a0"
  shows "ws_phase (wy_state (shift i a as sy1)) = ws_phase (wy_state sy) \<and>
    close_rank (shift i a as sy1) < close_rank sy"
  using assms(2-) total_shift [of i a0 sy1 way_left a as] at
  by (simp add: close_rank_def agent_at_def)

lemma rank_look:
  assumes inv: "workers_inv limits sy" and closing: "ws_phase (wy_state sy) = Closing"
    and at: "agent_at i a0 sy" and a0: "a0 = Asking \<or> (\<exists>s. a0 = Looking s)"
    and turn: "next_job_turn limits started now since (Some ()) st0 = (out, held, st)"
    and st0: "ws_phase st0 = ws_phase (wy_state sy)" "ws_queue st0 = ws_queue (wy_state sy)"
  shows "ws_phase (wy_state (shift i (after_look out) [] (sy\<lparr>wy_state := st\<rparr>))) = ws_phase (wy_state sy) \<and>
    close_rank (shift i (after_look out) [] (sy\<lparr>wy_state := st\<rparr>)) < close_rank sy"
proof -
  have "counted a0 = 1" using a0 by auto
  with total_ge [OF at, of counted] inv closing have "ws_queue (wy_state sy) \<noteq> []"
    by (auto simp: workers_inv_def queue_ok_def)
  then obtain job q where q: "ws_queue (wy_state sy) = job # q" "out = Takes job"
      "st = st0\<lparr>ws_queue := q, ws_idle := ws_idle st0 - 1\<rparr>"
    using st0(2) by (cases rule: next_job_turn_cases [OF turn]) (metis, metis, metis)
  have "way_left a0 = 4" using a0 by auto
  with q st0 show ?thesis by (intro rank_shift [OF at]) (cases job; simp)+
qed

lemma close_rank_step:
  assumes inv: "workers_inv limits sy" and closing: "ws_phase (wy_state sy) = Closing"
    and step: "worker_step limits sy sy'"
  shows "ws_phase (wy_state sy') = ws_phase (wy_state sy) \<and> close_rank sy' < close_rank sy"
proof -
  have close: "close_ok sy" and queue: "queue_ok sy" using inv by (auto simp: workers_inv_def)
  from step show ?thesis
  proof cases
    case (dispatches job spawn st)
    from dispatches(3) have "ws_phase (wy_state sy) = Open"
      by (cases rule: State_queue_job_cases; simp)
    with closing show ?thesis by simp
  next
    case (close_begins shutdown st)
    with closing show ?thesis by (simp add: step_simps)
  next
    case abandons
    with closing show ?thesis by (simp add: State_abandon_def close_rank_def)
  next
    case (asks i started now out held st)
    with rank_look [OF inv closing asks(2) _ asks(3)] show ?thesis by (simp add: State_waiting_def)
  next
    case (looks i since started now out held st)
    with rank_look [OF inv closing looks(2) _ looks(3)] show ?thesis by simp
  next
    case (decrements i sd last_out sd')
    with rank_shift [OF decrements(2), of "sy\<lparr>wy_shutdown := Some sd'\<rparr>"
        "if last_out then Last_out else Gone" "[]"] show ?thesis by (cases last_out) simp_all
  next
    case (spawn_fails i shutdown st)
    have "length (ws_queue st) \<le> length (ws_queue (wy_state sy))"
      using spawn_fails(3)
      by (auto simp: State_spawn_failed_def Let_def split: Phase.splits if_splits Job.splits)
    with spawn_failed_frame [OF spawn_fails(3)] spawn_fails(1)
      rank_shift [OF spawn_fails(2), of "sy\<lparr>wy_state := st\<rparr>"
        "if shutdown = None then Letting_go else Stopping" "[]"] show ?thesis
      by (cases shutdown) simp_all
  next
    case (notifies_one i b j since)
    let ?mid = "shift i (after_notify b) [] sy"
    have "close_rank ?mid < close_rank sy"
      using rank_shift [OF notifies_one(2), of sy "after_notify b" "[]"] by (cases b) simp_all
    moreover have "close_rank sy' < close_rank ?mid"
      using rank_shift [OF agent_at_shift [OF notifies_one(3,2), of "after_notify b" "[]"],
          of ?mid "Looking since" "[]"]
      by (simp add: notifies_one(1))
    ultimately show ?thesis by (simp add: notifies_one(1))
  next
    case (rouses i)
    have "way_left (rouse a) \<le> way_left a" for a by (cases a) auto
    then have "(\<Sum>a\<leftarrow>as. way_left (rouse a)) \<le> (\<Sum>a\<leftarrow>as. way_left a)" for as
      by (intro sum_list_mono)
    from this [of "(wy_agents sy)[i := Gone]"] rouses(1)
      rank_shift [OF rouses(2), of sy Gone "[]"] show ?thesis
      by (simp add: close_rank_def comp_def)
  next
    case (notifies_none i b)
    with rank_shift [OF notifies_none(2), of "sy" "after_notify b" "[]"] show ?thesis
      by (simp add: State_arrived_def)
  next
    case (spawns i)
    with rank_shift [OF spawns(2), of "sy" "Letting_go" "[Arriving]"] show ?thesis
      by (simp add: State_arrived_def)
  next
    case (lets_go i)
    with rank_shift [OF lets_go(2), of "sy" "Gone" "[]"] show ?thesis
      by (simp add: State_arrived_def)
  next
    case (arrives i)
    with rank_shift [OF arrives(2), of "sy\<lparr>wy_state := State_arrived (wy_state sy)\<rparr>" "Asking" "[]"] show ?thesis
      by (simp add: State_arrived_def)
  next
    case (wakes i since)
    with rank_shift [OF wakes(2), of "sy" "Looking since" "[]"] show ?thesis
      by (simp add: State_arrived_def)
  next
    case (finishes i)
    with rank_shift [OF finishes(2), of "sy" "Asking" "[]"] show ?thesis
      by (simp add: State_arrived_def)
  next
    case (deposits i sd)
    with rank_shift [OF deposits(2), of "sy\<lparr>wy_shutdown := Some (retire_deposit sd)\<rparr>" "Deposited" "[]"] show ?thesis
      by (simp add: State_arrived_def)
  next
    case (closes i sd answer sd')
    with rank_shift [OF closes(2), of "sy\<lparr>wy_shutdown := Some sd', wy_answers := wy_answers sy @ (case answer of None \<Rightarrow> [] | Some r \<Rightarrow> [r])\<rparr>" "Gone" "[]"] show ?thesis
      by (simp add: State_arrived_def)
  next
    case (open_reserves i n)
    with opening_not_closing [OF close open_reserves(2)] closing show ?thesis by simp
  next
    case (open_spawns i n)
    with opening_not_closing [OF close open_spawns(2)] closing show ?thesis by simp
  next
    case (open_spawn_fails i n st)
    with opening_not_closing [OF close open_spawn_fails(2)] closing show ?thesis by simp
  next
    case (open_publishes i)
    with opening_not_closing [OF close open_publishes(2)] closing show ?thesis by simp
  qed
qed

text \<open>Every run of a close is bounded by its rank, stays a close, and where it cannot go on is answered.\<close>

lemma close_run:
  assumes "(worker_step limits ^^ n) sy sy'" and "workers_inv limits sy"
    and "ws_phase (wy_state sy) = Closing"
  shows "workers_inv limits sy' \<and> ws_phase (wy_state sy') = Closing \<and> n + close_rank sy' \<le> close_rank sy"
  using assms(1)
proof (induction n arbitrary: sy')
  case 0
  with assms show ?case by simp
next
  case (Suc n)
  from Suc.prems obtain mid where mid: "(worker_step limits ^^ n) sy mid" "worker_step limits mid sy'"
    by auto
  from Suc.IH [OF mid(1)] have m: "workers_inv limits mid" "ws_phase (wy_state mid) = Closing"
      "n + close_rank mid \<le> close_rank sy" by auto
  from close_rank_step [OF m(1,2) mid(2)] workers.inv_step [OF m(1) mid(2)] m show ?case by auto
qed

lemma answers_at_most_one: "workers_inv limits sy \<Longrightarrow> length (wy_answers sy) \<le> 1"
  by (auto simp: workers_inv_def close_ok_def split: option.splits if_splits)

lemma stuck_close_answered:
  assumes "workers_inv limits sy" and "ws_phase (wy_state sy) = Closing" and "\<nexists>sy'. worker_step limits sy sy'"
  shows "length (wy_answers sy) = 1"
proof -
  have "wy_answers sy \<noteq> []"
    using unanswered_close_active [OF assms(1,2)] active_can_step [OF assms(1)] assms(3) by metis
  with answers_at_most_one [OF assms(1)] show ?thesis by (cases "wy_answers sy") auto
qed

lemma close_ends:
  assumes "workers_inv limits sy" and "ws_phase (wy_state sy) = Closing"
  shows "\<exists>sy'. (worker_step limits)\<^sup>*\<^sup>* sy sy' \<and> (\<nexists>sy''. worker_step limits sy' sy'')"
  using assms
proof (induction "close_rank sy" arbitrary: sy rule: less_induct)
  case less
  show ?case
  proof (cases "\<exists>mid. worker_step limits sy mid")
    case True
    then obtain mid where mid: "worker_step limits sy mid" by blast
    from close_rank_step [OF less.prems mid] less.prems(2)
    have "close_rank mid < close_rank sy" "ws_phase (wy_state mid) = Closing" by auto
    from less.hyps [OF this(1) workers.inv_step [OF less.prems(1) mid] this(2)] mid show ?thesis
      by (meson converse_rtranclp_into_rtranclp)
  qed blast
qed

section \<open>Who owns the engine at the end\<close>

lemma last_out_owner:
  assumes inv: "workers_inv limits sy" and at: "agent_at i Last_out sy"
  shows "handles_outside sy = total letting_go sy"
    and "wy_shutdown sy = Some sd \<Longrightarrow> 0 < sd_handles sd \<and> sd_reply sd"
proof -
  have l: "1 \<le> total last_out sy" using total_ge [OF at, of last_out] by simp
  with inv obtain sd0 where sd0: "wy_shutdown sy = Some sd0"
    by (auto simp: workers_inv_def close_ok_def split: option.splits)
  with inv have close: "ws_client (wy_state sy) = None"
      "sd_remaining sd0 = total counted sy + total retiring sy" "total deposited sy \<le> sd_handles sd0"
      "sd_reply sd0 \<longleftrightarrow> wy_answers sy = []"
      "(if sd_remaining sd0 = 0 then 0 else 1) + total last_out sy + length (wy_answers sy) = 1"
    unfolding workers_inv_def close_ok_def by auto
  have "sd_remaining sd0 = 0" using close(5) l by (cases "sd_remaining sd0 = 0") auto
  moreover from this close(5) have "total last_out sy + length (wy_answers sy) = 1" by simp
  with l have "length (wy_answers sy) = 0" by linarith
  ultimately have zero: "sd_remaining sd0 = 0" "length (wy_answers sy) = 0" by blast+
  have "(\<Sum>a\<leftarrow>as. holds a) \<le> (\<Sum>a\<leftarrow>as. counted a) + (\<Sum>a\<leftarrow>as. retiring a) + (\<Sum>a\<leftarrow>as. letting_go a) \<and>
      (\<Sum>a\<leftarrow>as. letting_go a) \<le> (\<Sum>a\<leftarrow>as. holds a)" for as
  proof (induction as)
    case (Cons a as)
    have "holds a \<le> counted a + retiring a + letting_go a \<and> letting_go a \<le> holds a" by (cases a) auto
    with Cons show ?case by auto
  qed simp
  from this [of "wy_agents sy"] zero(1) close(1,2) show "handles_outside sy = total letting_go sy"
    by (simp add: handles_outside_def)
  assume "wy_shutdown sy = Some sd"
  with sd0 zero(2) close(3,4) total_ge [OF at, of deposited] show "0 < sd_handles sd \<and> sd_reply sd"
    by auto
qed

section \<open>Runs of the pool\<close>

text \<open>An elastic pool of one to two workers, and its state with the counters and places given.\<close>

definition demo_policy :: Concurrency where
  "demo_policy = \<lparr>cc_min = 1, cc_max = 2, cc_idle_timeout = Some 1000000000\<rparr>"

definition demo_workers ::
  "(nat, unit) Job list \<Rightarrow> u32 \<Rightarrow> u32 \<Rightarrow> u32 \<Rightarrow> Phase \<Rightarrow> agent list
     \<Rightarrow> (nat \<times> nat \<times> bool) option \<Rightarrow> close_answer list \<Rightarrow> nat wsys" where
  "demo_workers q alive pending started phase agents shutdown answers =
     \<lparr>wy_state = \<lparr>ws_queue = q, ws_alive = alive, ws_pending = pending, ws_idle = 0,
        ws_started = started, ws_phase = phase,
        ws_client = (if phase = Open \<and> (\<forall>a \<in> set agents. \<not> is_opening a) then Some () else None)\<rparr>,
      wy_agents = agents,
      wy_shutdown = map_option (\<lambda>(r, h, w). \<lparr>sd_remaining = r, sd_handles = h, sd_reply = w\<rparr>) shutdown,
      wy_answers = answers, wy_held = True\<rparr>"

lemmas demo_worker_defs = demo_workers_def demo_policy_def shift_def agent_at_def opened_def
  State_publish_def State_arrived_def State_queue_job_def wants_worker_def State_reserve_def
  State_begin_close_def Shutdown_new_def next_job_turn_def State_take_job_def State_waiting_def
  State_resumed_def retire_deposit_def retire_decrement_def retire_close_def handles_outside_def

lemma demo_opening: "workers_reachable demo_policy (demo_workers [] 1 1 1 Open [Opening 0] None [])"
  by (rule reach_init)
    (simp add: workers_init_def Concurrency_wf_def demo_worker_defs State_new_def)

lemma demo_published: "workers_reachable demo_policy (demo_workers [] 1 1 1 Open [Arriving] None [])"
  using reach_step [OF demo_opening worker_step.open_publishes [where i = 0]]
  by (simp add: demo_worker_defs numeral_2_eq_2)

lemma demo_asking: "workers_reachable demo_policy (demo_workers [] 1 0 1 Open [Asking] None [])"
  using reach_step [OF demo_published worker_step.arrives [where i = 0]]
  by (simp add: demo_worker_defs numeral_2_eq_2)

lemma demo_dispatched: "workers_reachable demo_policy (demo_workers [Run 7] 2 1 2 Open [Asking, Notifying_one True] None [])"
  using reach_step [OF demo_asking worker_step.dispatches [where job = 7 and spawn = "Some \<lparr>spawn_client = (), spawn_index = 1\<rparr>" and st = "\<lparr>ws_queue = [Run 7], ws_alive = 2, ws_pending = 1, ws_idle = 0, ws_started = 2, ws_phase = Open, ws_client = Some ()\<rparr>"]]
  by (simp add: demo_worker_defs numeral_2_eq_2)

lemma demo_notified: "workers_reachable demo_policy (demo_workers [Run 7] 2 1 2 Open [Asking, Spawning] None [])"
  using reach_step [OF demo_dispatched worker_step.notifies_none [where i = 1 and b = True]]
  by (simp add: demo_worker_defs numeral_2_eq_2)

lemma demo_spawned: "workers_reachable demo_policy (demo_workers [Run 7] 2 1 2 Open [Asking, Letting_go, Arriving] None [])"
  using reach_step [OF demo_notified worker_step.spawns [where i = 1]]
  by (simp add: demo_worker_defs numeral_2_eq_2)

lemma replicate_two: "replicate 2 x = [x, x]"
  by (simp add: numeral_2_eq_2)

lemma demo_closing: "workers_reachable demo_policy (demo_workers [Run 7, Stop (), Stop ()] 2 1 2 Closing [Asking, Letting_go, Arriving, Rousing] (Some (2, 0, True)) [])"
  using reach_step [OF demo_spawned worker_step.close_begins [where shutdown = "()" and st = "\<lparr>ws_queue = [Run 7, Stop (), Stop ()], ws_alive = 2, ws_pending = 1, ws_idle = 0, ws_started = 2, ws_phase = Closing, ws_client = None\<rparr>"]]
  by (simp add: demo_worker_defs replicate_two)

lemma demo_working: "workers_reachable demo_policy (demo_workers [Stop (), Stop ()] 2 1 2 Closing [Working, Letting_go, Arriving, Rousing] (Some (2, 0, True)) [])"
  using reach_step [OF demo_closing worker_step.asks [where i = 0 and started = 0 and now = 0 and out = "Takes (Run 7)" and held = "Some ()" and st = "\<lparr>ws_queue = [Stop (), Stop ()], ws_alive = 2, ws_pending = 1, ws_idle = 0, ws_started = 2, ws_phase = Closing, ws_client = None\<rparr>"]]
  by (simp add: demo_worker_defs numeral_2_eq_2)

lemma demo_worked: "workers_reachable demo_policy (demo_workers [Stop (), Stop ()] 2 1 2 Closing [Asking, Letting_go, Arriving, Rousing] (Some (2, 0, True)) [])"
  using reach_step [OF demo_working worker_step.finishes [where i = 0]]
  by (simp add: demo_worker_defs numeral_2_eq_2)

lemma demo_stopping: "workers_reachable demo_policy (demo_workers [Stop ()] 2 1 2 Closing [Stopping, Letting_go, Arriving, Rousing] (Some (2, 0, True)) [])"
  using reach_step [OF demo_worked worker_step.asks [where i = 0 and started = 0 and now = 0 and out = "Takes (Stop ())" and held = "Some ()" and st = "\<lparr>ws_queue = [Stop ()], ws_alive = 2, ws_pending = 1, ws_idle = 0, ws_started = 2, ws_phase = Closing, ws_client = None\<rparr>"]]
  by (simp add: demo_worker_defs numeral_2_eq_2)

lemma demo_deposited: "workers_reachable demo_policy (demo_workers [Stop ()] 2 1 2 Closing [Deposited, Letting_go, Arriving, Rousing] (Some (2, 1, True)) [])"
  using reach_step [OF demo_stopping worker_step.deposits [where i = 0 and sd = "\<lparr>sd_remaining = 2, sd_handles = 0, sd_reply = True\<rparr>"]]
  by (simp add: demo_worker_defs numeral_2_eq_2)

lemma demo_counted_out: "workers_reachable demo_policy (demo_workers [Stop ()] 2 1 2 Closing [Gone, Letting_go, Arriving, Rousing] (Some (1, 1, True)) [])"
  using reach_step [OF demo_deposited worker_step.decrements [where i = 0 and sd = "\<lparr>sd_remaining = 2, sd_handles = 1, sd_reply = True\<rparr>" and last_out = False and sd' = "\<lparr>sd_remaining = 1, sd_handles = 1, sd_reply = True\<rparr>"]]
  by (simp add: demo_worker_defs numeral_2_eq_2)

lemma demo_arrived: "workers_reachable demo_policy (demo_workers [Stop ()] 2 0 2 Closing [Gone, Letting_go, Asking, Rousing] (Some (1, 1, True)) [])"
  using reach_step [OF demo_counted_out worker_step.arrives [where i = 2]]
  by (simp add: demo_worker_defs numeral_2_eq_2)

lemma demo_second_stopping: "workers_reachable demo_policy (demo_workers [] 2 0 2 Closing [Gone, Letting_go, Stopping, Rousing] (Some (1, 1, True)) [])"
  using reach_step [OF demo_arrived worker_step.asks [where i = 2 and started = 0 and now = 0 and out = "Takes (Stop ())" and held = "Some ()" and st = "\<lparr>ws_queue = [], ws_alive = 2, ws_pending = 0, ws_idle = 0, ws_started = 2, ws_phase = Closing, ws_client = None\<rparr>"]]
  by (simp add: demo_worker_defs numeral_2_eq_2)

lemma demo_second_deposited: "workers_reachable demo_policy (demo_workers [] 2 0 2 Closing [Gone, Letting_go, Deposited, Rousing] (Some (1, 2, True)) [])"
  using reach_step [OF demo_second_stopping worker_step.deposits [where i = 2 and sd = "\<lparr>sd_remaining = 1, sd_handles = 1, sd_reply = True\<rparr>"]]
  by (simp add: demo_worker_defs numeral_2_eq_2)

lemma demo_last_out: "workers_reachable demo_policy (demo_workers [] 2 0 2 Closing [Gone, Letting_go, Last_out, Rousing] (Some (0, 2, True)) [])"
  using reach_step [OF demo_second_deposited worker_step.decrements [where i = 2 and sd = "\<lparr>sd_remaining = 1, sd_handles = 2, sd_reply = True\<rparr>" and last_out = True and sd' = "\<lparr>sd_remaining = 0, sd_handles = 2, sd_reply = True\<rparr>"]]
  by (simp add: demo_worker_defs numeral_2_eq_2)

lemma demo_closed: "workers_reachable demo_policy (demo_workers [] 2 0 2 Closing [Gone, Letting_go, Gone, Rousing] (Some (0, 0, False)) [Not_the_sole_owner])"
  using reach_step [OF demo_last_out worker_step.closes [where i = 2 and sd = "\<lparr>sd_remaining = 0, sd_handles = 2, sd_reply = True\<rparr>" and answer = "Some Not_the_sole_owner" and sd' = "\<lparr>sd_remaining = 0, sd_handles = 0, sd_reply = False\<rparr>"]]
  by (simp add: demo_worker_defs numeral_2_eq_2)

section \<open>Properties\<close>

text \<open>C2: A close is answered, and answered once, however the threads are interleaved. In any
  reachable state at most one answer to a close has been sent. From a state in which a close has
  begun, while it is unanswered some awake thread can take a step of its own (no worker sleeps
  through its stop); every run takes at most \<open>close_rank\<close> more steps, so nothing can put the answer
  off for ever; there is such a run that ends; and every run that cannot go on has answered the
  close exactly once. How long one step takes (a command inside the engine) is not part of this.\<close>

theorem close_answered_once:
  assumes "workers_reachable limits sy"
  shows "length (wy_answers sy) \<le> 1 \<and>
    (ws_phase (wy_state sy) = Closing \<longrightarrow>
       (wy_answers sy = [] \<longrightarrow>
         (\<exists>i a sy'. agent_at i a sy \<and> active a \<and> worker_step limits sy sy' \<and> wy_agents sy' ! i \<noteq> a)) \<and>
       (\<forall>n sy'. (worker_step limits ^^ n) sy sy' \<longrightarrow> n \<le> close_rank sy) \<and>
       (\<exists>sy'. (worker_step limits)\<^sup>*\<^sup>* sy sy' \<and> (\<nexists>sy''. worker_step limits sy' sy'')) \<and>
       (\<forall>sy'. (worker_step limits)\<^sup>*\<^sup>* sy sy' \<and> (\<nexists>sy''. worker_step limits sy' sy'') \<longrightarrow>
          length (wy_answers sy') = 1))"
proof (intro conjI impI allI)
  have inv: "workers_inv limits sy" by (rule workers.reach_inv [OF assms])
  show "length (wy_answers sy) \<le> 1" by (rule answers_at_most_one [OF inv])
  assume closing: "ws_phase (wy_state sy) = Closing"
  show "\<exists>i a sy'. agent_at i a sy \<and> active a \<and> worker_step limits sy sy' \<and> wy_agents sy' ! i \<noteq> a"
    if "wy_answers sy = []"
    using unanswered_close_active [OF inv closing that] active_can_step [OF inv] by metis
  show "n \<le> close_rank sy" if "(worker_step limits ^^ n) sy sy'" for n sy'
    using close_run [OF that inv closing] by simp
  show "\<exists>sy'. (worker_step limits)\<^sup>*\<^sup>* sy sy' \<and> (\<nexists>sy''. worker_step limits sy' sy'')"
    by (rule close_ends [OF inv closing])
  show "length (wy_answers sy') = 1"
    if "(worker_step limits)\<^sup>*\<^sup>* sy sy' \<and> (\<nexists>sy''. worker_step limits sy' sy'')" for sy'
    using that close_run [OF _ inv closing] stuck_close_answered by (metis rtranclp_imp_relpowp)
qed

theorem close_answered_once_witness:
  "\<exists>sy'. (worker_step demo_policy)\<^sup>*\<^sup>* (demo_workers [Run 7, Stop (), Stop ()] 2 1 2 Closing
      [Asking, Letting_go, Arriving, Rousing] (Some (2, 0, True)) []) sy' \<and> length (wy_answers sy') = 1"
proof -
  have "ws_phase (wy_state (demo_workers [Run 7, Stop (), Stop ()] 2 1 2 Closing
      [Asking, Letting_go, Arriving, Rousing] (Some (2, 0, True)) [])) = Closing"
    by (simp add: demo_workers_def)
  with close_answered_once [OF demo_closing] show ?thesis by metis
qed

text \<open>C10: No queued command is stranded. In any reachable state whose queue is not empty, some
  thread is awake and able to take a step of its own; while the pool is open or a command is queued, at
  least one worker is sure to come to the queue (one that is serving or certain to arrive, not one
  whose thread may fail to start); and if any worker sleeps, then no more jobs are queued than
  workers have been or are about to be woken, unless everybody is being woken.\<close>

theorem queued_jobs_are_run:
  assumes "workers_reachable limits sy"
  shows "(ws_queue (wy_state sy) \<noteq> [] \<longrightarrow>
      (\<exists>i a sy'. agent_at i a sy \<and> active a \<and> worker_step limits sy sy' \<and> wy_agents sy' ! i \<noteq> a)) \<and>
    (ws_phase (wy_state sy) = Open \<or> (\<exists>job. Run job \<in> set (ws_queue (wy_state sy))) \<longrightarrow>
      0 < total sure sy) \<and>
    (list_ex is_dozing (wy_agents sy) \<and> Rousing \<notin> set (wy_agents sy) \<longrightarrow>
      length (ws_queue (wy_state sy)) \<le> total alert sy)"
proof (intro conjI impI)
  have inv: "workers_inv limits sy" by (rule workers.reach_inv [OF assms])
  show "\<exists>i a sy'. agent_at i a sy \<and> active a \<and> worker_step limits sy sy' \<and> wy_agents sy' ! i \<noteq> a"
    if "ws_queue (wy_state sy) \<noteq> []"
    using queued_job_active [OF inv that] active_can_step [OF inv] by metis
  show "0 < total sure sy"
    if "ws_phase (wy_state sy) = Open \<or> (\<exists>job. Run job \<in> set (ws_queue (wy_state sy)))"
    using inv that by (auto simp: workers_inv_def queue_ok_def split: if_splits)
  show "length (ws_queue (wy_state sy)) \<le> total alert sy"
    if "list_ex is_dozing (wy_agents sy) \<and> Rousing \<notin> set (wy_agents sy)"
    using inv that by (auto simp: workers_inv_def wake_ok_def)
qed

theorem queued_jobs_are_run_witness:
  "0 < total sure (demo_workers [Run 7] 2 1 2 Open [Asking, Spawning] None [])"
  using queued_jobs_are_run [OF demo_notified] by (simp add: demo_workers_def)

text \<open>C20: The counts every decision is made from are exact and never wrap. In any reachable state the
  waiting count is the workers waiting, and the pending count is the workers counted whose thread
  has not reached the queue. The live count never passes the policy's ceiling; until a close begins
  it is the workers counted, and from then on, when nothing is decided from it, it is at least
  that, so that giving back a worker that failed to start cannot take it below zero. What a close
  decides from is exact too: its rendezvous counts the workers that have not retired, and the queue
  is the commands still to run followed by exactly one stop for each worker that has not taken
  one. (\<open>started\<close>, which only numbers thread names, is not covered.)\<close>

theorem worker_counts_exact:
  assumes "workers_reachable limits sy"
  shows "unat (ws_idle (wy_state sy)) = total free sy \<and>
    unat (ws_pending (wy_state sy)) = total on_way sy \<and>
    unat (ws_alive (wy_state sy)) \<le> unat (cc_max limits) \<and>
    (ws_phase (wy_state sy) \<noteq> Closing \<longrightarrow> unat (ws_alive (wy_state sy)) = total counted sy) \<and>
    (ws_phase (wy_state sy) = Closing \<longrightarrow>
      total counted sy \<le> unat (ws_alive (wy_state sy)) \<and>
      (\<exists>sd. wy_shutdown sy = Some sd \<and> sd_remaining sd = total counted sy + total retiring sy) \<and>
      (\<exists>jobs. ws_queue (wy_state sy) = map Run jobs @ replicate (total counted sy) (Stop ())))"
proof -
  have inv: "workers_inv limits sy" by (rule workers.reach_inv [OF assms])
  then have "counts_ok limits sy" "queue_ok sy" "close_ok sy" by (auto simp: workers_inv_def)
  then show ?thesis by (auto simp: counts_ok_def queue_ok_def close_ok_def split: option.splits)
qed

theorem worker_counts_exact_witness:
  "unat (ws_pending (wy_state (demo_workers [Run 7] 2 1 2 Open [Asking, Spawning] None []))) = 1"
  using worker_counts_exact [OF demo_notified] by (simp add: demo_workers_def)

text \<open>C21: What a close reports. When the last worker out comes to close the engine, the reply is
  still to be sent and the handles outside the rendezvous are exactly those of callers still
  inside the start of a worker; so the close runs, and its own result is reported, if and only if
  no such caller is left.\<close>

theorem close_reports_engine_result:
  assumes "workers_reachable limits sy" and "agent_at i Last_out sy" and "wy_shutdown sy = Some sd"
  shows "fst (retire_close (handles_outside sy) sd) =
    Some (if total letting_go sy = 0 then Engine_close_ran else Not_the_sole_owner)"
proof -
  have inv: "workers_inv limits sy" by (rule workers.reach_inv [OF assms(1)])
  from last_out_owner [OF inv assms(2)] assms(3) show ?thesis
    by (simp add: retire_close_def Let_def)
qed

theorem close_reports_engine_result_witness:
  "fst (retire_close (handles_outside (demo_workers [] 2 0 2 Closing
      [Gone, Letting_go, Last_out, Rousing] (Some (0, 2, True)) []))
      \<lparr>sd_remaining = 0, sd_handles = 2, sd_reply = True\<rparr>) = Some Not_the_sole_owner"
  using close_reports_engine_result [OF demo_last_out, of 2] by (simp add: demo_workers_def agent_at_def)

text \<open>C39: A close can answer that the engine is closed without having closed it. A caller that
  started a worker still holds its own handle on the engine for a moment after the thread was
  spawned; if a close begins and every worker retires within that moment, the last one out is not
  the engine's sole owner, and the close is answered with an error although nothing failed.\<close>

theorem close_can_miss_the_engine:
  "\<exists>sy :: nat wsys. workers_reachable demo_policy sy \<and> wy_answers sy = [Not_the_sole_owner] \<and>
     0 < total letting_go sy"
  by (rule exI, rule conjI, rule demo_closed) (simp add: demo_workers_def)

end
