(* ===== verification/Floors.thy ===== *)
theory Floors
  imports Errors
begin

text \<open>
  \<open>src/limits/\<close>: the two free-disk floors of the process, the commands that move them, and the
  rules for moving them as a pair: \<open>knobs.rs\<close> (the two server parameters and their units),
  \<open>floor.rs\<close> (the commands of a floor), \<open>process.rs\<close> (a move on a running client, put back when it
  fails half way) and \<open>at_open.rs\<close> (what every open establishes, and MongoDB's own floors recorded
  once). The engine is reached through one function that sends a command to \<open>admin\<close>; it and its
  state are arguments.

  What the rules rely on of that engine is the locale \<open>floor_engine\<close>: a read moves nothing and
  reports what is in force, an accepted \<open>setParameter\<close> moves its own knob and nothing else, and a
  refused one moves nothing. The theory of the test engine (\<open>Fake_Engine\<close>) interprets it.
\<close>

section \<open>The two knobs\<close>

datatype IndexBuildFloor = IndexBuildFloor i64
datatype QuerySpillingFloor = QuerySpillingFloor i64

fun IndexBuildFloor_mebibytes :: "IndexBuildFloor \<Rightarrow> i64" where
  "IndexBuildFloor_mebibytes (IndexBuildFloor n) = n"

fun QuerySpillingFloor_bytes :: "QuerySpillingFloor \<Rightarrow> i64" where
  "QuerySpillingFloor_bytes (QuerySpillingFloor n) = n"

record ReportedFloors =
  rf_index_build :: IndexBuildFloor
  rf_query_spilling :: QuerySpillingFloor

definition ReportedFloors_new :: "IndexBuildFloor \<Rightarrow> QuerySpillingFloor \<Rightarrow> ReportedFloors" where
  "ReportedFloors_new index_build query_spilling =
     \<lparr>rf_index_build = index_build, rf_query_spilling = query_spilling\<rparr>"

definition INDEX_BUILD_FLOOR :: string where
  "INDEX_BUILD_FLOOR = ''indexBuildMinAvailableDiskSpaceMB''"

definition QUERY_SPILLING_FLOOR :: string where
  "QUERY_SPILLING_FLOOR = ''internalQuerySpillingMinAvailableDiskSpaceBytes''"

definition BYTES_PER_MEBIBYTE :: i64 where
  "BYTES_PER_MEBIBYTE = 1024 * 1024"

text \<open>Two commands, index build first.\<close>

definition floor_commands ::
  "'d bson_lib \<Rightarrow> IndexBuildFloor \<Rightarrow> QuerySpillingFloor \<Rightarrow> 'd \<times> 'd" where
  "floor_commands B index_build query_spilling =
     (doc_of B [(''setParameter'', BInt32 1),
                (INDEX_BUILD_FLOOR, BInt64 (IndexBuildFloor_mebibytes index_build))],
      doc_of B [(''setParameter'', BInt32 1),
                (QUERY_SPILLING_FLOOR, BInt64 (QuerySpillingFloor_bytes query_spilling))])"

definition ReportedFloors_commands :: "'d bson_lib \<Rightarrow> ReportedFloors \<Rightarrow> 'd \<times> 'd" where
  "ReportedFloors_commands B self = floor_commands B (rf_index_build self) (rf_query_spilling self)"

definition FreeDiskFloor_commands :: "'d bson_lib \<Rightarrow> FreeDiskFloor \<Rightarrow> 'd \<times> 'd" where
  "FreeDiskFloor_commands B self =
     (let mebibytes = ucast (FreeDiskFloor_mebibytes self) :: i64
      in floor_commands B (IndexBuildFloor mebibytes)
           (QuerySpillingFloor (mebibytes * BYTES_PER_MEBIBYTE)))"

definition floor_in :: "'d bson_lib \<Rightarrow> 'd \<Rightarrow> string \<Rightarrow> 'd error + i64" where
  "floor_in B reported knob =
     (case doc_get B reported knob of
        Some (BInt64 floor) \<Rightarrow> Inr floor
      | Some found \<Rightarrow> Inl (InvalidResponse
          (''getParameter answered '' @ knob @ '' with '' @ bson_debug B found @
           '', not the 64-bit integer the knob holds''))
      | None \<Rightarrow> Inl (InvalidResponse (''getParameter has no '' @ knob)))"

section \<open>Commands on the engine\<close>

type_synonym ('e, 'd) admin = "'e \<Rightarrow> 'd \<Rightarrow> ('d error + 'd) \<times> 'e"

definition read_floors_command :: "'d bson_lib \<Rightarrow> 'd" where
  "read_floors_command B =
     doc_of B [(''getParameter'', BInt32 1), (INDEX_BUILD_FLOOR, BInt32 1),
               (QUERY_SPILLING_FLOOR, BInt32 1)]"

definition reported_floors ::
  "'d bson_lib \<Rightarrow> ('e, 'd) admin \<Rightarrow> 'e \<Rightarrow> ('d error + ReportedFloors) \<times> 'e" where
  "reported_floors B run_on_admin e =
     (let (reply, e1) = run_on_admin e (read_floors_command B)
      in (and_then reply (\<lambda>reported.
            and_then (floor_in B reported INDEX_BUILD_FLOOR) (\<lambda>index_build.
              and_then (floor_in B reported QUERY_SPILLING_FLOOR) (\<lambda>spilling.
                Inr (ReportedFloors_new (IndexBuildFloor index_build)
                       (QuerySpillingFloor spilling))))), e1))"

text \<open>Both commands in order, stopping at the first one refused.\<close>

definition send_floors :: "('e, 'd) admin \<Rightarrow> 'd \<times> 'd \<Rightarrow> 'e \<Rightarrow> ('d error + unit) \<times> 'e" where
  "send_floors run_on_admin commands e =
     (case run_on_admin e (fst commands) of
        (Inl err, e1) \<Rightarrow> (Inl err, e1)
      | (Inr _, e1) \<Rightarrow>
          (case run_on_admin e1 (snd commands) of
             (Inl err, e2) \<Rightarrow> (Inl err, e2)
           | (Inr _, e2) \<Rightarrow> (Inr (), e2)))"

section \<open>Moving the floors of a running client\<close>

text \<open>The lock of \<open>FloorMoves\<close>: what it is handed runs as one step of the process.\<close>

definition one_at_a_time :: "('e \<Rightarrow> 'r \<times> 'e) \<Rightarrow> 'e \<Rightarrow> 'r \<times> 'e" where
  "one_at_a_time moving e = moving e"

definition free_disk_floors ::
  "'d bson_lib \<Rightarrow> ('e, 'd) admin \<Rightarrow> 'e \<Rightarrow> ('d error + ReportedFloors) \<times> 'e" where
  "free_disk_floors B run_on_admin = one_at_a_time (reported_floors B run_on_admin)"

definition apply_or_put_back ::
  "'d bson_lib \<Rightarrow> ('e, 'd) admin \<Rightarrow> FreeDiskFloor \<Rightarrow> ReportedFloors \<Rightarrow> 'e
     \<Rightarrow> ('d error + unit) \<times> 'e" where
  "apply_or_put_back B run_on_admin floor before e =
     (let (move_index_build, move_spilling) = FreeDiskFloor_commands B floor;
          (put_index_build_back, _) = ReportedFloors_commands B before
      in case run_on_admin e move_index_build of
           (Inl err, e1) \<Rightarrow> (Inl err, e1)
         | (Inr _, e1) \<Rightarrow>
             (case run_on_admin e1 move_spilling of
                (Inr _, e2) \<Rightarrow> (Inr (), e2)
              | (Inl cause, e2) \<Rightarrow>
                  (case run_on_admin e2 put_index_build_back of
                     (Inr _, e3) \<Rightarrow> (Inl cause, e3)
                   | (Inl rollback, e3) \<Rightarrow>
                       (Inl (FreeDiskFloorNotRestored floor cause rollback), e3))))"

definition move_free_disk_floor ::
  "'d bson_lib \<Rightarrow> ('e, 'd) admin \<Rightarrow> FreeDiskFloor \<Rightarrow> 'e \<Rightarrow> ('d error + unit) \<times> 'e" where
  "move_free_disk_floor B run_on_admin floor =
     one_at_a_time (\<lambda>e.
       case reported_floors B run_on_admin e of
         (Inl err, e1) \<Rightarrow> (Inl err, e1)
       | (Inr before, e1) \<Rightarrow> apply_or_put_back B run_on_admin floor before e1)"

section \<open>What an open establishes\<close>

text \<open>The floors recorded for the process are part of the state that is passed along.\<close>

definition EngineFloorDefaults_of ::
  "'d bson_lib \<Rightarrow> ('e, 'd) admin \<Rightarrow> ReportedFloors option \<Rightarrow> 'e
     \<Rightarrow> ('d error + ReportedFloors) \<times> ReportedFloors option \<times> 'e" where
  "EngineFloorDefaults_of B run_on_admin recorded e =
     (case recorded of
        Some floors \<Rightarrow> (Inr floors, recorded, e)
      | None \<Rightarrow>
          (case reported_floors B run_on_admin e of
             (Inl err, e1) \<Rightarrow> (Inl err, None, e1)
           | (Inr floors, e1) \<Rightarrow> (Inr floors, Some floors, e1)))"

definition establish ::
  "'d bson_lib \<Rightarrow> ('e, 'd) admin \<Rightarrow> FreeDiskFloor option \<Rightarrow> ReportedFloors option \<times> 'e
     \<Rightarrow> ('d error + unit) \<times> ReportedFloors option \<times> 'e" where
  "establish B run_on_admin requested =
     one_at_a_time (\<lambda>(recorded, e).
       case EngineFloorDefaults_of B run_on_admin recorded e of
         (Inl err, recorded', e1) \<Rightarrow> (Inl err, recorded', e1)
       | (Inr engine_own, recorded', e1) \<Rightarrow>
           (case requested of
              Some floor \<Rightarrow>
                (let (r, e2) = send_floors run_on_admin (FreeDiskFloor_commands B floor) e1
                 in (r, recorded', e2))
            | None \<Rightarrow>
                (let (r, e2) = send_floors run_on_admin (ReportedFloors_commands B engine_own) e1
                 in (r, recorded', e2))))"

section \<open>A process\<close>

text \<open>
  The process's floors over its life: opens, each with or without a floor of its own, and moves
  and reads through a client some open answered. Every one of them holds the lock for its whole
  length, so their interleavings are sequences.
\<close>

inductive floor_step ::
  "'d bson_lib \<Rightarrow> ('e, 'd) admin \<Rightarrow> ReportedFloors option \<times> 'e \<Rightarrow> ReportedFloors option \<times> 'e \<Rightarrow> bool"
  for B run_on_admin where
  opens:
    "establish B run_on_admin requested p = (r, p') \<Longrightarrow> floor_step B run_on_admin p p'"
| moves:
    "recorded \<noteq> None \<Longrightarrow> move_free_disk_floor B run_on_admin floor e = (r, e') \<Longrightarrow>
     floor_step B run_on_admin (recorded, e) (recorded, e')"
| reads:
    "recorded \<noteq> None \<Longrightarrow> free_disk_floors B run_on_admin e = (r, e') \<Longrightarrow>
     floor_step B run_on_admin (recorded, e) (recorded, e')"

section \<open>What the rules rely on\<close>

text \<open>The pair a floor asks for, in the units of the two knobs.\<close>

definition floors_of :: "FreeDiskFloor \<Rightarrow> ReportedFloors" where
  "floors_of floor =
     ReportedFloors_new (IndexBuildFloor (ucast (FreeDiskFloor_mebibytes floor)))
       (QuerySpillingFloor (ucast (FreeDiskFloor_mebibytes floor) * BYTES_PER_MEBIBYTE))"

locale floor_engine =
  fixes B :: "'d bson_lib"
    and run_on_admin :: "'e \<Rightarrow> 'd \<Rightarrow> ('d error + 'd) \<times> 'e"
    and in_force :: "'e \<Rightarrow> ReportedFloors"
  assumes read_keeps: "run_on_admin e (read_floors_command B) = (r, e') \<Longrightarrow> in_force e' = in_force e"
    and read_index_build:
      "run_on_admin e (read_floors_command B) = (Inr reply, e') \<Longrightarrow>
       doc_get B reply INDEX_BUILD_FLOOR = Some (BInt64 n) \<Longrightarrow>
       rf_index_build (in_force e) = IndexBuildFloor n"
    and read_spilling:
      "run_on_admin e (read_floors_command B) = (Inr reply, e') \<Longrightarrow>
       doc_get B reply QUERY_SPILLING_FLOOR = Some (BInt64 n) \<Longrightarrow>
       rf_query_spilling (in_force e) = QuerySpillingFloor n"
    and set_index_build:
      "run_on_admin e (fst (floor_commands B i q)) = (r, e') \<Longrightarrow>
       in_force e' = (case r of Inl _ \<Rightarrow> in_force e | Inr _ \<Rightarrow> (in_force e)\<lparr>rf_index_build := i\<rparr>)"
    and set_spilling:
      "run_on_admin e (snd (floor_commands B i q)) = (r, e') \<Longrightarrow>
       in_force e' = (case r of Inl _ \<Rightarrow> in_force e | Inr _ \<Rightarrow> (in_force e)\<lparr>rf_query_spilling := q\<rparr>)"
begin

lemma reported_in_force:
  assumes "reported_floors B run_on_admin e = (r, e')"
  shows "in_force e' = in_force e" and "r = Inr floors \<Longrightarrow> floors = in_force e"
proof -
  obtain reply e1 where run: "run_on_admin e (read_floors_command B) = (reply, e1)"
    by (cases "run_on_admin e (read_floors_command B)")
  with assms have e': "e' = e1" by (simp add: reported_floors_def)
  with run show "in_force e' = in_force e" by (simp add: read_keeps)
  have floor_in: "floor_in B d k = Inr n \<Longrightarrow> doc_get B d k = Some (BInt64 n)" for d k n
    by (auto simp: floor_in_def split: option.splits bson.splits)
  assume "r = Inr floors"
  with assms run obtain d i q where "reply = Inr d"
      "floor_in B d INDEX_BUILD_FLOOR = Inr i" "floor_in B d QUERY_SPILLING_FLOOR = Inr q"
      "floors = ReportedFloors_new (IndexBuildFloor i) (QuerySpillingFloor q)"
    by (auto simp: reported_floors_def and_then_Inr_iff)
  with run floor_in [of d] read_index_build [of e d e1 i] read_spilling [of e d e1 q]
  show "floors = in_force e" by (simp add: ReportedFloors_new_def)
qed

lemma sent_in_force:
  assumes "send_floors run_on_admin (floor_commands B i q) e = (r, e')"
  shows "r = Inr () \<Longrightarrow> in_force e' = ReportedFloors_new i q"
    and "r \<noteq> Inr () \<Longrightarrow> in_force e' = in_force e \<or> in_force e' = (in_force e)\<lparr>rf_index_build := i\<rparr>"
proof -
  obtain r1 e1 where one: "run_on_admin e (fst (floor_commands B i q)) = (r1, e1)"
    by (cases "run_on_admin e (fst (floor_commands B i q))")
  obtain r2 e2 where two: "run_on_admin e1 (snd (floor_commands B i q)) = (r2, e2)"
    by (cases "run_on_admin e1 (snd (floor_commands B i q))")
  from assms one two set_index_build [OF one] set_spilling [OF two]
  show "r = Inr () \<Longrightarrow> in_force e' = ReportedFloors_new i q"
    and "r \<noteq> Inr () \<Longrightarrow> in_force e' = in_force e \<or> in_force e' = (in_force e)\<lparr>rf_index_build := i\<rparr>"
    by (cases r1; cases r2; auto simp: send_floors_def ReportedFloors_new_def)+
qed

lemma free_floor_commands:
  "FreeDiskFloor_commands B floor =
     floor_commands B (rf_index_build (floors_of floor)) (rf_query_spilling (floors_of floor))"
  by (simp add: FreeDiskFloor_commands_def floors_of_def ReportedFloors_new_def Let_def)

lemma moved_in_force:
  assumes "move_free_disk_floor B run_on_admin floor e = (r, e')"
  shows "r = Inr () \<Longrightarrow> in_force e' = floors_of floor"
    and "r = Inl err \<Longrightarrow> (\<forall>f c b. err \<noteq> FreeDiskFloorNotRestored f c b) \<Longrightarrow> in_force e' = in_force e"
proof -
  let ?i = "rf_index_build (floors_of floor)" and ?q = "rf_query_spilling (floors_of floor)"
  obtain r0 e0 where read: "reported_floors B run_on_admin e = (r0, e0)"
    by (cases "reported_floors B run_on_admin e")
  note same = reported_in_force(1) [OF read]
  show "r = Inr () \<Longrightarrow> in_force e' = floors_of floor"
    and "r = Inl err \<Longrightarrow> (\<forall>f c b. err \<noteq> FreeDiskFloorNotRestored f c b) \<Longrightarrow> in_force e' = in_force e"
  proof (atomize (full), cases r0)
    case (Inl err0)
    with assms read same show "(r = Inr () \<longrightarrow> in_force e' = floors_of floor) \<and>
        (r = Inl err \<longrightarrow> (\<forall>f c b. err \<noteq> FreeDiskFloorNotRestored f c b) \<longrightarrow> in_force e' = in_force e)"
      by (auto simp: move_free_disk_floor_def one_at_a_time_def)
  next
    case (Inr prior)
    with read have prior: "prior = in_force e" by (simp add: reported_in_force(2))
    obtain r1 e1 where one: "run_on_admin e0 (fst (floor_commands B ?i ?q)) = (r1, e1)"
      by (cases "run_on_admin e0 (fst (floor_commands B ?i ?q))")
    obtain r2 e2 where two: "run_on_admin e1 (snd (floor_commands B ?i ?q)) = (r2, e2)"
      by (cases "run_on_admin e1 (snd (floor_commands B ?i ?q))")
    obtain r3 e3 where put: "run_on_admin e2 (fst (ReportedFloors_commands B prior)) = (r3, e3)"
      by (cases "run_on_admin e2 (fst (ReportedFloors_commands B prior))")
    note sets = set_index_build [OF one] set_spilling [OF two]
      set_index_build [OF put [unfolded ReportedFloors_commands_def]]
    have "apply_or_put_back B run_on_admin floor prior e0 = (r, e')"
      using assms read Inr by (simp add: move_free_disk_floor_def one_at_a_time_def)
    with one two put sets same prior show "(r = Inr () \<longrightarrow> in_force e' = floors_of floor) \<and>
        (r = Inl err \<longrightarrow> (\<forall>f c b. err \<noteq> FreeDiskFloorNotRestored f c b) \<longrightarrow> in_force e' = in_force e)"
      by (cases r1; cases r2; cases r3)
        (auto simp: apply_or_put_back_def free_floor_commands split_beta)
  qed
qed

lemma established_in_force:
  assumes "establish B run_on_admin requested (recorded, e) = (r, recorded', e')"
  shows "r = Inr () \<Longrightarrow> recorded' \<noteq> None \<and>
      in_force e' = (case requested of Some floor \<Rightarrow> floors_of floor | None \<Rightarrow> the recorded')"
    and "recorded' = None \<Longrightarrow> in_force e' = in_force e"
    and "recorded' = (case recorded of Some f \<Rightarrow> Some f | None \<Rightarrow> recorded')"
    and "recorded = None \<Longrightarrow> recorded' = Some f \<Longrightarrow> f = in_force e"
proof -
  obtain d recorded1 e1 where own: "EngineFloorDefaults_of B run_on_admin recorded e = (d, recorded1, e1)"
    by (metis surj_pair)
  have rec: "recorded' = recorded1"
    using assms own by (auto simp: establish_def one_at_a_time_def Let_def split_beta
        split: sum.splits option.splits)
  obtain r0 e0 where read: "reported_floors B run_on_admin e = (r0, e0)"
    by (cases "reported_floors B run_on_admin e")
  note reported = reported_in_force [OF read]
  have frame: "in_force e1 = in_force e"
    using own read reported(1) by (auto simp: EngineFloorDefaults_of_def split: option.splits sum.splits)
  show "recorded' = (case recorded of Some f \<Rightarrow> Some f | None \<Rightarrow> recorded')"
    using own rec by (auto simp: EngineFloorDefaults_of_def split: option.splits)
  show "f = in_force e" if "recorded = None" "recorded' = Some f"
    using that own rec read reported(2) by (auto simp: EngineFloorDefaults_of_def split: sum.splits)
  have none: "recorded' = None \<Longrightarrow> \<exists>err. d = Inl err"
    using own rec by (auto simp: EngineFloorDefaults_of_def split: option.splits sum.splits prod.splits)
  then show "in_force e' = in_force e" if "recorded' = None"
    using that assms own frame by (auto simp: establish_def one_at_a_time_def)
  show "recorded' \<noteq> None \<and>
      in_force e' = (case requested of Some floor \<Rightarrow> floors_of floor | None \<Rightarrow> the recorded')"
    if "r = Inr ()"
  proof -
    from assms own that obtain own_floors where d: "d = Inr own_floors"
      by (cases d) (auto simp: establish_def one_at_a_time_def)
    with own have "recorded1 = Some own_floors"
      by (auto simp: EngineFloorDefaults_of_def split: option.splits sum.splits prod.splits)
    moreover have "in_force e' = (case requested of Some floor \<Rightarrow> floors_of floor | None \<Rightarrow> own_floors)"
    proof (cases requested)
      case None
      with assms own d that have "send_floors run_on_admin (ReportedFloors_commands B own_floors) e1 = (Inr (), e')"
        by (auto simp: establish_def one_at_a_time_def Let_def split: prod.splits)
      from sent_in_force(1) [OF this [unfolded ReportedFloors_commands_def]] None show ?thesis
        by (simp add: ReportedFloors_new_def)
    next
      case (Some floor)
      with assms own d that have "send_floors run_on_admin (FreeDiskFloor_commands B floor) e1 = (Inr (), e')"
        by (auto simp: establish_def one_at_a_time_def Let_def split: prod.splits)
      from sent_in_force(1) [OF this [unfolded free_floor_commands]] Some show ?thesis
        by (simp add: ReportedFloors_new_def)
    qed
    ultimately show ?thesis by (cases requested) (simp_all add: rec)
  qed
qed

text \<open>What is recorded is what was in force before anything moved.\<close>

lemma recorded_once:
  assumes "(floor_step B run_on_admin)\<^sup>*\<^sup>* (None, e) (recorded, e')"
  shows "recorded = None \<and> in_force e' = in_force e \<or> recorded = Some (in_force e)"
  using assms
proof (induction "(recorded, e')" arbitrary: recorded e' rule: rtranclp_induct)
  case (step p)
  obtain recorded1 e1 where p: "p = (recorded1, e1)" by (cases p)
  from step(2) show ?case
  proof cases
    case (opens requested r)
    with p step(3) [OF p] established_in_force [of requested recorded1 e1 r recorded e'] show ?thesis
      by (cases recorded) (auto split: option.splits)
  qed (use p step(3) [OF p] in auto)
qed auto

end

end
