(* ===== verification/Fake_Engine.thy ===== *)
theory Fake_Engine
  imports Floors
begin

text \<open>
  \<open>src/limits/fake.rs\<close>: the engine the floors are tested against. It answers \<open>getParameter\<close>
  with whatever \<open>setParameter\<close> last wrote and departs from a healthy engine in one way at most.
  Interpreting \<open>floor_engine\<close> on it, quirks included, shows that what the floor rules rely on is
  what the test engine does; the two quirks that only instrument threads (a read that fails the
  test, a knob that waits for a second thread) are left out.

  The properties of the floors follow, each over any engine that satisfies the interface, with a
  run against this engine as the witness.
\<close>

section \<open>The engine\<close>

definition DEFAULT_MEBIBYTES :: i64 where "DEFAULT_MEBIBYTES = 500"
definition DEFAULT_BYTES :: i64 where "DEFAULT_BYTES = DEFAULT_MEBIBYTES * 1024 * 1024"

datatype Quirk =
    Quirk_None
  | Refuses string
  | RefusesFrom nat
  | Hides string
  | Mistypes string

record 'd FakeEngine =
  fe_floors :: ReportedFloors
  fe_commands :: "'d list"
  fe_quirk :: Quirk

definition MISTYPED_AS :: string where "MISTYPED_AS = ''not a number at all''"

definition FakeEngine_new :: "i64 \<Rightarrow> i64 \<Rightarrow> 'd FakeEngine" where
  "FakeEngine_new index_build_mebibytes query_spilling_bytes =
     \<lparr>fe_floors = ReportedFloors_new (IndexBuildFloor index_build_mebibytes)
        (QuerySpillingFloor query_spilling_bytes),
      fe_commands = [], fe_quirk = Quirk_None\<rparr>"

definition FakeEngine_reporting :: "i64 \<Rightarrow> 'd FakeEngine" where
  "FakeEngine_reporting mebibytes = FakeEngine_new mebibytes (mebibytes * 1024 * 1024)"

definition FakeEngine_with :: "Quirk \<Rightarrow> 'd FakeEngine \<Rightarrow> 'd FakeEngine" where
  "FakeEngine_with q self = self\<lparr>fe_quirk := q\<rparr>"

definition FakeEngine_floors_set :: "'d bson_lib \<Rightarrow> 'd FakeEngine \<Rightarrow> 'd list" where
  "FakeEngine_floors_set B self =
     filter (\<lambda>command. contains_key B command ''setParameter'') (fe_commands self)"

definition knob_of :: "'d bson_lib \<Rightarrow> 'd \<Rightarrow> string option" where
  "knob_of B command =
     List.find (\<lambda>knob. contains_key B command knob) [INDEX_BUILD_FLOOR, QUERY_SPILLING_FLOOR]"

definition FakeEngine_read :: "'d bson_lib \<Rightarrow> 'd FakeEngine \<Rightarrow> 'd" where
  "FakeEngine_read B self =
     foldl (\<lambda>reply (knob, v).
         case fe_quirk self of
           Hides hidden \<Rightarrow>
             (if hidden = knob then reply else doc_insert B reply knob (BInt64 v))
         | Mistypes mistyped \<Rightarrow>
             (if mistyped = knob then doc_insert B reply knob (BString MISTYPED_AS)
              else doc_insert B reply knob (BInt64 v))
         | _ \<Rightarrow> doc_insert B reply knob (BInt64 v))
       (doc_of B [(''ok'', BDouble (f64_of_int 1))])
       [(INDEX_BUILD_FLOOR, IndexBuildFloor_mebibytes (rf_index_build (fe_floors self))),
        (QUERY_SPILLING_FLOOR, QuerySpillingFloor_bytes (rf_query_spilling (fe_floors self)))]"

definition FakeEngine_refused :: "'d bson_lib \<Rightarrow> 'd FakeEngine \<Rightarrow> 'd \<Rightarrow> string option" where
  "FakeEngine_refused B self command =
     Option.bind (knob_of B command) (\<lambda>carried.
       case fe_quirk self of
         Refuses knob \<Rightarrow> (if knob = carried then Some carried else None)
       | RefusesFrom n \<Rightarrow>
           (if n < length (FakeEngine_floors_set B self) then Some carried else None)
       | _ \<Rightarrow> None)"

definition FakeEngine_run_on_admin ::
  "'d bson_lib \<Rightarrow> 'd FakeEngine \<Rightarrow> 'd \<Rightarrow> ('d error + 'd) \<times> 'd FakeEngine" where
  "FakeEngine_run_on_admin B self command =
     (let e1 = self\<lparr>fe_commands := fe_commands self @ [command]\<rparr> in
      if contains_key B command ''getParameter'' then (Inr (FakeEngine_read B e1), e1)
      else
        case FakeEngine_refused B e1 command of
          Some knob \<Rightarrow>
            (Inl (Server (Some 72) (''no such parameter '' @ knob)
                    (doc_of B [(''ok'', BDouble (f64_of_int 0))])), e1)
        | None \<Rightarrow>
            (Inr (doc_of B [(''ok'', BDouble (f64_of_int 1))]),
             e1\<lparr>fe_floors := ReportedFloors_new
               (case get_i64 B command INDEX_BUILD_FLOOR of
                  Some n \<Rightarrow> IndexBuildFloor n | None \<Rightarrow> rf_index_build (fe_floors e1))
               (case get_i64 B command QUERY_SPILLING_FLOOR of
                  Some n \<Rightarrow> QuerySpillingFloor n | None \<Rightarrow> rf_query_spilling (fe_floors e1))\<rparr>))"

section \<open>It is an engine the floor rules can rely on\<close>

lemma knobs_distinct [simp]:
  "INDEX_BUILD_FLOOR \<noteq> QUERY_SPILLING_FLOOR" "QUERY_SPILLING_FLOOR \<noteq> INDEX_BUILD_FLOOR"
  "INDEX_BUILD_FLOOR \<noteq> ''ok''" "QUERY_SPILLING_FLOOR \<noteq> ''ok''"
  "INDEX_BUILD_FLOOR \<noteq> ''setParameter''" "QUERY_SPILLING_FLOOR \<noteq> ''setParameter''"
  "INDEX_BUILD_FLOOR \<noteq> ''getParameter''" "QUERY_SPILLING_FLOOR \<noteq> ''getParameter''"
  "''getParameter'' \<noteq> INDEX_BUILD_FLOOR" "''getParameter'' \<noteq> QUERY_SPILLING_FLOOR"
  "''setParameter'' \<noteq> INDEX_BUILD_FLOOR" "''setParameter'' \<noteq> QUERY_SPILLING_FLOOR"
  by (simp_all add: INDEX_BUILD_FLOOR_def QUERY_SPILLING_FLOOR_def)

lemma read_command_get:
  "bson_laws B \<Longrightarrow> contains_key B (read_floors_command B) ''getParameter''"
  by (simp add: contains_key_def read_floors_command_def doc_get_doc_of)

lemma floor_command_get:
  assumes "bson_laws B"
  shows "\<not> contains_key B (fst (floor_commands B i q)) ''getParameter''"
    and "\<not> contains_key B (snd (floor_commands B i q)) ''getParameter''"
    and "get_i64 B (fst (floor_commands B i q)) INDEX_BUILD_FLOOR = Some (IndexBuildFloor_mebibytes i)"
    and "get_i64 B (fst (floor_commands B i q)) QUERY_SPILLING_FLOOR = None"
    and "get_i64 B (snd (floor_commands B i q)) INDEX_BUILD_FLOOR = None"
    and "get_i64 B (snd (floor_commands B i q)) QUERY_SPILLING_FLOOR = Some (QuerySpillingFloor_bytes q)"
  using assms
  by (auto simp: contains_key_def get_i64_def floor_commands_def doc_get_doc_of)

lemma floor_newtypes [simp]:
  "IndexBuildFloor (IndexBuildFloor_mebibytes i) = i"
  "QuerySpillingFloor (QuerySpillingFloor_bytes q) = q"
  by (cases i; cases q; simp)+

lemma fake_read_get:
  assumes "bson_laws B"
  shows "doc_get B (FakeEngine_read B e) INDEX_BUILD_FLOOR = Some (BInt64 n) \<Longrightarrow>
      n = IndexBuildFloor_mebibytes (rf_index_build (fe_floors e))"
    and "doc_get B (FakeEngine_read B e) QUERY_SPILLING_FLOOR = Some (BInt64 n) \<Longrightarrow>
      n = QuerySpillingFloor_bytes (rf_query_spilling (fe_floors e))"
  using assms
  by (cases "fe_quirk e";
      simp add: FakeEngine_read_def bson_laws_get doc_get_doc_of split: if_splits)+

lemma fake_floor_engine:
  assumes laws: "bson_laws B"
  shows "floor_engine B (FakeEngine_run_on_admin B) fe_floors"
proof
  fix e r e' assume "FakeEngine_run_on_admin B e (read_floors_command B) = (r, e')"
  then show "fe_floors e' = fe_floors e"
    by (auto simp: FakeEngine_run_on_admin_def read_command_get [OF laws] Let_def)
next
  fix e reply e' n
  assume "FakeEngine_run_on_admin B e (read_floors_command B) = (Inr reply, e')"
    and "doc_get B reply INDEX_BUILD_FLOOR = Some (BInt64 n)"
  then show "rf_index_build (fe_floors e) = IndexBuildFloor n"
    by (auto simp: FakeEngine_run_on_admin_def read_command_get [OF laws] Let_def
        dest!: fake_read_get(1) [OF laws])
next
  fix e reply e' n
  assume "FakeEngine_run_on_admin B e (read_floors_command B) = (Inr reply, e')"
    and "doc_get B reply QUERY_SPILLING_FLOOR = Some (BInt64 n)"
  then show "rf_query_spilling (fe_floors e) = QuerySpillingFloor n"
    by (auto simp: FakeEngine_run_on_admin_def read_command_get [OF laws] Let_def
        dest!: fake_read_get(2) [OF laws])
next
  fix e i q r e' assume "FakeEngine_run_on_admin B e (fst (floor_commands B i q)) = (r, e')"
  then show "fe_floors e' = (case r of Inl _ \<Rightarrow> fe_floors e | Inr _ \<Rightarrow> (fe_floors e)\<lparr>rf_index_build := i\<rparr>)"
    by (auto simp: FakeEngine_run_on_admin_def floor_command_get [OF laws] Let_def
        ReportedFloors_new_def split: option.splits)
next
  fix e i q r e' assume "FakeEngine_run_on_admin B e (snd (floor_commands B i q)) = (r, e')"
  then show "fe_floors e' = (case r of Inl _ \<Rightarrow> fe_floors e | Inr _ \<Rightarrow> (fe_floors e)\<lparr>rf_query_spilling := q\<rparr>)"
    by (auto simp: FakeEngine_run_on_admin_def floor_command_get [OF laws] Let_def
        ReportedFloors_new_def split: option.splits)
qed

interpretation fake: floor_engine alist_lib "FakeEngine_run_on_admin alist_lib" fe_floors
  by (rule fake_floor_engine [OF bson_laws_alist])

section \<open>Properties of the floors\<close>

text \<open>C6: A move is all or nothing, or says otherwise. On any engine that applies what it accepts and
  nothing it refuses, a move that succeeds leaves both floors where the caller asked, in each
  knob's own unit; a move that fails with any error other than the one that says the floors could
  not be restored leaves both floors exactly where they were.\<close>

theorem floor_moves_all_or_nothing:
  assumes "floor_engine B run_on_admin in_force"
    and "move_free_disk_floor B run_on_admin floor e = (r, e')"
  shows "(r = Inr () \<longrightarrow> in_force e' = floors_of floor) \<and>
    (\<forall>err. r = Inl err \<and> (\<forall>f c b. err \<noteq> FreeDiskFloorNotRestored f c b) \<longrightarrow>
       in_force e' = in_force e)"
  using floor_engine.moved_in_force [OF assms] by blast

theorem floor_moves_all_or_nothing_witness:
  "fe_floors (snd (move_free_disk_floor alist_lib (FakeEngine_run_on_admin alist_lib) (FreeDiskFloor 32)
      (FakeEngine_with (Refuses QUERY_SPILLING_FLOOR) (FakeEngine_reporting 500)))) =
   fe_floors (FakeEngine_reporting 500 :: adoc FakeEngine)"
proof -
  let ?e = "FakeEngine_with (Refuses QUERY_SPILLING_FLOOR) (FakeEngine_reporting 500) :: adoc FakeEngine"
  obtain r e' where run: "move_free_disk_floor alist_lib (FakeEngine_run_on_admin alist_lib)
      (FreeDiskFloor 32) ?e = (r, e')" by (metis surj_pair)
  have "r = Inl (Server (Some 72) (''no such parameter '' @ QUERY_SPILLING_FLOOR)
      (doc_of alist_lib [(''ok'', BDouble (f64_of_int 0))]))"
    using run
    by (simp add: move_free_disk_floor_def one_at_a_time_def reported_floors_def apply_or_put_back_def
        FakeEngine_run_on_admin_def FakeEngine_with_def FakeEngine_reporting_def FakeEngine_new_def
        FakeEngine_read_def FakeEngine_refused_def knob_of_def contains_key_def get_i64_def floor_in_def
        read_floors_command_def FreeDiskFloor_commands_def ReportedFloors_commands_def floor_commands_def
        ReportedFloors_new_def doc_get_doc_of [OF bson_laws_alist] bson_laws_get [OF bson_laws_alist]
        Let_def)
  with floor_moves_all_or_nothing [OF fake_floor_engine [OF bson_laws_alist] run] run show ?thesis
    by (simp add: FakeEngine_with_def)
qed

text \<open>An open runs on the floors it asked for, whoever ran before it. Start a process on an engine
  and let any sequence of opens, moves and reads happen, failed ones included. Then an open that
  succeeds leaves the floor it names in force or, where it names none, the floors the engine had
  before anything in the process moved them; and those are what the process has recorded.\<close>

theorem opens_establish_their_floors:
  assumes "floor_engine B run_on_admin in_force"
    and "(floor_step B run_on_admin)\<^sup>*\<^sup>* (None, e) (recorded, e1)"
    and "establish B run_on_admin requested (recorded, e1) = (Inr (), recorded', e2)"
  shows "in_force e2 = (case requested of Some floor \<Rightarrow> floors_of floor | None \<Rightarrow> in_force e) \<and>
    recorded' = Some (in_force e)"
proof -
  note once = floor_engine.recorded_once [OF assms(1,2)]
  note est = floor_engine.established_in_force [OF assms(1,3)]
  from once est(1,3,4) have "recorded' = Some (in_force e)" by (cases recorded) auto
  with est(1) show ?thesis by (cases requested) auto
qed

lemmas fake_run_defs = establish_def EngineFloorDefaults_of_def send_floors_def one_at_a_time_def
  reported_floors_def FakeEngine_run_on_admin_def FakeEngine_reporting_def FakeEngine_new_def
  FakeEngine_read_def FakeEngine_refused_def knob_of_def contains_key_def get_i64_def floor_in_def
  read_floors_command_def FreeDiskFloor_commands_def ReportedFloors_commands_def floor_commands_def
  ReportedFloors_new_def doc_get_doc_of [OF bson_laws_alist] bson_laws_get [OF bson_laws_alist]

theorem opens_establish_their_floors_witness:
  "\<exists>e1 recorded1. establish alist_lib (FakeEngine_run_on_admin alist_lib) (Some (FreeDiskFloor 32))
       (None, FakeEngine_reporting 500) = (Inr (), recorded1, e1) \<and>
     (\<exists>e2 recorded2. establish alist_lib (FakeEngine_run_on_admin alist_lib) None (recorded1, e1) =
        (Inr (), recorded2, e2) \<and> fe_floors e2 = fe_floors (FakeEngine_reporting 500 :: adoc FakeEngine))"
proof -
  let ?run = "FakeEngine_run_on_admin alist_lib" and ?e = "FakeEngine_reporting 500 :: adoc FakeEngine"
  obtain r1 recorded1 e1 where one: "establish alist_lib ?run (Some (FreeDiskFloor 32)) (None, ?e) =
      (r1, recorded1, e1)" by (metis surj_pair)
  obtain r2 recorded2 e2 where two: "establish alist_lib ?run None (recorded1, e1) = (r2, recorded2, e2)"
    by (metis surj_pair)
  have "r1 = Inr ()" and "r2 = Inr ()"
    using one two by (auto simp: fake_run_defs Let_def split: prod.splits)
  moreover have "(floor_step alist_lib ?run)\<^sup>*\<^sup>* (None, ?e) (recorded1, e1)"
    using floor_step.opens [OF one] by (rule r_into_rtranclp)
  from opens_establish_their_floors [OF fake_floor_engine [OF bson_laws_alist] this, of None recorded2 e2]
    two \<open>r2 = Inr ()\<close> have "fe_floors e2 = fe_floors ?e" by simp
  ultimately show ?thesis using one two by blast
qed

lemma sint_i64_nat: "n < 2 ^ 63 \<Longrightarrow> sint (word_of_nat n :: i64) = int n"
  by (simp add: sint_uint unsigned_of_nat take_bit_nat_eq_self signed_take_bit_int_eq_self)

text \<open>Naming a floor never overflows the byte count: whatever floor a caller can name, the two
  commands carry that many mebibytes and exactly 1,048,576 times as many bytes, as signed 64-bit
  integers.\<close>

theorem floor_units_exact:
  "sint (IndexBuildFloor_mebibytes (rf_index_build (floors_of floor))) =
     int (unat (FreeDiskFloor_mebibytes floor)) \<and>
   sint (QuerySpillingFloor_bytes (rf_query_spilling (floors_of floor))) =
     int (unat (FreeDiskFloor_mebibytes floor)) * 1048576 \<and>
   FreeDiskFloor_commands B floor = ReportedFloors_commands B (floors_of floor)"
proof -
  define n where "n = unat (FreeDiskFloor_mebibytes floor)"
  have "n < 2 ^ 32" unfolding n_def by (rule u32_bound)
  then have n: "n < 2 ^ 63" "n * 1048576 < 2 ^ 63" by simp_all
  have mib: "ucast (FreeDiskFloor_mebibytes floor) = (word_of_nat n :: i64)"
    unfolding n_def by (rule of_nat_unat [symmetric])
  have bytes: "word_of_nat n * BYTES_PER_MEBIBYTE = (word_of_nat (n * 1048576) :: i64)"
    by (simp add: BYTES_PER_MEBIBYTE_def)
  show ?thesis
    using sint_i64_nat [OF n(1)] sint_i64_nat [OF n(2)]
    by (simp add: floors_of_def ReportedFloors_new_def ReportedFloors_commands_def
        FreeDiskFloor_commands_def Let_def mib bytes n_def [symmetric] del: of_nat_mult)
qed

end
