(* ===== verification/Wire.thy ===== *)
theory Wire
  imports Bson_Iface
begin

text \<open>
  \<open>embedded-mongodb-wire/src/lib.rs\<close>: the parser every driver binding hands its messages to. A
  message is a byte list, an offset a natural number; the two loops are recursions that end
  because every section and every document consumes bytes. Indexing a slice out of range would
  panic in Rust: here it is the value \<open>Wire_panic\<close>, so that its absence is a theorem. BSON
  documents are decoded and encoded by the \<open>bson\<close> crate, an argument.

  The lemmas show that the parser never panics, what every request it answers looks like, and that
  a message laid out as the protocol says parses to the command it carries.
\<close>

section \<open>Results\<close>

datatype wire_error = Wire_error string | Wire_panic

record Request =
  rq_request_id :: i32
  rq_more_to_come :: bool
  rq_legacy :: bool
  rq_database :: string
  rq_command_name :: string
  rq_command :: bytes

definition OP_MSG :: i32 where "OP_MSG = 2013"
definition OP_QUERY :: i32 where "OP_QUERY = 2004"
definition MORE_TO_COME :: u32 where "MORE_TO_COME = 2"

text \<open>\<open>&message[a..b]\<close>.\<close>

definition slice :: "bytes \<Rightarrow> nat \<Rightarrow> nat \<Rightarrow> wire_error + bytes" where
  "slice message a b = ok_or Wire_panic (get_range message a b)"

section \<open>Reading\<close>

definition read_i32 :: "bytes \<Rightarrow> nat \<Rightarrow> wire_error + i32" where
  "read_i32 bs offset =
     (case get_range bs offset (offset + 4) of
        None \<Rightarrow> Inl (Wire_error ''truncated OP_MSG integer'')
      | Some four \<Rightarrow> Inr (i32_from_le_bytes four))"

definition read_u32 :: "bytes \<Rightarrow> nat \<Rightarrow> wire_error + u32" where
  "read_u32 bs offset =
     (case get_range bs offset (offset + 4) of
        None \<Rightarrow> Inl (Wire_error ''truncated OP_MSG integer'')
      | Some four \<Rightarrow> Inr (u32_from_le_bytes four))"

text \<open>The document, and the position after it.\<close>

definition read_document ::
  "'d bson_lib \<Rightarrow> bytes \<Rightarrow> nat \<Rightarrow> nat \<Rightarrow> wire_error + 'd \<times> nat" where
  "read_document B message pos end =
     and_then (read_i32 message pos) (\<lambda>document_len.
       if sint document_len < 5
       then Inl (Wire_error ''invalid BSON document length in OP_MSG'')
       else
         and_then (ok_or (Wire_error ''BSON document exceeds its OP_MSG section'')
             (opt_filter (\<lambda>document_end. document_end \<le> end)
               (checked_add pos (nat (sint document_len))))) (\<lambda>document_end.
           and_then (slice message pos document_end) (\<lambda>raw.
             and_then (map_err (\<lambda>err. Wire_error (''invalid BSON document in OP_MSG: '' @ err))
                 (doc_from_reader B raw)) (\<lambda>document.
               Inr (document, document_end)))))"

lemma read_document_Inr_iff:
  "read_document B message pos end = Inr (d, pos') \<longleftrightarrow>
     (\<exists>len raw. read_i32 message pos = Inr len \<and> 5 \<le> sint len \<and> pos' = pos + nat (sint len) \<and>
        pos' < 2 ^ 64 \<and> pos' \<le> end \<and> get_range message pos pos' = Some raw \<and>
        doc_from_reader B raw = Inr d)"
  (is "?l = ?r")
proof
  assume ?l
  then show ?r
    by (auto simp: read_document_def result_iffs checked_add_def slice_def split: if_splits)
next
  assume ?r
  then obtain len raw where "read_i32 message pos = Inr len" "5 \<le> sint len"
      "pos' = pos + nat (sint len)" "pos' < 2 ^ 64" "pos' \<le> end"
      "get_range message pos pos' = Some raw" "doc_from_reader B raw = Inr d"
    by blast
  then show ?l by (simp add: read_document_def checked_add_def slice_def)
qed

lemma read_document_moves:
  "read_document B message pos end = Inr (d, pos') \<Longrightarrow> pos + 5 \<le> pos' \<and> pos' \<le> end"
  by (auto simp: read_document_Inr_iff)

function read_documents ::
  "'d bson_lib \<Rightarrow> bytes \<Rightarrow> nat \<Rightarrow> nat \<Rightarrow> 'd bson list \<Rightarrow> wire_error + 'd bson list \<times> nat" where
  "read_documents B message pos section_end documents =
     (if pos < section_end then
        (case read_document B message pos section_end of
           Inl err \<Rightarrow> Inl err
         | Inr (d, pos') \<Rightarrow>
             read_documents B message pos' section_end (documents @ [BDocument d]))
      else Inr (documents, pos))"
  by pat_completeness auto
termination
  by (relation "measure (\<lambda>(B, message, pos, section_end, documents). section_end - pos)")
    (auto dest!: read_document_moves)

declare read_documents.simps [simp del]

definition read_sequence ::
  "'d bson_lib \<Rightarrow> bytes \<Rightarrow> nat \<Rightarrow> wire_error + (string \<times> 'd bson list) \<times> nat" where
  "read_sequence B message pos =
     and_then (read_i32 message pos) (\<lambda>section_len.
       if sint section_len < 5
       then Inl (Wire_error ''invalid OP_MSG document-sequence length'')
       else
         and_then (ok_or (Wire_error ''OP_MSG document sequence exceeds the buffer'')
             (opt_filter (\<lambda>e. e \<le> length message) (checked_add pos (nat (sint section_len)))))
           (\<lambda>section_end.
           and_then (slice message (pos + 4) section_end) (\<lambda>rest.
             and_then (ok_or (Wire_error ''OP_MSG document sequence has no identifier terminator'')
                 (position (\<lambda>b. b = 0) rest)) (\<lambda>offset.
               and_then (slice message (pos + 4) (pos + 4 + offset)) (\<lambda>raw.
                 and_then (ok_or (Wire_error ''OP_MSG document-sequence identifier is not UTF-8'')
                     (from_utf8 raw)) (\<lambda>identifier.
                   if identifier = []
                   then Inl (Wire_error ''OP_MSG document-sequence identifier is empty'')
                   else map_ok (\<lambda>(documents, pos'). ((identifier, documents), pos'))
                          (read_documents B message (pos + 4 + offset + 1) section_end [])))))))"

lemma read_documents_pos:
  "read_documents B message pos e acc = Inr (ds, pos') \<Longrightarrow> pos \<le> pos'"
proof (induction B message pos e acc rule: read_documents.induct)
  case (1 B message pos e acc)
  show ?case
  proof (cases "pos < e")
    case True
    with 1(2) obtain d p where "read_document B message pos e = Inr (d, p)"
      "read_documents B message p e (acc @ [BDocument d]) = Inr (ds, pos')"
      by (subst (asm) read_documents.simps) (auto split: sum.splits)
    with 1(1) [OF True] read_document_moves show ?thesis by fastforce
  next
    case False
    with 1(2) show ?thesis by (subst (asm) read_documents.simps) auto
  qed
qed

lemma read_sequence_moves: "read_sequence B message pos = Inr (s, pos') \<Longrightarrow> pos < pos'"
  by (auto simp: read_sequence_def result_iffs ok_or_Inr_iff split: if_splits
      dest!: read_documents_pos)

section \<open>The two request forms\<close>

text \<open>The loop over the sections of an OP_MSG.\<close>

function parse_sections ::
  "'d bson_lib \<Rightarrow> bytes \<Rightarrow> nat \<Rightarrow> 'd option \<Rightarrow> (string \<times> 'd bson list) list
     \<Rightarrow> wire_error + 'd option \<times> (string \<times> 'd bson list) list" where
  "parse_sections B message pos body sequences =
     (if pos < length message then
        (let kind = message ! pos in
         if kind = 0 then
           (if body \<noteq> None then Inl (Wire_error ''OP_MSG contains more than one body section'')
            else case read_document B message (pos + 1) (length message) of
                   Inl err \<Rightarrow> Inl err
                 | Inr (d, pos') \<Rightarrow> parse_sections B message pos' (Some d) sequences)
         else if kind = 1 then
           (case read_sequence B message (pos + 1) of
              Inl err \<Rightarrow> Inl err
            | Inr (s, pos') \<Rightarrow> parse_sections B message pos' body (sequences @ [s]))
         else Inl (Wire_error (''unsupported OP_MSG section kind: '' @ show_nat (unat kind))))
      else Inr (body, sequences))"
  by pat_completeness auto
termination
  by (relation "measure (\<lambda>(B, message, pos, body, sequences). length message - pos)")
    (auto dest!: read_document_moves read_sequence_moves)

declare parse_sections.simps [simp del]

definition encode_command :: "'d bson_lib \<Rightarrow> 'd \<Rightarrow> wire_error + bytes" where
  "encode_command B d =
     map_err (\<lambda>err. Wire_error (''failed to encode BSON command: '' @ err)) (doc_to_vec B d)"

definition take_db :: "'d bson_lib \<Rightarrow> 'd \<Rightarrow> wire_error + string \<times> 'd" where
  "take_db B d =
     (let (db, rest) = doc_remove B d ''$db'' in
      case db of
        None \<Rightarrow> Inl (Wire_error ''OP_MSG body has no $db field'')
      | Some (BString database) \<Rightarrow>
          (if database \<noteq> [] then Inr (database, rest)
           else Inl (Wire_error ''OP_MSG $db must be a non-empty string''))
      | Some _ \<Rightarrow> Inl (Wire_error ''OP_MSG $db must be a non-empty string''))"

definition first_key :: "'d bson_lib \<Rightarrow> 'd \<Rightarrow> string option" where
  "first_key B d = (case doc_keys B d of [] \<Rightarrow> None | k # _ \<Rightarrow> Some k)"

definition add_sequences :: "'d bson_lib \<Rightarrow> 'd \<Rightarrow> (string \<times> 'd bson list) list \<Rightarrow> 'd" where
  "add_sequences B d sequences =
     foldl (\<lambda>c (identifier, documents). doc_insert B c identifier (BArray documents)) d sequences"

definition parse_msg :: "'d bson_lib \<Rightarrow> bytes \<Rightarrow> i32 \<Rightarrow> wire_error + Request" where
  "parse_msg B message rid =
     and_then (read_u32 message 16) (\<lambda>flags.
       if and flags (not MORE_TO_COME) \<noteq> 0
       then Inl (Wire_error (''unsupported OP_MSG flags: 0x'' @ show_hex (unat flags)))
       else
         and_then (parse_sections B message 20 None []) (\<lambda>(body, sequences).
           and_then (ok_or (Wire_error ''OP_MSG has no body section'') body) (\<lambda>body'.
             and_then (take_db B (add_sequences B body' sequences)) (\<lambda>(db, cmd).
               and_then (ok_or (Wire_error ''OP_MSG body names no command'') (first_key B cmd))
                 (\<lambda>name.
                 and_then (encode_command B cmd) (\<lambda>encoded.
                   Inr \<lparr>rq_request_id = rid, rq_more_to_come = (and flags MORE_TO_COME \<noteq> 0),
                        rq_legacy = False, rq_database = db, rq_command_name = name,
                        rq_command = encoded\<rparr>))))))"

definition parse_query :: "'d bson_lib \<Rightarrow> bytes \<Rightarrow> i32 \<Rightarrow> wire_error + Request" where
  "parse_query B message rid =
     and_then (ok_or (Wire_error ''OP_QUERY collection name has no terminator'')
         (Option.bind (get_range message 20 (length message)) (position (\<lambda>b. b = 0)))) (\<lambda>offset.
       and_then (slice message 20 (20 + offset)) (\<lambda>raw.
         and_then (ok_or (Wire_error ''OP_QUERY collection name is not UTF-8'') (from_utf8 raw))
           (\<lambda>collection.
           case opt_filter (\<lambda>(_, c). c = ''$cmd'') (split_once (CHR ''.'') collection) of
             None \<Rightarrow> Inl (Wire_error (''OP_QUERY may only carry a command, and `'' @ collection @
               ''` is not a `$cmd` collection''))
           | Some (db, _) \<Rightarrow>
               if db = [] then Inl (Wire_error ''OP_QUERY names an empty database'')
               else
                 and_then (read_document B message (20 + offset + 1 + 8) (length message))
                   (\<lambda>(cmd, pos).
                   if pos \<noteq> length message
                   then Inl (Wire_error ''OP_QUERY carries more than one document'')
                   else
                     and_then (ok_or (Wire_error ''OP_QUERY names no command'') (first_key B cmd))
                       (\<lambda>name.
                       and_then (encode_command B cmd) (\<lambda>encoded.
                         Inr \<lparr>rq_request_id = rid, rq_more_to_come = False, rq_legacy = True,
                              rq_database = db, rq_command_name = name, rq_command = encoded\<rparr>))))))"

definition wire_parse :: "'d bson_lib \<Rightarrow> bytes \<Rightarrow> wire_error + Request" where
  "wire_parse B message =
     (if length message < 21
      then Inl (Wire_error ''wire message is shorter than its header and first section'')
      else
        and_then (read_i32 message 0) (\<lambda>declared_len.
          if sint declared_len < 0 \<or> nat (sint declared_len) \<noteq> length message
          then Inl (Wire_error ''wire message length does not match the buffer'')
          else
            and_then (read_i32 message 4) (\<lambda>rid.
              and_then (read_i32 message 12) (\<lambda>op_code.
                if op_code = OP_MSG then parse_msg B message rid
                else if op_code = OP_QUERY then parse_query B message rid
                else Inl (Wire_error
                  (''embedded MongoDB only accepts OP_MSG and OP_QUERY requests, not op code '' @
                   show_int (sint op_code)))))))"

section \<open>No panic\<close>

lemma slice_ok: "a \<le> b \<Longrightarrow> b \<le> length message \<Longrightarrow> slice message a b \<noteq> Inl Wire_panic"
  by (simp add: slice_def get_range_def)

lemma slice_Inr: "slice message a b = Inr xs \<Longrightarrow> length xs = b - a"
  by (auto simp: slice_def ok_or_Inr_iff dest: length_get_range)

lemma ok_or_panic [simp]: "ok_or (Wire_error e) r = Inl Wire_panic \<longleftrightarrow> False"
  by (cases r) auto

lemma read_i32_no_panic [simp]: "read_i32 message pos = Inl Wire_panic \<longleftrightarrow> False"
  by (auto simp: read_i32_def split: option.splits)

lemma read_u32_no_panic [simp]: "read_u32 message pos = Inl Wire_panic \<longleftrightarrow> False"
  by (auto simp: read_u32_def split: option.splits)

lemma read_document_no_panic:
  "end \<le> length message \<Longrightarrow> read_document B message pos end \<noteq> Inl Wire_panic"
  by (auto simp: read_document_def result_iffs checked_add_def slice_ok split: if_splits)

lemma read_documents_no_panic:
  "e \<le> length message \<Longrightarrow> read_documents B message pos e acc \<noteq> Inl Wire_panic"
proof (induction B message pos e acc rule: read_documents.induct)
  case (1 B message pos e acc)
  from 1(2) read_document_no_panic [of e message B pos] show ?case
    by (subst read_documents.simps) (auto split: sum.split dest: 1(1))
qed

lemma read_sequence_no_panic: "read_sequence B message pos \<noteq> Inl Wire_panic"
proof
  assume panic: "read_sequence B message pos = Inl Wire_panic"
  then obtain len where len: "read_i32 message pos = Inr len" "5 \<le> sint len"
    by (auto simp: read_sequence_def result_iffs split: if_splits)
  let ?e = "pos + nat (sint len)"
  from panic len have e: "?e \<le> length message"
    by (auto simp: read_sequence_def result_iffs checked_add_def split: if_splits)
  from len have "pos + 5 \<le> ?e" by simp
  with e obtain rest where rest: "slice message (pos + 4) ?e = Inr rest"
    by (auto simp: slice_def get_range_def)
  then have "length rest = ?e - (pos + 4)" by (rule slice_Inr)
  moreover have "k < length rest" if "position (\<lambda>b. b = 0) rest = Some k" for k
    using position_Some [OF that] by simp
  ultimately have "slice message (pos + 4) (pos + 4 + k) \<noteq> Inl Wire_panic"
    if "position (\<lambda>b. b = 0) rest = Some k" for k
    using that e by (intro slice_ok) fastforce+
  with panic len rest e read_documents_no_panic [OF e] show False
    by (auto simp: read_sequence_def result_iffs checked_add_def slice_ok split: if_splits)
qed

lemma parse_sections_no_panic: "parse_sections B message pos body seqs \<noteq> Inl Wire_panic"
proof (induction B message pos body seqs rule: parse_sections.induct)
  case (1 B message pos body seqs)
  from read_document_no_panic [of "length message" message B "pos + 1"]
    read_sequence_no_panic [of B message "pos + 1"] show ?case
    by (subst parse_sections.simps) (auto simp: Let_def split: sum.split dest: 1(1) 1(2))
qed

lemma encode_command_no_panic [simp]: "encode_command B d = Inl Wire_panic \<longleftrightarrow> False"
  by (auto simp: encode_command_def result_iffs)

lemma take_db_no_panic [simp]: "take_db B d = Inl Wire_panic \<longleftrightarrow> False"
  by (auto simp: take_db_def Let_def split: prod.splits option.splits bson.splits)

lemma parse_msg_no_panic: "parse_msg B message rid \<noteq> Inl Wire_panic"
  using parse_sections_no_panic [of B message 20 None "[]"]
  by (auto simp: parse_msg_def result_iffs split: if_splits)

lemma parse_query_no_panic:
  assumes "20 \<le> length message"
  shows "parse_query B message rid \<noteq> Inl Wire_panic"
proof
  assume panic: "parse_query B message rid = Inl Wire_panic"
  have rest: "get_range message 20 (length message) = Some (drop 20 message)"
    using assms by (simp add: get_range_def)
  from panic rest obtain k where k: "position (\<lambda>b. b = 0) (drop 20 message) = Some k"
    by (auto simp: parse_query_def result_iffs)
  from position_Some [OF k] have "k < length message - 20" by simp
  then have "20 + k \<le> length message" by linarith
  then have "slice message 20 (20 + k) \<noteq> Inl Wire_panic" by (intro slice_ok) auto
  with panic rest k read_document_no_panic [of "length message" message B]
  show False
    by (auto simp: parse_query_def result_iffs split: if_splits option.splits)
qed

text \<open>C36: The wire parser never panics: no slice it takes of a message can be out of range, whatever
  bytes a driver sends and whatever the BSON decoder answers.\<close>

lemma wire_parse_never_panics: "wire_parse B message \<noteq> Inl Wire_panic"
  using parse_msg_no_panic [of B message] parse_query_no_panic [of message B]
  by (auto simp: wire_parse_def result_iffs split: if_splits)

section \<open>What a parsed request carries\<close>

lemma first_key_Some: "first_key B d = Some k \<longleftrightarrow> (\<exists>ks. doc_keys B d = k # ks)"
  by (auto simp: first_key_def split: list.splits)

lemma take_db_Inr:
  "take_db B d = Inr (db, rest) \<longleftrightarrow>
     fst (doc_remove B d ''$db'') = Some (BString db) \<and> db \<noteq> [] \<and> rest = snd (doc_remove B d ''$db'')"
  by (cases "doc_remove B d ''$db''") (auto simp: take_db_def Let_def split: option.splits bson.splits if_splits)

lemma parse_msg_request:
  assumes "parse_msg B message rid = Inr r"
  obtains d flags where "read_u32 message 16 = Inr flags" "and flags (not MORE_TO_COME) = 0"
    "rq_more_to_come r \<longleftrightarrow> and flags MORE_TO_COME \<noteq> 0" "\<not> rq_legacy r" "rq_database r \<noteq> []"
    "fst (doc_remove B d ''$db'') = Some (BString (rq_database r))"
    "first_key B (snd (doc_remove B d ''$db'')) = Some (rq_command_name r)"
    "doc_to_vec B (snd (doc_remove B d ''$db'')) = Inr (rq_command r)"
    "rq_request_id r = rid"
  using assms
  by (auto simp: parse_msg_def result_iffs encode_command_def take_db_Inr split: if_splits)

lemma parse_query_request:
  assumes "parse_query B message rid = Inr r"
  obtains d where "\<not> rq_more_to_come r" "rq_legacy r" "rq_database r \<noteq> []"
    "first_key B d = Some (rq_command_name r)" "doc_to_vec B d = Inr (rq_command r)"
    "rq_request_id r = rid"
  using assms
  by (auto simp: parse_query_def result_iffs encode_command_def split: if_splits option.splits)

lemma only_more_to_come:
  assumes "and flags (not MORE_TO_COME) = 0"
  shows "flags \<in> {0, MORE_TO_COME}"
proof -
  have only: "n = 1" if "bit flags n" for n
  proof -
    have "\<not> bit (and flags (not MORE_TO_COME)) n" by (simp add: assms)
    with that show ?thesis by (auto simp: bit_simps MORE_TO_COME_def dest: bit_imp_le_length)
  qed
  have "flags = MORE_TO_COME" if b: "bit flags 1"
  proof (rule bit_eqI)
    show "bit flags n = bit MORE_TO_COME n" for n
      using only [of n] b by (cases "n = 1") (auto simp: MORE_TO_COME_def bit_simps)
  qed
  moreover have "flags = 0" if b: "\<not> bit flags 1"
  proof (rule bit_eqI)
    show "bit flags n = bit 0 n" for n
      using only [of n] b by (cases "n = 1") auto
  qed
  ultimately show ?thesis by blast
qed

lemma wire_parse_Inr:
  assumes "wire_parse B message = Inr r"
  shows "(read_i32 message 12 = Inr OP_MSG \<and> read_i32 message 4 = Inr (rq_request_id r) \<and>
      parse_msg B message (rq_request_id r) = Inr r) \<or>
    (read_i32 message 12 = Inr OP_QUERY \<and> read_i32 message 4 = Inr (rq_request_id r) \<and>
      parse_query B message (rq_request_id r) = Inr r)"
proof -
  from assms obtain rid where "read_i32 message 4 = Inr rid"
      "read_i32 message 12 = Inr OP_MSG \<and> parse_msg B message rid = Inr r \<or>
       read_i32 message 12 = Inr OP_QUERY \<and> parse_query B message rid = Inr r"
    by (auto simp: wire_parse_def result_iffs split: if_splits)
  moreover have "rq_request_id r = rid" if "parse_msg B message rid = Inr r"
    using that by (rule parse_msg_request)
  moreover have "rq_request_id r = rid" if "parse_query B message rid = Inr r"
    using that by (rule parse_query_request)
  ultimately show ?thesis by blast
qed

section \<open>Messages as the protocol lays them out\<close>

text \<open>
  The layout a driver writes: the header (length, request id, response to, op code), then the
  flags, the body section and the document sequences.
\<close>

definition header :: "nat \<Rightarrow> i32 \<Rightarrow> i32 \<Rightarrow> bytes" where
  "header len rid op =
     le_bytes 4 len @ le_bytes 4 (unat rid) @ le_bytes 4 0 @ le_bytes 4 (unat op)"

fun sequence_bytes :: "string \<times> bytes list \<Rightarrow> bytes" where
  "sequence_bytes (identifier, documents) =
     (let payload = bytes_of_string identifier @ [0] @ concat documents
      in [1] @ le_bytes 4 (4 + length payload) @ payload)"

definition op_msg :: "i32 \<Rightarrow> u32 \<Rightarrow> bytes \<Rightarrow> (string \<times> bytes list) list \<Rightarrow> bytes" where
  "op_msg rid flags body sequences =
     (let rest = le_bytes 4 (unat flags) @ [0] @ body @ concat (map sequence_bytes sequences)
      in header (16 + length rest) rid OP_MSG @ rest)"

lemma get_range_mid:
  "a = length xs \<Longrightarrow> b = length xs + length ys \<Longrightarrow> get_range (xs @ ys @ zs) a b = Some ys"
  by (simp add: get_range_append)

lemma read_i32_mid: "length xs = pos \<Longrightarrow> length ys = 4 \<Longrightarrow> read_i32 (xs @ ys @ zs) pos = Inr (i32_from_le_bytes ys)"
  by (simp add: read_i32_def get_range_mid)

lemma le_word32: "(word_of_nat (le_nat (le_bytes 4 (unat (w :: 32 word)))) :: 32 word) = w"
  using u32_bound [of w] by (simp add: le_nat_le_bytes)

lemma read_document_mid:
  assumes laws: "codec_laws B" and d: "doc_to_vec B d = Inr bs"
    and pos: "length xs = pos" and e: "pos + length bs \<le> e" "e < 2 ^ 64"
  shows "read_document B (xs @ bs @ zs) pos e = Inr (d, pos + length bs)"
proof -
  from laws d have c: "doc_from_reader B bs = Inr d" "5 \<le> length bs" "length bs < 2 ^ 31"
      "take 4 bs = le_bytes 4 (length bs)"
    by (auto simp: codec_laws_def)
  have "read_i32 (xs @ take 4 bs @ drop 4 bs @ zs) pos = Inr (i32_from_le_bytes (take 4 bs))"
    using pos c(2) by (intro read_i32_mid) auto
  moreover have "take 4 bs @ drop 4 bs @ zs = bs @ zs"
    by (simp only: append_assoc [symmetric] append_take_drop_id)
  ultimately have "read_i32 (xs @ bs @ zs) pos = Inr (i32_from_le_bytes (le_bytes 4 (length bs)))"
    by (simp only: c(4))
  moreover have "sint (i32_from_le_bytes (le_bytes 4 (length bs))) = int (length bs)"
    using c(3) by (rule sint_i32_le)
  moreover have "get_range (xs @ bs @ zs) pos (pos + length bs) = Some bs"
    using pos by (intro get_range_mid) auto
  ultimately show ?thesis
    using c e by (auto simp: read_document_Inr_iff)
qed

abbreviation encoded :: "'d bson_lib \<Rightarrow> 'd \<Rightarrow> bytes \<Rightarrow> bool" where
  "encoded B d bs \<equiv> doc_to_vec B d = Inr bs"

lemma encoded_pos: "codec_laws B \<Longrightarrow> encoded B d bs \<Longrightarrow> 5 \<le> length bs"
  by (simp add: codec_laws_def)

lemma read_documents_mid:
  assumes laws: "codec_laws B" and "list_all2 (encoded B) ds bss"
    and "length xs = pos" and "e = pos + length (concat bss)" and "e < 2 ^ 64"
  shows "read_documents B (xs @ concat bss @ zs) pos e acc = Inr (acc @ map BDocument ds, e)"
  using assms(2-)
proof (induction ds bss arbitrary: xs pos acc rule: list_all2_induct)
  case Nil
  then show ?case by (simp add: read_documents.simps)
next
  case (Cons d ds bs bss)
  have pos: "pos < e"
    using encoded_pos [OF laws Cons.hyps(1)] Cons.prems(2) by (cases bs) auto
  have "read_document B (xs @ bs @ concat bss @ zs) pos e = Inr (d, pos + length bs)"
    using Cons.prems Cons.hyps(1) by (intro read_document_mid [OF laws]) auto
  moreover have "read_documents B ((xs @ bs) @ concat bss @ zs) (pos + length bs) e (acc @ [BDocument d])
      = Inr ((acc @ [BDocument d]) @ map BDocument ds, e)"
    using Cons.prems by (intro Cons.IH) auto
  ultimately show ?case
    using pos by (subst read_documents.simps) simp
qed

text \<open>A sequence section's identifier is a non-empty ASCII field name, and its documents are encoded.\<close>

fun encoded_sequence :: "'d bson_lib \<Rightarrow> string \<times> 'd list \<Rightarrow> string \<times> bytes list \<Rightarrow> bool" where
  "encoded_sequence B (i, ds) (j, bss) \<longleftrightarrow>
     i = j \<and> i \<noteq> [] \<and> is_ascii i \<and> CHR 0x00 \<notin> set i \<and> list_all2 (encoded B) ds bss"

definition as_section :: "string \<times> 'd list \<Rightarrow> string \<times> 'd bson list" where
  "as_section = (\<lambda>(i, ds). (i, map BDocument ds))"

lemma byte_of_char_zero: "byte_of_char c = 0 \<longleftrightarrow> c = CHR 0x00"
proof
  assume "byte_of_char c = 0"
  then have "char_of_byte (byte_of_char c) = char_of_byte 0" by (rule arg_cong)
  moreover have "char_of_byte 0 = CHR 0x00"
    using char_of_byte_of_char [of "CHR 0x00"] by (simp add: byte_of_char_def)
  ultimately show "c = CHR 0x00" by (simp only: char_of_byte_of_char)
qed (simp add: byte_of_char_def)

lemma position_terminator:
  "CHR 0x00 \<notin> set s \<Longrightarrow> position (\<lambda>b. b = 0) (bytes_of_string s @ 0 # rest) = Some (length s)"
  by (induction s) (auto simp: bytes_of_string_def byte_of_char_zero)

lemma read_sequence_mid:
  assumes laws: "codec_laws B" and enc: "encoded_sequence B (i, ds) (i, bss)"
    and m: "message = xs @ [k] @ tl (sequence_bytes (i, bss)) @ zs"
    and pos: "pos = Suc (length xs)" and bound: "length message < 2 ^ 31"
  shows "read_sequence B message pos =
    Inr ((i, map BDocument ds), length xs + length (sequence_bytes (i, bss)))"
proof -
  define payload where "payload = bytes_of_string i @ [0] @ concat bss"
  define n where "n = 4 + length payload"
  have m1: "message = (xs @ [k]) @ le_bytes 4 n @ payload @ zs"
    by (simp add: m payload_def n_def Let_def)
  then have n: "n < 2 ^ 31" "pos + n \<le> length message" "5 \<le> n"
    using bound pos by (simp_all add: n_def payload_def)
  have len: "read_i32 message pos = Inr (i32_from_le_bytes (le_bytes 4 n))"
    unfolding m1 by (rule read_i32_mid) (simp_all add: pos)
  have sn: "sint (i32_from_le_bytes (le_bytes 4 n)) = int n" by (rule sint_i32_le [OF n(1)])
  have pay: "get_range message (pos + 4) (pos + n) = Some payload"
    using get_range_mid [of "pos + 4" "xs @ [k] @ le_bytes 4 n" "pos + n" payload zs]
    by (simp add: m1 pos n_def)
  have ident: "get_range message (pos + 4) (pos + 4 + length i) = Some (bytes_of_string i)"
    using get_range_mid [of "pos + 4" "xs @ [k] @ le_bytes 4 n" "pos + 4 + length i"
        "bytes_of_string i" "0 # concat bss @ zs"]
    by (simp add: m1 pos payload_def)
  have "read_documents B ((xs @ [k] @ le_bytes 4 n @ bytes_of_string i @ [0]) @ concat bss @ zs)
      (pos + 4 + length i + 1) (pos + n) [] = Inr ([] @ map BDocument ds, pos + n)"
    using enc n bound by (intro read_documents_mid [OF laws]) (simp_all add: pos n_def payload_def)
  then have docs: "read_documents B message (5 + (pos + length i)) (pos + n) [] =
      Inr (map BDocument ds, pos + n)"
    by (simp add: m1 payload_def add.commute)
  have "position (\<lambda>b. b = 0) payload = Some (length i)"
    using enc position_terminator [of i] by (simp add: payload_def)
  moreover have "from_utf8 (bytes_of_string i) = Some i"
    using enc by (simp add: from_utf8_ascii)
  moreover have "pos + n = length xs + length (sequence_bytes (i, bss))"
    by (simp add: pos n_def payload_def Let_def)
  moreover have "read_sequence B message pos = Inr ((i, map BDocument ds), pos + n)"
    if "position (\<lambda>b. b = 0) payload = Some (length i)" "from_utf8 (bytes_of_string i) = Some i"
    using that enc n bound
    by (simp add: read_sequence_def len sn checked_add_def slice_def pay ident docs)
  ultimately show ?thesis by simp
qed

lemma parse_sections_sequences:
  assumes laws: "codec_laws B" and "list_all2 (encoded_sequence B) ss raws"
    and "message = xs @ concat (map sequence_bytes raws)" and "length message < 2 ^ 31"
  shows "parse_sections B message (length xs) body acc = Inr (body, acc @ map as_section ss)"
  using assms(2-)
proof (induction ss raws arbitrary: xs acc rule: list_all2_induct)
  case Nil
  then show ?case by (simp add: parse_sections.simps)
next
  case (Cons s ss raw raws)
  obtain i ds bss where s: "s = (i, ds)" "raw = (i, bss)"
    using Cons.hyps(1) by (cases s; cases raw) auto
  have split: "sequence_bytes raw = 1 # tl (sequence_bytes raw)" by (simp add: s Let_def)
  have m: "message = xs @ [1] @ tl (sequence_bytes raw) @ concat (map sequence_bytes raws)"
    using Cons.prems(1) split by simp
  have "read_sequence B message (Suc (length xs)) =
      Inr ((i, map BDocument ds), length xs + length (sequence_bytes (i, bss)))"
    using Cons.hyps(1) m Cons.prems(2) by (intro read_sequence_mid [OF laws]) (simp_all only: s)
  moreover have "parse_sections B message (length (xs @ sequence_bytes raw)) body
        (acc @ [(i, map BDocument ds)])
      = Inr (body, (acc @ [(i, map BDocument ds)]) @ map as_section ss)"
    using Cons.prems by (intro Cons.IH) auto
  moreover have "message ! length xs = 1" "length xs < length message"
    by (simp_all add: m)
  ultimately show ?case
    by (subst parse_sections.simps) (simp add: s as_section_def Let_def)
qed

lemma get_add_sequences:
  assumes "bson_laws B"
  shows "doc_get B (add_sequences B d ss) k =
    (case map_of (rev ss) k of Some ds \<Rightarrow> Some (BArray ds) | None \<Rightarrow> doc_get B d k)"
proof (induction ss arbitrary: d rule: rev_induct)
  case Nil
  show ?case by (simp add: add_sequences_def)
next
  case (snoc s ss)
  then show ?case
    by (cases s) (simp add: add_sequences_def bson_laws_get [OF assms])
qed

lemma op_msg_header:
  assumes m: "message = op_msg rid flags body raws" and bound: "length message < 2 ^ 31"
  shows "read_i32 message 0 = Inr (word_of_nat (length message))"
    and "read_i32 message 4 = Inr rid"
    and "read_i32 message 12 = Inr OP_MSG"
    and "read_u32 message 16 = Inr flags"
proof -
  define rest where "rest = le_bytes 4 (unat flags) @ [0] @ body @ concat (map sequence_bytes raws)"
  have len: "length message = 16 + length rest" by (simp add: m op_msg_def header_def rest_def)
  have m': "message = le_bytes 4 (length message) @ le_bytes 4 (unat rid) @ le_bytes 4 0 @
      le_bytes 4 (unat OP_MSG) @ rest"
    by (simp add: len) (simp add: m op_msg_def header_def rest_def)
  have n: "le_nat (le_bytes 4 (length message)) = length message"
    using bound by (intro le_nat_le_bytes) simp
  show "read_i32 message 0 = Inr (word_of_nat (length message))"
    by (subst m') (simp add: read_i32_def get_range_def i32_from_le_bytes_def n)
  show "read_i32 message 4 = Inr rid"
    by (subst m') (simp add: read_i32_def get_range_def i32_from_le_bytes_def le_word32)
  show "read_i32 message 12 = Inr OP_MSG"
    by (subst m') (simp add: read_i32_def get_range_def i32_from_le_bytes_def le_word32)
  show "read_u32 message 16 = Inr flags"
    by (subst m') (simp add: rest_def read_u32_def get_range_def u32_from_le_bytes_def le_word32)
qed

lemma wire_parse_op_msg:
  assumes m: "message = op_msg rid flags body raws" and bound: "length message < 2 ^ 31"
  shows "wire_parse B message = parse_msg B message rid"
proof -
  have "21 \<le> length message" by (simp add: m op_msg_def header_def)
  moreover have "sint (word_of_nat (length message) :: i32) = int (length message)"
    using bound by (simp add: sint_uint unsigned_of_nat take_bit_nat_eq_self signed_take_bit_int_eq_self)
  ultimately show ?thesis
    by (simp add: wire_parse_def op_msg_header [OF m bound])
qed

lemma parse_sections_op_msg:
  assumes laws: "codec_laws B" and m: "message = op_msg rid flags body raws"
    and bound: "length message < 2 ^ 31" and body: "encoded B d body"
    and seqs: "list_all2 (encoded_sequence B) ss raws"
  shows "parse_sections B message 20 None [] = Inr (Some d, map as_section ss)"
proof -
  define pre where "pre = take 21 message"
  have m': "message = pre @ body @ concat (map sequence_bytes raws)" and pre: "length pre = 21"
    and kind: "message ! 20 = 0"
    by (simp_all add: pre_def m op_msg_def header_def nth_append)
  have "read_document B message 21 (length message) = Inr (d, 21 + length body)"
    unfolding m' using bound pre by (intro read_document_mid [OF laws body]) (simp_all add: m')
  moreover have "parse_sections B message (length (pre @ body)) (Some d) [] =
      Inr (Some d, [] @ map as_section ss)"
    using m' bound by (intro parse_sections_sequences [OF laws seqs]) simp_all
  ultimately show ?thesis
    using pre kind m' by (subst parse_sections.simps) (simp add: Let_def)
qed

lemma get_add_sections:
  assumes laws: "bson_laws B"
  shows "doc_get B (add_sequences B d (map as_section ss)) k =
    (case map_of (rev ss) k of Some ds \<Rightarrow> Some (BArray (map BDocument ds)) | None \<Rightarrow> doc_get B d k)"
proof -
  have "map_of (rev (map as_section ss)) k = map_option (map BDocument) (map_of (rev ss) k)"
    unfolding rev_map as_section_def by (simp add: map_of_map)
  then show ?thesis by (simp add: get_add_sequences [OF laws] split: option.split)
qed

lemma op_msg_parses:
  assumes codec: "codec_laws B"
    and m: "message = op_msg rid flags body raws" and bound: "length message < 2 ^ 31"
    and flags: "flags \<in> {0, MORE_TO_COME}" and body: "encoded B d body"
    and seqs: "list_all2 (encoded_sequence B) ss raws"
    and db: "take_db B (add_sequences B d (map as_section ss)) = Inr (db, cmd)"
    and name: "first_key B cmd = Some name" and enc: "encoded B cmd bytes"
  shows "wire_parse B message =
      Inr \<lparr>rq_request_id = rid, rq_more_to_come = (flags = MORE_TO_COME), rq_legacy = False,
           rq_database = db, rq_command_name = name, rq_command = bytes\<rparr>"
proof -
  have "and flags (not MORE_TO_COME) = 0" "and flags MORE_TO_COME \<noteq> 0 \<longleftrightarrow> flags = MORE_TO_COME"
    using flags by (auto simp: MORE_TO_COME_def)
  with db show ?thesis
    by (simp add: wire_parse_op_msg [OF m bound] parse_msg_def op_msg_header [OF m bound]
        parse_sections_op_msg [OF codec m bound body seqs] name encode_command_def enc)
qed

section \<open>Properties\<close>

text \<open>A request the parser accepts is well formed. Its database is a non-empty string; its
  command decodes to a document whose first key is the reported command name; for an OP_MSG that
  document no longer carries the routing field \<open>$db\<close>; it is legacy exactly when the op code
  is OP_QUERY; it carries the message's request id; and it wants no reply exactly when an OP_MSG set
  \<open>moreToCome\<close>, the one flag it may set.\<close>

theorem parsed_requests_are_well_formed:
  assumes laws: "bson_laws B" and codec: "codec_laws B" and ok: "wire_parse B message = Inr r"
  shows "rq_database r \<noteq> [] \<and>
    (\<exists>cmd. doc_from_reader B (rq_command r) = Inr cmd \<and>
       first_key B cmd = Some (rq_command_name r) \<and>
       (if rq_legacy r then True else doc_get B cmd ''$db'' = None)) \<and>
    read_i32 message 12 = Inr (if rq_legacy r then OP_QUERY else OP_MSG) \<and>
    read_i32 message 4 = Inr (rq_request_id r) \<and>
    rq_more_to_come r = (\<not> rq_legacy r \<and> read_u32 message 16 = Inr MORE_TO_COME) \<and>
    (if rq_legacy r then True else read_u32 message 16 \<in> {Inr 0, Inr MORE_TO_COME})"
  using wire_parse_Inr [OF ok]
proof (elim disjE conjE)
  assume op: "read_i32 message 12 = Inr OP_MSG" and p: "parse_msg B message (rq_request_id r) = Inr r"
    and rid: "read_i32 message 4 = Inr (rq_request_id r)"
  from p show ?thesis
  proof (rule parse_msg_request)
    fix d flags
    assume f: "read_u32 message 16 = Inr flags" "and flags (not MORE_TO_COME) = 0"
        "rq_more_to_come r \<longleftrightarrow> and flags MORE_TO_COME \<noteq> 0" and l: "\<not> rq_legacy r" "rq_database r \<noteq> []"
      and c: "first_key B (snd (doc_remove B d ''$db'')) = Some (rq_command_name r)"
        "doc_to_vec B (snd (doc_remove B d ''$db'')) = Inr (rq_command r)"
    have "flags \<in> {0, MORE_TO_COME}" by (rule only_more_to_come [OF f(2)])
    then have "rq_more_to_come r \<longleftrightarrow> flags = MORE_TO_COME" "flags = 0 \<or> flags = MORE_TO_COME"
      using f(3) by (auto simp: MORE_TO_COME_def)
    with f(1) l c op rid show ?thesis
      using codec by (auto simp: codec_laws_def bson_laws_get [OF laws])
  qed
next
  assume op: "read_i32 message 12 = Inr OP_QUERY" and p: "parse_query B message (rq_request_id r) = Inr r"
    and rid: "read_i32 message 4 = Inr (rq_request_id r)"
  from p show ?thesis
    by (rule parse_query_request) (use op rid codec in \<open>auto simp: codec_laws_def\<close>)
qed

text \<open>C5: A message laid out as the protocol says is read back exactly: an OP_MSG with a body
  document naming its database and any document sequences parses to a request with that id,
  database, and reply flag, whose command decodes to the body with each sequence under its identifier
  as an array of its documents and without the routing field.\<close>

theorem op_msg_round_trip:
  assumes laws: "bson_laws B" and codec: "codec_laws B"
    and m: "message = op_msg rid flags body raws" and bound: "length message < 2 ^ 31"
    and flags: "flags \<in> {0, MORE_TO_COME}" and body: "encoded B d body"
    and seqs: "list_all2 (encoded_sequence B) ss raws" and sdb: "''$db'' \<notin> fst ` set ss"
    and db: "doc_get B d ''$db'' = Some (BString db)" "db \<noteq> []"
    and cmd: "cmd = snd (doc_remove B (add_sequences B d (map as_section ss)) ''$db'')"
    and name: "first_key B cmd = Some name" and enc: "encoded B cmd bytes"
  shows "wire_parse B message =
      Inr \<lparr>rq_request_id = rid, rq_more_to_come = (flags = MORE_TO_COME), rq_legacy = False,
           rq_database = db, rq_command_name = name, rq_command = bytes\<rparr> \<and>
    doc_from_reader B bytes = Inr cmd \<and>
    (\<forall>k. doc_get B cmd k =
       (if k = ''$db'' then None
        else case map_of (rev ss) k of
               Some ds \<Rightarrow> Some (BArray (map BDocument ds))
             | None \<Rightarrow> doc_get B d k))"
proof (intro conjI allI)
  have "map_of (rev ss) ''$db'' = None" using sdb by (simp add: map_of_eq_None_iff)
  then have "take_db B (add_sequences B d (map as_section ss)) = Inr (db, cmd)"
    using db cmd by (simp add: take_db_Inr bson_laws_get [OF laws] get_add_sections [OF laws])
  then show "wire_parse B message =
      Inr \<lparr>rq_request_id = rid, rq_more_to_come = (flags = MORE_TO_COME), rq_legacy = False,
           rq_database = db, rq_command_name = name, rq_command = bytes\<rparr>"
    by (rule op_msg_parses [OF codec m bound flags body seqs _ name enc])
  show "doc_from_reader B bytes = Inr cmd" using codec enc by (simp add: codec_laws_def)
  show "doc_get B cmd k =
       (if k = ''$db'' then None
        else case map_of (rev ss) k of
               Some ds \<Rightarrow> Some (BArray (map BDocument ds)) | None \<Rightarrow> doc_get B d k)" for k
    by (simp add: cmd bson_laws_get [OF laws] get_add_sections [OF laws])
qed

section \<open>A message on the wire\<close>

text \<open>
  A driver's \<open>insert\<close> of one document into \<open>t.c\<close>, with the document in a sequence section. The
  codec is a table of the BSON encodings of the three documents involved.
\<close>

definition demo_document :: adoc where
  "demo_document = ADoc [(''_id'', BInt32 1)]"

definition demo_body :: adoc where
  "demo_body = ADoc [(''insert'', BString ''c''), (''$db'', BString ''t'')]"

definition demo_command :: adoc where
  "demo_command = ADoc [(''insert'', BString ''c''), (''documents'', BArray [BDocument demo_document])]"

definition demo_document_bytes :: bytes where
  "demo_document_bytes =
    [14, 0, 0, 0, 16, 95, 105, 100, 0, 1, 0, 0, 0, 0]"

definition demo_body_bytes :: bytes where
  "demo_body_bytes =
    [30, 0, 0, 0, 2, 105, 110, 115, 101, 114, 116, 0, 2, 0, 0, 0, 99, 0, 2, 36, 100, 98, 0,
     2, 0, 0, 0, 116, 0, 0]"

definition demo_command_bytes :: bytes where
  "demo_command_bytes =
    [52, 0, 0, 0, 2, 105, 110, 115, 101, 114, 116, 0, 2, 0, 0, 0, 99, 0, 4, 100, 111, 99,
     117, 109, 101, 110, 116, 115, 0, 22, 0, 0, 0, 3, 48, 0, 14, 0, 0, 0, 16, 95, 105, 100,
     0, 1, 0, 0, 0, 0, 0, 0]"

definition demo_lib :: "adoc bson_lib" where
  "demo_lib = alist_lib
     \<lparr>doc_to_vec := (\<lambda>d.
        if d = demo_document then Inr demo_document_bytes
        else if d = demo_body then Inr demo_body_bytes
        else if d = demo_command then Inr demo_command_bytes else Inl ''not in the table''),
      doc_from_reader := (\<lambda>bs.
        if bs = demo_document_bytes then Inr demo_document
        else if bs = demo_body_bytes then Inr demo_body
        else if bs = demo_command_bytes then Inr demo_command else Inl ''not in the table'')\<rparr>"

definition demo_message :: bytes where
  "demo_message = op_msg 7 MORE_TO_COME demo_body_bytes [(''documents'', [demo_document_bytes])]"

lemmas demo_documents = demo_document_def demo_body_def demo_command_def
lemmas demo_bytes = demo_document_bytes_def demo_body_bytes_def demo_command_bytes_def

lemma demo_bson_laws: "bson_laws demo_lib"
  using bson_laws_alist by (simp add: bson_laws_def demo_lib_def)

lemma demo_lengths:
  "5 \<le> length demo_document_bytes \<and> length demo_document_bytes < 2 ^ 31 \<and>
   take 4 demo_document_bytes = le_bytes 4 (length demo_document_bytes)"
  "5 \<le> length demo_body_bytes \<and> length demo_body_bytes < 2 ^ 31 \<and>
   take 4 demo_body_bytes = le_bytes 4 (length demo_body_bytes)"
  "5 \<le> length demo_command_bytes \<and> length demo_command_bytes < 2 ^ 31 \<and>
   take 4 demo_command_bytes = le_bytes 4 (length demo_command_bytes)"
  by (simp_all add: demo_bytes le_bytes_4)

lemma demo_distinct:
  "demo_body_bytes \<noteq> demo_document_bytes" "demo_command_bytes \<noteq> demo_document_bytes"
  "demo_command_bytes \<noteq> demo_body_bytes"
  by (simp_all add: demo_bytes)

lemma demo_codec_laws: "codec_laws demo_lib"
  using demo_lengths demo_distinct by (auto simp: codec_laws_def demo_lib_def split: if_splits)

lemma demo_parts:
  "list_all2 (encoded_sequence demo_lib) [(''documents'', [demo_document])]
      [(''documents'', [demo_document_bytes])]"
  "length demo_message < 2 ^ 31"
  "demo_command = snd (doc_remove demo_lib
      (add_sequences demo_lib demo_body (map as_section [(''documents'', [demo_document])])) ''$db'')"
  "encoded demo_lib demo_body demo_body_bytes"
  "encoded demo_lib demo_command demo_command_bytes"
  "first_key demo_lib demo_command = Some ''insert''"
  "doc_get demo_lib demo_body ''$db'' = Some (BString ''t'')"
  by (simp_all add: demo_lib_def alist_lib_def is_ascii_def add_sequences_def as_section_def
      first_key_def demo_message_def op_msg_def header_def demo_bytes demo_documents)

theorem op_msg_round_trip_witness:
  "wire_parse demo_lib demo_message =
     Inr \<lparr>rq_request_id = 7, rq_more_to_come = True, rq_legacy = False, rq_database = ''t'',
          rq_command_name = ''insert'', rq_command = demo_command_bytes\<rparr>"
  using op_msg_round_trip [OF demo_bson_laws demo_codec_laws demo_message_def demo_parts(2) _
      demo_parts(4,1) _ demo_parts(7) _ demo_parts(3,6,5)]
  by simp

lemma demo_parses:
  "wire_parse demo_lib demo_message =
     Inr \<lparr>rq_request_id = 7, rq_more_to_come = True, rq_legacy = False, rq_database = ''t'',
          rq_command_name = ''insert'', rq_command = demo_command_bytes\<rparr>"
proof -
  have "take_db demo_lib (add_sequences demo_lib demo_body
      (map as_section [(''documents'', [demo_document])])) = Inr (''t'', demo_command)"
    by (simp add: demo_lib_def alist_lib_def add_sequences_def as_section_def take_db_def
        demo_documents)
  then show ?thesis
    using op_msg_parses [OF demo_codec_laws demo_message_def demo_parts(2) _ demo_parts(4,1) _
        demo_parts(6,5)]
    by simp
qed

theorem parsed_requests_are_well_formed_witness:
  "\<exists>r. wire_parse demo_lib demo_message = Inr r \<and> rq_database r \<noteq> [] \<and>
     rq_more_to_come r = (\<not> rq_legacy r \<and> read_u32 demo_message 16 = Inr MORE_TO_COME)"
  using parsed_requests_are_well_formed [OF demo_bson_laws demo_codec_laws demo_parses] demo_parses
  by auto

end
