(* ===== verification/Android_Errors.thy ===== *)
theory Android_Errors
  imports Errors
begin

text \<open>
  What the Android binding tells Java: \<open>embedded-mongodb-android/src/error.rs\<close> (the codes of an
  \<open>EmbeddedMongoException\<close> and how every failure below is reduced to one) and
  \<open>embedded-mongodb-android/src/options.rs\<close> (the storage limits read from a \<open>long[]\<close>).

  A Java \<open>int\<close> and \<open>long\<close> are \<open>32 word\<close> and \<open>64 word\<close> read as signed. The lemmas show that a code
  the engine named reaches Java exactly when Java can hold it and it is not zero, that the
  sentinels never collide with such a code, and exactly which option vectors are accepted and what
  they ask for.
\<close>

section \<open>Codes\<close>

datatype ErrorCode =
    Code_ClosedHandle
  | Code_InvalidArgument
  | Code_Panic
  | Code_Jni
  | Code_Native
  | Code_Mongo i32

fun as_java :: "ErrorCode \<Rightarrow> i32" where
  "as_java Code_ClosedHandle = - 1"
| "as_java Code_InvalidArgument = - 2"
| "as_java Code_Panic = - 3"
| "as_java Code_Jni = - 4"
| "as_java Code_Native = - 5"
| "as_java (Code_Mongo c) = c"

record BridgeError =
  be_code :: ErrorCode
  be_message :: string

definition BridgeError_new :: "ErrorCode \<Rightarrow> string \<Rightarrow> BridgeError" where
  "BridgeError_new c message = \<lparr>be_code = c, be_message = message\<rparr>"

definition closed_handle :: "string \<Rightarrow> BridgeError" where
  "closed_handle message = BridgeError_new Code_ClosedHandle message"

definition invalid_argument :: "string \<Rightarrow> BridgeError" where
  "invalid_argument message = BridgeError_new Code_InvalidArgument message"

text \<open>A panic's payload: one of the two shapes \<open>panic!\<close> produces, or anything else.\<close>

datatype panic_payload = Static_str string | Owned_String string | Other_payload

fun payload_text :: "panic_payload \<Rightarrow> string option" where
  "payload_text (Static_str m) = Some m"
| "payload_text (Owned_String m) = Some m"
| "payload_text Other_payload = None"

definition from_panic :: "panic_payload \<Rightarrow> BridgeError" where
  "from_panic payload =
     BridgeError_new Code_Panic
       (case payload_text payload of
          Some message \<Rightarrow> ''embedded MongoDB binding panicked: '' @ message
        | None \<Rightarrow> ''embedded MongoDB binding panicked'')"

definition BridgeError_display :: "BridgeError \<Rightarrow> string" where
  "BridgeError_display e = be_message e @ '' (code '' @ show_int (sint (as_java (be_code e))) @ '')''"

text \<open>\<open>i32::MAX\<close>.\<close>

definition i32_max :: nat where "i32_max = 2 ^ 31 - 1"

definition server_code :: "i64 option \<Rightarrow> ErrorCode" where
  "server_code c =
     (case opt_filter (\<lambda>n. 0 < sint n)
        (Option.bind c (\<lambda>n.
           if - (2 ^ 31) \<le> sint n \<and> sint n \<le> int i32_max then Some (ucast n :: i32) else None)) of
        None \<Rightarrow> Code_Native
      | Some n \<Rightarrow> Code_Mongo n)"

definition location_code :: "string \<Rightarrow> i32 option" where
  "location_code message =
     Option.bind (strip_prefix ''Location'' message) (\<lambda>rest.
       let end = unwrap_or (length rest) (position (\<lambda>c. \<not> is_ascii_digit c) rest);
           digits = take end rest;
           tail = drop end rest
       in if tail \<noteq> [] \<and> \<not> starts_with tail '':'' then None
          else opt_filter (\<lambda>n. 0 < sint n) (map_option word_of_nat (parse_digits i32_max digits)))"

fun BridgeError_of_error :: "'d error \<Rightarrow> BridgeError" where
  "BridgeError_of_error (Native (Sys_Native message)) =
     BridgeError_new (case location_code message of None \<Rightarrow> Code_Native | Some n \<Rightarrow> Code_Mongo n)
       message"
| "BridgeError_of_error (Server c message resp) =
     BridgeError_new (server_code c) (error_display (Server c message resp))"
| "BridgeError_of_error e = BridgeError_new Code_Native (error_display e)"

definition BridgeError_of_jni :: "string \<Rightarrow> BridgeError" where
  "BridgeError_of_jni e = BridgeError_new Code_Jni (''JNI call failed: '' @ e)"

section \<open>Storage limits\<close>

definition SLOTS :: nat where "SLOTS = 3"

datatype PreallocationSlot = Slot_Unset | Slot_Enabled | Slot_Disabled

definition PreallocationSlot_read :: "i64 \<Rightarrow> BridgeError + PreallocationSlot" where
  "PreallocationSlot_read v =
     (if v = 0 then Inr Slot_Unset
      else if v = 1 then Inr Slot_Enabled
      else if v = 2 then Inr Slot_Disabled
      else Inl (invalid_argument
        (''journal_preallocation must be 0 (the engine's default), 1 (enabled) or 2 (disabled), got '' @
         show_int (sint v))))"

fun PreallocationSlot_requested :: "PreallocationSlot \<Rightarrow> Preallocation option" where
  "PreallocationSlot_requested Slot_Unset = None"
| "PreallocationSlot_requested Slot_Enabled = Some Enabled"
| "PreallocationSlot_requested Slot_Disabled = Some Disabled"

definition size_slot :: "i64 \<Rightarrow> string \<Rightarrow> BridgeError + u32 option" where
  "size_slot v name =
     (if v = 0 then Inr None
      else if 0 \<le> sint v \<and> sint v < 2 ^ 32 then Inr (Some (ucast v))
      else Inl (invalid_argument
        (name @ '' must fit an unsigned 32-bit integer, got '' @ show_int (sint v))))"

definition checked_range :: "OutOfRange + 'a \<Rightarrow> BridgeError + 'a" where
  "checked_range checked = map_err (\<lambda>e. invalid_argument (OutOfRange_display e)) checked"

definition open_options :: "i64 \<times> i64 \<times> i64 \<Rightarrow> BridgeError + OpenOptions" where
  "open_options slots =
     (case slots of (cache, journal, preallocation) \<Rightarrow>
      and_then (size_slot cache ''cache_size_mebibytes'') (\<lambda>mebibytes.
      and_then (case mebibytes of
          None \<Rightarrow> Inr OpenOptions_new
        | Some n \<Rightarrow> map_ok (OpenOptions_cache_size OpenOptions_new)
                      (checked_range (CacheSize_from_mebibytes n))) (\<lambda>opts1.
      and_then (size_slot journal ''journal_file_kibibytes'') (\<lambda>kibibytes.
      and_then (case kibibytes of
          None \<Rightarrow> Inr opts1
        | Some n \<Rightarrow> map_ok (OpenOptions_journal_file_size opts1)
                      (checked_range (JournalFileSize_from_kibibytes n))) (\<lambda>opts2.
      and_then (PreallocationSlot_read preallocation) (\<lambda>slot.
      Inr (case PreallocationSlot_requested slot of
             None \<Rightarrow> opts2
           | Some p \<Rightarrow> OpenOptions_journal_preallocation opts2 p)))))))"

section \<open>Lemmas\<close>

lemma is_ascii_digit_char: "d < 10 \<Longrightarrow> is_ascii_digit (char_of (48 + d :: nat))"
  by (simp add: is_ascii_digit_def Let_def)

lemma show_nat_digits: "list_all is_ascii_digit (show_nat n)"
proof (induction n rule: show_nat.induct)
  case (1 n)
  then show ?case by (subst show_nat.simps) (auto simp: is_ascii_digit_char)
qed

lemma show_nat_not_empty: "show_nat n \<noteq> []"
  by (subst show_nat.simps) auto

lemma digits_val_snoc: "digits_val (s @ [c]) = 10 * digits_val s + digit_val c"
  by (simp add: digits_val_def)

lemma digits_val_show_nat [simp]: "digits_val (show_nat n) = n"
proof (induction n rule: show_nat.induct)
  case (1 n)
  show ?case
  proof (cases "n < 10")
    case True
    then show ?thesis by (subst show_nat.simps) (simp add: digits_val_def digit_val_def)
  next
    case False
    with 1 have "digits_val (show_nat (n div 10)) = n div 10" by simp
    with False show ?thesis
      by (subst show_nat.simps) (simp add: digits_val_snoc digit_val_def)
  qed
qed

lemma position_append:
  "list_all (\<lambda>x. \<not> P x) xs \<Longrightarrow> P y \<Longrightarrow> position P (xs @ y # ys) = Some (length xs)"
  by (induction xs) auto

lemma digits_end:
  assumes "list_all is_ascii_digit ds" and "tail = [] \<or> (\<exists>t. tail = CHR '':'' # t)"
  shows "unwrap_or (length ds + length tail) (position (\<lambda>c. \<not> is_ascii_digit c) (ds @ tail)) = length ds"
  using assms(2)
proof
  assume "tail = []"
  moreover have "position (\<lambda>c. \<not> is_ascii_digit c) ds = None"
    using assms(1) by (simp add: position_None list_all_iff)
  ultimately show ?thesis by simp
next
  assume "\<exists>t. tail = CHR '':'' # t"
  then obtain t where "tail = CHR '':'' # t" ..
  moreover have "\<not> is_ascii_digit (CHR '':'')" by (simp add: is_ascii_digit_def Let_def)
  ultimately show ?thesis using assms(1) by (simp add: position_append)
qed

lemma sint_i32_nat: "n < 2 ^ 31 \<Longrightarrow> sint (word_of_nat n :: i32) = int n"
  by (simp add: sint_uint unsigned_of_nat take_bit_nat_eq_self signed_take_bit_int_eq_self)

lemma parse_digits_Some: "parse_digits hi s = Some n \<Longrightarrow> n \<le> hi"
  by (auto simp: parse_digits_def split: if_splits)

lemma location_code_pos: "location_code message = Some n \<Longrightarrow> 0 < sint n"
  by (auto simp: location_code_def Let_def opt_filter_Some_iff bind_eq_Some_conv split: if_splits)

lemma server_code_cases:
  "server_code c = Code_Native \<or> (\<exists>n. server_code c = Code_Mongo n \<and> 0 < sint n)"
  by (auto simp: server_code_def opt_filter_Some_iff split: option.splits)

lemma location_code_digits:
  assumes "tail = [] \<or> (\<exists>t. tail = CHR '':'' # t)"
  shows "location_code (''Location'' @ show_nat n @ tail) =
    (if 0 < n \<and> n < 2 ^ 31 then Some (word_of_nat n) else None)"
proof -
  have tail: "\<not> (tail \<noteq> [] \<and> \<not> starts_with tail '':'')"
    using assms by (auto simp: starts_with_def)
  have "parse_digits i32_max (show_nat n) = (if n < 2 ^ 31 then Some n else None)" for n
    by (auto simp: parse_digits_def show_nat_digits show_nat_not_empty i32_max_def)
  with tail show ?thesis
    by (auto simp: location_code_def Let_def digits_end [OF show_nat_digits assms] sint_i32_nat
        simp del: unwrap_or_simps)
qed

lemma sint_ucast_i32:
  assumes "- (2 ^ 31) \<le> sint c" and "sint c < 2 ^ 31"
  shows "sint (ucast (c :: i64) :: i32) = sint c"
proof -
  have "sint (ucast c :: i32) = signed_take_bit 31 (take_bit 64 (sint c))"
    by (simp add: signed_ucast_eq uint_sint)
  also have "\<dots> = signed_take_bit 31 (sint c)" by (simp add: signed_take_bit_take_bit)
  also have "\<dots> = sint c" using assms by (intro signed_take_bit_int_eq_self) simp_all
  finally show ?thesis .
qed

lemma uint_ucast_u32:
  assumes "0 \<le> sint (v :: i64)" and "sint v < 2 ^ 32"
  shows "uint (ucast v :: u32) = sint v"
proof -
  have "uint v = sint v" using assms by (simp add: uint_sint take_bit_int_eq_self)
  with assms show ?thesis by (simp add: unsigned_ucast_eq take_bit_int_eq_self)
qed

text \<open>A size slot: zero is unset, a value of the limit's own range is that limit, and anything else
  is refused.\<close>

definition slot_in :: "int \<Rightarrow> int \<Rightarrow> i64 \<Rightarrow> bool" where
  "slot_in lo hi v \<longleftrightarrow> v = 0 \<or> lo \<le> sint v \<and> sint v \<le> hi"

text \<open>What one slot adds: an accepted slot leaves its number in the field it names, a refused one is
  an invalid argument.\<close>

definition decides :: "bool \<Rightarrow> ('a \<Rightarrow> bool) \<Rightarrow> BridgeError + 'a \<Rightarrow> bool" where
  "decides ok Q r \<longleftrightarrow>
     (case r of Inl e \<Rightarrow> be_code e = Code_InvalidArgument \<and> \<not> ok | Inr x \<Rightarrow> ok \<and> Q x)"

lemma decides_and_then:
  assumes "decides ok Q r" and "\<And>x. Q x \<Longrightarrow> decides ok' R (f x)"
  shows "decides (ok \<and> ok') R (and_then r f)"
proof (cases r)
  case (Inl e)
  with assms(1) show ?thesis by (simp add: decides_def)
next
  case (Inr x)
  with assms(1) have "ok" "Q x" by (simp_all add: decides_def)
  with assms(2) [of x] Inr show ?thesis by (cases "f x") (simp_all add: decides_def)
qed

lemma and_then_assoc: "and_then (and_then r f) g = and_then r (\<lambda>x. and_then (f x) g)"
  by (cases r) auto

abbreviation ffi_of :: "OpenOptions \<Rightarrow> NativeOpenOptions" where
  "ffi_of opts \<equiv> EngineOptions_to_ffi (oo_engine opts)"

lemmas option_builder_defs = EngineOptions_to_ffi_def OpenOptions_cache_size_def
  OpenOptions_journal_file_size_def OpenOptions_journal_preallocation_def EngineOptions_cache_size_def
  EngineOptions_journal_file_size_def EngineOptions_journal_preallocation_def

lemma cache_slot:
  assumes "cache_size_mb (ffi_of opts) = 0"
  shows "decides (slot_in 1 10000000 v)
    (\<lambda>o'. ffi_of o' = (ffi_of opts)\<lparr>cache_size_mb := ucast v\<rparr> \<and>
       oo_free_disk_floor o' = oo_free_disk_floor opts \<and> oo_concurrency o' = oo_concurrency opts)
    (and_then (size_slot v name) (\<lambda>m.
       case m of None \<Rightarrow> Inr opts
       | Some n \<Rightarrow> map_ok (OpenOptions_cache_size opts) (checked_range (CacheSize_from_mebibytes n))))"
  using assms uint_ucast_u32 [of v]
  by (auto simp: decides_def size_slot_def checked_range_def CacheSize_from_mebibytes_def check_range_def
      slot_in_def CacheSize_MIN_MEBIBYTES_def CacheSize_MAX_MEBIBYTES_def invalid_argument_def
      BridgeError_new_def word_le_def option_builder_defs)

lemma journal_slot:
  assumes "journal_file_max_kb (ffi_of opts) = 0"
  shows "decides (slot_in 100 2097152 v)
    (\<lambda>o'. ffi_of o' = (ffi_of opts)\<lparr>journal_file_max_kb := ucast v\<rparr> \<and>
       oo_free_disk_floor o' = oo_free_disk_floor opts \<and> oo_concurrency o' = oo_concurrency opts)
    (and_then (size_slot v name) (\<lambda>m.
       case m of None \<Rightarrow> Inr opts
       | Some n \<Rightarrow> map_ok (OpenOptions_journal_file_size opts)
                     (checked_range (JournalFileSize_from_kibibytes n))))"
  using assms uint_ucast_u32 [of v]
  by (auto simp: decides_def size_slot_def checked_range_def JournalFileSize_from_kibibytes_def
      check_range_def slot_in_def JournalFileSize_MIN_KIBIBYTES_def JournalFileSize_MAX_KIBIBYTES_def
      invalid_argument_def BridgeError_new_def word_le_def option_builder_defs)

lemma preallocation_slot:
  assumes "journal_prealloc (ffi_of opts) = 0"
  shows "decides (v \<in> {0, 1, 2})
    (\<lambda>o'. ffi_of o' = (ffi_of opts)\<lparr>journal_prealloc := ucast v\<rparr> \<and>
       oo_free_disk_floor o' = oo_free_disk_floor opts \<and> oo_concurrency o' = oo_concurrency opts)
    (and_then (PreallocationSlot_read v) (\<lambda>slot.
       Inr (case PreallocationSlot_requested slot of
              None \<Rightarrow> opts | Some p \<Rightarrow> OpenOptions_journal_preallocation opts p)))"
  using assms
  by (auto simp: decides_def PreallocationSlot_read_def invalid_argument_def BridgeError_new_def
      option_builder_defs)

section \<open>Properties\<close>

text \<open>A number the engine or the server named reaches Java unchanged whenever Java can hold it
  and it is not zero, and as the sentinel -5 otherwise: a message \<open>Location<n>\<close>, alone or followed
  by a colon and a reason, carries \<open>n\<close>, and a reply's own code carries itself.\<close>

theorem engine_codes_reach_java:
  assumes "tail = [] \<or> (\<exists>t. tail = CHR '':'' # t)"
  shows "as_java (be_code (BridgeError_of_error
      (Native (Sys_Native (''Location'' @ show_nat n @ tail)) :: 'd error))) =
      (if 0 < n \<and> n < 2 ^ 31 then word_of_nat n else - 5) \<and>
    as_java (be_code (BridgeError_of_error (Server (Some c) message resp :: 'd error))) =
      (if 0 < sint c \<and> sint c < 2 ^ 31 then ucast c else - 5)"
proof (intro conjI)
  show "as_java (be_code (BridgeError_of_error
      (Native (Sys_Native (''Location'' @ show_nat n @ tail)) :: 'd error))) =
      (if 0 < n \<and> n < 2 ^ 31 then word_of_nat n else - 5)"
    by (simp only: BridgeError_of_error.simps location_code_digits [OF assms])
      (simp add: BridgeError_new_def)
  show "as_java (be_code (BridgeError_of_error (Server (Some c) message resp :: 'd error))) =
      (if 0 < sint c \<and> sint c < 2 ^ 31 then ucast c else - 5)"
    using sint_ucast_i32 [of c] by (auto simp: BridgeError_new_def server_code_def i32_max_def)
qed

theorem engine_codes_reach_java_witness:
  "as_java (be_code (BridgeError_of_error
      (Native (Sys_Native (''Location'' @ show_nat 13180000 @ '': only one'')) :: unit error))) = 13180000"
  using engine_codes_reach_java [of "'': only one''" 13180000] by simp

text \<open>Whatever fails, the code Java sees is never zero, the value an unset field has: it is
  positive when the engine or the server named a number and one of the five negative sentinels
  otherwise, and the five sentinels are distinct.\<close>

theorem java_codes_never_zero:
  "(0 < sint (as_java (be_code (BridgeError_of_error e))) \<or>
      as_java (be_code (BridgeError_of_error e)) = - 5) \<and>
   sint (as_java (be_code (from_panic payload))) = - 3 \<and>
   sint (as_java (be_code (BridgeError_of_jni text))) = - 4 \<and>
   sint (as_java (be_code (closed_handle text))) = - 1 \<and>
   sint (as_java (be_code (invalid_argument text))) = - 2"
proof -
  have "0 < sint (as_java (be_code (BridgeError_of_error e))) \<or>
      as_java (be_code (BridgeError_of_error e)) = - 5"
  proof (cases e rule: BridgeError_of_error.cases)
    case (1 message)
    then show ?thesis
      by (auto simp: BridgeError_new_def dest: location_code_pos split: option.split)
  next
    case (2 c message resp)
    then show ?thesis using server_code_cases [of c] by (auto simp: BridgeError_new_def)
  qed (simp_all add: BridgeError_new_def)
  then show ?thesis
    by (simp add: from_panic_def BridgeError_of_jni_def closed_handle_def invalid_argument_def
        BridgeError_new_def)
qed

lemma open_options_decides:
  "decides (slot_in 1 10000000 cache \<and> slot_in 100 2097152 journal \<and> preallocation \<in> {0, 1, 2})
    (\<lambda>o'. ffi_of o' = \<lparr>cache_size_mb = ucast cache, journal_file_max_kb = ucast journal,
        journal_prealloc = ucast preallocation\<rparr> \<and>
      oo_free_disk_floor o' = None \<and> oo_concurrency o' = None)
    (open_options (cache, journal, preallocation))"
proof -
  have new: "ffi_of OpenOptions_new = \<lparr>cache_size_mb = 0, journal_file_max_kb = 0, journal_prealloc = 0\<rparr>"
      "oo_free_disk_floor OpenOptions_new = None" "oo_concurrency OpenOptions_new = None"
    by (simp_all add: OpenOptions_new_def EngineOptions_new_def EngineOptions_to_ffi_def)
  show ?thesis
    unfolding open_options_def prod.case
    apply (subst and_then_assoc [symmetric])
    apply (rule decides_and_then [OF cache_slot], simp add: new)
    apply (subst and_then_assoc [symmetric])
    apply (rule decides_and_then [OF journal_slot], simp add: new)
    subgoal for o1 o2
      using preallocation_slot [of o2 preallocation] by (simp add: new decides_def split: sum.splits)
    done
qed

text \<open>An option vector is accepted exactly when each slot is zero or in the range of the limit it
  names, and is refused as an invalid argument otherwise. The options it becomes cross the native
  boundary as the very numbers the caller put in the slots, zero still meaning the engine's own
  default, and they name no free-disk floor and no concurrency.\<close>

theorem option_slots_cross_faithfully:
  "case open_options (cache, journal, preallocation) of
     Inl e \<Rightarrow> be_code e = Code_InvalidArgument \<and>
       \<not> (slot_in 1 10000000 cache \<and> slot_in 100 2097152 journal \<and> preallocation \<in> {0, 1, 2})
   | Inr opts \<Rightarrow>
       slot_in 1 10000000 cache \<and> slot_in 100 2097152 journal \<and> preallocation \<in> {0, 1, 2} \<and>
       EngineOptions_to_ffi (oo_engine opts) =
         \<lparr>cache_size_mb = ucast cache, journal_file_max_kb = ucast journal,
          journal_prealloc = ucast preallocation\<rparr> \<and>
       oo_free_disk_floor opts = None \<and> oo_concurrency opts = None"
  using open_options_decides [of cache journal preallocation]
  by (simp add: decides_def split: sum.splits)

end
