(* ===== verification/Android_Handles.thy ===== *)
theory Android_Handles
  imports Android_Errors
begin

text \<open>
  \<open>embedded-mongodb-android/src/handle.rs\<close>: what a handle is and where the next one comes from. A
  handle is a positive Java \<open>long\<close>: a tag drawn once per process in the high bits and a sequence
  number in the low 32. The hash the tag is drawn from is an argument.

  The lemmas give every id the counter issues as a number, from which follow that ids are positive,
  strictly increasing and never reused, and that they stop rather than wrap.
\<close>

section \<open>Handles\<close>

datatype HandleId = HandleId i64

fun HandleId_get :: "HandleId \<Rightarrow> i64" where
  "HandleId_get (HandleId raw) = raw"

definition HandleId_new :: "i64 \<Rightarrow> HandleId option" where
  "HandleId_new raw = (if raw \<noteq> 0 \<and> 0 < sint raw then Some (HandleId raw) else None)"

definition SEQUENCE_BITS :: nat where "SEQUENCE_BITS = 32"

definition TAG_MASK :: i64 where "TAG_MASK = push_bit (64 - 1 - SEQUENCE_BITS) 1 - 1"

definition HandleId_from_parts :: "i64 \<Rightarrow> u32 \<Rightarrow> HandleId option" where
  "HandleId_from_parts tag sequence =
     (let raw = or (push_bit SEQUENCE_BITS tag) (ucast sequence)
      in if raw = 0 then None else Some (HandleId raw))"

definition HandleId_display :: "HandleId \<Rightarrow> string" where
  "HandleId_display hid = show_int (sint (HandleId_get hid))"

section \<open>The counter\<close>

datatype Counter = Unstarted | Next i64 u32 | Spent

definition process_tag :: "i64 \<Rightarrow> i64" where
  "process_tag hash = (let t = and hash TAG_MASK in if sint t < 1 then 1 else t)"

definition take_next :: "i64 \<Rightarrow> Counter \<Rightarrow> HandleId option \<times> Counter" where
  "take_next hash counter =
     (case (case counter of
              Unstarted \<Rightarrow> Some (process_tag hash, 1)
            | Next tag sequence \<Rightarrow> Some (tag, sequence)
            | Spent \<Rightarrow> None) of
        None \<Rightarrow> (None, counter)
      | Some (tag, sequence) \<Rightarrow>
          let hid = HandleId_from_parts tag sequence
          in (hid, if hid \<noteq> None \<and> sequence \<noteq> - 1 then Next tag (sequence + 1) else Spent))"

section \<open>Lemmas\<close>

text \<open>\<open>tag_ok\<close> is what \<open>from_parts\<close> asserts in debug builds.\<close>

definition tag_ok :: "i64 \<Rightarrow> bool" where
  "tag_ok tag \<longleftrightarrow> 1 \<le> unat tag \<and> unat tag < 2 ^ 31"

lemma TAG_MASK_mask: "TAG_MASK = mask 31"
  by (simp add: TAG_MASK_def SEQUENCE_BITS_def mask_eq_exp_minus_1)

lemma unat_and_TAG_MASK: "unat (and hash TAG_MASK) < 2 ^ 31"
proof -
  have "and hash TAG_MASK = take_bit 31 hash" by (simp add: TAG_MASK_mask take_bit_eq_mask)
  then show ?thesis by (simp only: unsigned_take_bit_eq take_bit_nat_less_exp)
qed

lemma sint_small:
  assumes "unat (x :: i64) < 2 ^ 63"
  shows "sint x = int (unat x)"
proof -
  have "int (unat x) < int (2 ^ 63)" using assms by (simp only: of_nat_less_iff)
  moreover have "- (2 ^ 63) \<le> uint x" by (rule order_trans [OF _ unsigned_greater_eq]) simp
  ultimately have "signed_take_bit 63 (uint x) = uint x"
    by (intro signed_take_bit_int_eq_self) simp_all
  then show ?thesis by (simp add: sint_uint)
qed

lemma process_tag_ok: "tag_ok (process_tag hash)"
proof -
  let ?t = "and hash TAG_MASK"
  have lt: "unat ?t < 2 ^ 31" by (rule unat_and_TAG_MASK)
  then have "sint ?t = int (unat ?t)" by (intro sint_small) simp
  then have "sint ?t < 1 \<longleftrightarrow> unat ?t = 0" by linarith
  with lt show ?thesis by (auto simp: process_tag_def tag_ok_def Let_def)
qed

lemma from_parts_raw:
  assumes "tag_ok tag"
  shows "unat (or (push_bit 32 tag) (ucast (sequence :: u32))) = unat tag * 2 ^ 32 + unat sequence"
proof -
  have s: "unat (ucast sequence :: i64) = unat sequence"
    using u32_bound [of sequence] by (simp add: unsigned_ucast_eq take_bit_nat_eq_self)
  have "unat (push_bit 32 tag) = take_bit 64 (push_bit 32 (unat tag))"
    by (simp only: unsigned_push_bit_eq) simp
  then have t: "unat (push_bit 32 tag) = unat tag * 2 ^ 32"
    using assms by (simp only: push_bit_eq_mult) (simp add: tag_ok_def take_bit_nat_eq_self)
  have "or (push_bit 32 tag) (ucast sequence :: i64) = push_bit 32 tag + ucast sequence"
    by (rule disjunctive_add [symmetric]) (auto simp: bit_simps dest: bit_imp_le_length)
  moreover have "unat (push_bit 32 tag + ucast sequence :: i64) =
      unat (push_bit 32 tag) + unat (ucast sequence :: i64)"
    using assms s t u32_bound [of sequence]
    by (subst unat_plus_simple [THEN iffD1]) (simp_all add: tag_ok_def no_olen_add_nat)
  ultimately show ?thesis using s t by simp
qed

lemma from_parts_ok:
  assumes "tag_ok tag"
  obtains raw where "HandleId_from_parts tag sequence = Some (HandleId raw)"
    and "unat raw = unat tag * 2 ^ 32 + unat sequence"
proof -
  let ?raw = "or (push_bit 32 tag) (ucast sequence) :: i64"
  have raw: "unat ?raw = unat tag * 2 ^ 32 + unat sequence" by (rule from_parts_raw [OF assms])
  moreover have "?raw \<noteq> 0" using raw assms by (auto simp: tag_ok_def)
  ultimately show ?thesis
    by (intro that [of ?raw]) (simp_all add: HandleId_from_parts_def SEQUENCE_BITS_def)
qed

lemma handle_positive:
  assumes "tag_ok tag" and "unat raw = unat tag * 2 ^ 32 + unat (sequence :: u32)"
  shows "HandleId_new raw = Some (HandleId raw)" and "sint raw = int (unat raw)"
proof -
  have "unat raw < 2 ^ 63" using assms u32_bound [of sequence] by (simp add: tag_ok_def)
  then show sint: "sint raw = int (unat raw)" by (rule sint_small)
  have "0 < unat raw" using assms by (simp add: tag_ok_def)
  then have "0 < sint raw" using sint by linarith
  then show "HandleId_new raw = Some (HandleId raw)"
    using \<open>0 < unat raw\<close> by (auto simp: HandleId_new_def)
qed

lemma handle_numbered:
  assumes "tag_ok tag" and "n < 2 ^ 32 - 1" and "unat raw = unat tag * 2 ^ 32 + (n + 1)"
  shows "HandleId_new raw = Some (HandleId raw)" and "sint raw = int (unat raw)"
proof -
  have small: "unat (word_of_nat m :: u32) = m" if "m < 2 ^ 32" for m
    using that by (simp add: unsigned_of_nat take_bit_nat_eq_self)
  have "unat (word_of_nat (n + 1) :: u32) = n + 1" by (rule small) (use assms(2) in simp)
  with assms(3) have "unat raw = unat tag * 2 ^ 32 + unat (word_of_nat (n + 1) :: u32)"
    by (simp only:)
  from handle_positive [OF assms(1) this]
  show "HandleId_new raw = Some (HandleId raw)" and "sint raw = int (unat raw)" .
qed

text \<open>The answer of the \<open>n\<close>th call, counted from zero, on a counter nobody has used yet.\<close>

fun counter_after :: "i64 \<Rightarrow> nat \<Rightarrow> Counter" where
  "counter_after hash 0 = Unstarted"
| "counter_after hash (Suc n) = snd (take_next hash (counter_after hash n))"

definition nth_handle :: "i64 \<Rightarrow> nat \<Rightarrow> HandleId option" where
  "nth_handle hash n = fst (take_next hash (counter_after hash n))"

text \<open>Where the counter stands after \<open>n\<close> calls: the next sequence number, or spent.\<close>

definition counter_at :: "i64 \<Rightarrow> nat \<Rightarrow> Counter \<Rightarrow> bool" where
  "counter_at tag n counter \<longleftrightarrow>
     (case counter of
        Unstarted \<Rightarrow> n = 0
      | Next t sequence \<Rightarrow> t = tag \<and> 0 < n \<and> unat sequence = n + 1
      | Spent \<Rightarrow> 2 ^ 32 - 1 \<le> n)"

lemma take_next_at:
  assumes "counter_at tag n counter" and "tag_ok tag"
    and "counter = Unstarted \<Longrightarrow> tag = process_tag hash"
    and "take_next hash counter = (hid, counter')"
  shows "if n < 2 ^ 32 - 1
    then counter_at tag (n + 1) counter' \<and>
      (\<exists>raw. hid = Some (HandleId raw) \<and> unat raw = unat tag * 2 ^ 32 + (n + 1))
    else hid = None \<and> counter' = Spent"
proof (cases "counter = Spent")
  case True
  with assms show ?thesis by (simp add: take_next_def counter_at_def)
next
  case False
  define sequence where "sequence = (case counter of Next t sequence \<Rightarrow> sequence | _ \<Rightarrow> 1)"
  have seq: "unat sequence = n + 1"
      "take_next hash counter =
        (let h = HandleId_from_parts tag sequence
         in (h, if h \<noteq> None \<and> sequence \<noteq> - 1 then Next tag (sequence + 1) else Spent))"
    using assms(1,3) False
    by (auto simp: sequence_def take_next_def counter_at_def Let_def split: Counter.splits)
  obtain raw where raw: "HandleId_from_parts tag sequence = Some (HandleId raw)"
      "unat raw = unat tag * 2 ^ 32 + unat sequence"
    by (rule from_parts_ok [OF assms(2)])
  have n: "n < 2 ^ 32 - 1" using seq(1) u32_bound [of sequence] by simp
  have "unat (- 1 :: u32) = 2 ^ 32 - 1" by (simp add: unsigned_minus_1_eq_mask mask_eq_exp_minus_1)
  then have "sequence = - 1 \<longleftrightarrow> n + 1 = 2 ^ 32 - 1"
    using seq(1) by (simp add: word_unat_eq_iff)
  moreover have "unat (sequence + 1) = n + 2" if "n + 1 \<noteq> 2 ^ 32 - 1"
    using that seq(1) n by (simp add: unat_inc)
  ultimately have "counter_at tag (n + 1) counter'" "hid = Some (HandleId raw)"
    using assms(4) seq(2) raw(1) by (auto simp: counter_at_def Let_def)
  with n raw(2) seq(1) show ?thesis by simp
qed

lemma counter_after_at: "counter_at (process_tag hash) n (counter_after hash n)"
proof (induction n)
  case (Suc n)
  obtain hid counter' where nxt: "take_next hash (counter_after hash n) = (hid, counter')"
    by (cases "take_next hash (counter_after hash n)")
  show ?case
    using take_next_at [OF Suc process_tag_ok refl nxt] nxt
    by (cases "n < 2 ^ 32 - 1") (auto simp: counter_at_def)
qed (simp add: counter_at_def)

section \<open>Properties\<close>

text \<open>The handles a process issues. The \<open>n\<close>th is the process's tag in the high bits and \<open>n + 1\<close> in
  the low 32, as a number; it is positive, so Java can hold it and hand it back; and after
  \<open>2^32 - 1\<close> handles the counter answers none rather than wrapping into one already issued. The
  tag is between 1 and \<open>2^31 - 1\<close> whatever hash it is drawn from.\<close>

theorem handles_issued:
  "1 \<le> unat (process_tag hash) \<and> unat (process_tag hash) < 2 ^ 31 \<and>
   (case nth_handle hash n of
      None \<Rightarrow> 2 ^ 32 - 1 \<le> n
    | Some hid \<Rightarrow> n < 2 ^ 32 - 1 \<and>
        sint (HandleId_get hid) = int (unat (process_tag hash) * 2 ^ 32 + (n + 1)) \<and>
        HandleId_new (HandleId_get hid) = Some hid)"
proof -
  obtain hid counter' where nxt: "take_next hash (counter_after hash n) = (hid, counter')"
    by (cases "take_next hash (counter_after hash n)")
  then have "nth_handle hash n = hid" by (simp add: nth_handle_def)
  moreover have "case hid of None \<Rightarrow> 2 ^ 32 - 1 \<le> n
    | Some hid \<Rightarrow> n < 2 ^ 32 - 1 \<and>
        sint (HandleId_get hid) = int (unat (process_tag hash) * 2 ^ 32 + (n + 1)) \<and>
        HandleId_new (HandleId_get hid) = Some hid"
  proof (cases "n < 2 ^ 32 - 1")
    case True
    with take_next_at [OF counter_after_at process_tag_ok refl nxt] obtain raw where
      raw: "hid = Some (HandleId raw)" "unat raw = unat (process_tag hash) * 2 ^ 32 + (n + 1)"
      by auto
    from handle_numbered [OF process_tag_ok True raw(2)] raw True show ?thesis by simp
  next
    case False
    with take_next_at [OF counter_after_at process_tag_ok refl nxt] show ?thesis by auto
  qed
  ultimately show ?thesis using process_tag_ok [of hash] by (simp add: tag_ok_def)
qed

end
