(* ===== verification/Android_Registry.thy ===== *)
theory Android_Registry
  imports Android_Handles "HOL-Library.AList"
begin

text \<open>
  \<open>embedded-mongodb-android/src/registry.rs\<close>: the clients a process has open, keyed by handles. The
  registry's map is an association list from handles to entries; an entry is an address of the heap
  of slots, as an \<open>Arc\<close> shares it, and a slot is empty once its client was taken out.

  A call from Java (open, command or close) is a thread at a place of the source; the step relation
  interleaves the sections under the registry's mutex, the acquisition of an entry's shared or
  exclusive lock, and the native calls made while holding it. The native calls are recorded in a
  history, newest first. What the engine answers is arbitrary. The lemmas show that a client is
  closed once and with nothing running on it, that a handle that stopped resolving never resolves
  again, and that every call is answered.
\<close>

section \<open>The registry\<close>

record 'c registry =
  rg_counter :: Counter
  rg_entries :: "(HandleId \<times> nat) list"
  rg_heap :: "'c option list"

definition Registry_new :: "'c registry" where
  "Registry_new = \<lparr>rg_counter = Unstarted, rg_entries = [], rg_heap = []\<rparr>"

definition closed_error :: "HandleId \<Rightarrow> BridgeError" where
  "closed_error hid =
     closed_handle (''embedded MongoDB handle '' @ HandleId_display hid @
       '' is unknown or already closed'')"

definition spent_error :: "BridgeError + unit \<Rightarrow> BridgeError" where
  "spent_error closing =
     closed_handle (''embedded MongoDB handle ids are exhausted; this process cannot open another client'' @
       (case closing of
          Inr _ \<Rightarrow> []
        | Inl failure \<Rightarrow> ''; closing it again failed: '' @ BridgeError_display failure))"

text \<open>The part of \<open>insert\<close> under the lock. No handle means the client has to be closed outside it.\<close>

definition Registry_insert :: "i64 \<Rightarrow> 'c \<Rightarrow> 'c registry \<Rightarrow> HandleId option \<times> 'c registry" where
  "Registry_insert hash client self =
     (case take_next hash (rg_counter self) of
        (None, counter) \<Rightarrow> (None, self\<lparr>rg_counter := counter\<rparr>)
      | (Some hid, counter) \<Rightarrow>
          (Some hid,
           self\<lparr>rg_counter := counter,
                rg_entries := AList.update hid (length (rg_heap self)) (rg_entries self),
                rg_heap := rg_heap self @ [Some client]\<rparr>))"

definition Registry_lookup :: "HandleId \<Rightarrow> 'c registry \<Rightarrow> BridgeError + nat" where
  "Registry_lookup hid self = ok_or (closed_error hid) (map_of (rg_entries self) hid)"

text \<open>The part of \<open>close\<close> under the registry's lock.\<close>

definition Registry_remove :: "HandleId \<Rightarrow> 'c registry \<Rightarrow> (BridgeError + nat) \<times> 'c registry" where
  "Registry_remove hid self =
     (ok_or (closed_error hid) (map_of (rg_entries self) hid),
      self\<lparr>rg_entries := AList.delete hid (rg_entries self)\<rparr>)"

text \<open>What a command finds in the slot once it holds the shared lock, and what a close takes out of
  it once it holds the exclusive one.\<close>

definition Entry_read :: "HandleId \<Rightarrow> nat \<Rightarrow> 'c registry \<Rightarrow> BridgeError + 'c" where
  "Entry_read hid a self = ok_or (closed_error hid) (rg_heap self ! a)"

definition Entry_take :: "HandleId \<Rightarrow> nat \<Rightarrow> 'c registry \<Rightarrow> (BridgeError + 'c) \<times> 'c registry" where
  "Entry_take hid a self =
     (ok_or (closed_error hid) (rg_heap self ! a), self\<lparr>rg_heap := (rg_heap self)[a := None]\<rparr>)"

definition Registry_len :: "'c registry \<Rightarrow> nat" where
  "Registry_len self = length (rg_entries self)"

definition Registry_is_empty :: "'c registry \<Rightarrow> bool" where
  "Registry_is_empty self \<longleftrightarrow> Registry_len self = 0"

section \<open>Calls\<close>

datatype call =
    Discarding
  | Commanding HandleId
  | Entered HandleId nat
  | Running HandleId nat
  | Asked_close HandleId
  | Removed HandleId nat
  | Shutting HandleId nat
  | Answered "BridgeError + bytes option"

datatype native_event =
    Command_begins nat
  | Command_ends nat
  | Close_begins nat
  | Close_ends nat

record 'c rsys =
  ry_registry :: "'c registry"
  ry_calls :: "call list"
  ry_issued :: "HandleId list"
  ry_native :: "native_event list"

definition registry_init :: "'c rsys \<Rightarrow> bool" where
  "registry_init sy \<longleftrightarrow>
     sy = \<lparr>ry_registry = Registry_new, ry_calls = [], ry_issued = [], ry_native = []\<rparr>"

definition call_at :: "nat \<Rightarrow> call \<Rightarrow> 'c rsys \<Rightarrow> bool" where
  "call_at i c sy \<longleftrightarrow> i < length (ry_calls sy) \<and> ry_calls sy ! i = c"

definition goes :: "nat \<Rightarrow> call \<Rightarrow> 'c rsys \<Rightarrow> 'c rsys" where
  "goes i c sy = sy\<lparr>ry_calls := (ry_calls sy)[i := c]\<rparr>"

definition arrives :: "call \<Rightarrow> 'c rsys \<Rightarrow> 'c rsys" where
  "arrives c sy = sy\<lparr>ry_calls := ry_calls sy @ [c]\<rparr>"

definition native :: "native_event \<Rightarrow> 'c rsys \<Rightarrow> 'c rsys" where
  "native ev sy = sy\<lparr>ry_native := ev # ry_native sy\<rparr>"

text \<open>Who holds an entry's lock: commands share it, a close has it alone.\<close>

fun shares :: "nat \<Rightarrow> call \<Rightarrow> nat" where
  "shares a (Running hid b) = of_bool (a = b)"
| "shares a _ = 0"

fun excludes :: "nat \<Rightarrow> call \<Rightarrow> nat" where
  "excludes a (Shutting hid b) = of_bool (a = b)"
| "excludes a _ = 0"

abbreviation among :: "(call \<Rightarrow> nat) \<Rightarrow> 'c rsys \<Rightarrow> nat" where
  "among f sy \<equiv> \<Sum>c\<leftarrow>ry_calls sy. f c"

inductive registry_step :: "'c rsys \<Rightarrow> 'c rsys \<Rightarrow> bool" where
  inserts:
    "Registry_insert hash client (ry_registry sy) = (Some hid, reg) \<Longrightarrow>
     registry_step sy (arrives (Answered (Inr None))
       (sy\<lparr>ry_registry := reg, ry_issued := ry_issued sy @ [hid]\<rparr>))"
| exhausted:
    "Registry_insert hash client (ry_registry sy) = (None, reg) \<Longrightarrow>
     registry_step sy (arrives Discarding (sy\<lparr>ry_registry := reg\<rparr>))"
| discards:
    "call_at i Discarding sy \<Longrightarrow>
     registry_step sy (goes i (Answered (Inl (spent_error closing))) sy)"
| commands:
    "registry_step sy (arrives (Commanding hid) sy)"
| looks_up:
    "call_at i (Commanding hid) sy \<Longrightarrow> Registry_lookup hid (ry_registry sy) = Inr a \<Longrightarrow>
     registry_step sy (goes i (Entered hid a) sy)"
| lookup_fails:
    "call_at i (Commanding hid) sy \<Longrightarrow> Registry_lookup hid (ry_registry sy) = Inl e \<Longrightarrow>
     registry_step sy (goes i (Answered (Inl e)) sy)"
| runs:
    "call_at i (Entered hid a) sy \<Longrightarrow> among (excludes a) sy = 0 \<Longrightarrow>
     Entry_read hid a (ry_registry sy) = Inr client \<Longrightarrow>
     registry_step sy (native (Command_begins a) (goes i (Running hid a) sy))"
| run_fails:
    "call_at i (Entered hid a) sy \<Longrightarrow> among (excludes a) sy = 0 \<Longrightarrow>
     Entry_read hid a (ry_registry sy) = Inl e \<Longrightarrow>
     registry_step sy (goes i (Answered (Inl e)) sy)"
| returns:
    "call_at i (Running hid a) sy \<Longrightarrow>
     registry_step sy (native (Command_ends a) (goes i (Answered (map_ok Some reply)) sy))"
| asks_close:
    "registry_step sy (arrives (Asked_close hid) sy)"
| removes:
    "call_at i (Asked_close hid) sy \<Longrightarrow> Registry_remove hid (ry_registry sy) = (Inr a, reg) \<Longrightarrow>
     registry_step sy (goes i (Removed hid a) (sy\<lparr>ry_registry := reg\<rparr>))"
| remove_fails:
    "call_at i (Asked_close hid) sy \<Longrightarrow> Registry_remove hid (ry_registry sy) = (Inl e, reg) \<Longrightarrow>
     registry_step sy (goes i (Answered (Inl e)) (sy\<lparr>ry_registry := reg\<rparr>))"
| shuts:
    "call_at i (Removed hid a) sy \<Longrightarrow> among (excludes a) sy = 0 \<Longrightarrow> among (shares a) sy = 0 \<Longrightarrow>
     Entry_take hid a (ry_registry sy) = (Inr client, reg) \<Longrightarrow>
     registry_step sy (native (Close_begins a) (goes i (Shutting hid a) (sy\<lparr>ry_registry := reg\<rparr>)))"
| shut_fails:
    "call_at i (Removed hid a) sy \<Longrightarrow> among (excludes a) sy = 0 \<Longrightarrow> among (shares a) sy = 0 \<Longrightarrow>
     Entry_take hid a (ry_registry sy) = (Inl e, reg) \<Longrightarrow>
     registry_step sy (goes i (Answered (Inl e)) (sy\<lparr>ry_registry := reg\<rparr>))"
| closes:
    "call_at i (Shutting hid a) sy \<Longrightarrow>
     registry_step sy (native (Close_ends a) (goes i (Answered (map_ok (\<lambda>_ :: unit. None) result)) sy))"

abbreviation registry_reachable :: "'c rsys \<Rightarrow> bool" where
  "registry_reachable \<equiv> reach registry_init registry_step"

section \<open>The invariant\<close>

fun to_shut :: "nat \<Rightarrow> call \<Rightarrow> nat" where
  "to_shut a (Removed hid b) = of_bool (a = b)"
| "to_shut a _ = 0"

definition listed :: "nat \<Rightarrow> 'c registry \<Rightarrow> nat" where
  "listed a reg = (\<Sum>(hid, b)\<leftarrow>rg_entries reg. of_bool (a = b))"

text \<open>Whether the client at an address is still in its slot, or was taken out.\<close>

definition present :: "nat \<Rightarrow> 'c registry \<Rightarrow> bool" where
  "present a reg \<longleftrightarrow> a < length (rg_heap reg) \<and> rg_heap reg ! a \<noteq> None"

definition taken :: "nat \<Rightarrow> 'c registry \<Rightarrow> bool" where
  "taken a reg \<longleftrightarrow> a < length (rg_heap reg) \<and> rg_heap reg ! a = None"

text \<open>What the next native call may be, given the ones before it.\<close>

fun allowed :: "native_event list \<Rightarrow> native_event \<Rightarrow> bool" where
  "allowed past (Command_begins a) \<longleftrightarrow> Close_begins a \<notin> set past"
| "allowed past (Close_begins a) \<longleftrightarrow> Close_begins a \<notin> set past \<and>
     count_list past (Command_begins a) = count_list past (Command_ends a)"
| "allowed past _ \<longleftrightarrow> True"

fun orderly :: "native_event list \<Rightarrow> bool" where
  "orderly [] = True"
| "orderly (ev # past) = (allowed past ev \<and> orderly past)"

text \<open>One address: a client still in its slot is listed once or about to be shut, and nothing else
  is; the history knows exactly what was closed and what is running; only a client in its slot runs
  commands, and only one taken out is being closed, by one caller.\<close>

definition client_ok :: "nat \<Rightarrow> 'c rsys \<Rightarrow> bool" where
  "client_ok a sy \<longleftrightarrow>
     listed a (ry_registry sy) + among (to_shut a) sy = of_bool (present a (ry_registry sy)) \<and>
     count_list (ry_native sy) (Close_begins a) = of_bool (taken a (ry_registry sy)) \<and>
     count_list (ry_native sy) (Command_begins a) =
       count_list (ry_native sy) (Command_ends a) + among (shares a) sy \<and>
     (0 < among (shares a) sy \<longrightarrow> present a (ry_registry sy)) \<and>
     among (excludes a) sy \<le> of_bool (taken a (ry_registry sy))"

definition ids_ok :: "'c rsys \<Rightarrow> bool" where
  "ids_ok sy \<longleftrightarrow>
     (\<exists>tag. tag_ok tag \<and> counter_at tag (length (ry_issued sy)) (rg_counter (ry_registry sy)) \<and>
        (\<forall>k<length (ry_issued sy).
           unat (HandleId_get (ry_issued sy ! k)) = unat tag * 2 ^ 32 + (k + 1))) \<and>
     distinct (map fst (rg_entries (ry_registry sy))) \<and>
     fst ` set (rg_entries (ry_registry sy)) \<subseteq> set (ry_issued sy)"

definition registry_inv :: "'c rsys \<Rightarrow> bool" where
  "registry_inv sy \<longleftrightarrow>
     ids_ok sy \<and> orderly (ry_native sy) \<and> (\<forall>a. client_ok a sy) \<and>
     (\<forall>hid a. Entered hid a \<in> set (ry_calls sy) \<longrightarrow> a < length (rg_heap (ry_registry sy)))"

section \<open>Preservation\<close>

lemma among_goes:
  assumes "call_at i c sy"
  shows "among f (goes i d sy) + f c = among f sy + f d"
  using assms sum_list_replace [of i "ry_calls sy" f d] by (simp add: goes_def call_at_def)

lemma among_arrives: "among f (arrives c sy) = among f sy + f c"
  by (simp add: arrives_def)

lemma among_native [simp]: "among f (native ev sy) = among f sy"
  by (simp add: native_def)

lemma among_registry [simp]: "among f (sy\<lparr>ry_registry := reg\<rparr>) = among f sy"
  by simp

lemma call_at_registry [simp]: "call_at i c (sy\<lparr>ry_registry := reg\<rparr>) = call_at i c sy"
  by (simp add: call_at_def)

lemma rsys_fields [simp]:
  "ry_registry (goes i c sy) = ry_registry sy" "ry_registry (arrives c sy) = ry_registry sy"
  "ry_registry (native ev sy) = ry_registry sy"
  "ry_issued (goes i c sy) = ry_issued sy" "ry_issued (arrives c sy) = ry_issued sy"
  "ry_issued (native ev sy) = ry_issued sy"
  "ry_native (goes i c sy) = ry_native sy" "ry_native (arrives c sy) = ry_native sy"
  "ry_native (native ev sy) = ev # ry_native sy"
  "ry_calls (native ev sy) = ry_calls sy"
  by (simp_all add: goes_def arrives_def native_def)

lemma entered_goes:
  "Entered hid a \<in> set (ry_calls (goes i c sy)) \<Longrightarrow>
   Entered hid a \<in> set (ry_calls sy) \<or> c = Entered hid a"
  by (auto simp: goes_def dest: set_update_subset_insert [THEN subsetD])

lemma entered_arrives:
  "Entered hid a \<in> set (ry_calls (arrives c sy)) \<longleftrightarrow>
   Entered hid a \<in> set (ry_calls sy) \<or> c = Entered hid a"
  by (auto simp: arrives_def)

lemma update_fresh: "k \<notin> fst ` set xs \<Longrightarrow> AList.update k v xs = xs @ [(k, v)]"
  by (induction xs) auto

lemma listed_delete:
  assumes "map_of es hid = Some b" and "distinct (map fst es)"
  shows "(\<Sum>(h, c)\<leftarrow>AList.delete hid es. of_bool (a = c)) + of_bool (a = b) =
    (\<Sum>(h, c)\<leftarrow>es. of_bool (a = c) :: nat)"
  using assms
proof (induction es)
  case (Cons e es)
  obtain h c where e: "e = (h, c)" by (cases e)
  show ?case
  proof (cases "h = hid")
    case True
    with Cons.prems e have "hid \<notin> fst ` set es" by auto
    then have "AList.delete hid es = es" by (simp add: AList.delete_idem)
    with True Cons.prems e show ?thesis by simp
  next
    case False
    with Cons e show ?thesis by simp
  qed
qed simp

abbreviation weight :: "nat \<Rightarrow> call \<Rightarrow> nat \<times> nat \<times> nat" where
  "weight a c \<equiv> (to_shut a c, shares a c, excludes a c)"

text \<open>A call that moves without touching a client, and a call that arrives.\<close>

lemma inv_goes:
  assumes inv: "registry_inv sy" and at: "call_at i c sy" and same: "\<And>a. weight a d = weight a c"
    and entered: "\<And>hid a. d = Entered hid a \<Longrightarrow> a < length (rg_heap (ry_registry sy))"
  shows "registry_inv (goes i d sy)"
proof -
  have "among (to_shut a) (goes i d sy) = among (to_shut a) sy"
    "among (shares a) (goes i d sy) = among (shares a) sy"
    "among (excludes a) (goes i d sy) = among (excludes a) sy" for a
    using same [of a] among_goes [OF at, of "to_shut a" d] among_goes [OF at, of "shares a" d]
      among_goes [OF at, of "excludes a" d] by simp_all
  then have "client_ok a (goes i d sy) = client_ok a sy" for a by (simp add: client_ok_def)
  with inv entered show ?thesis
    by (auto simp: registry_inv_def ids_ok_def dest!: entered_goes)
qed

lemma inv_arrives:
  assumes inv: "registry_inv sy" and light: "\<And>a. weight a c = (0, 0, 0)"
    and "\<And>hid a. c \<noteq> Entered hid a"
  shows "registry_inv (arrives c sy)"
proof -
  have "client_ok a (arrives c sy) = client_ok a sy" for a
    using light [of a] by (simp add: client_ok_def among_arrives)
  with inv assms(3) show ?thesis
    by (auto simp: registry_inv_def ids_ok_def entered_arrives)
qed

lemma fresh_handle:
  assumes "ids_ok sy" and "take_next hash (rg_counter (ry_registry sy)) = (hid, counter)"
  shows "(\<exists>tag. tag_ok tag \<and>
      counter_at tag (length (ry_issued sy) + length (case hid of None \<Rightarrow> [] | Some h \<Rightarrow> [h])) counter \<and>
      (\<forall>k<length (ry_issued sy). unat (HandleId_get (ry_issued sy ! k)) = unat tag * 2 ^ 32 + (k + 1)) \<and>
      (case hid of None \<Rightarrow> True
       | Some h \<Rightarrow> unat (HandleId_get h) = unat tag * 2 ^ 32 + (length (ry_issued sy) + 1) \<and>
           HandleId_new (HandleId_get h) = Some h \<and> h \<notin> set (ry_issued sy)))"
proof -
  let ?n = "length (ry_issued sy)"
  obtain tag0 where tag0: "tag_ok tag0" "counter_at tag0 ?n (rg_counter (ry_registry sy))"
      "\<forall>k<?n. unat (HandleId_get (ry_issued sy ! k)) = unat tag0 * 2 ^ 32 + (k + 1)"
    using assms(1) by (auto simp: ids_ok_def)
  define tag where "tag = (if rg_counter (ry_registry sy) = Unstarted then process_tag hash else tag0)"
  have tag: "tag_ok tag" "counter_at tag ?n (rg_counter (ry_registry sy))"
      "\<forall>k<?n. unat (HandleId_get (ry_issued sy ! k)) = unat tag * 2 ^ 32 + (k + 1)"
    using tag0 process_tag_ok [of hash] by (auto simp: tag_def counter_at_def)
  note nxt = take_next_at [OF tag(2,1) _ assms(2)]
  have fresh: "h \<notin> set (ry_issued sy)" if "unat (HandleId_get h) = unat tag * 2 ^ 32 + (?n + 1)" for h
    using tag(3) that by (fastforce simp: in_set_conv_nth)
  show ?thesis
  proof (cases "?n < 2 ^ 32 - 1")
    case True
    with nxt obtain raw where "hid = Some (HandleId raw)"
        "unat raw = unat tag * 2 ^ 32 + (?n + 1)" "counter_at tag (?n + 1) counter"
      by (auto simp: tag_def)
    with tag fresh [of "HandleId raw"] handle_numbered [OF tag(1) True] show ?thesis by auto
  next
    case False
    with nxt have "hid = None" "counter = Spent" by (auto simp: tag_def)
    with tag False show ?thesis by (auto simp: counter_at_def)
  qed
qed

lemma inv_inserts:
  assumes inv: "registry_inv sy"
    and ins: "Registry_insert hash client (ry_registry sy) = (Some hid, reg)"
  shows "registry_inv (sy\<lparr>ry_registry := reg, ry_issued := ry_issued sy @ [hid]\<rparr>)"
proof -
  from ins obtain counter where nxt: "take_next hash (rg_counter (ry_registry sy)) = (Some hid, counter)"
    and reg: "reg = (ry_registry sy)\<lparr>rg_counter := counter,
        rg_entries := AList.update hid (length (rg_heap (ry_registry sy))) (rg_entries (ry_registry sy)),
        rg_heap := rg_heap (ry_registry sy) @ [Some client]\<rparr>"
    by (auto simp: Registry_insert_def split: prod.splits option.splits)
  have ids: "ids_ok sy" and ok: "client_ok a sy" for a using inv by (simp_all add: registry_inv_def)
  from fresh_handle [OF ids nxt] obtain tag where tag: "tag_ok tag"
      "counter_at tag (length (ry_issued sy) + 1) counter"
      "\<forall>k<length (ry_issued sy). unat (HandleId_get (ry_issued sy ! k)) = unat tag * 2 ^ 32 + (k + 1)"
      "unat (HandleId_get hid) = unat tag * 2 ^ 32 + (length (ry_issued sy) + 1)"
      "hid \<notin> set (ry_issued sy)"
    by auto
  from tag(5) ids have fresh: "hid \<notin> fst ` set (rg_entries (ry_registry sy))"
    by (auto simp: ids_ok_def)
  then have entries: "rg_entries reg =
      rg_entries (ry_registry sy) @ [(hid, length (rg_heap (ry_registry sy)))]"
    by (simp add: reg update_fresh)
  have counter: "rg_counter reg = counter" by (simp add: reg)
  have "ids_ok (sy\<lparr>ry_registry := reg, ry_issued := ry_issued sy @ [hid]\<rparr>)"
    unfolding ids_ok_def
  proof (intro conjI exI [of _ tag])
    show "distinct (map fst (rg_entries (ry_registry
        (sy\<lparr>ry_registry := reg, ry_issued := ry_issued sy @ [hid]\<rparr>))))"
      using ids fresh by (simp add: entries ids_ok_def)
  qed (use tag ids fresh in \<open>auto simp: entries counter ids_ok_def nth_append less_Suc_eq\<close>)
  moreover have "client_ok a (sy\<lparr>ry_registry := reg, ry_issued := ry_issued sy @ [hid]\<rparr>)" for a
  proof -
    have "listed a reg = listed a (ry_registry sy) + of_bool (a = length (rg_heap (ry_registry sy)))"
      by (simp add: listed_def entries)
    moreover have "of_bool (present a reg) =
        of_bool (present a (ry_registry sy)) + (of_bool (a = length (rg_heap (ry_registry sy))) :: nat)"
      by (auto simp: present_def reg nth_append less_Suc_eq)
    moreover have "taken a reg = taken a (ry_registry sy)"
      by (auto simp: taken_def reg nth_append less_Suc_eq)
    moreover have "present a (ry_registry sy) \<Longrightarrow> present a reg"
      by (auto simp: present_def reg nth_append)
    ultimately show ?thesis using ok [of a] by (simp add: client_ok_def)
  qed
  moreover have "length (rg_heap reg) = Suc (length (rg_heap (ry_registry sy)))" by (simp add: reg)
  ultimately show ?thesis using inv by (auto simp: registry_inv_def less_Suc_eq)
qed

lemma inv_exhausted:
  assumes inv: "registry_inv sy"
    and ins: "Registry_insert hash client (ry_registry sy) = (None, reg)"
  shows "registry_inv (sy\<lparr>ry_registry := reg\<rparr>)"
proof -
  from ins obtain counter where nxt: "take_next hash (rg_counter (ry_registry sy)) = (None, counter)"
    and reg: "reg = (ry_registry sy)\<lparr>rg_counter := counter\<rparr>"
    by (auto simp: Registry_insert_def split: prod.splits option.splits)
  have ids: "ids_ok sy" using inv by (simp add: registry_inv_def)
  have "ids_ok (sy\<lparr>ry_registry := reg\<rparr>)"
    using fresh_handle [OF ids nxt] ids by (auto simp: ids_ok_def reg)
  moreover have "client_ok a (sy\<lparr>ry_registry := reg\<rparr>) = client_ok a sy" for a
    by (simp add: client_ok_def listed_def present_def taken_def reg)
  ultimately show ?thesis using inv by (simp add: registry_inv_def reg)
qed

text \<open>The moves that touch one client: every other address is as it was.\<close>

lemma inv_runs:
  assumes inv: "registry_inv sy" and at: "call_at i (Entered hid b) sy"
    and read: "Entry_read hid b (ry_registry sy) = Inr client"
  shows "registry_inv (native (Command_begins b) (goes i (Running hid b) sy))"
proof -
  have "Entered hid b \<in> set (ry_calls sy)" using at by (metis call_at_def nth_mem)
  with inv read have present: "present b (ry_registry sy)"
    by (auto simp: registry_inv_def present_def Entry_read_def ok_or_Inr_iff)
  have ok: "client_ok a sy" for a using inv by (simp add: registry_inv_def)
  have "client_ok a (native (Command_begins b) (goes i (Running hid b) sy))" for a
    using ok [of a] present among_goes [OF at, of "to_shut a" "Running hid b"]
      among_goes [OF at, of "shares a" "Running hid b"] among_goes [OF at, of "excludes a" "Running hid b"]
    by (auto simp: client_ok_def simp del: sum_list_eq_0_iff split: if_splits)
  moreover have "Close_begins b \<notin> set (ry_native sy)"
    using ok [of b] present by (auto simp: client_ok_def present_def taken_def count_list_0_iff simp del: sum_list_eq_0_iff)
  ultimately show ?thesis
    using inv by (auto simp: registry_inv_def ids_ok_def dest!: entered_goes)
qed

lemma inv_returns:
  assumes inv: "registry_inv sy" and at: "call_at i (Running hid b) sy"
  shows "registry_inv (native (Command_ends b) (goes i (Answered r) sy))"
proof -
  have ok: "client_ok a sy" for a using inv by (simp add: registry_inv_def)
  have "client_ok a (native (Command_ends b) (goes i (Answered r) sy))" for a
    using ok [of a] among_goes [OF at, of "to_shut a" "Answered r"]
      among_goes [OF at, of "shares a" "Answered r"] among_goes [OF at, of "excludes a" "Answered r"]
    by (auto simp: client_ok_def simp del: sum_list_eq_0_iff split: if_splits)
  with inv show ?thesis by (auto simp: registry_inv_def ids_ok_def dest!: entered_goes)
qed

lemma inv_closes:
  assumes inv: "registry_inv sy" and at: "call_at i (Shutting hid b) sy"
  shows "registry_inv (native (Close_ends b) (goes i (Answered r) sy))"
proof -
  have ok: "client_ok a sy" for a using inv by (simp add: registry_inv_def)
  have "client_ok a (native (Close_ends b) (goes i (Answered r) sy))" for a
    using ok [of a] among_goes [OF at, of "to_shut a" "Answered r"]
      among_goes [OF at, of "shares a" "Answered r"] among_goes [OF at, of "excludes a" "Answered r"]
    by (auto simp: client_ok_def simp del: sum_list_eq_0_iff split: if_splits)
  with inv show ?thesis by (auto simp: registry_inv_def ids_ok_def dest!: entered_goes)
qed

lemma inv_removes:
  assumes inv: "registry_inv sy" and at: "call_at i (Asked_close hid) sy"
    and rem: "Registry_remove hid (ry_registry sy) = (Inr b, reg)"
  shows "registry_inv (goes i (Removed hid b) (sy\<lparr>ry_registry := reg\<rparr>))"
proof -
  from rem have b: "map_of (rg_entries (ry_registry sy)) hid = Some b"
    and reg: "reg = (ry_registry sy)\<lparr>rg_entries := AList.delete hid (rg_entries (ry_registry sy))\<rparr>"
    by (auto simp: Registry_remove_def ok_or_Inr_iff)
  have ids: "ids_ok sy" and ok: "client_ok a sy" for a using inv by (simp_all add: registry_inv_def)
  have at': "call_at i (Asked_close hid) (sy\<lparr>ry_registry := reg\<rparr>)" using at by simp
  have listed: "listed a (ry_registry sy) = listed a reg + of_bool (a = b)" for a
    using listed_delete [OF b, of a] ids by (simp add: listed_def reg ids_ok_def)
  have slots: "present a reg = present a (ry_registry sy)" "taken a reg = taken a (ry_registry sy)" for a
    by (simp_all add: present_def taken_def reg)
  have "client_ok a (goes i (Removed hid b) (sy\<lparr>ry_registry := reg\<rparr>))" for a
    using ok [of a] among_goes [OF at', of "to_shut a" "Removed hid b"]
      among_goes [OF at', of "shares a" "Removed hid b"] among_goes [OF at', of "excludes a" "Removed hid b"]
    by (simp add: client_ok_def listed slots del: sum_list_eq_0_iff)
  moreover have "ids_ok (goes i (Removed hid b) (sy\<lparr>ry_registry := reg\<rparr>))"
    using ids by (fastforce simp: ids_ok_def reg AList.delete_eq distinct_map_filter)
  ultimately show ?thesis
    using inv by (auto simp: registry_inv_def reg dest!: entered_goes)
qed

lemma inv_shuts:
  assumes inv: "registry_inv sy" and at: "call_at i (Removed hid b) sy"
    and quiet: "among (shares b) sy = 0" and alone: "among (excludes b) sy = 0"
    and take: "Entry_take hid b (ry_registry sy) = (Inr client, reg)"
  shows "registry_inv (native (Close_begins b) (goes i (Shutting hid b) (sy\<lparr>ry_registry := reg\<rparr>)))"
proof -
  have reg: "reg = (ry_registry sy)\<lparr>rg_heap := (rg_heap (ry_registry sy))[b := None]\<rparr>"
    using take by (simp add: Entry_take_def)
  have ok: "client_ok a sy" for a using inv by (simp add: registry_inv_def)
  have at': "call_at i (Removed hid b) (sy\<lparr>ry_registry := reg\<rparr>)" using at by simp
  note moves = among_goes [OF at', of _ "Shutting hid b"]
  have "0 < among (to_shut b) sy" using moves [of "to_shut b"] by simp
  with ok [of b] have present: "present b (ry_registry sy)" by (cases "present b (ry_registry sy)") (auto simp: client_ok_def simp del: sum_list_eq_0_iff)
  then have absent: "\<not> taken b (ry_registry sy)" by (simp add: present_def taken_def)
  have heap: "listed a reg = listed a (ry_registry sy)"
    "present a reg = (present a (ry_registry sy) \<and> a \<noteq> b)"
    "taken a reg = (taken a (ry_registry sy) \<or> a = b)" for a
    using present by (auto simp: reg listed_def present_def taken_def nth_list_update)
  have client: "client_ok a (native (Close_begins b) (goes i (Shutting hid b) (sy\<lparr>ry_registry := reg\<rparr>)))" for a
    using ok [of a] quiet alone present absent moves [of "to_shut a"] moves [of "shares a"]
      moves [of "excludes a"]
    by (cases "a = b") (simp_all add: client_ok_def heap del: sum_list_eq_0_iff)
  moreover have "allowed (ry_native sy) (Close_begins b)"
    using ok [of b] present quiet by (auto simp: client_ok_def present_def taken_def count_list_0_iff simp del: sum_list_eq_0_iff)
  ultimately show ?thesis
    using inv by (auto simp: registry_inv_def ids_ok_def reg dest!: entered_goes)
qed

lemma remove_fails_same:
  assumes "Registry_remove hid reg = (Inl e, reg')"
  shows "reg' = reg"
proof -
  have "map_of (rg_entries reg) hid = None"
    using assms by (cases "map_of (rg_entries reg) hid") (auto simp: Registry_remove_def)
  then have "AList.delete hid (rg_entries reg) = rg_entries reg"
    by (simp add: AList.delete_idem map_of_eq_None_iff)
  with assms show ?thesis by (simp add: Registry_remove_def)
qed

lemma removed_present:
  assumes "registry_inv sy" and "call_at i (Removed hid b) sy"
  shows "present b (ry_registry sy)"
proof -
  have "0 < among (to_shut b) sy" using among_goes [OF assms(2), of "to_shut b" Discarding] by simp
  moreover have "client_ok b sy" using assms(1) by (simp add: registry_inv_def)
  ultimately show ?thesis
    by (cases "present b (ry_registry sy)") (auto simp: client_ok_def simp del: sum_list_eq_0_iff)
qed

lemma shut_never_fails:
  assumes "registry_inv sy" and "call_at i (Removed hid b) sy"
  shows "\<exists>client reg. Entry_take hid b (ry_registry sy) = (Inr client, reg)"
  using removed_present [OF assms] by (auto simp: present_def Entry_take_def)

lemma listed_pos: "(hid, a) \<in> set es \<Longrightarrow> 0 < (\<Sum>(h, b)\<leftarrow>es. of_bool (a = b) :: nat)"
  by (induction es) auto

lemma lookup_address:
  assumes "registry_inv sy" and "Registry_lookup hid (ry_registry sy) = Inr a"
  shows "a < length (rg_heap (ry_registry sy))" and "listed a (ry_registry sy) = 1"
proof -
  from assms(2) have "(hid, a) \<in> set (rg_entries (ry_registry sy))"
    by (auto simp: Registry_lookup_def ok_or_Inr_iff dest: map_of_SomeD)
  then have "0 < listed a (ry_registry sy)" unfolding listed_def by (rule listed_pos)
  moreover have "client_ok a sy" using assms(1) by (simp add: registry_inv_def)
  ultimately have "present a (ry_registry sy) \<and> listed a (ry_registry sy) = 1"
    by (cases "present a (ry_registry sy)") (auto simp: client_ok_def simp del: sum_list_eq_0_iff)
  then show "a < length (rg_heap (ry_registry sy))" and "listed a (ry_registry sy) = 1"
    by (simp_all add: present_def)
qed

lemma listed_twice:
  "(h, a) \<in> set es \<Longrightarrow> (h', a) \<in> set es \<Longrightarrow> h \<noteq> h' \<Longrightarrow>
   2 \<le> (\<Sum>(k, b)\<leftarrow>es. of_bool (a = b) :: nat)"
proof (induction es)
  case (Cons e es)
  then show ?case using listed_pos [of h a es] listed_pos [of h' a es] by (cases e) auto
qed simp

lemma lookup_injective:
  assumes "registry_inv sy" and "Registry_lookup h (ry_registry sy) = Inr a"
    and "Registry_lookup h' (ry_registry sy) = Inr a"
  shows "h = h'"
proof (rule ccontr)
  assume "h \<noteq> h'"
  moreover have "(h, a) \<in> set (rg_entries (ry_registry sy))" "(h', a) \<in> set (rg_entries (ry_registry sy))"
    using assms(2,3) by (auto simp: Registry_lookup_def ok_or_Inr_iff dest: map_of_SomeD)
  ultimately have "2 \<le> listed a (ry_registry sy)" unfolding listed_def by (intro listed_twice)
  with lookup_address(2) [OF assms(1,2)] show False by simp
qed

lemma registry_inv_step:
  assumes "registry_step sy sy'" and "registry_inv sy"
  shows "registry_inv sy'"
  using assms
proof cases
  case (inserts hash client hid reg)
  then show ?thesis by (auto intro!: inv_arrives inv_inserts [OF assms(2)])
next
  case (exhausted hash client reg)
  then show ?thesis by (auto intro!: inv_arrives inv_exhausted [OF assms(2)])
next
  case (looks_up i hid a)
  then show ?thesis using lookup_address(1) [OF assms(2)] by (auto intro!: inv_goes [OF assms(2)])
next
  case (runs i hid a client)
  then show ?thesis by (auto intro: inv_runs [OF assms(2)])
next
  case (returns i hid a reply)
  then show ?thesis by (auto intro: inv_returns [OF assms(2)])
next
  case (removes i hid a reg)
  then show ?thesis by (auto intro: inv_removes [OF assms(2)])
next
  case (remove_fails i hid e reg)
  then show ?thesis using remove_fails_same by (fastforce intro!: inv_goes [OF assms(2)])
next
  case (shuts i hid a client reg)
  then show ?thesis by (auto intro: inv_shuts [OF assms(2)])
next
  case (shut_fails i hid a e reg)
  then show ?thesis using shut_never_fails [OF assms(2)] by fastforce
next
  case (closes i hid a result)
  then show ?thesis by (auto intro: inv_closes [OF assms(2)])
next
  case (discards i closing)
  then show ?thesis by (auto intro!: inv_goes [OF assms(2)])
next
  case (commands hid)
  then show ?thesis by (auto intro!: inv_arrives [OF assms(2)])
next
  case (lookup_fails i hid e)
  then show ?thesis by (auto intro!: inv_goes [OF assms(2)])
next
  case (run_fails i hid a e)
  then show ?thesis by (auto intro!: inv_goes [OF assms(2)])
next
  case (asks_close hid)
  then show ?thesis by (auto intro!: inv_arrives [OF assms(2)])
qed

lemma registry_inv_init: "registry_init sy \<Longrightarrow> registry_inv sy"
  by (auto simp: registry_init_def registry_inv_def ids_ok_def client_ok_def Registry_new_def listed_def
      present_def taken_def counter_at_def intro: exI [of _ "process_tag 0"] process_tag_ok)

interpretation handles: invariant_system registry_init registry_step registry_inv
  by unfold_locales (auto intro: registry_inv_init registry_inv_step)

section \<open>Handles that no longer resolve\<close>

lemma lookup_Inl: "Registry_lookup hid reg = Inl e \<longleftrightarrow> e = closed_error hid \<and> hid \<notin> fst ` set (rg_entries reg)"
proof (cases "map_of (rg_entries reg) hid")
  case None
  then have "hid \<notin> fst ` set (rg_entries reg)" by (simp add: map_of_eq_None_iff)
  with None show ?thesis by (auto simp: Registry_lookup_def)
next
  case (Some a)
  then have "hid \<in> fst ` set (rg_entries reg)" by (metis domI dom_map_of_conv_image_fst)
  with Some show ?thesis by (auto simp: Registry_lookup_def)
qed

lemma stale_step:
  assumes "registry_step sy sy'" and "registry_inv sy" and "hid \<in> set (ry_issued sy)"
    and "hid \<notin> fst ` set (rg_entries (ry_registry sy))"
  shows "hid \<in> set (ry_issued sy') \<and> hid \<notin> fst ` set (rg_entries (ry_registry sy'))"
  using assms(1)
proof cases
  case (inserts hash client hid' reg)
  then obtain counter where nxt: "take_next hash (rg_counter (ry_registry sy)) = (Some hid', counter)"
    and entries: "rg_entries reg = AList.update hid' (length (rg_heap (ry_registry sy)))
        (rg_entries (ry_registry sy))"
    by (auto simp: Registry_insert_def split: prod.splits option.splits)
  have "ids_ok sy" using assms(2) by (simp add: registry_inv_def)
  from fresh_handle [OF this nxt] have "hid' \<noteq> hid" using assms(3) by auto
  with inserts(1) entries assms(3,4) show ?thesis
    by (auto simp: dom_update [symmetric] AList.dom_update)
next
  case (exhausted hash client reg)
  then show ?thesis
    using assms(3,4) by (auto simp: Registry_insert_def split: prod.splits option.splits)
next
  case (removes i hid' a reg)
  then show ?thesis using assms(3,4) by (auto simp: Registry_remove_def AList.delete_eq)
next
  case (remove_fails i hid' e reg)
  then show ?thesis using assms(3,4) remove_fails_same by fastforce
next
  case (shuts i hid' a client reg)
  then show ?thesis using assms(3,4) by (auto simp: Entry_take_def)
next
  case (shut_fails i hid' a e reg)
  then show ?thesis using assms(3,4) by (auto simp: Entry_take_def)
qed (use assms(3,4) in auto)

lemma stale_steps:
  assumes "registry_step\<^sup>*\<^sup>* sy sy'" and "registry_inv sy" and "hid \<in> set (ry_issued sy)"
    and "hid \<notin> fst ` set (rg_entries (ry_registry sy))"
  shows "hid \<in> set (ry_issued sy') \<and> hid \<notin> fst ` set (rg_entries (ry_registry sy'))"
  using assms(1)
proof (induction rule: rtranclp_induct)
  case base
  then show ?case using assms(3,4) by simp
next
  case (step t u)
  then show ?case using stale_step handles.steps_inv [OF step(1) assms(2)] by blast
qed

lemma issued_distinct:
  assumes "registry_inv sy"
  shows "distinct (ry_issued sy)"
proof -
  obtain tag :: i64 where
    k: "\<forall>k<length (ry_issued sy). unat (HandleId_get (ry_issued sy ! k)) = unat tag * 2 ^ 32 + (k + 1)"
    using assms unfolding registry_inv_def ids_ok_def by blast
  show ?thesis
    unfolding distinct_conv_nth
  proof (intro allI impI)
    fix i j
    assume "i < length (ry_issued sy)" "j < length (ry_issued sy)" "i \<noteq> j"
    with k have "unat (HandleId_get (ry_issued sy ! i)) \<noteq> unat (HandleId_get (ry_issued sy ! j))"
      by simp
    then show "ry_issued sy ! i \<noteq> ry_issued sy ! j" by metis
  qed
qed

section \<open>Every call comes to an answer\<close>

fun call_left :: "call \<Rightarrow> nat" where
  "call_left (Answered r) = 0"
| "call_left Discarding = 1"
| "call_left (Running hid a) = 1"
| "call_left (Shutting hid a) = 1"
| "call_left (Entered hid a) = 2"
| "call_left (Removed hid a) = 2"
| "call_left (Commanding hid) = 3"
| "call_left (Asked_close hid) = 3"

lemma length_goes [simp]:
  "length (ry_calls (goes i c sy)) = length (ry_calls sy)"
  "length (ry_calls (arrives c sy)) = Suc (length (ry_calls sy))"
  by (simp_all add: goes_def arrives_def)

lemma left_goes:
  assumes "call_at i c sy" and "call_left d < call_left c"
  shows "among call_left (goes i d sy) < among call_left sy"
  using among_goes [OF assms(1), of call_left d] assms(2) by simp

lemma call_left_step:
  assumes "registry_step sy sy'"
  shows "length (ry_calls sy') = length (ry_calls sy) + 1 \<or>
    length (ry_calls sy') = length (ry_calls sy) \<and> among call_left sy' < among call_left sy"
  using assms
proof cases
  case (discards i closing)
  then show ?thesis using left_goes [of i Discarding sy] by simp
next
  case (looks_up i hid a)
  then show ?thesis using left_goes [of i "Commanding hid" sy] by simp
next
  case (lookup_fails i hid e)
  then show ?thesis using left_goes [of i "Commanding hid" sy] by simp
next
  case (runs i hid a client)
  then show ?thesis using left_goes [of i "Entered hid a" sy] by simp
next
  case (run_fails i hid a e)
  then show ?thesis using left_goes [of i "Entered hid a" sy] by simp
next
  case (returns i hid a reply)
  then show ?thesis using left_goes [of i "Running hid a" sy] by simp
next
  case (removes i hid a reg)
  then show ?thesis using left_goes [of i "Asked_close hid" "sy\<lparr>ry_registry := reg\<rparr>"] by simp
next
  case (remove_fails i hid e reg)
  then show ?thesis using left_goes [of i "Asked_close hid" "sy\<lparr>ry_registry := reg\<rparr>"] by simp
next
  case (shuts i hid a client reg)
  then show ?thesis using left_goes [of i "Removed hid a" "sy\<lparr>ry_registry := reg\<rparr>"] by simp
next
  case (shut_fails i hid a e reg)
  then show ?thesis using left_goes [of i "Removed hid a" "sy\<lparr>ry_registry := reg\<rparr>"] by simp
next
  case (closes i hid a result)
  then show ?thesis using left_goes [of i "Shutting hid a" sy] by simp
qed simp_all

text \<open>A call that waits for no lock can go on; when none such is left, the locks are free.\<close>

definition can_go_on :: "'c rsys \<Rightarrow> bool" where
  "can_go_on sy \<longleftrightarrow> (\<exists>sy'. registry_step sy sy' \<and> length (ry_calls sy') = length (ry_calls sy))"

lemma can_go_onI: "registry_step sy sy' \<Longrightarrow> length (ry_calls sy') = length (ry_calls sy) \<Longrightarrow> can_go_on sy"
  unfolding can_go_on_def by blast

lemma unlocked_call_steps:
  assumes at: "call_at i c sy" and "call_left c = 1 \<or> call_left c = 3"
  shows "can_go_on sy"
proof (cases c)
  case (Commanding hid)
  note at = at [unfolded Commanding]
  show ?thesis
  proof (cases "Registry_lookup hid (ry_registry sy)")
    case (Inl e)
    show ?thesis by (rule can_go_onI [OF registry_step.lookup_fails [OF at Inl]]) simp
  next
    case (Inr a)
    show ?thesis by (rule can_go_onI [OF registry_step.looks_up [OF at Inr]]) simp
  qed
next
  case (Asked_close hid)
  note at = at [unfolded Asked_close]
  obtain r reg where rem: "Registry_remove hid (ry_registry sy) = (r, reg)" by fastforce
  show ?thesis
  proof (cases r)
    case (Inl e)
    show ?thesis by (rule can_go_onI [OF registry_step.remove_fails [OF at rem [unfolded Inl]]]) simp
  next
    case (Inr a)
    show ?thesis by (rule can_go_onI [OF registry_step.removes [OF at rem [unfolded Inr]]]) simp
  qed
next
  case Discarding
  show ?thesis by (rule can_go_onI [OF registry_step.discards [OF at [unfolded Discarding]]]) simp
next
  case (Running hid a)
  show ?thesis by (rule can_go_onI [OF registry_step.returns [OF at [unfolded Running]]]) simp
next
  case (Shutting hid a)
  show ?thesis by (rule can_go_onI [OF registry_step.closes [OF at [unfolded Shutting]]]) simp
qed (use assms(2) in auto)

lemma waiting_call_steps:
  assumes inv: "registry_inv sy" and at: "call_at i c sy" and "call_left c = 2"
    and free: "\<And>a. among (shares a) sy = 0" "\<And>a. among (excludes a) sy = 0"
  shows "can_go_on sy"
proof (cases c)
  case (Entered hid a)
  note at = at [unfolded Entered]
  show ?thesis
  proof (cases "Entry_read hid a (ry_registry sy)")
    case (Inl e)
    show ?thesis by (rule can_go_onI [OF registry_step.run_fails [OF at free(2) Inl]]) simp
  next
    case (Inr client)
    show ?thesis by (rule can_go_onI [OF registry_step.runs [OF at free(2) Inr]]) simp
  qed
next
  case (Removed hid a)
  note at = at [unfolded Removed]
  from shut_never_fails [OF inv at] obtain client reg where
    take: "Entry_take hid a (ry_registry sy) = (Inr client, reg)" by blast
  show ?thesis by (rule can_go_onI [OF registry_step.shuts [OF at free(2,1) take]]) simp
qed (use assms(3) in auto)

lemma unanswered_goes_on:
  assumes inv: "registry_inv sy" and "0 < among call_left sy"
  shows "can_go_on sy"
proof (cases "\<exists>i c. call_at i c sy \<and> (call_left c = 1 \<or> call_left c = 3)")
  case True
  then show ?thesis using unlocked_call_steps by blast
next
  case False
  then have two: "call_left c = 0 \<or> call_left c = 2" if "c \<in> set (ry_calls sy)" for c
    using that by (cases c) (auto simp: call_at_def in_set_conv_nth)
  have "among (shares a) sy = 0" "among (excludes a) sy = 0" for a
  proof -
    have "shares a c = 0 \<and> excludes a c = 0" if "c \<in> set (ry_calls sy)" for c
      using two [OF that] by (cases c) auto
    then show "among (shares a) sy = 0" "among (excludes a) sy = 0" by (auto intro: sum_list_zero)
  qed
  moreover obtain i where i: "i < length (ry_calls sy)" "0 < call_left (ry_calls sy ! i)"
    using sum_list_pos_ex [OF assms(2)] by blast
  then have "call_left (ry_calls sy ! i) = 2" using two [OF nth_mem [OF i(1)]] by simp
  moreover have "call_at i (ry_calls sy ! i) sy" using i(1) by (simp add: call_at_def)
  ultimately show ?thesis using waiting_call_steps [OF inv] by blast
qed

section \<open>A run\<close>

text \<open>One client is opened; a command runs on it while a close waits; then the command returns and the
  close goes through.\<close>

definition demo_handle :: HandleId where "demo_handle = HandleId 21474836481"

definition demo_registry :: "bool \<Rightarrow> bool \<Rightarrow> call list \<Rightarrow> native_event list \<Rightarrow> string rsys" where
  "demo_registry is_open in_slot calls history =
     \<lparr>ry_registry = \<lparr>rg_counter = Next 5 2, rg_entries = (if is_open then [(demo_handle, 0)] else []),
        rg_heap = [if in_slot then Some ''client'' else None]\<rparr>,
      ry_calls = calls, ry_issued = [demo_handle], ry_native = history\<rparr>"

lemmas demo_step_defs = demo_registry_def goes_def arrives_def native_def call_at_def Registry_lookup_def
  Registry_remove_def Entry_read_def Entry_take_def

lemma demo_take_next: "take_next 5 Unstarted = (Some demo_handle, Next 5 2)"
  by code_simp

lemma demo_opened: "registry_reachable (demo_registry True True [Answered (Inr None)] [])"
proof -
  let ?s = "\<lparr>ry_registry = Registry_new, ry_calls = [], ry_issued = [], ry_native = []\<rparr> :: string rsys"
  have "registry_reachable ?s" by (rule reach_init) (simp add: registry_init_def)
  moreover have "Registry_insert 5 ''client'' (ry_registry ?s) =
      (Some demo_handle, \<lparr>rg_counter = Next 5 2, rg_entries = [(demo_handle, 0)], rg_heap = [Some ''client'']\<rparr>)"
    by (simp add: Registry_insert_def Registry_new_def demo_take_next)
  from registry_step.inserts [OF this] have "registry_step ?s (demo_registry True True [Answered (Inr None)] [])"
    by (simp add: demo_registry_def arrives_def)
  ultimately show ?thesis by (rule reach_step)
qed

lemma demo_call_running:
  "registry_reachable (demo_registry True True [Answered (Inr None), Running demo_handle 0]
     [Command_begins 0])"
proof -
  let ?a = "demo_registry True True [Answered (Inr None), Commanding demo_handle] []"
  let ?b = "demo_registry True True [Answered (Inr None), Entered demo_handle 0] []"
  have "registry_reachable ?a"
    using reach_step [OF demo_opened registry_step.commands [of _ demo_handle]] by (simp add: demo_step_defs)
  moreover have "registry_step ?a ?b"
    using registry_step.looks_up [of 1 demo_handle ?a 0] by (simp add: demo_step_defs)
  ultimately have "registry_reachable ?b" by (rule reach_step)
  moreover have "registry_step ?b (demo_registry True True [Answered (Inr None), Running demo_handle 0]
      [Command_begins 0])"
    using registry_step.runs [of 1 demo_handle 0 ?b "''client''"] by (simp add: demo_step_defs)
  ultimately show ?thesis by (rule reach_step)
qed

lemma demo_close_waits:
  "registry_reachable (demo_registry False True
     [Answered (Inr None), Running demo_handle 0, Removed demo_handle 0] [Command_begins 0])"
proof -
  let ?a = "demo_registry True True [Answered (Inr None), Running demo_handle 0, Asked_close demo_handle]
    [Command_begins 0]"
  have "registry_reachable ?a"
    using reach_step [OF demo_call_running registry_step.asks_close [of _ demo_handle]] by (simp add: demo_step_defs)
  moreover have "registry_step ?a (demo_registry False True
      [Answered (Inr None), Running demo_handle 0, Removed demo_handle 0] [Command_begins 0])"
    using registry_step.removes [of 2 demo_handle ?a 0] by (simp add: demo_step_defs)
  ultimately show ?thesis by (rule reach_step)
qed

lemma demo_close_runs:
  "registry_step\<^sup>*\<^sup>* (demo_registry False True
     [Answered (Inr None), Running demo_handle 0, Removed demo_handle 0] [Command_begins 0])
   (demo_registry False False [Answered (Inr None), Answered (Inr (Some [])), Shutting demo_handle 0]
     [Close_begins 0, Command_ends 0, Command_begins 0])"
proof -
  let ?a = "demo_registry False True
     [Answered (Inr None), Running demo_handle 0, Removed demo_handle 0] [Command_begins 0]"
  let ?b = "demo_registry False True
     [Answered (Inr None), Answered (Inr (Some [])), Removed demo_handle 0] [Command_ends 0, Command_begins 0]"
  have "registry_step ?a ?b"
    using registry_step.returns [of 1 demo_handle 0 ?a "Inr []"] by (simp add: demo_step_defs)
  moreover have "registry_step ?b (demo_registry False False
      [Answered (Inr None), Answered (Inr (Some [])), Shutting demo_handle 0]
      [Close_begins 0, Command_ends 0, Command_begins 0])"
    using registry_step.shuts [of 2 demo_handle 0 ?b "''client''"] by (simp add: demo_step_defs)
  ultimately show ?thesis by (meson converse_rtranclp_into_rtranclp rtranclp.rtrancl_refl)
qed

lemma reach_steps: "step\<^sup>*\<^sup>* s t \<Longrightarrow> reach init step s \<Longrightarrow> reach init step t"
  by (induction rule: rtranclp_induct) (auto intro: reach_step)

section \<open>Properties\<close>

text \<open>C7: The engine is shut down once and with nothing running on it. In the history of native calls of
  any run of the registry, whatever handles Java quotes and from however many threads: a client's
  close begins at most once; when it begins, every command that began on that client has ended; and
  no command begins on a client whose close has begun.\<close>

theorem engine_closed_once_and_idle:
  assumes "registry_reachable sy"
  shows "orderly (ry_native sy) \<and>
    (\<forall>a. count_list (ry_native sy) (Close_begins a) \<le> 1 \<and>
       (0 < among (excludes a) sy \<longrightarrow>
          count_list (ry_native sy) (Command_begins a) = count_list (ry_native sy) (Command_ends a)))"
proof -
  have inv: "registry_inv sy" by (rule handles.reach_inv [OF assms])
  then have ok: "client_ok a sy" for a by (simp add: registry_inv_def)
  have "count_list (ry_native sy) (Close_begins a) \<le> 1" for a
    using ok [of a] by (simp add: client_ok_def)
  moreover have "count_list (ry_native sy) (Command_begins a) = count_list (ry_native sy) (Command_ends a)"
    if "0 < among (excludes a) sy" for a
  proof -
    have "taken a (ry_registry sy)"
      using ok [of a] that by (cases "taken a (ry_registry sy)") (simp_all add: client_ok_def del: sum_list_eq_0_iff)
    then have "\<not> present a (ry_registry sy)" by (simp add: taken_def present_def)
    then have "among (shares a) sy = 0" using ok [of a] by (simp add: client_ok_def)
    then show ?thesis using ok [of a] by (simp add: client_ok_def)
  qed
  ultimately show ?thesis using inv by (simp add: registry_inv_def)
qed

theorem engine_closed_once_and_idle_witness:
  "orderly (ry_native (demo_registry False False
     [Answered (Inr None), Answered (Inr (Some [])), Shutting demo_handle 0]
     [Close_begins 0, Command_ends 0, Command_begins 0]))"
  using engine_closed_once_and_idle [OF reach_steps [OF demo_close_runs demo_close_waits]] by simp

text \<open>C27: A handle names one client, for as long as it resolves and never again after. The handles
  issued are distinct; a handle that resolves was issued; two handles never resolve to the same
  client; and a handle that was issued and no longer resolves is refused with the closed-handle code
  by every later call, whatever is opened and closed in between.\<close>

theorem stale_handles_stay_stale:
  assumes "registry_reachable sy" and "registry_step\<^sup>*\<^sup>* sy sy'"
    and "hid \<in> set (ry_issued sy)" and "Registry_lookup hid (ry_registry sy) = Inl e"
  shows "Registry_lookup hid (ry_registry sy') = Inl (closed_error hid) \<and>
    fst (Registry_remove hid (ry_registry sy')) = Inl (closed_error hid) \<and>
    as_java (be_code (closed_error hid)) = - 1 \<and>
    distinct (ry_issued sy') \<and>
    (\<forall>h a. Registry_lookup h (ry_registry sy') = Inr a \<longrightarrow> h \<in> set (ry_issued sy') \<and>
       (\<forall>h'. Registry_lookup h' (ry_registry sy') = Inr a \<longrightarrow> h = h'))"
proof -
  have inv: "registry_inv sy" by (rule handles.reach_inv [OF assms(1)])
  have inv': "registry_inv sy'" by (rule handles.steps_inv [OF assms(2) inv])
  have "hid \<notin> fst ` set (rg_entries (ry_registry sy'))"
    using stale_steps [OF assms(2) inv assms(3)] assms(4) by (simp add: lookup_Inl)
  then have stale: "Registry_lookup hid (ry_registry sy') = Inl (closed_error hid)"
    by (simp add: lookup_Inl)
  moreover from stale have "fst (Registry_remove hid (ry_registry sy')) = Inl (closed_error hid)"
    by (simp add: Registry_lookup_def Registry_remove_def)
  moreover have "h \<in> set (ry_issued sy')" if "Registry_lookup h (ry_registry sy') = Inr a" for h a
  proof -
    have "h \<in> fst ` set (rg_entries (ry_registry sy'))"
      using that lookup_Inl [of h "ry_registry sy'" "closed_error h"] by auto
    with inv' show ?thesis by (auto simp: registry_inv_def ids_ok_def)
  qed
  ultimately show ?thesis
    using issued_distinct [OF inv'] lookup_injective [OF inv']
    by (auto simp: closed_error_def closed_handle_def BridgeError_new_def)
qed

theorem stale_handles_stay_stale_witness:
  "Registry_lookup demo_handle (ry_registry (demo_registry False False
     [Answered (Inr None), Answered (Inr (Some [])), Shutting demo_handle 0]
     [Close_begins 0, Command_ends 0, Command_begins 0])) = Inl (closed_error demo_handle)"
  using stale_handles_stay_stale [OF demo_close_waits demo_close_runs, of demo_handle]
  by (simp add: demo_registry_def Registry_lookup_def)

text \<open>C26: No call waits forever. In any reachable state with an unanswered call, some call already
  under way can take a step, so the locks cannot deadlock; and every step either is a new call from
  Java or brings the calls under way strictly nearer their answers.\<close>

theorem every_call_is_answered:
  assumes "registry_reachable sy"
  shows "(0 < among call_left sy \<longrightarrow>
      (\<exists>sy'. registry_step sy sy' \<and> length (ry_calls sy') = length (ry_calls sy))) \<and>
    (\<forall>sy'. registry_step sy sy' \<longrightarrow>
      length (ry_calls sy') = length (ry_calls sy) + 1 \<or>
      length (ry_calls sy') = length (ry_calls sy) \<and> among call_left sy' < among call_left sy)"
  using unanswered_goes_on [OF handles.reach_inv [OF assms]] call_left_step
  unfolding can_go_on_def by blast

theorem every_call_is_answered_witness:
  "\<exists>sy'. registry_step (demo_registry False True
     [Answered (Inr None), Running demo_handle 0, Removed demo_handle 0] [Command_begins 0]) sy' \<and>
     length (ry_calls sy') = 3"
  using every_call_is_answered [OF demo_close_waits] by (simp add: demo_registry_def eval_nat_numeral)

end
