(* ===== verification/Android_Bridge.thy ===== *)
theory Android_Bridge
  imports Android_Registry
begin

text \<open>
  The four native methods of \<open>NativeBridge\<close>: \<open>embedded-mongodb-android/src/bridge.rs\<close> (reading the
  arguments, the calls into the registry) and \<open>embedded-mongodb-android/src/jvm.rs\<close> (every error
  and every caught panic becomes a Java exception).

  The \<open>jni\<close> crate is an argument: what it answers for a Java string, an array or a new array. A
  Java reference is an option, \<open>None\<close> for \<open>null\<close>. Opening, running and closing a client of the safe
  crate are arguments too. The registry's interleavings are the subject of \<open>Android_Registry\<close>; here
  one call runs by itself, composed of the same sections. The lemmas show that no failure is
  silent and no bad argument reaches the engine.
\<close>

section \<open>What Java hands over\<close>

record ('s, 'a, 'b) jni_env =
  jni_string :: "'s \<Rightarrow> string + string"
  jni_len :: "'a \<Rightarrow> string + nat"
  jni_region :: "'a \<Rightarrow> nat \<Rightarrow> string + i64 list"
  jni_bytes :: "'b \<Rightarrow> string + bytes"
  jni_new_bytes :: "bytes \<Rightarrow> string + 'b"

definition from_jni :: "string + 'r \<Rightarrow> BridgeError + 'r" where
  "from_jni r = map_err BridgeError_of_jni r"

definition handle_id :: "i64 \<Rightarrow> BridgeError + HandleId" where
  "handle_id handle =
     ok_or (closed_handle (''embedded MongoDB handle '' @ show_int (sint handle) @
       '' is not a handle this process issued'')) (HandleId_new handle)"

definition read_string :: "('s, 'a, 'b) jni_env \<Rightarrow> 's option \<Rightarrow> string \<Rightarrow> BridgeError + string" where
  "read_string J v name =
     (case v of
        None \<Rightarrow> Inl (invalid_argument (name @ '' must not be null''))
      | Some s \<Rightarrow> from_jni (jni_string J s))"

definition read_slots :: "('s, 'a, 'b) jni_env \<Rightarrow> 'a option \<Rightarrow> BridgeError + i64 \<times> i64 \<times> i64" where
  "read_slots J options =
     (case options of
        None \<Rightarrow> Inl (invalid_argument
          ''options must not be null; an empty array asks for the engine's defaults'')
      | Some array \<Rightarrow>
          and_then (from_jni (jni_len J array)) (\<lambda>n.
            let read = min n SLOTS in
            if SLOTS < read
            then Inl (invalid_argument (show_nat read @ '' option slots cannot be read into '' @
              show_nat SLOTS))
            else
              and_then (from_jni (jni_region J array read)) (\<lambda>destination.
                let slots = destination @ replicate (SLOTS - read) 0
                in Inr (slots ! 0, slots ! 1, slots ! 2))))"

section \<open>The registry, one call at a time\<close>

definition Registry_run_command ::
  "('c \<Rightarrow> string \<Rightarrow> bytes \<Rightarrow> BridgeError + bytes) \<Rightarrow> HandleId \<Rightarrow> string \<Rightarrow> bytes \<Rightarrow> 'c registry
     \<Rightarrow> BridgeError + bytes" where
  "Registry_run_command run hid db command self =
     and_then (Registry_lookup hid self) (\<lambda>a.
       and_then (Entry_read hid a self) (\<lambda>client. run client db command))"

definition Registry_close ::
  "('c \<Rightarrow> BridgeError + unit) \<Rightarrow> HandleId \<Rightarrow> 'c registry \<Rightarrow> (BridgeError + unit) \<times> 'c registry" where
  "Registry_close close hid self =
     (case Registry_remove hid self of
        (Inl e, self1) \<Rightarrow> (Inl e, self1)
      | (Inr a, self1) \<Rightarrow>
          (case Entry_take hid a self1 of
             (Inl e, self2) \<Rightarrow> (Inl e, self2)
           | (Inr client, self2) \<Rightarrow> (close client, self2)))"

definition Registry_issue ::
  "('c \<Rightarrow> BridgeError + unit) \<Rightarrow> i64 \<Rightarrow> 'c \<Rightarrow> 'c registry \<Rightarrow> (BridgeError + i64) \<times> 'c registry" where
  "Registry_issue close hash client self =
     (case Registry_insert hash client self of
        (None, self1) \<Rightarrow> (Inl (spent_error (close client)), self1)
      | (Some hid, self1) \<Rightarrow> (Inr (HandleId_get hid), self1))"

section \<open>The native methods\<close>

text \<open>The safe crate as the bridge calls it. \<open>EmbeddedClient for Client\<close> runs the byte route, so a
  reply with \<open>ok: 0\<close> is a reply, and maps every error to its bridge error.\<close>

record ('c, 'd) safe_client =
  client_open :: "string \<Rightarrow> OpenOptions option \<Rightarrow> 'd error + 'c"
  client_run_bytes :: "'c \<Rightarrow> string \<Rightarrow> bytes \<Rightarrow> 'd error + bytes"
  client_close :: "'c \<Rightarrow> 'd error + unit"

definition EmbeddedClient_run_command ::
  "('c, 'd) safe_client \<Rightarrow> 'c \<Rightarrow> string \<Rightarrow> bytes \<Rightarrow> BridgeError + bytes" where
  "EmbeddedClient_run_command S client db command =
     map_err BridgeError_of_error (client_run_bytes S client db command)"

definition EmbeddedClient_close :: "('c, 'd) safe_client \<Rightarrow> 'c \<Rightarrow> BridgeError + unit" where
  "EmbeddedClient_close S client = map_err BridgeError_of_error (client_close S client)"

definition bridge_issue ::
  "('c, 'd) safe_client \<Rightarrow> i64 \<Rightarrow> string \<Rightarrow> OpenOptions option \<Rightarrow> 'c registry
     \<Rightarrow> (BridgeError + i64) \<times> 'c registry" where
  "bridge_issue S hash path options reg =
     (case map_err BridgeError_of_error (client_open S path options) of
        Inl e \<Rightarrow> (Inl e, reg)
      | Inr client \<Rightarrow> Registry_issue (EmbeddedClient_close S) hash client reg)"

definition bridge_open ::
  "('s, 'a, 'b) jni_env \<Rightarrow> ('c, 'd) safe_client \<Rightarrow> i64 \<Rightarrow> 's option \<Rightarrow> 'c registry
     \<Rightarrow> (BridgeError + i64) \<times> 'c registry" where
  "bridge_open J S hash path reg =
     (case read_string J path ''path'' of
        Inl e \<Rightarrow> (Inl e, reg)
      | Inr p \<Rightarrow> bridge_issue S hash p None reg)"

definition bridge_open_with_options ::
  "('s, 'a, 'b) jni_env \<Rightarrow> ('c, 'd) safe_client \<Rightarrow> i64 \<Rightarrow> 's option \<Rightarrow> 'a option \<Rightarrow> 'c registry
     \<Rightarrow> (BridgeError + i64) \<times> 'c registry" where
  "bridge_open_with_options J S hash path options reg =
     (case and_then (read_string J path ''path'') (\<lambda>p.
             and_then (read_slots J options) (\<lambda>slots.
               and_then (open_options slots) (\<lambda>opts. Inr (p, opts)))) of
        Inl e \<Rightarrow> (Inl e, reg)
      | Inr (p, opts) \<Rightarrow> bridge_issue S hash p (Some opts) reg)"

definition bridge_run_command ::
  "('s, 'a, 'b) jni_env \<Rightarrow> ('c, 'd) safe_client \<Rightarrow> i64 \<Rightarrow> 's option \<Rightarrow> 'b option \<Rightarrow> 'c registry
     \<Rightarrow> BridgeError + 'b" where
  "bridge_run_command J S handle db command reg =
     and_then (handle_id handle) (\<lambda>hid.
     and_then (read_string J db ''database'') (\<lambda>database.
     and_then (ok_or (invalid_argument ''command must not be null'') command) (\<lambda>array.
     and_then (from_jni (jni_bytes J array)) (\<lambda>request.
     and_then (Registry_run_command (EmbeddedClient_run_command S) hid database request reg)
       (\<lambda>response. from_jni (jni_new_bytes J response))))))"

definition bridge_close ::
  "('c, 'd) safe_client \<Rightarrow> i64 \<Rightarrow> 'c registry \<Rightarrow> (BridgeError + unit) \<times> 'c registry" where
  "bridge_close S handle reg =
     (case handle_id handle of
        Inl e \<Rightarrow> (Inl e, reg)
      | Inr hid \<Rightarrow> Registry_close (EmbeddedClient_close S) hid reg)"

section \<open>The boundary\<close>

text \<open>
  What a native method's body comes to: an answer, an error, or a panic \<open>with_env\<close> caught. The
  policy answers the Java default and leaves an exception pending; \<open>pending\<close> is one that already
  is, and \<open>raised\<close> is how raising ours went.
\<close>

datatype 'r body = Answers "BridgeError + 'r" | Panics panic_payload

datatype exception =
    Already_pending
  | EmbeddedMongoException string i32
  | RuntimeException string

definition throw :: "bool \<Rightarrow> string + unit \<Rightarrow> BridgeError \<Rightarrow> exception" where
  "throw pending raised err =
     (if pending then Already_pending
      else case raised of
        Inr _ \<Rightarrow> EmbeddedMongoException (be_message err) (as_java (be_code err))
      | Inl failure \<Rightarrow> RuntimeException (BridgeError_display err @ ''; and then '' @ failure @
          '' while reporting it''))"

definition resolve :: "'r \<Rightarrow> bool \<Rightarrow> string + unit \<Rightarrow> 'r body \<Rightarrow> 'r \<times> exception option" where
  "resolve unset pending raised body =
     (case body of
        Answers (Inr r) \<Rightarrow> (r, None)
      | Answers (Inl e) \<Rightarrow> (unset, Some (throw pending raised e))
      | Panics payload \<Rightarrow> (unset, Some (throw pending raised (from_panic payload))))"

section \<open>Lemmas\<close>

lemma from_jni_simps [simp]:
  "from_jni (Inr r) = Inr r" "from_jni (Inl e) = Inl (BridgeError_of_jni e)"
  by (simp_all add: from_jni_def)

lemma read_string_simps [simp]:
  "read_string J (Some v) name = from_jni (jni_string J v)"
  "read_string J None name = Inl (invalid_argument (name @ '' must not be null''))"
  by (simp_all add: read_string_def)

lemma handle_id_bad: "sint handle \<le> 0 \<Longrightarrow> \<exists>e. handle_id handle = Inl e \<and> as_java (be_code e) = - 1"
  by (simp add: handle_id_def HandleId_new_def closed_handle_def BridgeError_new_def)

lemma closed_error_java: "as_java (be_code (closed_error hid)) = - 1"
  by (simp add: closed_error_def closed_handle_def BridgeError_new_def)

lemma insert_resolves:
  assumes "Registry_insert hash client reg = (Some hid, reg')"
  shows "map_of (rg_entries reg') hid = Some (length (rg_heap reg))"
    and "rg_heap reg' = rg_heap reg @ [Some client]"
  using assms
  by (auto simp: Registry_insert_def AList.update_conv' split: prod.splits option.splits)

lemma close_forgets:
  assumes "Registry_close close hid reg = (r, reg')"
  shows "map_of (rg_entries reg') hid = None"
  using assms
  by (auto simp: Registry_close_def Registry_remove_def Entry_take_def AList.delete_conv'
      split: sum.splits)

lemma forgotten_refused:
  assumes "map_of (rg_entries reg) hid = None"
  shows "Registry_close close hid reg = (Inl (closed_error hid), reg)"
    and "Registry_run_command run hid db command reg = Inl (closed_error hid)"
proof -
  have "AList.delete hid (rg_entries reg) = rg_entries reg"
    using assms by (simp add: AList.delete_idem map_of_eq_None_iff)
  then show "Registry_close close hid reg = (Inl (closed_error hid), reg)"
    using assms by (simp add: Registry_close_def Registry_remove_def)
  show "Registry_run_command run hid db command reg = Inl (closed_error hid)"
    using assms by (simp add: Registry_run_command_def Registry_lookup_def)
qed

lemma inserted_positive:
  assumes "registry_reachable sy" and "Registry_insert hash client (ry_registry sy) = (Some hid, reg)"
  shows "HandleId_new (HandleId_get hid) = Some hid"
proof -
  have "ids_ok sy" using handles.reach_inv [OF assms(1)] by (simp add: registry_inv_def)
  moreover obtain counter where "take_next hash (rg_counter (ry_registry sy)) = (Some hid, counter)"
    using assms(2) by (auto simp: Registry_insert_def split: prod.splits option.splits)
  ultimately show ?thesis using fresh_handle [of sy hash "Some hid" counter] by auto
qed

section \<open>Properties\<close>

text \<open>A handle works from the open that issued it to the close that retires it. On a registry in
  any state it can reach, an open that succeeds opened exactly one client and answers a positive
  handle; a command on that handle is run on that client with the database and bytes Java passed and
  answers the engine's bytes; closing it closes that client and reports what the close said; and
  afterwards a command and a second close are both refused with the closed-handle code and change
  nothing.\<close>

theorem handle_lifetime:
  assumes reach: "registry_reachable sy"
    and "bridge_open J S hash path (ry_registry sy) = (Inr handle, reg)"
    and closes: "bridge_close S handle reg = (closed, reg')"
  shows "\<exists>p client. read_string J path ''path'' = Inr p \<and> client_open S p None = Inr client \<and>
    0 < sint handle \<and>
    (\<forall>db command d request. jni_string J db = Inr d \<and> jni_bytes J command = Inr request \<longrightarrow>
       bridge_run_command J S handle (Some db) (Some command) reg =
         and_then (EmbeddedClient_run_command S client d request)
           (\<lambda>response. from_jni (jni_new_bytes J response)) \<and>
       (\<exists>e. bridge_run_command J S handle (Some db) (Some command) reg' = Inl e \<and>
          as_java (be_code e) = - 1)) \<and>
    closed = EmbeddedClient_close S client \<and>
    (\<exists>e. bridge_close S handle reg' = (Inl e, reg') \<and> as_java (be_code e) = - 1)"
proof -
  from assms(2) obtain p client hid where opened:
      "read_string J path ''path'' = Inr p" "client_open S p None = Inr client"
      "Registry_insert hash client (ry_registry sy) = (Some hid, reg)" "handle = HandleId_get hid"
    by (auto simp: bridge_open_def bridge_issue_def Registry_issue_def map_err_def
        split: sum.splits prod.splits option.splits)
  have "HandleId_new handle = Some hid"
    using inserted_positive [OF reach opened(3)] opened(4) by simp
  then have hid: "handle_id handle = Inr hid" and pos: "0 < sint handle"
    by (auto simp: handle_id_def HandleId_new_def split: if_splits)
  note ins = insert_resolves [OF opened(3)]
  have lookup: "Registry_lookup hid reg = Inr (length (rg_heap (ry_registry sy)))"
    "Entry_read hid (length (rg_heap (ry_registry sy))) reg = Inr client"
    using ins by (simp_all add: Registry_lookup_def Entry_read_def)
  from closes hid have close: "Registry_close (EmbeddedClient_close S) hid reg = (closed, reg')"
    by (simp add: bridge_close_def)
  have "closed = EmbeddedClient_close S client"
    using close ins by (auto simp: Registry_close_def Registry_remove_def Entry_take_def)
  moreover note gone = forgotten_refused [OF close_forgets [OF close]]
  ultimately show ?thesis
    using opened(1,2) pos hid lookup closed_error_java [of hid]
    by (auto simp: bridge_run_command_def bridge_close_def Registry_run_command_def [of _ _ _ _ reg] gone)
qed

text \<open>A JVM that answers: Java values are the values they carry.\<close>

definition plain_jni :: "(string, i64 list, bytes) jni_env" where
  "plain_jni = \<lparr>jni_string = Inr, jni_len = (\<lambda>xs. Inr (length xs)),
     jni_region = (\<lambda>xs n. Inr (take n xs)), jni_bytes = Inr, jni_new_bytes = Inr\<rparr>"

text \<open>An engine that answers every command with the bytes it was sent.\<close>

definition echo_client :: "(string, adoc) safe_client" where
  "echo_client = \<lparr>client_open = (\<lambda>path options. Inr path), client_run_bytes = (\<lambda>c db command. Inr command),
     client_close = (\<lambda>c. Inr ())\<rparr>"

lemma empty_registry_reachable:
  "registry_reachable (\<lparr>ry_registry = Registry_new, ry_calls = [], ry_issued = [], ry_native = []\<rparr> :: string rsys)"
  by (rule reach_init) (simp add: registry_init_def)

theorem handle_lifetime_witness:
  "\<exists>reg reg'. bridge_open plain_jni echo_client 5 (Some ''data'') Registry_new = (Inr 21474836481, reg) \<and>
     bridge_close echo_client 21474836481 reg = (Inr (), reg') \<and>
     bridge_run_command plain_jni echo_client 21474836481 (Some ''admin'') (Some [1, 2]) reg = Inr [1, 2]"
proof -
  obtain reg where opens: "bridge_open plain_jni echo_client 5 (Some ''data'') Registry_new =
      (Inr 21474836481, reg)"
    by (simp add: bridge_open_def bridge_issue_def Registry_issue_def Registry_insert_def Registry_new_def
        demo_take_next demo_handle_def plain_jni_def echo_client_def)
  obtain closed reg' where closes: "bridge_close echo_client 21474836481 reg = (closed, reg')"
    by (cases "bridge_close echo_client 21474836481 reg")
  from handle_lifetime [OF empty_registry_reachable, of plain_jni echo_client 5 "Some ''data''"
      21474836481 reg closed reg'] opens closes
  show ?thesis
    by (auto simp: plain_jni_def echo_client_def EmbeddedClient_run_command_def EmbeddedClient_close_def)
qed

text \<open>A bad argument is refused before anything reaches the engine. Zero and every negative handle
  get the closed-handle code from a command and from a close; a null path, database, command or
  option array gets the invalid-argument code; and none of these changes the registry.\<close>

theorem bad_arguments_reach_nothing:
  assumes "sint bad \<le> 0"
  shows "(\<exists>e. bridge_run_command J S bad db command reg = Inl e \<and> as_java (be_code e) = - 1) \<and>
    (\<exists>e. bridge_close S bad reg = (Inl e, reg) \<and> as_java (be_code e) = - 1) \<and>
    (\<exists>e. bridge_open J S hash None reg = (Inl e, reg) \<and> as_java (be_code e) = - 2) \<and>
    (\<exists>e. bridge_open_with_options J S hash None options reg = (Inl e, reg) \<and> as_java (be_code e) = - 2) \<and>
    (0 < sint good \<longrightarrow>
       (\<exists>e. bridge_run_command J S good None command reg = Inl e \<and> as_java (be_code e) = - 2)) \<and>
    (0 < sint good \<and> jni_string J path = Inr p \<longrightarrow>
       (\<exists>e. bridge_run_command J S good (Some path) None reg = Inl e \<and> as_java (be_code e) = - 2) \<and>
       (\<exists>e. bridge_open_with_options J S hash (Some path) None reg = (Inl e, reg) \<and>
          as_java (be_code e) = - 2))"
proof -
  obtain e where e: "handle_id bad = Inl e" "as_java (be_code e) = - 1"
    using handle_id_bad [OF assms] by blast
  have good: "handle_id good = Inr (HandleId good)" if "0 < sint good"
    using that by (auto simp: handle_id_def HandleId_new_def)
  show ?thesis
    using e good
    by (auto simp: bridge_run_command_def bridge_close_def bridge_open_def bridge_open_with_options_def
        read_slots_def invalid_argument_def BridgeError_new_def)
qed

theorem bad_arguments_reach_nothing_witness:
  "(\<exists>e. bridge_close echo_client 0 Registry_new = (Inl e, Registry_new) \<and> as_java (be_code e) = - 1) \<and>
   (\<exists>e. bridge_run_command plain_jni echo_client 7 (Some ''admin'') None Registry_new = Inl e \<and>
      as_java (be_code e) = - 2)"
  using bad_arguments_reach_nothing [of 0 plain_jni echo_client None None Registry_new 0 None 7 "''admin''"]
  by (simp add: plain_jni_def)

text \<open>The option array means the same whatever its length. Where the JVM answers the array's length
  and its entries, missing slots are zero and further ones are ignored; so an open with options is
  refused as an invalid argument, with nothing opened and the registry as it was, unless the first
  three entries are each zero or in the range of their limit, and otherwise it opens with options
  that cross the native boundary as exactly those entries.\<close>

theorem option_array_any_length:
  assumes "jni_len J array = Inr (length xs)"
    and "\<And>n. n \<le> length xs \<Longrightarrow> jni_region J array n = Inr (take n xs)"
    and "jni_string J path = Inr p"
    and "ys = take 3 (xs @ [0, 0, 0])"
  shows "if slot_in 1 10000000 (ys ! 0) \<and> slot_in 100 2097152 (ys ! 1) \<and> ys ! 2 \<in> {0, 1, 2}
    then \<exists>opts. bridge_open_with_options J S hash (Some path) (Some array) reg =
        bridge_issue S hash p (Some opts) reg \<and>
      EngineOptions_to_ffi (oo_engine opts) = \<lparr>cache_size_mb = ucast (ys ! 0),
        journal_file_max_kb = ucast (ys ! 1), journal_prealloc = ucast (ys ! 2)\<rparr>
    else \<exists>e. bridge_open_with_options J S hash (Some path) (Some array) reg = (Inl e, reg) \<and>
      as_java (be_code e) = - 2"
proof -
  have "take (min (length xs) 3) xs @ replicate (3 - min (length xs) 3) 0 = ys"
    by (cases xs; cases "tl xs"; cases "tl (tl xs)") (auto simp: assms(4) eval_nat_numeral)
  then have slots: "read_slots J (Some array) = Inr (ys ! 0, ys ! 1, ys ! 2)"
    using assms(1) assms(2) [of "min (length xs) 3"] by (simp add: read_slots_def SLOTS_def Let_def)
  show ?thesis
    using open_options_decides [of "ys ! 0" "ys ! 1" "ys ! 2"] assms(3) slots
    by (auto simp: bridge_open_with_options_def decides_def split: sum.splits)
qed

theorem option_array_any_length_witness:
  "\<exists>opts. bridge_open_with_options plain_jni echo_client 5 (Some ''data'') (Some [64, 512]) Registry_new =
      bridge_issue echo_client 5 ''data'' (Some opts) Registry_new \<and>
    EngineOptions_to_ffi (oo_engine opts) =
      \<lparr>cache_size_mb = 64, journal_file_max_kb = 512, journal_prealloc = 0\<rparr>"
  using option_array_any_length [of plain_jni "[64, 512]" "[64, 512]" "''data''" "''data''" "[64, 512, 0]"
      echo_client 5 Registry_new]
  by (simp add: plain_jni_def slot_in_def)

end
