(* ===== verification/Sys_Client.thy ===== *)
theory Sys_Client
  imports Errors
begin

text \<open>
  \<open>embedded-mongodb-sys/src/client.rs\<close>: the handle on the native engine, the sessions opened on
  it and the killers taken from them. The three share ownership: a client and every session hold
  the runtime's \<open>Arc\<close>, a session and its killers hold the session's. The operations are modelled on
  the two reference counts, as the code's clones and drops move them; the native calls behind them
  (\<open>ffi::bridge\<close>) answer what an argument says.

  The step relation lets any holder clone, drop or use what it holds, in any order. Its invariant
  equates the counts with the holders, from which it follows that the engine is closed exactly once,
  after the last holder is gone, and never under a session.
\<close>

section \<open>The handles\<close>

text \<open>
  \<open>so_inner\<close> is the count of the session's own \<open>Arc\<close>; \<open>so_held\<close> and \<open>so_killers\<close> say who holds
  it: the session itself and a number of killers.
\<close>

record session_arc =
  so_inner :: nat
  so_held :: bool
  so_killers :: nat

record engine_arcs =
  ea_runtime :: nat
  ea_client :: bool
  ea_sessions :: "session_arc list"
  ea_closes :: nat

text \<open>The native pointer is null where the engine could not be opened.\<close>

definition Client_from_inner :: "bool \<Rightarrow> sys_error + engine_arcs" where
  "Client_from_inner is_null =
     (if is_null then Inl Sys_Closed
      else Inr \<lparr>ea_runtime = 1, ea_client = True, ea_sessions = [], ea_closes = 0\<rparr>)"

definition native_open :: "string + bool \<Rightarrow> sys_error + engine_arcs" where
  "native_open opened = and_then (map_err Sys_Native opened) Client_from_inner"

text \<open>Dropping the last reference to the runtime runs the native destructor, which closes.\<close>

definition drop_runtime :: "engine_arcs \<Rightarrow> engine_arcs" where
  "drop_runtime w =
     (let n = ea_runtime w - 1
      in w\<lparr>ea_runtime := n, ea_closes := (if n = 0 then ea_closes w + 1 else ea_closes w)\<rparr>)"

text \<open>Dropping the last reference to a session drops its reference to the runtime.\<close>

definition drop_inner :: "nat \<Rightarrow> session_arc \<Rightarrow> engine_arcs \<Rightarrow> engine_arcs" where
  "drop_inner i so w =
     (let n = so_inner so - 1; w' = w\<lparr>ea_sessions := (ea_sessions w)[i := so\<lparr>so_inner := n\<rparr>]\<rparr>
      in if n = 0 then drop_runtime w' else w')"

definition open_session :: "string + bool \<Rightarrow> engine_arcs \<Rightarrow> (sys_error + nat) \<times> engine_arcs" where
  "open_session opened w =
     (case opened of
        Inl err \<Rightarrow> (Inl (Sys_Native err), w)
      | Inr is_null \<Rightarrow>
          if is_null then (Inl Sys_Closed, w)
          else (Inr (length (ea_sessions w)),
                w\<lparr>ea_runtime := ea_runtime w + 1,
                  ea_sessions := ea_sessions w @ [\<lparr>so_inner = 1, so_held = True, so_killers = 0\<rparr>]\<rparr>))"

definition killer :: "nat \<Rightarrow> engine_arcs \<Rightarrow> engine_arcs" where
  "killer i w =
     (let so = ea_sessions w ! i
      in w\<lparr>ea_sessions := (ea_sessions w)[i := so\<lparr>so_inner := so_inner so + 1,
             so_killers := so_killers so + 1\<rparr>]\<rparr>)"

definition Session_drop :: "nat \<Rightarrow> engine_arcs \<Rightarrow> engine_arcs" where
  "Session_drop i w = drop_inner i ((ea_sessions w ! i)\<lparr>so_held := False\<rparr>) w"

definition Killer_drop :: "nat \<Rightarrow> engine_arcs \<Rightarrow> engine_arcs" where
  "Killer_drop i w =
     (let so = ea_sessions w ! i in drop_inner i (so\<lparr>so_killers := so_killers so - 1\<rparr>) w)"

definition Client_drop :: "engine_arcs \<Rightarrow> engine_arcs" where
  "Client_drop w = drop_runtime (w\<lparr>ea_client := False\<rparr>)"

text \<open>
  \<open>close\<close>: the sole owner closes and reports; otherwise the last reference will. \<open>try_unwrap\<close> and the drop of what it
  hands back are one step here; a \<open>try_unwrap\<close> that fails changes nothing, so what others do before the drop
  is a run in which the client is dropped rather than closed.
\<close>

definition Client_close ::
  "string + unit \<Rightarrow> engine_arcs \<Rightarrow> (sys_error + unit) \<times> engine_arcs" where
  "Client_close closed w =
     (if ea_runtime w = 1
      then (map_err Sys_Native closed,
            w\<lparr>ea_client := False, ea_runtime := 0, ea_closes := ea_closes w + 1\<rparr>)
      else (Inr (), Client_drop w))"

section \<open>Any order of clones, drops and uses\<close>

inductive arc_step :: "engine_arcs \<Rightarrow> engine_arcs \<Rightarrow> bool" where
  opens: "ea_client w \<Longrightarrow> open_session opened w = (r, w') \<Longrightarrow> arc_step w w'"
| takes_killer: "i < length (ea_sessions w) \<Longrightarrow> so_held (ea_sessions w ! i) \<Longrightarrow> arc_step w (killer i w)"
| clones_killer: "i < length (ea_sessions w) \<Longrightarrow> 0 < so_killers (ea_sessions w ! i) \<Longrightarrow>
    arc_step w (killer i w)"
| drops_session: "i < length (ea_sessions w) \<Longrightarrow> so_held (ea_sessions w ! i) \<Longrightarrow>
    arc_step w (Session_drop i w)"
| drops_killer: "i < length (ea_sessions w) \<Longrightarrow> 0 < so_killers (ea_sessions w ! i) \<Longrightarrow>
    arc_step w (Killer_drop i w)"
| drops_client: "ea_client w \<Longrightarrow> arc_step w (Client_drop w)"
| closes_client: "ea_client w \<Longrightarrow> Client_close closed w = (r, w') \<Longrightarrow> arc_step w w'"

definition arc_init :: "engine_arcs \<Rightarrow> bool" where
  "arc_init w \<longleftrightarrow> (\<exists>opened. native_open opened = Inr w)"

section \<open>The counts are the holders\<close>

definition session_counted :: "session_arc \<Rightarrow> bool" where
  "session_counted so \<longleftrightarrow> so_inner so = of_bool (so_held so) + so_killers so"

abbreviation live :: "session_arc \<Rightarrow> nat" where
  "live so \<equiv> of_bool (so_inner so \<noteq> 0)"

definition arcs_counted :: "engine_arcs \<Rightarrow> bool" where
  "arcs_counted w \<longleftrightarrow>
     list_all session_counted (ea_sessions w) \<and>
     ea_runtime w = of_bool (ea_client w) + (\<Sum>so\<leftarrow>ea_sessions w. live so) \<and>
     ea_closes w = of_bool (ea_runtime w = 0)"

lemma arcs_counted_init: "arc_init w \<Longrightarrow> arcs_counted w"
  by (auto simp: arc_init_def native_open_def Client_from_inner_def arcs_counted_def result_iffs
      split: if_splits)

lemma drop_runtime_counted:
  assumes "0 < ea_runtime w" and "list_all session_counted (ea_sessions w)"
    and "ea_runtime w = Suc (of_bool (ea_client w) + (\<Sum>so\<leftarrow>ea_sessions w. live so))"
    and "ea_closes w = 0"
  shows "arcs_counted (drop_runtime w)"
  using assms by (simp add: arcs_counted_def drop_runtime_def Let_def)

lemma live_le_sum:
  assumes "i < length xs" shows "live (xs ! i) \<le> (\<Sum>so\<leftarrow>xs. live so)"
  using assms by (intro member_le_sum_list) auto

lemma replaced_counted:
  assumes "arcs_counted w" and "i < length (ea_sessions w)" and "session_counted so"
    and "live so = live (ea_sessions w ! i)"
  shows "arcs_counted (w\<lparr>ea_sessions := (ea_sessions w)[i := so]\<rparr>)"
proof -
  have "(\<Sum>so\<leftarrow>(ea_sessions w)[i := so]. live so) = (\<Sum>so\<leftarrow>ea_sessions w. live so)"
    using sum_list_replace [OF assms(2), of live so] assms(4) by simp
  moreover have "list_all session_counted ((ea_sessions w)[i := so])"
    using assms(1,3) by (auto simp: arcs_counted_def list_all_iff dest!: set_update_subset_insert [THEN subsetD])
  ultimately show ?thesis using assms(1) by (simp add: arcs_counted_def)
qed

lemma drop_inner_counted:
  assumes w: "arcs_counted w" and i: "i < length (ea_sessions w)"
    and so: "so_inner so = so_inner (ea_sessions w ! i)" "0 < so_inner so"
    and counted: "session_counted (so\<lparr>so_inner := so_inner so - 1\<rparr>)"
  shows "arcs_counted (drop_inner i so w)"
proof (cases "so_inner so - 1 = 0")
  case False
  with replaced_counted [OF w i counted] so show ?thesis by (simp add: drop_inner_def Let_def)
next
  case True
  let ?w = "w\<lparr>ea_sessions := (ea_sessions w)[i := so\<lparr>so_inner := 0\<rparr>]\<rparr>"
  have "(\<Sum>so\<leftarrow>ea_sessions ?w. live so) + 1 = (\<Sum>so\<leftarrow>ea_sessions w. live so)"
    using sum_list_replace [OF i, of live "so\<lparr>so_inner := 0\<rparr>"] so by simp
  moreover have "list_all session_counted (ea_sessions ?w)"
    using w counted True
    by (auto simp: arcs_counted_def list_all_iff dest!: set_update_subset_insert [THEN subsetD])
  moreover have "ea_runtime w \<noteq> 0" using w so live_le_sum [OF i]
    by (simp add: arcs_counted_def del: sum_list_eq_0_iff)
  ultimately have "arcs_counted (drop_runtime ?w)"
    using w by (intro drop_runtime_counted) (auto simp: arcs_counted_def)
  then show ?thesis using True by (simp add: drop_inner_def Let_def)
qed

lemma Client_drop_counted: "arcs_counted w \<Longrightarrow> ea_client w \<Longrightarrow> arcs_counted (Client_drop w)"
  unfolding Client_drop_def by (intro drop_runtime_counted) (auto simp: arcs_counted_def)

lemma nth_counted: "arcs_counted w \<Longrightarrow> i < length (ea_sessions w) \<Longrightarrow> session_counted (ea_sessions w ! i)"
  by (simp add: arcs_counted_def list_all_length)

lemma arcs_counted_step:
  assumes w: "arcs_counted w" and "arc_step w w'"
  shows "arcs_counted w'"
  using assms(2)
proof cases
  case (opens opened r)
  with w show ?thesis
    by (auto simp: open_session_def arcs_counted_def session_counted_def split: sum.splits if_splits)
next
  case (takes_killer i)
  with nth_counted [OF w, of i] replaced_counted [OF w, of i] show ?thesis
    by (simp add: killer_def Let_def session_counted_def)
next
  case (clones_killer i)
  with nth_counted [OF w, of i] replaced_counted [OF w, of i] show ?thesis
    by (simp add: killer_def Let_def session_counted_def)
next
  case (drops_session i)
  with nth_counted [OF w, of i] drop_inner_counted [OF w, of i] show ?thesis
    by (simp add: Session_drop_def session_counted_def)
next
  case (drops_killer i)
  with nth_counted [OF w, of i] drop_inner_counted [OF w, of i] show ?thesis
    by (simp add: Killer_drop_def Let_def session_counted_def)
next
  case drops_client
  with w show ?thesis by (simp add: Client_drop_counted)
next
  case (closes_client closed r)
  show ?thesis
  proof (cases "ea_runtime w = 1")
    case True
    with closes_client w show ?thesis by (auto simp: Client_close_def arcs_counted_def)
  next
    case False
    with closes_client w show ?thesis by (auto simp: Client_close_def Client_drop_counted)
  qed
qed

interpretation arcs: invariant_system arc_init arc_step arcs_counted
  by unfold_locales (auto intro: arcs_counted_init arcs_counted_step)

section \<open>Properties\<close>

text \<open>C17: The native engine is closed exactly once, and only when nobody is left to use it. After any
  sequence of opening sessions, taking, cloning and dropping killers, and dropping or closing the
  client, in any order: while the client, a session or a killer is held the engine has not been
  closed, and once none is held it has been closed once. A close of the client that is its
  engine's last holder runs the native close and reports what it said; with a session or killer still
  held it answers success and leaves the engine open for the holder.\<close>

theorem engine_outlives_its_sessions:
  assumes "reach arc_init arc_step w"
  shows "ea_closes w =
      (if ea_client w \<or> (\<exists>so\<in>set (ea_sessions w). so_held so \<or> 0 < so_killers so) then 0 else 1) \<and>
    (ea_client w \<longrightarrow>
       (\<forall>closed r w'. Client_close closed w = (r, w') \<longrightarrow>
          (if \<exists>so\<in>set (ea_sessions w). so_held so \<or> 0 < so_killers so
           then r = Inr () \<and> ea_closes w' = 0
           else r = map_err Sys_Native closed \<and> ea_closes w' = 1)))"
proof -
  have w: "arcs_counted w" by (rule arcs.reach_inv [OF assms])
  then have inner: "so_inner so \<noteq> 0 \<longleftrightarrow> so_held so \<or> 0 < so_killers so" if "so \<in> set (ea_sessions w)" for so
    using that by (auto simp: arcs_counted_def session_counted_def list_all_iff)
  define held where "held = (\<exists>so\<in>set (ea_sessions w). so_held so \<or> 0 < so_killers so)"
  define n where "n = (\<Sum>so\<leftarrow>ea_sessions w. live so)"
  have live: "n = 0 \<longleftrightarrow> \<not> held" using inner by (auto simp: n_def held_def)
  have counts: "ea_runtime w = of_bool (ea_client w) + n" "ea_closes w = of_bool (ea_runtime w = 0)"
    using w by (auto simp: arcs_counted_def n_def)
  show ?thesis unfolding held_def [symmetric]
    using live counts by (auto simp: Client_close_def Client_drop_def drop_runtime_def Let_def)
qed


theorem engine_outlives_its_sessions_witness:
  "\<exists>w. reach arc_init arc_step w \<and> ea_client w \<and> ea_sessions w = [\<lparr>so_inner = 1, so_held = False, so_killers = 1\<rparr>] \<and>
     ea_closes w = 0 \<and> ea_closes (snd (Client_close (Inl ''busy'') w)) = 0 \<and>
     (let w' = Killer_drop 0 (snd (Client_close (Inl ''busy'') w)) in ea_closes w' = 1)"
proof -
  let ?fresh = "\<lparr>ea_runtime = 1, ea_client = True, ea_sessions = [], ea_closes = 0\<rparr>"
  let ?opened = "snd (open_session (Inr False) ?fresh)"
  let ?w = "Session_drop 0 (killer 0 ?opened)"
  have "native_open (Inr False) = Inr ?fresh" by (simp add: native_open_def Client_from_inner_def)
  then have r0: "reach arc_init arc_step ?fresh" unfolding arc_init_def by (intro reach_init exI)
  have "arc_step ?fresh ?opened"
    by (rule arc_step.opens [where opened = "Inr False" and r = "Inr 0"]) (simp_all add: open_session_def)
  with r0 have r1: "reach arc_init arc_step ?opened" by (rule reach_step)
  have "arc_step ?opened (killer 0 ?opened)" by (rule arc_step.takes_killer) (simp_all add: open_session_def)
  with r1 have r2: "reach arc_init arc_step (killer 0 ?opened)" by (rule reach_step)
  have "arc_step (killer 0 ?opened) ?w"
    by (rule arc_step.drops_session) (simp_all add: open_session_def killer_def Let_def)
  with r2 have r3: "reach arc_init arc_step ?w" by (rule reach_step)
  let ?v = "\<lparr>ea_runtime = 2, ea_client = True,
      ea_sessions = [\<lparr>so_inner = 1, so_held = False, so_killers = 1\<rparr>], ea_closes = 0\<rparr>"
  have "?w = ?v"
    by (simp add: open_session_def killer_def Session_drop_def drop_inner_def Let_def)
  with r3 have v: "reach arc_init arc_step ?v" by simp
  obtain r w' where c: "Client_close (Inl ''busy'') ?v = (r, w')" by fastforce
  with engine_outlives_its_sessions [OF v] have "ea_closes w' = 0" by simp
  moreover have "ea_closes (Killer_drop 0 (snd (Client_close (Inl ''busy'') ?v))) = 1"
    by (simp add: Client_close_def Client_drop_def Killer_drop_def drop_inner_def drop_runtime_def Let_def)
  ultimately show ?thesis using v c by (intro exI [of _ ?v]) (simp add: Let_def)
qed

end
