(* ===== verification/Crud.thy ===== *)
theory Crud
  imports Errors
begin

text \<open>
  The document API of the blocking client: \<open>src/database.rs\<close>, \<open>src/collection.rs\<close>,
  \<open>src/insert.rs\<close>, \<open>src/find.rs\<close> (with its cursor) and \<open>src/aggregate.rs\<close>. The client a
  handle borrows is a function that runs a command, with the state it works on; serialising a
  value and deserialising a document are the \<open>bson\<close> crate's and are arguments, as is the supply of
  new object ids.

  A cursor's \<open>next\<close> loops until the server answers a document or ends the cursor, so it is a partial
  function: \<open>None\<close> is a call that never returns. The locale \<open>result_stream\<close> is the contract of a
  cursor whose server does end it, as a list being read from the front, and carries the lemma about
  collecting one; the blocking and the async cursor both interpret it.
\<close>

section \<open>Handles\<close>

type_synonym ('e, 'd) runner = "'e \<Rightarrow> string \<Rightarrow> 'd \<Rightarrow> ('d error + 'd) \<times> 'e"

record Database =
  database_name :: string

record Collection =
  coll_database :: string
  coll_name :: string

definition Collection_new :: "string \<Rightarrow> string \<Rightarrow> Collection" where
  "Collection_new db name = \<lparr>coll_database = db, coll_name = name\<rparr>"

definition Database_collection :: "Database \<Rightarrow> string \<Rightarrow> Collection" where
  "Database_collection self name = Collection_new (database_name self) name"

definition Database_run_command ::
  "('e, 'd) runner \<Rightarrow> Database \<Rightarrow> 'd \<Rightarrow> 'e \<Rightarrow> ('d error + 'd) \<times> 'e" where
  "Database_run_command run self cmd e = run e (database_name self) cmd"

section \<open>Inserting\<close>

record 'd InsertOneResult =
  inserted_id :: "'d bson"

record 'd InsertManyResult =
  inserted_ids :: "nat \<rightharpoonup> 'd bson"

definition insert_command :: "'d bson_lib \<Rightarrow> string \<Rightarrow> 'd bson list \<Rightarrow> 'd" where
  "insert_command B collection documents =
     doc_of B [(''insert'', BString collection), (''documents'', BArray documents)]"

text \<open>The id the document has, or a new object id put into it.\<close>

definition ensure_id ::
  "'d bson_lib \<Rightarrow> ('o \<Rightarrow> nat \<times> 'o) \<Rightarrow> 'd \<Rightarrow> 'o \<Rightarrow> 'd bson \<times> 'd \<times> 'o" where
  "ensure_id B new_oid document ids =
     (case doc_get B document ''_id'' of
        Some i \<Rightarrow> (i, document, ids)
      | None \<Rightarrow>
          (let (n, ids') = new_oid ids; i = BObjectId n
           in (i, doc_insert B document ''_id'' i, ids')))"

fun serialize_loop ::
  "'d bson_lib \<Rightarrow> ('t \<Rightarrow> string + 'd) \<Rightarrow> ('o \<Rightarrow> nat \<times> 'o) \<Rightarrow> nat \<Rightarrow> 't list \<Rightarrow> 'd bson list \<Rightarrow>
     (nat \<rightharpoonup> 'd bson) \<Rightarrow> 'o \<Rightarrow> ('d error + 'd bson list \<times> (nat \<rightharpoonup> 'd bson)) \<times> 'o" where
  "serialize_loop B ser new_oid index [] serialized ids_of ids = (Inr (serialized, ids_of), ids)"
| "serialize_loop B ser new_oid index (t # ts) serialized ids_of ids =
     (case ser t of
        Inl err \<Rightarrow> (Inl (Bson err), ids)
      | Inr document \<Rightarrow>
          (let (i, document', ids') = ensure_id B new_oid document ids
           in serialize_loop B ser new_oid (Suc index) ts (serialized @ [BDocument document'])
                (ids_of(index \<mapsto> i)) ids'))"

definition serialize_many ::
  "'d bson_lib \<Rightarrow> ('t \<Rightarrow> string + 'd) \<Rightarrow> ('o \<Rightarrow> nat \<times> 'o) \<Rightarrow> 't list \<Rightarrow> 'o
     \<Rightarrow> ('d error + 'd bson list \<times> (nat \<rightharpoonup> 'd bson)) \<times> 'o" where
  "serialize_many B ser new_oid ts ids =
     (let (r, ids') = serialize_loop B ser new_oid 0 ts [] Map.empty ids
      in (and_then r (\<lambda>(serialized, ids_of).
            if serialized = [] then Inl (InvalidArgument ''insert_many requires at least one document'')
            else Inr (serialized, ids_of)), ids'))"

text \<open>\<open>usize::try_from\<close> of the two integer types; a \<open>usize\<close> holds every non-negative \<open>i64\<close>.\<close>

fun reported_count :: "'d bson option \<Rightarrow> nat option" where
  "reported_count (Some (BInt32 v)) = (if 0 \<le> sint v then Some (nat (sint v)) else None)"
| "reported_count (Some (BInt64 v)) = (if 0 \<le> sint v then Some (nat (sint v)) else None)"
| "reported_count _ = None"

definition expect_inserted_count :: "'d bson_lib \<Rightarrow> 'd \<Rightarrow> nat \<Rightarrow> 'd error + unit" where
  "expect_inserted_count B resp expected =
     and_then (ok_or (InvalidResponse ''insert response has no valid n field'')
        (reported_count (doc_get B resp ''n'')))
       (\<lambda>actual. if actual \<noteq> expected
          then Inl (InvalidResponse (''inserted '' @ show_nat actual @ '' documents, expected '' @
                 show_nat expected))
          else Inr ())"

definition insert_one ::
  "'d bson_lib \<Rightarrow> ('t \<Rightarrow> string + 'd) \<Rightarrow> ('o \<Rightarrow> nat \<times> 'o) \<Rightarrow> ('e, 'd) runner \<Rightarrow> Collection \<Rightarrow> 't
     \<Rightarrow> 'o \<Rightarrow> 'e \<Rightarrow> ('d error + 'd InsertOneResult) \<times> 'o \<times> 'e" where
  "insert_one B ser new_oid run self t ids e =
     (case ser t of
        Inl err \<Rightarrow> (Inl (Bson err), ids, e)
      | Inr document \<Rightarrow>
          (let (i, document', ids') = ensure_id B new_oid document ids;
               (reply, e') = run e (coll_database self)
                               (insert_command B (coll_name self) [BDocument document'])
           in (and_then reply (\<lambda>resp. map_ok (\<lambda>_. \<lparr>inserted_id = i\<rparr>)
                 (expect_inserted_count B resp 1)), ids', e')))"

definition insert_many ::
  "'d bson_lib \<Rightarrow> ('t \<Rightarrow> string + 'd) \<Rightarrow> ('o \<Rightarrow> nat \<times> 'o) \<Rightarrow> ('e, 'd) runner \<Rightarrow> Collection \<Rightarrow> 't list
     \<Rightarrow> 'o \<Rightarrow> 'e \<Rightarrow> ('d error + 'd InsertManyResult) \<times> 'o \<times> 'e" where
  "insert_many B ser new_oid run self ts ids e =
     (case serialize_many B ser new_oid ts ids of
        (Inl err, ids') \<Rightarrow> (Inl err, ids', e)
      | (Inr (serialized, ids_of), ids') \<Rightarrow>
          (let expected = length serialized;
               (reply, e') = run e (coll_database self)
                               (insert_command B (coll_name self) serialized)
           in (and_then reply (\<lambda>resp. map_ok (\<lambda>_. \<lparr>inserted_ids = ids_of\<rparr>)
                 (expect_inserted_count B resp expected)), ids', e')))"

section \<open>Finding\<close>

definition find_one_command :: "'d bson_lib \<Rightarrow> string \<Rightarrow> 'd \<Rightarrow> 'd" where
  "find_one_command B collection query =
     doc_of B [(''find'', BString collection), (''filter'', BDocument query),
               (''limit'', BInt64 1), (''singleBatch'', BBoolean True)]"

definition find_command :: "'d bson_lib \<Rightarrow> string \<Rightarrow> 'd \<Rightarrow> 'd" where
  "find_command B collection query =
     doc_of B [(''find'', BString collection), (''filter'', BDocument query)]"

definition get_more_command :: "'d bson_lib \<Rightarrow> i64 \<Rightarrow> string \<Rightarrow> 'd" where
  "get_more_command B cid collection =
     doc_of B [(''getMore'', BInt64 cid), (''collection'', BString collection)]"

definition kill_cursors_command :: "'d bson_lib \<Rightarrow> string \<Rightarrow> i64 \<Rightarrow> 'd" where
  "kill_cursors_command B collection cid =
     doc_of B [(''killCursors'', BString collection), (''cursors'', BArray [BInt64 cid])]"

fun cursor_id_of :: "'d bson option \<Rightarrow> i64 option" where
  "cursor_id_of (Some (BInt64 i)) = Some i"
| "cursor_id_of (Some (BInt32 i)) = Some (scast i)"
| "cursor_id_of _ = None"

fun take_documents :: "string \<Rightarrow> 'd bson list \<Rightarrow> 'd error + 'd list" where
  "take_documents batch_name [] = Inr []"
| "take_documents batch_name (v # vs) =
     (case v of
        BDocument d \<Rightarrow> map_ok (Cons d) (take_documents batch_name vs)
      | _ \<Rightarrow> Inl (InvalidResponse (''cursor '' @ batch_name @ '' contains a non-document value'')))"

definition take_cursor_batch :: "'d bson_lib \<Rightarrow> 'd \<Rightarrow> string \<Rightarrow> 'd error + i64 \<times> 'd list" where
  "take_cursor_batch B resp batch_name =
     (case doc_remove B resp ''cursor'' of
        (Some (BDocument cursor), _) \<Rightarrow>
          (let (removed, cursor') = doc_remove B cursor ''id''
           in case cursor_id_of removed of
                None \<Rightarrow> Inl (InvalidResponse ''cursor response has no valid id'')
              | Some cid \<Rightarrow>
                  (case doc_remove B cursor' batch_name of
                     (Some (BArray batch), _) \<Rightarrow>
                       map_ok (Pair cid) (take_documents batch_name batch)
                   | _ \<Rightarrow> Inl (InvalidResponse (''cursor response has no '' @ batch_name @ '' array''))))
      | _ \<Rightarrow> Inl (InvalidResponse ''command response has no cursor document''))"

record 'd Cursor =
  cur_database :: string
  cur_collection :: string
  cur_id :: i64
  cur_documents :: "'d list"
  cur_finished :: bool

definition Cursor_from_response ::
  "'d bson_lib \<Rightarrow> string \<Rightarrow> string \<Rightarrow> 'd \<Rightarrow> string \<Rightarrow> 'd error + 'd Cursor" where
  "Cursor_from_response B db collection resp batch_name =
     map_ok (\<lambda>(cid, documents).
         \<lparr>cur_database = db, cur_collection = collection, cur_id = cid,
          cur_documents = documents, cur_finished = False\<rparr>)
       (take_cursor_batch B resp batch_name)"

definition fetch_next_batch ::
  "'d bson_lib \<Rightarrow> ('e, 'd) runner \<Rightarrow> 'd Cursor \<Rightarrow> 'e \<Rightarrow> ('d error + unit) \<times> 'd Cursor \<times> 'e" where
  "fetch_next_batch B run self e =
     (case run e (cur_database self) (get_more_command B (cur_id self) (cur_collection self)) of
        (Inl err, e') \<Rightarrow> (Inl err, self, e')
      | (Inr resp, e') \<Rightarrow>
          (case take_cursor_batch B resp ''nextBatch'' of
             Inl err \<Rightarrow> (Inl err, self, e')
           | Inr (cid, documents) \<Rightarrow>
               (Inr (), self\<lparr>cur_id := cid, cur_documents := documents\<rparr>, e')))"

definition Cursor_kill ::
  "'d bson_lib \<Rightarrow> ('e, 'd) runner \<Rightarrow> 'd Cursor \<Rightarrow> 'e \<Rightarrow> ('d error + unit) \<times> 'd Cursor \<times> 'e" where
  "Cursor_kill B run self e =
     (let cid = cur_id self; self' = self\<lparr>cur_id := 0\<rparr>
      in if cid = 0 then (Inr (), self', e)
         else case run e (cur_database self) (kill_cursors_command B (cur_collection self) cid) of
                (reply, e') \<Rightarrow> (map_ok (\<lambda>_. ()) reply, self', e'))"

definition Cursor_drop :: "'d bson_lib \<Rightarrow> ('e, 'd) runner \<Rightarrow> 'd Cursor \<Rightarrow> 'e \<Rightarrow> 'e" where
  "Cursor_drop B run self e = snd (snd (Cursor_kill B run self e))"

partial_function (option) Cursor_next ::
  "'d bson_lib \<Rightarrow> ('d \<Rightarrow> string + 't) \<Rightarrow> ('e, 'd) runner \<Rightarrow> 'd Cursor \<Rightarrow> 'e
     \<Rightarrow> (('d error + 't) option \<times> 'd Cursor \<times> 'e) option" where
  "Cursor_next B de run self e =
     (case cur_documents self of
        d # ds \<Rightarrow> Some (Some (map_err Bson (de d)), self\<lparr>cur_documents := ds\<rparr>, e)
      | [] \<Rightarrow>
          if cur_finished self \<or> cur_id self = 0 then Some (None, self\<lparr>cur_finished := True\<rparr>, e)
          else case fetch_next_batch B run self e of
                 (fetched, self', e') \<Rightarrow>
                   (case fetched of
                      Inl err \<Rightarrow> Some (Some (Inl err), self'\<lparr>cur_finished := True\<rparr>, e')
                    | Inr _ \<Rightarrow> Cursor_next B de run self' e'))"

text \<open>\<open>Iterator::collect\<close> into a \<open>Result\<close> stops at the first error.\<close>

partial_function (option) Cursor_collect ::
  "'d bson_lib \<Rightarrow> ('d \<Rightarrow> string + 't) \<Rightarrow> ('e, 'd) runner \<Rightarrow> 't list \<Rightarrow> 'd Cursor \<Rightarrow> 'e
     \<Rightarrow> (('d error + 't list) \<times> 'd Cursor \<times> 'e) option" where
  "Cursor_collect B de run acc self e =
     Option.bind (Cursor_next B de run self e) (\<lambda>(item, self', e').
       case item of
         None \<Rightarrow> Some (Inr acc, self', e')
       | Some r \<Rightarrow>
           (case r of
              Inl err \<Rightarrow> Some (Inl err, self', e')
            | Inr t \<Rightarrow> Cursor_collect B de run (acc @ [t]) self' e'))"

definition Cursor_try_collect ::
  "'d bson_lib \<Rightarrow> ('d \<Rightarrow> string + 't) \<Rightarrow> ('e, 'd) runner \<Rightarrow> 'd Cursor \<Rightarrow> 'e
     \<Rightarrow> (('d error + 't list) \<times> 'e) option" where
  "Cursor_try_collect B de run self e =
     map_option (\<lambda>(r, self', e'). (r, Cursor_drop B run self' e')) (Cursor_collect B de run [] self e)"

definition find_documents ::
  "'d bson_lib \<Rightarrow> ('e, 'd) runner \<Rightarrow> Collection \<Rightarrow> 'd \<Rightarrow> 'e \<Rightarrow> ('d error + 'd Cursor) \<times> 'e" where
  "find_documents B run self query e =
     (let (reply, e') = run e (coll_database self) (find_command B (coll_name self) query)
      in (and_then reply (\<lambda>resp.
            Cursor_from_response B (coll_database self) (coll_name self) resp ''firstBatch''), e'))"

fun transpose_item :: "('e + 't) option \<Rightarrow> 'e + 't option" where
  "transpose_item None = Inr None"
| "transpose_item (Some (Inl err)) = Inl err"
| "transpose_item (Some (Inr t)) = Inr (Some t)"

definition find_one ::
  "'d bson_lib \<Rightarrow> ('d \<Rightarrow> string + 't) \<Rightarrow> ('e, 'd) runner \<Rightarrow> Collection \<Rightarrow> 'd \<Rightarrow> 'e
     \<Rightarrow> (('d error + 't option) \<times> 'e) option" where
  "find_one B de run self query e =
     (let (reply, e') = run e (coll_database self) (find_one_command B (coll_name self) query)
      in case and_then reply (\<lambda>resp.
                Cursor_from_response B (coll_database self) (coll_name self) resp ''firstBatch'') of
           Inl err \<Rightarrow> Some (Inl err, e')
         | Inr cursor \<Rightarrow>
             map_option (\<lambda>(item, cursor', e''). (transpose_item item, Cursor_drop B run cursor' e''))
               (Cursor_next B de run cursor e'))"

section \<open>Aggregating\<close>

definition aggregate_command :: "'d bson_lib \<Rightarrow> string \<Rightarrow> 'd list \<Rightarrow> 'd" where
  "aggregate_command B collection pipeline =
     doc_of B [(''aggregate'', BString collection), (''pipeline'', BArray (map BDocument pipeline)),
               (''cursor'', BDocument (doc_new B))]"

definition aggregate ::
  "'d bson_lib \<Rightarrow> ('e, 'd) runner \<Rightarrow> Collection \<Rightarrow> 'd list \<Rightarrow> 'e \<Rightarrow> ('d error + 'd Cursor) \<times> 'e" where
  "aggregate B run self pipeline e =
     (let (reply, e') = run e (coll_database self) (aggregate_command B (coll_name self) pipeline)
      in (and_then reply (\<lambda>resp.
            Cursor_from_response B (coll_database self) (coll_name self) resp ''firstBatch''), e'))"

section \<open>What a server's reply carries\<close>

lemma take_documents_Inr_iff: "take_documents n vs = Inr ds \<longleftrightarrow> vs = map BDocument ds"
  by (induction n vs arbitrary: ds rule: take_documents.induct)
    (auto simp: map_ok_Inr_iff Cons_eq_map_conv split: bson.splits)

lemma reply_batch:
  assumes "bson_laws B" and "doc_get B resp ''cursor'' = Some (BDocument cur)"
    and "cursor_id_of (doc_get B cur ''id'') = Some cid"
    and "doc_get B cur batch_name = Some (BArray (map BDocument ds))" and "batch_name \<noteq> ''id''"
  shows "take_cursor_batch B resp batch_name = Inr (cid, ds)"
proof -
  obtain r0 where r0: "doc_remove B resp ''cursor'' = (Some (BDocument cur), r0)"
    using bson_laws_get(3) [OF assms(1), of resp "''cursor''"] assms(2)
    by (cases "doc_remove B resp ''cursor''") simp
  obtain r1 where r1: "doc_remove B cur ''id'' = (doc_get B cur ''id'', r1)"
    using bson_laws_get(3) [OF assms(1), of cur "''id''"]
    by (cases "doc_remove B cur ''id''") simp
  have "doc_get B r1 batch_name = Some (BArray (map BDocument ds))"
    using bson_laws_get(4) [OF assms(1), of cur "''id''" batch_name] assms(4,5) r1 by simp
  then obtain r2 where r2: "doc_remove B r1 batch_name = (Some (BArray (map BDocument ds)), r2)"
    using bson_laws_get(3) [OF assms(1), of r1 batch_name]
    by (cases "doc_remove B r1 batch_name") simp
  have "take_documents batch_name (map BDocument ds) = Inr ds" by (simp add: take_documents_Inr_iff)
  with r0 r1 r2 assms(3) show ?thesis by (simp add: take_cursor_batch_def)
qed

section \<open>A server that ends its cursor\<close>

text \<open>
  \<open>serves B run db coll e cid docs z\<close>: from engine state \<open>e\<close>, asking for more of cursor \<open>cid\<close>
  until its id is zero takes finitely many \<open>getMore\<close> commands, which answer the documents \<open>docs\<close> in
  order (in batches of any size, empty ones included) and leave the engine in state \<open>z\<close>.
\<close>

inductive serves ::
  "'d bson_lib \<Rightarrow> ('e, 'd) runner \<Rightarrow> string \<Rightarrow> string \<Rightarrow> 'e \<Rightarrow> i64 \<Rightarrow> 'd list \<Rightarrow> 'e \<Rightarrow> bool"
  for B run db coll where
  exhausted: "serves B run db coll e 0 [] e"
| batch: "cid \<noteq> 0 \<Longrightarrow> run e db (get_more_command B cid coll) = (Inr resp, e1) \<Longrightarrow>
    doc_get B resp ''cursor'' = Some (BDocument cur) \<Longrightarrow>
    cursor_id_of (doc_get B cur ''id'') = Some cid' \<Longrightarrow>
    doc_get B cur ''nextBatch'' = Some (BArray (map BDocument ds)) \<Longrightarrow>
    serves B run db coll e1 cid' docs z \<Longrightarrow>
    serves B run db coll e cid (ds @ docs) z"

inductive_cases serves_zero: "serves B run db coll e 0 docs z"
inductive_cases serves_open: "serves B run db coll e cid docs z"

text \<open>The abstract cursor: the list of what is still to be read, and the engine state at its end.\<close>

definition remains ::
  "'d bson_lib \<Rightarrow> ('d \<Rightarrow> string + 't) \<Rightarrow> ('e, 'd) runner \<Rightarrow> 'e \<Rightarrow> 'd Cursor \<Rightarrow> 'e
     \<Rightarrow> ('d error + 't) list \<Rightarrow> bool" where
  "remains B de run z self e rs \<longleftrightarrow>
     bson_laws B \<and>
     (\<exists>docs. rs = map (\<lambda>d. map_err Bson (de d)) (cur_documents self @ docs) \<and>
        (if cur_finished self then docs = [] \<and> e = z \<and> cur_id self = 0
         else serves B run (cur_database self) (cur_collection self) e (cur_id self) docs z))"

lemma fetch_served:
  assumes "bson_laws B" and "cur_id self \<noteq> 0"
    and "run e (cur_database self) (get_more_command B (cur_id self) (cur_collection self)) = (Inr resp, e1)"
    and "doc_get B resp ''cursor'' = Some (BDocument cur)"
    and "cursor_id_of (doc_get B cur ''id'') = Some cid'"
    and "doc_get B cur ''nextBatch'' = Some (BArray (map BDocument ds))"
  shows "fetch_next_batch B run self e =
    (Inr (), self\<lparr>cur_id := cid', cur_documents := ds\<rparr>, e1)"
  using reply_batch [OF assms(1,4,5,6)] assms(3) by (simp add: fetch_next_batch_def)

text \<open>Fetching until there is a document, by induction on what the server has left to serve.\<close>

lemma next_when_served:
  assumes "serves B run db coll e cid docs z" and "cid = cur_id self"
    and "db = cur_database self" and "coll = cur_collection self" and "bson_laws B" and "cur_documents self = []" and "\<not> cur_finished self"
  shows "(docs = [] \<longrightarrow> (\<exists>self'. Cursor_next B de run self e = Some (None, self', z) \<and>
            cur_finished self' \<and> cur_id self' = 0 \<and> cur_documents self' = [])) \<and>
    (\<forall>d ds. docs = d # ds \<longrightarrow> (\<exists>self' e'.
       Cursor_next B de run self e = Some (Some (map_err Bson (de d)), self', e') \<and>
       remains B de run z self' e' (map (\<lambda>d. map_err Bson (de d)) ds)))"
  using assms
proof (induction e cid docs z arbitrary: self rule: serves.induct)
  case (exhausted e)
  then have "Cursor_next B de run self e = Some (None, self\<lparr>cur_finished := True\<rparr>, e)"
    by (subst Cursor_next.simps) simp
  with exhausted show ?case by auto
next
  case (batch cid e resp e1 cur cid' ds docs z)
  let ?s = "self\<lparr>cur_id := cid', cur_documents := ds\<rparr>"
  have "fetch_next_batch B run self e = (Inr (), ?s, e1)"
    by (rule fetch_served) (use batch in auto)
  then have step: "Cursor_next B de run self e = Cursor_next B de run ?s e1"
    using batch.prems batch.hyps(1) by (subst Cursor_next.simps) simp
  have "ds = [] \<Longrightarrow> ?case"
    using batch.IH [of ?s] batch.prems step by simp
  moreover have "ds = d # ds' \<Longrightarrow> ?case" for d ds'
  proof -
    assume "ds = d # ds'"
    then have "Cursor_next B de run ?s e1 =
        Some (Some (map_err Bson (de d)), ?s\<lparr>cur_documents := ds'\<rparr>, e1)"
      by (subst Cursor_next.simps) simp
    moreover have "remains B de run z (?s\<lparr>cur_documents := ds'\<rparr>) e1
        (map (\<lambda>d. map_err Bson (de d)) (ds' @ docs))"
      using batch.prems batch.hyps(6) by (auto simp: remains_def)
    ultimately show ?case
      using step \<open>ds = d # ds'\<close> by auto
  qed
  ultimately show ?case by (cases ds) auto
qed

section \<open>Collecting a stream of results\<close>

text \<open>\<open>collect\<close> into a \<open>Result\<close>, on the list of what an iterator answers.\<close>

fun all_ok :: "('x + 'a) list \<Rightarrow> 'x + 'a list" where
  "all_ok [] = Inr []"
| "all_ok (Inl x # rs) = Inl x"
| "all_ok (Inr a # rs) = map_ok (Cons a) (all_ok rs)"

lemma all_ok_Inr [simp]: "all_ok (map Inr xs) = Inr xs"
  by (induction xs) auto

locale result_stream =
  fixes nxt :: "'c \<Rightarrow> 'e \<Rightarrow> (('x + 'a) option \<times> 'c \<times> 'e) option"
    and collect :: "'a list \<Rightarrow> 'c \<Rightarrow> 'e \<Rightarrow> (('x + 'a list) \<times> 'c \<times> 'e) option"
    and left :: "'e \<Rightarrow> 'c \<Rightarrow> 'e \<Rightarrow> ('x + 'a) list \<Rightarrow> bool"
    and ended :: "'c \<Rightarrow> bool"
  assumes collect_unfold: "collect acc c e =
      (case nxt c e of
         None \<Rightarrow> None
       | Some (None, c', e') \<Rightarrow> Some (Inr acc, c', e')
       | Some (Some (Inl x), c', e') \<Rightarrow> Some (Inl x, c', e')
       | Some (Some (Inr a), c', e') \<Rightarrow> collect (acc @ [a]) c' e')"
    and next_nil: "left z c e [] \<Longrightarrow> \<exists>c'. nxt c e = Some (None, c', z) \<and> ended c'"
    and next_cons: "left z c e (r # rs) \<Longrightarrow>
      \<exists>c' e'. nxt c e = Some (Some r, c', e') \<and> left z c' e' rs"
begin

lemma collect_returns:
  assumes "left z c e rs"
  shows "\<exists>r c' e'. collect acc c e = Some (r, c', e') \<and> r = map_ok (append acc) (all_ok rs) \<and>
    (\<forall>as. r = Inr as \<longrightarrow> e' = z \<and> ended c')"
  using assms
proof (induction rs arbitrary: acc c e)
  case Nil
  from next_nil [OF this] show ?case by (subst collect_unfold) auto
next
  case (Cons r rs)
  from next_cons [OF Cons.prems] obtain c' e' where
    n: "nxt c e = Some (Some r, c', e')" "left z c' e' rs" by blast
  show ?case
  proof (cases r)
    case (Inl x)
    with n show ?thesis by (subst collect_unfold) simp
  next
    case (Inr a)
    from Cons.IH [OF n(2), of "acc @ [a]"] n(1) Inr show ?thesis
      by (subst collect_unfold) (cases "all_ok rs"; auto)
  qed
qed

end

lemma remains_nil:
  assumes "remains B de run z self e []"
  shows "\<exists>self'. Cursor_next B de run self e = Some (None, self', z) \<and>
    cur_finished self' \<and> cur_id self' = 0 \<and> cur_documents self' = []"
proof (cases "cur_finished self")
  case True
  with assms show ?thesis by (subst Cursor_next.simps) (auto simp: remains_def)
next
  case False
  with assms have "serves B run (cur_database self) (cur_collection self) e (cur_id self) [] z"
    "bson_laws B" "cur_documents self = []" by (auto simp: remains_def)
  from next_when_served [OF this(1) refl refl refl this(2,3) False, of de] show ?thesis by simp
qed

lemma remains_cons:
  assumes "remains B de run z self e (r # rs)"
  shows "\<exists>self' e'. Cursor_next B de run self e = Some (Some r, self', e') \<and>
    remains B de run z self' e' rs"
proof (cases "cur_documents self")
  case Nil
  with assms have base: "bson_laws B" "\<not> cur_finished self"
    by (auto simp: remains_def split: if_splits)
  from assms Nil base(2) have "\<exists>docs. r # rs = map (\<lambda>d. map_err Bson (de d)) docs \<and>
      serves B run (cur_database self) (cur_collection self) e (cur_id self) docs z"
    by (simp add: remains_def)
  then obtain docs where docs: "r # rs = map (\<lambda>d. map_err Bson (de d)) docs"
    "serves B run (cur_database self) (cur_collection self) e (cur_id self) docs z"
    by (elim exE conjE) (rule that)
  from next_when_served [OF docs(2) refl refl refl base(1) Nil base(2), of de] docs(1) show ?thesis
    by (cases docs) auto
next
  case (Cons d ds)
  then have "Cursor_next B de run self e =
      Some (Some (map_err Bson (de d)), self\<lparr>cur_documents := ds\<rparr>, e)"
    by (subst Cursor_next.simps) simp
  with assms Cons show ?thesis by (auto simp: remains_def split: if_splits)
qed

interpretation blocking_cursor:
  result_stream "Cursor_next B de run" "Cursor_collect B de run" "remains B de run"
    "\<lambda>self. cur_finished self \<and> cur_id self = 0 \<and> cur_documents self = []" for B de run
proof (unfold_locales, goal_cases)
  case (1 acc c e)
  show ?case by (subst Cursor_collect.simps) (auto split: option.splits sum.splits)
next
  case (2 z c e)
  then show ?case by (rule remains_nil)
next
  case (3 z c e r rs)
  then show ?case by (rule remains_cons)
qed

lemma drop_ended: "cur_id self = 0 \<Longrightarrow> Cursor_drop B run self e = e"
  by (simp add: Cursor_drop_def Cursor_kill_def Let_def)

lemma try_collect_returns:
  assumes "remains B de run z self e rs"
  shows "\<exists>e'. Cursor_try_collect B de run self e = Some (all_ok rs, e') \<and>
    (\<forall>as. all_ok rs = Inr as \<longrightarrow> e' = z)"
proof -
  from blocking_cursor.collect_returns [OF assms, of "[]"] obtain r c' e' where
    c: "Cursor_collect B de run [] self e = Some (r, c', e')" "r = map_ok (append []) (all_ok rs)"
      "\<And>as. r = Inr as \<Longrightarrow> e' = z \<and> cur_id c' = 0" by blast
  have "map_ok (append []) (all_ok rs) = all_ok rs" by (cases "all_ok rs") auto
  with c have "Cursor_try_collect B de run self e = Some (all_ok rs, Cursor_drop B run c' e')"
    by (simp add: Cursor_try_collect_def)
  moreover have "\<forall>as. all_ok rs = Inr as \<longrightarrow> Cursor_drop B run c' e' = z"
    using c \<open>map_ok (append []) (all_ok rs) = all_ok rs\<close> by (auto simp: drop_ended)
  ultimately show ?thesis by blast
qed

text \<open>What a call of \<open>next\<close> that returns went through.\<close>

lemma Cursor_next_induct [consumes 1, case_names buffered ended failed fetched]:
  assumes returned: "Cursor_next B de run c e = Some (item, c', e')"
    and buffered: "\<And>c e d ds. cur_documents c = d # ds \<Longrightarrow>
      P c e (Some (map_err Bson (de d))) (c\<lparr>cur_documents := ds\<rparr>) e"
    and ended: "\<And>c e. cur_documents c = [] \<Longrightarrow> cur_finished c \<or> cur_id c = 0 \<Longrightarrow>
      P c e None (c\<lparr>cur_finished := True\<rparr>) e"
    and failed: "\<And>c e err c1 e1. cur_documents c = [] \<Longrightarrow> \<not> cur_finished c \<Longrightarrow> cur_id c \<noteq> 0 \<Longrightarrow>
      fetch_next_batch B run c e = (Inl err, c1, e1) \<Longrightarrow>
      P c e (Some (Inl err)) (c1\<lparr>cur_finished := True\<rparr>) e1"
    and fetched: "\<And>c e c1 e1 item c' e'. cur_documents c = [] \<Longrightarrow> \<not> cur_finished c \<Longrightarrow> cur_id c \<noteq> 0 \<Longrightarrow>
      fetch_next_batch B run c e = (Inr (), c1, e1) \<Longrightarrow> P c1 e1 item c' e' \<Longrightarrow> P c e item c' e'"
  shows "P c e item c' e'"
proof -
  have "B' = B \<longrightarrow> de' = de \<longrightarrow> run' = run \<longrightarrow> P c e (fst y) (fst (snd y)) (snd (snd y))"
    if "Cursor_next B' de' run' c e = Some y" for B' de' run' c e y
  proof (rule Cursor_next.raw_induct [OF _ that], intro impI, goal_cases)
    case (1 nxt B' de' run' c e y)
    show ?case
    proof (cases "cur_documents c")
      case (Cons d ds)
      with 1 buffered [OF Cons] show ?thesis by auto
    next
      case Nil
      show ?thesis
      proof (cases "cur_finished c \<or> cur_id c = 0")
        case True
        with 1 Nil ended [OF Nil True] show ?thesis by auto
      next
        case False
        obtain f c1 e1 where f: "fetch_next_batch B run c e = (f, c1, e1)" by (metis prod_cases3)
        show ?thesis
        proof (cases f)
          case (Inl err)
          with 1 Nil False f failed [OF Nil _ _ f [unfolded Inl]] show ?thesis by auto
        next
          case (Inr u)
          with 1 Nil False f have "P c1 e1 (fst y) (fst (snd y)) (snd (snd y))" by auto
          with fetched [OF Nil] False f Inr show ?thesis by auto
        qed
      qed
    qed
  qed
  from this [OF returned] show ?thesis by simp
qed

section \<open>What an insert sends\<close>

definition with_id :: "'d bson_lib \<Rightarrow> 'd \<Rightarrow> 'd \<Rightarrow> bool" where
  "with_id B d s \<longleftrightarrow>
     doc_get B s ''_id'' \<noteq> None \<and>
     (doc_get B d ''_id'' \<noteq> None \<longrightarrow> s = d) \<and>
     (doc_get B d ''_id'' = None \<longrightarrow> doc_keys B s = doc_keys B d @ [''_id'']) \<and>
     (\<forall>k. k \<noteq> ''_id'' \<longrightarrow> doc_get B s k = doc_get B d k)"

lemma ensure_id_with_id:
  assumes "bson_laws B" and "ensure_id B new_oid d ids = (i, s, ids')"
  shows "with_id B d s \<and> doc_get B s ''_id'' = Some i"
proof (cases "doc_get B d ''_id''")
  case None
  then have "''_id'' \<notin> set (doc_keys B d)"
    using bson_laws_get(5) [OF assms(1)] by simp
  with None assms show ?thesis
    by (auto simp: ensure_id_def with_id_def Let_def bson_laws_get [OF assms(1)] bson_laws_keys [OF assms(1)]
        split: prod.splits)
next
  case (Some x)
  with assms(2) show ?thesis by (simp add: ensure_id_def with_id_def)
qed

lemma serialize_loop_sends:
  assumes "bson_laws B"
  shows "serialize_loop B ser new_oid k ts acc m ids = (Inr (out, m'), ids') \<Longrightarrow>
    \<exists>sent. out = acc @ map BDocument sent \<and> length sent = length ts \<and>
      (\<forall>i<length ts. \<exists>d. ser (ts ! i) = Inr d \<and> with_id B d (sent ! i) \<and>
         m' (k + i) = doc_get B (sent ! i) ''_id'') \<and>
      (\<forall>j. j < k \<or> k + length ts \<le> j \<longrightarrow> m' j = m j)"
proof (induction ts arbitrary: k acc m ids)
  case Nil
  then show ?case by simp
next
  case (Cons t ts)
  obtain d where d: "ser t = Inr d" using Cons.prems by (auto split: sum.splits)
  obtain i s ids1 where e: "ensure_id B new_oid d ids = (i, s, ids1)" by (metis prod_cases3)
  from Cons.prems d e have "serialize_loop B ser new_oid (Suc k) ts (acc @ [BDocument s]) (m(k \<mapsto> i)) ids1
      = (Inr (out, m'), ids')" by simp
  from Cons.IH [OF this] obtain sent where
    out: "out = (acc @ [BDocument s]) @ map BDocument sent" and len: "length sent = length ts" and
    each: "\<And>j. j < length ts \<Longrightarrow> \<exists>d. ser (ts ! j) = Inr d \<and> with_id B d (sent ! j) \<and>
         m' (Suc k + j) = doc_get B (sent ! j) ''_id''" and
    rest: "\<And>j. j < Suc k \<or> Suc k + length ts \<le> j \<Longrightarrow> m' j = (m(k \<mapsto> i)) j" by blast
  have first: "m' k = doc_get B s ''_id''" "with_id B d s"
    using rest [of k] ensure_id_with_id [OF assms e] by auto
  show ?case
  proof (intro exI [of _ "s # sent"] conjI allI impI)
    fix j assume "j < length (t # ts)"
    then show "\<exists>d. ser ((t # ts) ! j) = Inr d \<and> with_id B d ((s # sent) ! j) \<and>
        m' (k + j) = doc_get B ((s # sent) ! j) ''_id''"
      using first d each by (cases j) auto
  next
    fix j assume "j < k \<or> k + length (t # ts) \<le> j"
    then show "m' j = m j" using rest [of j] by auto
  qed (use out len in auto)
qed

lemma expect_inserted_count_Inr:
  "expect_inserted_count B resp n = Inr u \<longleftrightarrow> reported_count (doc_get B resp ''n'') = Some n"
  by (auto simp: expect_inserted_count_def result_iffs)

section \<open>A scripted engine\<close>

text \<open>Answers the replies it was given one after the other and notes the commands.\<close>

type_synonym 'd script = "('d error + 'd) list \<times> (string \<times> 'd) list"

fun scripted :: "('d script, 'd) runner" where
  "scripted (r # rs, sent) db cmd = (r, rs, sent @ [(db, cmd)])"
| "scripted ([], sent) db cmd = (Inl Closed, [], sent @ [(db, cmd)])"

definition batch_reply :: "string \<Rightarrow> i64 \<Rightarrow> adoc list \<Rightarrow> adoc" where
  "batch_reply batch_name cid ds =
     ADoc [(''cursor'', BDocument (ADoc [(''id'', BInt64 cid), (batch_name, BArray (map BDocument ds))]))]"

definition tagged :: "i32 \<Rightarrow> adoc" where
  "tagged n = ADoc [(''_id'', BInt32 n)]"

lemma alist_get [simp]: "doc_get alist_lib (ADoc kvs) k = map_of kvs k"
  by (simp add: alist_lib_def)

text \<open>Two more batches of a cursor, the first of them empty.\<close>

definition demo_replies :: "(adoc error + adoc) list" where
  "demo_replies = [Inr (batch_reply ''nextBatch'' 9 []), Inr (batch_reply ''nextBatch'' 0 [tagged 2])]"

definition demo_asked :: "(string \<times> adoc) list" where
  "demo_asked =
     (let ask = (''shop'', get_more_command alist_lib 9 ''orders'') in [ask, ask])"

lemma demo_serves:
  "serves alist_lib scripted ''shop'' ''orders'' (demo_replies, sent) 9 [tagged 2] ([], sent @ demo_asked)"
proof -
  let ?ask = "(''shop'', get_more_command alist_lib 9 ''orders'')"
  let ?last = "[Inr (batch_reply ''nextBatch'' 0 [tagged 2])]"
  let ?cur = "\<lambda>cid ds. ADoc [(''id'', BInt64 cid), (''nextBatch'', BArray (map BDocument ds))]"
  have "serves alist_lib scripted ''shop'' ''orders'' (?last, sent @ [?ask]) 9 ([tagged 2] @ []) ([], sent @ demo_asked)"
    by (rule serves.batch [where cid' = 0 and resp = "batch_reply ''nextBatch'' 0 [tagged 2]" and
          cur = "?cur 0 [tagged 2]" and ?e1.0 = "([], sent @ demo_asked)"])
      (simp_all add: batch_reply_def demo_asked_def Let_def serves.exhausted)
  then have "serves alist_lib scripted ''shop'' ''orders'' (demo_replies, sent) 9 ([] @ [tagged 2]) ([], sent @ demo_asked)"
    by (intro serves.batch [where cid' = 9 and resp = "batch_reply ''nextBatch'' 9 []" and
          cur = "?cur 9 []" and ?e1.0 = "(?last, sent @ [?ask])"])
      (simp_all add: batch_reply_def demo_replies_def)
  then show ?thesis by simp
qed

section \<open>Properties\<close>

text \<open>C23: An \<open>insert_many\<close> that succeeds sent one command, with one document for each value in the
  order they were given: the value's own document where it has an id, and otherwise that document
  with an id appended after its other fields, none of which changed. The answer has an id for exactly
  the positions of the values, and each is the id the document at that position was sent with. The
  engine reported inserting exactly as many documents as there were values, and there was at
  least one.\<close>

theorem insert_many_reports_what_it_sent:
  assumes "bson_laws B" and "insert_many B ser new_oid run self ts ids e = (Inr res, ids', e')"
  shows "\<exists>sent resp.
    run e (coll_database self) (insert_command B (coll_name self) (map BDocument sent)) = (Inr resp, e') \<and>
    ts \<noteq> [] \<and> length sent = length ts \<and>
    reported_count (doc_get B resp ''n'') = Some (length ts) \<and>
    dom (inserted_ids res) = {..<length ts} \<and>
    (\<forall>i<length ts. inserted_ids res i = doc_get B (sent ! i) ''_id'' \<and>
       (\<exists>d. ser (ts ! i) = Inr d \<and> with_id B d (sent ! i)))"
proof -
  obtain out m ids1 where loop: "serialize_loop B ser new_oid 0 ts [] Map.empty ids = (Inr (out, m), ids1)"
    and out: "out \<noteq> []" and many: "serialize_many B ser new_oid ts ids = (Inr (out, m), ids1)"
    using assms(2) by (auto simp: insert_many_def serialize_many_def Let_def result_iffs
        split: prod.splits sum.splits if_splits)
  from serialize_loop_sends [OF assms(1) loop] obtain sent where
    sent: "out = map BDocument sent" "length sent = length ts" and
    each: "\<And>i. i < length ts \<Longrightarrow> \<exists>d. ser (ts ! i) = Inr d \<and> with_id B d (sent ! i) \<and>
         m i = doc_get B (sent ! i) ''_id''" and
    rest: "\<And>j. length ts \<le> j \<Longrightarrow> m j = None" by auto
  from assms(2) many sent obtain resp where
    run: "run e (coll_database self) (insert_command B (coll_name self) (map BDocument sent)) = (Inr resp, e')"
    and n: "reported_count (doc_get B resp ''n'') = Some (length ts)" and res: "res = \<lparr>inserted_ids = m\<rparr>"
    by (auto simp: insert_many_def Let_def result_iffs expect_inserted_count_Inr split: prod.splits)
  have "m i \<noteq> None \<longleftrightarrow> i < length ts" for i
    using each [of i] rest [of i] by (cases "i < length ts") (auto simp: with_id_def)
  then have "dom m = {..<length ts}" by auto
  moreover have "ts \<noteq> []" using out sent by auto
  moreover have "\<forall>i<length ts. m i = doc_get B (sent ! i) ''_id'' \<and>
      (\<exists>d. ser (ts ! i) = Inr d \<and> with_id B d (sent ! i))" using each by blast
  ultimately show ?thesis
    using run n sent(2) unfolding res by (intro exI [of _ sent] exI [of _ resp]) simp
qed


theorem insert_many_reports_what_it_sent_witness:
  "insert_many alist_lib Inr (\<lambda>n. (n, n + 1)) scripted (Collection_new ''shop'' ''orders'')
     [tagged 7, ADoc [(''a'', BInt32 1)]] (40::nat) ([Inr (ADoc [(''n'', BInt32 2)])], []) =
     (Inr \<lparr>inserted_ids = [0 \<mapsto> BInt32 7, 1 \<mapsto> BObjectId 40]\<rparr>, 41, [],
      [(''shop'', insert_command alist_lib ''orders''
         [BDocument (tagged 7), BDocument (ADoc [(''a'', BInt32 1), (''_id'', BObjectId 40)])])]) \<and>
   dom (inserted_ids (\<lparr>inserted_ids = [0 \<mapsto> BInt32 7, 1 \<mapsto> BObjectId 40]\<rparr> :: adoc InsertManyResult)) = {..<2}"
proof
  show run: "insert_many alist_lib Inr (\<lambda>n. (n, n + 1)) scripted (Collection_new ''shop'' ''orders'')
     [tagged 7, ADoc [(''a'', BInt32 1)]] (40::nat) ([Inr (ADoc [(''n'', BInt32 2)])], []) =
     (Inr \<lparr>inserted_ids = [0 \<mapsto> BInt32 7, 1 \<mapsto> BObjectId 40]\<rparr>, 41, [],
      [(''shop'', insert_command alist_lib ''orders''
         [BDocument (tagged 7), BDocument (ADoc [(''a'', BInt32 1), (''_id'', BObjectId 40)])])])"
    by (simp add: insert_many_def serialize_many_def ensure_id_def tagged_def alist_lib_def
        Collection_new_def Let_def expect_inserted_count_def)
  from insert_many_reports_what_it_sent [OF bson_laws_alist run]
  show "dom (inserted_ids (\<lparr>inserted_ids = [0 \<mapsto> BInt32 7, 1 \<mapsto> BObjectId 40]\<rparr> :: adoc InsertManyResult)) = {..<2}"
    by (auto simp: numeral_2_eq_2)
qed

text \<open>C3: A cursor refines a list read from the front. When the server ends its cursor, whatever
  the sizes of its batches, a cursor stands for the list of results still to come: on the empty
  list \<open>next\<close> returns, answers nothing and leaves the cursor ended, with the engine where the
  last batch left it; on any other list it returns, answers the head, and the cursor stands for the
  tail.\<close>

theorem cursor_refines_list:
  assumes "remains B de run z self e rs"
  shows "case rs of
      [] \<Rightarrow> \<exists>self'. Cursor_next B de run self e = Some (None, self', z) \<and>
              remains B de run z self' z []
    | r # rs' \<Rightarrow> \<exists>self' e'. Cursor_next B de run self e = Some (Some r, self', e') \<and>
              remains B de run z self' e' rs'"
proof (cases rs)
  case Nil
  with assms have "remains B de run z self e []" by simp
  from remains_nil [OF this] obtain self' where
    "Cursor_next B de run self e = Some (None, self', z)" "cur_finished self'" "cur_id self' = 0"
    "cur_documents self' = []" by blast
  with assms Nil show ?thesis by (simp add: remains_def)
next
  case (Cons r rs')
  with remains_cons assms show ?thesis by auto
qed

theorem cursor_refines_list_witness:
  "\<exists>self' e'. Cursor_next alist_lib Inr scripted
      \<lparr>cur_database = ''shop'', cur_collection = ''orders'', cur_id = 9, cur_documents = [],
       cur_finished = False\<rparr> (demo_replies, []) = Some (Some (Inr (tagged 2)), self', e')"
proof -
  let ?c = "\<lparr>cur_database = ''shop'', cur_collection = ''orders'', cur_id = 9, cur_documents = [],
    cur_finished = False\<rparr>"
  have "remains alist_lib Inr scripted ([], demo_asked) ?c (demo_replies, []) [Inr (tagged 2)]"
    unfolding remains_def using demo_serves [of "[]"] bson_laws_alist
    by (intro conjI exI [of _ "[tagged 2]"]) auto
  from cursor_refines_list [OF this] show ?thesis by auto
qed

text \<open>C22: Finding and collecting answers every document of the result, in the server's order. If
  the reply to \<open>find\<close> carries a first batch and a cursor id, and the server serves the rest in any
  finite number of batches, then \<open>find\<close> answers a cursor and \<open>try_collect\<close> on it returns the
  deserialised documents of the first batch followed by those of the others, and sends the engine
  nothing but the \<open>getMore\<close> commands that fetched them.\<close>

theorem find_collects_everything:
  assumes "bson_laws B"
    and "run e (coll_database self) (find_command B (coll_name self) query) = (Inr resp, e1)"
    and "doc_get B resp ''cursor'' = Some (BDocument cur)"
    and "cursor_id_of (doc_get B cur ''id'') = Some cid"
    and "doc_get B cur ''firstBatch'' = Some (BArray (map BDocument ds))"
    and "serves B run (coll_database self) (coll_name self) e1 cid docs z"
    and "\<forall>d\<in>set (ds @ docs). de d = Inr (f d)"
  shows "\<exists>cursor. find_documents B run self query e = (Inr cursor, e1) \<and>
    Cursor_try_collect B de run cursor e1 = Some (Inr (map f (ds @ docs)), z)"
proof -
  let ?c = "\<lparr>cur_database = coll_database self, cur_collection = coll_name self, cur_id = cid,
    cur_documents = ds, cur_finished = False\<rparr>"
  have "take_cursor_batch B resp ''firstBatch'' = Inr (cid, ds)"
    by (rule reply_batch [OF assms(1,3,4,5)]) simp
  then have found: "find_documents B run self query e = (Inr ?c, e1)"
    by (simp add: find_documents_def assms(2) Cursor_from_response_def)
  have "remains B de run z ?c e1 (map Inr (map f (ds @ docs)))"
    unfolding remains_def using assms(1,6,7) by (intro conjI exI [of _ docs]) auto
  from try_collect_returns [OF this] found show ?thesis by (auto simp del: map_append map_map)
qed

theorem find_collects_everything_witness:
  "\<exists>cursor e1. find_documents alist_lib scripted (Collection_new ''shop'' ''orders'') (ADoc [])
       (Inr (batch_reply ''firstBatch'' 9 [tagged 1]) # demo_replies, []) = (Inr cursor, e1) \<and>
     Cursor_try_collect alist_lib Inr scripted cursor e1 =
       Some (Inr [tagged 1, tagged 2],
         [], (''shop'', find_command alist_lib ''orders'' (ADoc [])) # demo_asked)"
  using find_collects_everything [OF bson_laws_alist, of scripted
      "(Inr (batch_reply ''firstBatch'' 9 [tagged 1]) # demo_replies, [])"
      "Collection_new ''shop'' ''orders''" "ADoc []" "batch_reply ''firstBatch'' 9 [tagged 1]"
      "(demo_replies, [(''shop'', find_command alist_lib ''orders'' (ADoc []))])"
      "ADoc [(''id'', BInt64 9), (''firstBatch'', BArray (map BDocument [tagged 1]))]" 9 "[tagged 1]"
      "[tagged 2]" "([], (''shop'', find_command alist_lib ''orders'' (ADoc [])) # demo_asked)" Inr
      "\<lambda>d. d"]
    demo_serves [of "[(''shop'', find_command alist_lib ''orders'' (ADoc []))]"]
  by (simp add: batch_reply_def Collection_new_def) blast

text \<open>A cursor fails once. When the next batch cannot be fetched, \<open>next\<close> answers that error;
  every later call answers nothing and sends nothing; and dropping the cursor sends exactly one
  command, the \<open>killCursors\<close> for the id that is still open. A cursor whose id is zero is dropped
  without a command.\<close>

theorem cursor_fails_once:
  assumes "cur_documents self = []" and "\<not> cur_finished self" and "cur_id self \<noteq> 0"
    and "run e (cur_database self) (get_more_command B (cur_id self) (cur_collection self)) = (Inl err, e1)"
  shows "\<exists>self'. Cursor_next B de run self e = Some (Some (Inl err), self', e1) \<and>
    (\<forall>e2. Cursor_next B de run self' e2 = Some (None, self', e2) \<and>
       Cursor_drop B run self' e2 =
         snd (run e2 (cur_database self) (kill_cursors_command B (cur_collection self) (cur_id self))) \<and>
       Cursor_drop B run (self'\<lparr>cur_id := 0\<rparr>) e2 = e2)"
proof -
  let ?s = "self\<lparr>cur_finished := True\<rparr>"
  have "Cursor_next B de run self e = Some (Some (Inl err), ?s, e1)"
    using assms by (subst Cursor_next.simps) (simp add: fetch_next_batch_def)
  moreover have "Cursor_next B de run ?s e2 = Some (None, ?s, e2)" for e2
    using assms by (subst Cursor_next.simps) simp
  moreover have "Cursor_drop B run ?s e2 =
      snd (run e2 (cur_database self) (kill_cursors_command B (cur_collection self) (cur_id self)))" for e2
    using assms by (simp add: Cursor_drop_def Cursor_kill_def Let_def split: prod.splits)
  ultimately show ?thesis by (intro exI [of _ ?s]) (simp add: drop_ended)
qed


theorem cursor_fails_once_witness:
  "\<exists>self'. Cursor_next alist_lib Inr scripted
      \<lparr>cur_database = ''shop'', cur_collection = ''orders'', cur_id = 9, cur_documents = [],
       cur_finished = False\<rparr> ([Inl NonUtf8Path], []) =
        Some (Some (Inl NonUtf8Path :: adoc error + adoc), self',
          [], [(''shop'', get_more_command alist_lib 9 ''orders'')]) \<and>
     Cursor_drop alist_lib scripted self' ([], []) =
       ([], [(''shop'', kill_cursors_command alist_lib ''orders'' 9)])"
  using cursor_fails_once [of "\<lparr>cur_database = ''shop'', cur_collection = ''orders'', cur_id = 9,
      cur_documents = [], cur_finished = False\<rparr>" scripted "([Inl NonUtf8Path], [])" alist_lib
      NonUtf8Path "([], [(''shop'', get_more_command alist_lib 9 ''orders'')])" Inr]
  by auto

end
