(* ===== verification/Index_Repair.thy ===== *)
theory Index_Repair
  imports Crud
begin

text \<open>
  \<open>src/repair/\<close>: the one-time pass that looks for index entries an earlier build never wrote and
  repairs them: when it runs (\<open>mod.rs\<close>, \<open>origin.rs\<close>, \<open>marker.rs\<close>), which collections it visits
  (\<open>commands.rs\<close>), what it believes of a \<open>validate\<close> reply (\<open>report.rs\<close>) and what it says about it
  (\<open>announce.rs\<close>).

  The pass works on a \<open>world\<close>: the state of the engine, reached through the command runner of
  \<open>Crud\<close>, and the list of events so far, which holds the commands that were run with their replies
  and what was logged, in the order they happened. The data directory is a map from names to files;
  an operation on it that can fail takes its outcome from a record of faults, and writing the marker
  answers the directory after every system call, so that a process dying between two of them is one
  of the states.
\<close>

section \<open>Collections and reports\<close>

record Namespace =
  ns_database :: string
  ns_collection :: string

definition Namespace_new :: "string \<Rightarrow> string \<Rightarrow> Namespace" where
  "Namespace_new db collection = \<lparr>ns_database = db, ns_collection = collection\<rparr>"

definition Namespace_display :: "Namespace \<Rightarrow> string" where
  "Namespace_display self = ns_database self @ ''.'' @ ns_collection self"

record Damage =
  dm_errors :: "string list"
  dm_missing_index_entries :: nat

datatype Health = Sound | Damaged Damage | Inconclusive string

record Repaired =
  rp_inserted_index_entries :: i64
  rp_moved_documents :: i64
  rp_removed_corrupt_records :: i64
  rp_removed_extra_index_entries :: i64
  rp_lost_and_found :: "Namespace option"
  rp_warnings :: "string list"

definition VALIDATION_THREW :: string where
  "VALIDATION_THREW = ''exception during collection validation''"

definition strings :: "'d bson_lib \<Rightarrow> 'd \<Rightarrow> string \<Rightarrow> string list" where
  "strings B document key =
     (case get_array B document key of None \<Rightarrow> [] | Some values \<Rightarrow> List.map_filter as_str values)"

fun integer_value :: "'d bson option \<Rightarrow> i64" where
  "integer_value (Some (BInt32 v)) = scast v"
| "integer_value (Some (BInt64 v)) = v"
| "integer_value _ = 0"

definition Health_parse :: "'d bson_lib \<Rightarrow> 'd \<Rightarrow> Health" where
  "Health_parse B reply =
     (case List.find (\<lambda>warning. str_contains warning VALIDATION_THREW) (strings B reply ''warnings'') of
        Some reason \<Rightarrow> Inconclusive reason
      | None \<Rightarrow>
          (let errors = strings B reply ''errors'';
               missing = (case get_array B reply ''missingIndexEntries'' of
                            None \<Rightarrow> 0 | Some listed \<Rightarrow> length listed)
           in if unwrap_or False (get_bool B reply ''valid'') \<and> errors = [] \<and> missing = 0 then Sound
              else Damaged \<lparr>dm_errors = errors, dm_missing_index_entries = missing\<rparr>))"

definition lost_and_found :: "'d bson_lib \<Rightarrow> 'd \<Rightarrow> i64 \<Rightarrow> Namespace option" where
  "lost_and_found B reply moved =
     (if moved = 0 then None
      else case doc_get B reply ''uuid'' of
             Some (BBinary subtype bytes) \<Rightarrow>
               map_option (\<lambda>uuid. Namespace_new ''local'' (''lost_and_found.'' @ uuid))
                 (uuid_text B subtype bytes)
           | _ \<Rightarrow> None)"

definition Repaired_parse :: "'d bson_lib \<Rightarrow> 'd \<Rightarrow> Repaired" where
  "Repaired_parse B reply =
     (let moved = integer_value (doc_get B reply ''numDocumentsMovedToLostAndFound'')
      in \<lparr>rp_inserted_index_entries = integer_value (doc_get B reply ''numInsertedMissingIndexEntries''),
          rp_moved_documents = moved,
          rp_removed_corrupt_records = integer_value (doc_get B reply ''numRemovedCorruptRecords''),
          rp_removed_extra_index_entries = integer_value (doc_get B reply ''numRemovedExtraIndexEntries''),
          rp_lost_and_found = lost_and_found B reply moved,
          rp_warnings = strings B reply ''warnings''\<rparr>)"

definition changed_anything :: "Repaired \<Rightarrow> bool" where
  "changed_anything self \<longleftrightarrow>
     0 < sint (rp_inserted_index_entries self) \<or> 0 < sint (rp_moved_documents self) \<or>
     0 < sint (rp_removed_corrupt_records self) \<or> 0 < sint (rp_removed_extra_index_entries self)"

section \<open>Events\<close>

datatype 'd event =
    Ran string 'd "'d error + 'd"
  | Skipping_pass
  | Checking_directory
  | Pass_finished
  | Pass_incomplete
  | Cannot_list "'d error"
  | No_collection_listed nat
  | Cannot_check Namespace "'d error"
  | Repairing Namespace Damage
  | Repaired_entries Namespace Repaired
  | Deleted_records Namespace i64
  | Moved_to_unknown Namespace i64 "string list"
  | Still_damaged Namespace Damage
  | Cannot_record string

record ('e, 'd) world =
  wo_engine :: 'e
  wo_events :: "'d event list"

definition log_events :: "'d event list \<Rightarrow> ('e, 'd) world \<Rightarrow> ('e, 'd) world" where
  "log_events evs w = w\<lparr>wo_events := wo_events w @ evs\<rparr>"

text \<open>The runner of the world: the command runs on the engine and is an event.\<close>

definition traced :: "('e, 'd) runner \<Rightarrow> (('e, 'd) world, 'd) runner" where
  "traced run w db cmd =
     (let (reply, e) = run (wo_engine w) db cmd
      in (reply, log_events [Ran db cmd reply] (w\<lparr>wo_engine := e\<rparr>)))"

text \<open>What each announcement logs.\<close>

definition announce_damage :: "Namespace \<Rightarrow> Damage \<Rightarrow> 'd event list" where
  "announce_damage namespace damage = [Repairing namespace damage]"

definition announce_deletions :: "Namespace \<Rightarrow> Repaired \<Rightarrow> 'd event list" where
  "announce_deletions namespace repaired =
     (if rp_removed_corrupt_records repaired = 0 then []
      else [Deleted_records namespace (rp_removed_corrupt_records repaired)])"

definition announce_missing_destination :: "Namespace \<Rightarrow> Repaired \<Rightarrow> 'd event list" where
  "announce_missing_destination namespace repaired =
     (if rp_moved_documents repaired = 0 \<or> rp_lost_and_found repaired \<noteq> None then []
      else [Moved_to_unknown namespace (rp_moved_documents repaired) (rp_warnings repaired)])"

definition announce_repair :: "Namespace \<Rightarrow> Repaired \<Rightarrow> 'd event list" where
  "announce_repair namespace repaired =
     (if \<not> changed_anything repaired then []
      else Repaired_entries namespace repaired #
             announce_deletions namespace repaired @ announce_missing_destination namespace repaired)"

definition announce_residual_damage :: "Namespace \<Rightarrow> Damage \<Rightarrow> 'd event list" where
  "announce_residual_damage namespace residual = [Still_damaged namespace residual]"

section \<open>The commands\<close>

datatype Mode = Check_mode | Repair_mode

definition LIST_COLLECTIONS :: string where "LIST_COLLECTIONS = ''$cmd.listCollections''"
definition VIEW :: string where "VIEW = ''view''"

definition validate_command :: "'d bson_lib \<Rightarrow> Namespace \<Rightarrow> Mode \<Rightarrow> 'd" where
  "validate_command B namespace mode =
     (let cmd = doc_of B [(''validate'', BString (ns_collection namespace))]
      in if mode = Repair_mode then doc_insert B cmd ''repair'' (BBoolean True) else cmd)"

definition validate ::
  "'d bson_lib \<Rightarrow> ('w, 'd) runner \<Rightarrow> Namespace \<Rightarrow> Mode \<Rightarrow> 'w \<Rightarrow> ('d error + 'd) \<times> 'w" where
  "validate B run namespace mode w =
     run w (ns_database namespace) (validate_command B namespace mode)"

definition is_collection :: "'d bson_lib \<Rightarrow> 'd \<Rightarrow> bool" where
  "is_collection B entry = (get_str B entry ''type'' \<noteq> Some VIEW)"

partial_function (option) collections_loop ::
  "'d bson_lib \<Rightarrow> ('d \<Rightarrow> string + 'd) \<Rightarrow> ('w, 'd) runner \<Rightarrow> string \<Rightarrow> Namespace list \<Rightarrow> 'd Cursor
     \<Rightarrow> 'w \<Rightarrow> (('d error + Namespace list) \<times> 'd Cursor \<times> 'w) option" where
  "collections_loop B de run db acc cursor w =
     Option.bind (Cursor_next B de run cursor w) (\<lambda>(item, cursor', w').
       case item of
         None \<Rightarrow> Some (Inr acc, cursor', w')
       | Some r \<Rightarrow>
           (case r of
              Inl err \<Rightarrow> Some (Inl err, cursor', w')
            | Inr entry \<Rightarrow>
                if \<not> is_collection B entry then collections_loop B de run db acc cursor' w'
                else case get_str B entry ''name'' of
                       None \<Rightarrow> Some (Inl (InvalidResponse
                         ''listCollections response has an entry without a name''), cursor', w')
                     | Some name \<Rightarrow>
                         collections_loop B de run db (acc @ [Namespace_new db name]) cursor' w'))"

definition list_collections_command :: "'d bson_lib \<Rightarrow> 'd" where
  "list_collections_command B =
     doc_of B [(''listCollections'', BInt32 1), (''nameOnly'', BBoolean True)]"

definition collections ::
  "'d bson_lib \<Rightarrow> ('d \<Rightarrow> string + 'd) \<Rightarrow> ('w, 'd) runner \<Rightarrow> string \<Rightarrow> 'w
     \<Rightarrow> (('d error + Namespace list) \<times> 'w) option" where
  "collections B de run db w =
     (let (reply, w') = run w db (list_collections_command B)
      in case and_then reply (\<lambda>resp.
                Cursor_from_response B db LIST_COLLECTIONS resp ''firstBatch'') of
           Inl err \<Rightarrow> Some (Inl err, w')
         | Inr cursor \<Rightarrow>
             map_option (\<lambda>(r, cursor', w''). (r, Cursor_drop B run cursor' w''))
               (collections_loop B de run db [] cursor w'))"

record Catalog =
  cat_databases :: nat
  cat_namespaces :: "Namespace list"

fun databases_loop ::
  "'d bson_lib \<Rightarrow> ('d \<Rightarrow> string + 'd) \<Rightarrow> ('w, 'd) runner \<Rightarrow> 'd bson list \<Rightarrow> Namespace list \<Rightarrow> 'w
     \<Rightarrow> (('d error + Namespace list) \<times> 'w) option" where
  "databases_loop B de run [] acc w = Some (Inr acc, w)"
| "databases_loop B de run (entry # rest) acc w =
     (case Option.bind (as_document entry) (\<lambda>d. get_str B d ''name'') of
        None \<Rightarrow> Some (Inl (InvalidResponse ''listDatabases response has an entry without a name''), w)
      | Some name \<Rightarrow>
          Option.bind (collections B de run name w) (\<lambda>(r, w').
            case r of
              Inl err \<Rightarrow> Some (Inl err, w')
            | Inr found \<Rightarrow> databases_loop B de run rest (acc @ found) w'))"

definition list_databases_command :: "'d bson_lib \<Rightarrow> 'd" where
  "list_databases_command B =
     doc_of B [(''listDatabases'', BInt32 1), (''nameOnly'', BBoolean True)]"

definition namespaces ::
  "'d bson_lib \<Rightarrow> ('d \<Rightarrow> string + 'd) \<Rightarrow> ('w, 'd) runner \<Rightarrow> 'w \<Rightarrow> (('d error + Catalog) \<times> 'w) option" where
  "namespaces B de run w =
     (case run w ''admin'' (list_databases_command B) of
        (Inl err, w') \<Rightarrow> Some (Inl err, w')
      | (Inr reply, w') \<Rightarrow>
          (case doc_get B reply ''databases'' of
             Some (BArray dbs) \<Rightarrow>
               map_option (\<lambda>(r, w''). (map_ok (\<lambda>found.
                   \<lparr>cat_databases = length dbs, cat_namespaces = found\<rparr>) r, w''))
                 (databases_loop B de run dbs [] w')
           | _ \<Rightarrow> Some (Inl (InvalidResponse ''listDatabases response has no databases array''), w')))"

section \<open>One collection\<close>

definition did_not_finish :: "Namespace \<Rightarrow> string \<Rightarrow> 'd error" where
  "did_not_finish namespace reason =
     InvalidResponse (''validate on '' @ Namespace_display namespace @ '' did not finish: '' @ reason)"

definition visit ::
  "'d bson_lib \<Rightarrow> ('e, 'd) runner \<Rightarrow> Namespace \<Rightarrow> ('e, 'd) world \<Rightarrow> ('d error + unit) \<times> ('e, 'd) world" where
  "visit B run namespace w =
     (case validate B (traced run) namespace Check_mode w of
        (Inl err, w1) \<Rightarrow> (Inl err, w1)
      | (Inr reply, w1) \<Rightarrow>
          (case Health_parse B reply of
             Sound \<Rightarrow> (Inr (), w1)
           | Inconclusive reason \<Rightarrow> (Inl (did_not_finish namespace reason), w1)
           | Damaged damage \<Rightarrow>
               (case validate B (traced run) namespace Repair_mode
                       (log_events (announce_damage namespace damage) w1) of
                  (Inl err, w2) \<Rightarrow> (Inl err, w2)
                | (Inr repair_reply, w2) \<Rightarrow>
                    (case validate B (traced run) namespace Check_mode
                            (log_events (announce_repair namespace (Repaired_parse B repair_reply)) w2) of
                       (Inl err, w3) \<Rightarrow> (Inl err, w3)
                     | (Inr confirmation, w3) \<Rightarrow>
                         (case Health_parse B confirmation of
                            Sound \<Rightarrow> (Inr (), w3)
                          | Damaged residual \<Rightarrow>
                              (Inr (), log_events (announce_residual_damage namespace residual) w3)
                          | Inconclusive reason \<Rightarrow> (Inl (did_not_finish namespace reason), w3))))))"

section \<open>The pass\<close>

datatype Outcome = Complete | Incomplete

fun sweep_from ::
  "(Namespace \<Rightarrow> ('e, 'd) world \<Rightarrow> ('d error + unit) \<times> ('e, 'd) world) \<Rightarrow> Namespace list \<Rightarrow> Outcome
     \<Rightarrow> ('e, 'd) world \<Rightarrow> Outcome \<times> ('e, 'd) world" where
  "sweep_from check [] out w = (out, w)"
| "sweep_from check (namespace # rest) out w =
     (case check namespace w of
        (Inl err, w') \<Rightarrow> sweep_from check rest Incomplete (log_events [Cannot_check namespace err] w')
      | (Inr _, w') \<Rightarrow> sweep_from check rest out w')"

definition sweep ::
  "Namespace list \<Rightarrow> (Namespace \<Rightarrow> ('e, 'd) world \<Rightarrow> ('d error + unit) \<times> ('e, 'd) world)
     \<Rightarrow> ('e, 'd) world \<Rightarrow> Outcome \<times> ('e, 'd) world" where
  "sweep nss check w = sweep_from check nss Complete w"

definition pass ::
  "'d bson_lib \<Rightarrow> ('d \<Rightarrow> string + 'd) \<Rightarrow> ('e, 'd) runner \<Rightarrow> ('e, 'd) world
     \<Rightarrow> (Outcome \<times> ('e, 'd) world) option" where
  "pass B de run w =
     map_option (\<lambda>(listed, w').
       case listed of
         Inl err \<Rightarrow> (Incomplete, log_events [Cannot_list err] w')
       | Inr catalog \<Rightarrow>
           if 0 < cat_databases catalog \<and> cat_namespaces catalog = []
           then (Incomplete, log_events [No_collection_listed (cat_databases catalog)] w')
           else sweep (cat_namespaces catalog) (visit B run) w')
     (namespaces B de (traced run) w)"

section \<open>The data directory\<close>

datatype dir_file = Text string | Unreadable | Subdirectory

type_synonym directory = "string \<rightharpoonup> dir_file"

datatype Origin = PreExisting | Fresh

definition origin :: "directory \<Rightarrow> Origin" where
  "origin data_directory =
     (case data_directory ''WiredTiger'' of
        None \<Rightarrow> Fresh
      | Some Subdirectory \<Rightarrow> Fresh
      | Some _ \<Rightarrow> PreExisting)"

datatype MarkerState = Recorded | Missing

definition FILE_NAME :: string where "FILE_NAME = ''.embedded-mongodb-index-repair''"
definition PARTIAL_FILE_NAME :: string where
  "PARTIAL_FILE_NAME = ''.embedded-mongodb-index-repair.partial''"
definition RECORD :: string where "RECORD = ''embedded-mongodb index repair v1''"

definition newline :: string where "newline = [CHR 0x0A]"

definition EXPLANATION :: string where
  "EXPLANATION =
     ''Written by embedded-mongodb after checking this directory for the missing index entries that'' @
     newline @
     ''builds before the DatabaseHolder::openDb fix left behind. See the README section `Repairing a'' @
     newline @
     ''directory an older build damaged`. Delete this file to have the next open check again.'' @
     newline"

text \<open>\<open>read_to_string\<close> fails on a missing file, an unreadable one and one that is not UTF-8.\<close>

definition Marker_state :: "directory \<Rightarrow> MarkerState" where
  "Marker_state fs =
     (case fs FILE_NAME of
        Some (Text contents) \<Rightarrow> if first_line contents = Some RECORD then Recorded else Missing
      | _ \<Rightarrow> Missing)"

text \<open>Which of the system calls fail, and how much was written by a write that did.\<close>

record io_faults =
  create_fails :: "string option"
  write_fails :: "(nat \<times> string) option"
  sync_fails :: "string option"
  rename_fails :: "string option"
  remove_fails :: "string option"

text \<open>The directory at every moment of writing a file out, which may take any number of writes.\<close>

definition written :: "string \<Rightarrow> string \<Rightarrow> nat \<Rightarrow> directory \<Rightarrow> directory list" where
  "written name contents n fs = map (\<lambda>k. fs(name \<mapsto> Text (take k contents))) [0..<Suc n]"

definition marker_contents :: string where
  "marker_contents = RECORD @ newline @ EXPLANATION"

definition write_partial :: "io_faults \<Rightarrow> directory \<Rightarrow> (string + unit) \<times> directory list" where
  "write_partial faults fs =
     (case create_fails faults of
        Some err \<Rightarrow> (Inl err, [])
      | None \<Rightarrow>
          (case write_fails faults of
             Some (n, err) \<Rightarrow> (Inl err, written PARTIAL_FILE_NAME marker_contents n fs)
           | None \<Rightarrow>
               ((case sync_fails faults of Some err \<Rightarrow> Inl err | None \<Rightarrow> Inr ()),
                written PARTIAL_FILE_NAME marker_contents (length marker_contents) fs)))"

definition rename_partial :: "directory \<Rightarrow> directory" where
  "rename_partial fs = (fs(FILE_NAME := fs PARTIAL_FILE_NAME))(PARTIAL_FILE_NAME := None)"

definition Marker_record :: "io_faults \<Rightarrow> directory \<Rightarrow> (string + unit) \<times> directory list" where
  "Marker_record faults fs =
     (case write_partial faults fs of
        (Inr _, states) \<Rightarrow>
          (case rename_fails faults of
             Some err \<Rightarrow> (Inl err, states)
           | None \<Rightarrow> (Inr (), states @ [rename_partial (last (fs # states))]))
      | (Inl err, states) \<Rightarrow>
          (Inl err,
           (if remove_fails faults = None then states @ [(last (fs # states))(PARTIAL_FILE_NAME := None)]
            else states)))"

definition record_pass ::
  "io_faults \<Rightarrow> directory \<Rightarrow> ('e, 'd) world \<Rightarrow> directory list \<times> ('e, 'd) world" where
  "record_pass faults fs w =
     (case Marker_record faults fs of
        (Inr _, states) \<Rightarrow> (states, w)
      | (Inl err, states) \<Rightarrow> (states, log_events [Cannot_record err] w))"

section \<open>When the pass runs\<close>

text \<open>
  The variable's value is \<open>None\<close> when it is not set, and its characters by code point when it is
  Unicode; \<open>Some None\<close> is a value that is not.
\<close>

definition is_white_space :: "nat \<Rightarrow> bool" where
  "is_white_space c \<longleftrightarrow>
     9 \<le> c \<and> c \<le> 13 \<or> c = 32 \<or> c = 0x85 \<or> c = 0xA0 \<or> c = 0x1680 \<or> 0x2000 \<le> c \<and> c \<le> 0x200A \<or>
     c = 0x2028 \<or> c = 0x2029 \<or> c = 0x202F \<or> c = 0x205F \<or> c = 0x3000"

definition trim_text :: "nat list \<Rightarrow> nat list" where
  "trim_text s = rev (dropWhile is_white_space (rev (dropWhile is_white_space s)))"

definition lower_code :: "nat \<Rightarrow> nat" where
  "lower_code c = (if 65 \<le> c \<and> c \<le> 90 then c + 32 else c)"

definition SKIP_VALUES :: "string list" where
  "SKIP_VALUES = [''1'', ''true'', ''yes'', ''on'']"

definition skip_requested :: "nat list option option \<Rightarrow> bool" where
  "skip_requested var =
     (case var of
        Some (Some value) \<Rightarrow>
          list_ex (\<lambda>affirmative. map lower_code (trim_text value) = map (lower_code \<circ> of_char) affirmative)
            SKIP_VALUES
      | _ \<Rightarrow> False)"

definition run_repair ::
  "'d bson_lib \<Rightarrow> ('d \<Rightarrow> string + 'd) \<Rightarrow> ('e, 'd) runner \<Rightarrow> nat list option option \<Rightarrow> io_faults
     \<Rightarrow> Origin \<Rightarrow> directory \<Rightarrow> ('e, 'd) world \<Rightarrow> (directory list \<times> ('e, 'd) world) option" where
  "run_repair B de run var faults orig fs w =
     (if skip_requested var then Some ([], log_events [Skipping_pass] w)
      else if Marker_state fs = Recorded then Some ([], w)
      else if orig = Fresh then Some (record_pass faults fs w)
      else map_option (\<lambda>(out, w').
             case out of
               Complete \<Rightarrow> record_pass faults fs (log_events [Pass_finished] w')
             | Incomplete \<Rightarrow> ([], log_events [Pass_incomplete] w'))
           (pass B de run (log_events [Checking_directory] w)))"

end
