(* ===== verification/Repair_Pass.thy ===== *)
theory Repair_Pass
  imports Index_Repair
begin

text \<open>
  What the repair pass guarantees: the marker is written only over a directory that was checked to
  the end or was just created, it is whole or absent at every moment, only a collection found
  damaged is repaired, everything a repair moved or deleted is announced, one collection that
  cannot be checked does not stop the others, and the pass ends.

  The proofs describe the events of a pass as a sequence of segments, one for the listing and one
  for each collection visited; \<open>guarded\<close> is what holds of every segment and is closed under
  concatenation, \<open>settled\<close> is a segment whose collection was checked conclusively.
\<close>

section \<open>Commands without a repair\<close>

text \<open>An event that is not a command carrying a \<open>repair\<close> field.\<close>

fun quiet :: "'d bson_lib \<Rightarrow> 'd event \<Rightarrow> bool" where
  "quiet B (Ran db cmd r) = (doc_get B cmd ''repair'' = None)"
| "quiet B _ = True"

fun plain :: "'d bson_lib \<Rightarrow> 'd event \<Rightarrow> bool" where
  "plain B (Ran db cmd r) = (doc_get B cmd ''repair'' = None)"
| "plain B _ = False"

lemma plain_quiet: "plain B ev \<Longrightarrow> quiet B ev"
  by (cases ev) auto

text \<open>Between the two worlds there were only such commands.\<close>

definition quietly :: "'d bson_lib \<Rightarrow> ('e, 'd) world \<Rightarrow> ('e, 'd) world \<Rightarrow> bool" where
  "quietly B w w' \<longleftrightarrow> (\<exists>evs. wo_events w' = wo_events w @ evs \<and> list_all (plain B) evs)"

lemma quietly_refl [simp]: "quietly B w w"
  by (simp add: quietly_def)

lemma quietly_trans [trans]: "quietly B u v \<Longrightarrow> quietly B v w \<Longrightarrow> quietly B u w"
  by (force simp: quietly_def)

lemma events_log [simp]: "wo_events (log_events evs w) = wo_events w @ evs"
  by (simp add: log_events_def)

lemma events_traced:
  "traced run w db cmd = (r, w') \<Longrightarrow> wo_events w' = wo_events w @ [Ran db cmd r]"
  by (auto simp: traced_def Let_def split: prod.splits)

lemma quietly_traced:
  "traced run w db cmd = (r, w') \<Longrightarrow> doc_get B cmd ''repair'' = None \<Longrightarrow> quietly B w w'"
  by (drule events_traced) (simp add: quietly_def)

lemma commands_without_repair:
  assumes "bson_laws B"
  shows "doc_get B (get_more_command B cid coll) ''repair'' = None"
    and "doc_get B (kill_cursors_command B coll cid) ''repair'' = None"
    and "doc_get B (list_collections_command B) ''repair'' = None"
    and "doc_get B (list_databases_command B) ''repair'' = None"
    and "doc_get B (validate_command B ns Check_mode) ''repair'' = None"
  by (simp_all add: get_more_command_def kill_cursors_command_def list_collections_command_def
      list_databases_command_def validate_command_def doc_get_doc_of [OF assms])

lemma command_with_repair:
  "bson_laws B \<Longrightarrow> doc_get B (validate_command B ns Repair_mode) ''repair'' = Some (BBoolean True)"
  by (simp add: validate_command_def Let_def bson_laws_get)

lemma quietly_fetch:
  assumes "bson_laws B" and "fetch_next_batch B (traced run) c w = (r, c', w')"
  shows "quietly B w w'"
proof -
  obtain reply v where t: "traced run w (cur_database c) (get_more_command B (cur_id c) (cur_collection c)) = (reply, v)"
    by fastforce
  with assms(2) have "w' = v" by (auto simp: fetch_next_batch_def split: sum.splits)
  with quietly_traced [OF t] commands_without_repair(1) [OF assms(1)] show ?thesis by simp
qed

lemma quietly_drop:
  assumes "bson_laws B"
  shows "quietly B w (Cursor_drop B (traced run) c w)"
proof (cases "cur_id c = 0")
  case True
  then show ?thesis by (simp add: drop_ended)
next
  case False
  obtain reply v where t: "traced run w (cur_database c) (kill_cursors_command B (cur_collection c) (cur_id c)) = (reply, v)"
    by fastforce
  with False have "Cursor_drop B (traced run) c w = v" by (simp add: Cursor_drop_def Cursor_kill_def Let_def)
  with quietly_traced [OF t] commands_without_repair(2) [OF assms] show ?thesis by simp
qed

lemma quietly_next:
  assumes "Cursor_next B de (traced run) c w = Some (item, c', w')" and "bson_laws B"
  shows "quietly B w w'"
  using assms by (induction rule: Cursor_next_induct) (auto dest: quietly_fetch elim: quietly_trans)

lemma quietly_collections_loop:
  assumes "bson_laws B" and "collections_loop B de (traced run) db acc c w = Some (r, c', w')"
  shows "quietly B w w'"
proof -
  have "B' = B \<longrightarrow> run' = traced run \<longrightarrow> quietly B w (snd (snd y))"
    if "collections_loop B' de' run' db acc c w = Some y" for B' de' run' db acc c w y
  proof (rule collections_loop.raw_induct [OF _ that], intro impI, goal_cases)
    case (1 loop B' de' run' db acc c w y)
    then obtain item c1 w1 where n: "Cursor_next B de' (traced run) c w = Some (item, c1, w1)"
      by (auto split: bind_splits)
    have "quietly B w1 (snd (snd y))"
      using 1 n by (auto split: option.splits sum.splits if_splits)
    with quietly_next [OF n assms(1)] show ?case by (rule quietly_trans)
  qed
  from this [OF assms(2)] show ?thesis by simp
qed

lemma quietly_collections:
  assumes "bson_laws B" and "collections B de (traced run) db w = Some (r, w')"
  shows "quietly B w w'"
proof -
  obtain reply v where t: "traced run w db (list_collections_command B) = (reply, v)" by fastforce
  have v: "quietly B w v" using quietly_traced [OF t] commands_without_repair(3) [OF assms(1)] by simp
  show ?thesis
  proof (cases "and_then reply (\<lambda>resp. Cursor_from_response B db LIST_COLLECTIONS resp ''firstBatch'')")
    case (Inl err)
    with assms(2) t v show ?thesis by (simp add: collections_def)
  next
    case (Inr cursor)
    with assms(2) t obtain c1 w1 where
      l: "collections_loop B de (traced run) db [] cursor v = Some (r, c1, w1)" and
      w': "w' = Cursor_drop B (traced run) c1 w1" by (auto simp: collections_def)
    note v
    also have "quietly B v w1" by (rule quietly_collections_loop [OF assms(1) l])
    also have "quietly B w1 w'" unfolding w' by (rule quietly_drop [OF assms(1)])
    finally show ?thesis .
  qed
qed

lemma quietly_databases_loop:
  assumes "bson_laws B"
  shows "databases_loop B de (traced run) dbs acc w = Some (r, w') \<Longrightarrow> quietly B w w'"
proof (induction dbs arbitrary: acc w)
  case Nil
  then show ?case by simp
next
  case (Cons d dbs)
  show ?case
  proof (cases "Option.bind (as_document d) (\<lambda>d. get_str B d ''name'')")
    case None
    with Cons.prems show ?thesis by simp
  next
    case (Some name)
    with Cons.prems obtain r1 w1 where c: "collections B de (traced run) name w = Some (r1, w1)"
      by (auto split: bind_splits)
    have "quietly B w1 w'" using Cons Some c by (auto split: sum.splits)
    with quietly_collections [OF assms c] show ?thesis by (rule quietly_trans)
  qed
qed

lemma quietly_namespaces:
  assumes "bson_laws B" and "namespaces B de (traced run) w = Some (r, w')"
  shows "quietly B w w'"
proof -
  obtain reply v where t: "traced run w ''admin'' (list_databases_command B) = (reply, v)" by fastforce
  have v: "quietly B w v" using quietly_traced [OF t] commands_without_repair(4) [OF assms(1)] by simp
  moreover have "quietly B v w'"
    using assms(2) t
    by (auto simp: namespaces_def dest: quietly_databases_loop [OF assms(1)]
        split: sum.splits option.splits bson.splits)
  ultimately show ?thesis by (rule quietly_trans)
qed

section \<open>Guarded repairs\<close>

text \<open>
  Every command with a \<open>repair\<close> field is a \<open>validate\<close> of a collection whose plain \<open>validate\<close> came
  right before it and was damage, announced in between; and what its reply says was done is
  announced right after it.
\<close>

definition guarded :: "'d bson_lib \<Rightarrow> 'd event list \<Rightarrow> bool" where
  "guarded B evs \<longleftrightarrow>
     (\<forall>pre db cmd r post. evs = pre @ Ran db cmd r # post \<and> doc_get B cmd ''repair'' \<noteq> None \<longrightarrow>
        (\<exists>ns reply damage pre' post'.
           db = ns_database ns \<and> cmd = validate_command B ns Repair_mode \<and>
           Health_parse B reply = Damaged damage \<and>
           pre = pre' @ [Ran db (validate_command B ns Check_mode) (Inr reply), Repairing ns damage] \<and>
           post = (case r of Inl _ \<Rightarrow> [] | Inr resp \<Rightarrow> announce_repair ns (Repaired_parse B resp)) @ post'))"

lemma guarded_quiet: "list_all (quiet B) evs \<Longrightarrow> guarded B evs"
  by (auto simp: guarded_def)

lemma guarded_Nil [simp]: "guarded B []"
  by (simp add: guarded_def)

lemma guarded_append:
  assumes "guarded B xs" and "guarded B ys"
  shows "guarded B (xs @ ys)"
  unfolding guarded_def
proof (intro allI impI, elim conjE)
  fix pre db cmd r post
  assume split: "xs @ ys = pre @ Ran db cmd r # post" and rep: "doc_get B cmd ''repair'' \<noteq> None"
  let ?spec = "\<lambda>pre post. \<exists>ns reply damage pre' post'.
     db = ns_database ns \<and> cmd = validate_command B ns Repair_mode \<and>
     Health_parse B reply = Damaged damage \<and>
     pre = pre' @ [Ran db (validate_command B ns Check_mode) (Inr reply), Repairing ns damage] \<and>
     post = (case r of Inl _ \<Rightarrow> [] | Inr resp \<Rightarrow> announce_repair ns (Repaired_parse B resp)) @ post'"
  have wider: "?spec (l @ pre) (post @ m)" if "?spec pre post" for l pre post m
    using that by (metis append.assoc)
  from split consider us where "pre = xs @ us" "ys = us @ Ran db cmd r # post"
    | us where "xs = pre @ Ran db cmd r # us" "post = us @ ys"
    by (auto simp: append_eq_append_conv2 append_eq_Cons_conv Cons_eq_append_conv)
  then show "?spec pre post"
  proof cases
    case 1
    from assms(2) 1(2) rep have "?spec us post" unfolding guarded_def by blast
    from wider [OF this, of xs "[]"] 1(1) show ?thesis by simp
  next
    case 2
    from assms(1) 2(1) rep have "?spec pre us" unfolding guarded_def by blast
    from wider [OF this, of "[]" ys] 2(2) show ?thesis by simp
  qed
qed

lemma guarded_concat: "list_all (guarded B) segs \<Longrightarrow> guarded B (concat segs)"
  by (induction segs) (auto intro: guarded_append)

lemma split_unique:
  "p @ x # q = p' @ x' # q' \<Longrightarrow> P x \<Longrightarrow> list_all (\<lambda>y. \<not> P y) p' \<Longrightarrow> list_all (\<lambda>y. \<not> P y) q' \<Longrightarrow>
     p = p' \<and> x = x' \<and> q = q'"
proof (induction p arbitrary: p')
  case Nil
  then show ?case by (cases p') auto
next
  case (Cons y p)
  then show ?case by (cases p') (auto simp: list_all_iff)
qed

lemma guarded_repair:
  assumes "bson_laws B" and "Health_parse B reply = Damaged damage"
    and "list_all (quiet B) post"
    and "post = (case r of Inl _ \<Rightarrow> [] | Inr resp \<Rightarrow> announce_repair ns (Repaired_parse B resp)) @ post'"
  shows "guarded B ([Ran (ns_database ns) (validate_command B ns Check_mode) (Inr reply), Repairing ns damage] @
    Ran (ns_database ns) (validate_command B ns Repair_mode) r # post)"
  unfolding guarded_def
proof (intro allI impI, elim conjE)
  let ?pre = "[Ran (ns_database ns) (validate_command B ns Check_mode) (Inr reply), Repairing ns damage]"
  fix pre db cmd r' post2
  assume split: "?pre @ Ran (ns_database ns) (validate_command B ns Repair_mode) r # post = pre @ Ran db cmd r' # post2"
    and rep: "doc_get B cmd ''repair'' \<noteq> None"
  have "list_all (\<lambda>y. \<not> \<not> quiet B y) ?pre" using commands_without_repair(5) [OF assms(1)] by simp
  with split_unique [OF split [symmetric], of "\<lambda>y. \<not> quiet B y"] rep assms(3)
  have "pre = ?pre" "db = ns_database ns" "cmd = validate_command B ns Repair_mode" "r' = r" "post2 = post"
    by auto
  with assms(2,4) show "\<exists>ns reply damage pre' post'.
      db = ns_database ns \<and> cmd = validate_command B ns Repair_mode \<and>
      Health_parse B reply = Damaged damage \<and>
      pre = pre' @ [Ran db (validate_command B ns Check_mode) (Inr reply), Repairing ns damage] \<and>
      post2 = (case r' of Inl _ \<Rightarrow> [] | Inr resp \<Rightarrow> announce_repair ns (Repaired_parse B resp)) @ post'"
    by (intro exI [of _ ns] exI [of _ reply] exI [of _ damage] exI [of _ "[]"] exI [of _ post']) simp
qed

lemma quiet_announce: "list_all (quiet B) (announce_repair ns repaired)"
  by (simp add: announce_repair_def announce_deletions_def announce_missing_destination_def)

section \<open>A visit\<close>

definition settled :: "'d bson_lib \<Rightarrow> Namespace \<Rightarrow> 'd event list \<Rightarrow> bool" where
  "settled B ns evs \<longleftrightarrow>
     (\<exists>reply. Health_parse B reply = Sound \<and>
        evs = [Ran (ns_database ns) (validate_command B ns Check_mode) (Inr reply)]) \<or>
     (\<exists>reply damage resp confirmation.
        Health_parse B reply = Damaged damage \<and>
        (\<forall>reason. Health_parse B confirmation \<noteq> Inconclusive reason) \<and>
        evs =
          [Ran (ns_database ns) (validate_command B ns Check_mode) (Inr reply), Repairing ns damage,
           Ran (ns_database ns) (validate_command B ns Repair_mode) (Inr resp)] @
          announce_repair ns (Repaired_parse B resp) @
          [Ran (ns_database ns) (validate_command B ns Check_mode) (Inr confirmation)] @
          (case Health_parse B confirmation of Damaged residual \<Rightarrow> [Still_damaged ns residual] | _ \<Rightarrow> []))"

definition visited :: "'d bson_lib \<Rightarrow> Namespace \<Rightarrow> 'd event list \<Rightarrow> bool" where
  "visited B ns seg \<longleftrightarrow>
     guarded B seg \<and>
     (\<exists>reply. Ran (ns_database ns) (validate_command B ns Check_mode) reply \<in> set seg)"

lemma visit_checks:
  assumes laws: "bson_laws B" and "visit B run ns w = (r, w')"
  shows "\<exists>seg. wo_events w' = wo_events w @ seg \<and> visited B ns seg \<and> (r = Inr () \<longrightarrow> settled B ns seg)"
proof -
  let ?check = "\<lambda>r. Ran (ns_database ns) (validate_command B ns Check_mode) r"
  let ?repair = "\<lambda>r. Ran (ns_database ns) (validate_command B ns Repair_mode) r"
  obtain r1 w1 where t1: "traced run w (ns_database ns) (validate_command B ns Check_mode) = (r1, w1)"
    by fastforce
  note e1 = events_traced [OF t1]
  have quiet1: "list_all (quiet B) [?check x]" for x using commands_without_repair(5) [OF laws] by simp
  show ?thesis
  proof (cases "\<exists>reply damage. r1 = Inr reply \<and> Health_parse B reply = Damaged damage")
    case False
    then have "w' = w1 \<and> (r = Inr () \<longrightarrow> (\<exists>reply. r1 = Inr reply \<and> Health_parse B reply = Sound))"
      using assms(2) t1 by (auto simp: visit_def validate_def split: sum.splits Health.splits)
    then show ?thesis using e1 guarded_quiet [OF quiet1]
      by (intro exI [of _ "[?check r1]"]) (auto simp: visited_def settled_def)
  next
    case True
    then obtain reply damage where d: "r1 = Inr reply" "Health_parse B reply = Damaged damage" by blast
    obtain r2 w2 where t2: "traced run (log_events (announce_damage ns damage) w1) (ns_database ns)
        (validate_command B ns Repair_mode) = (r2, w2)" by fastforce
    note e2 = events_traced [OF t2]
    show ?thesis
    proof (cases r2)
      case (Inl err)
      then have "w' = w2 \<and> r = Inl err" using assms(2) t1 t2 d by (simp add: visit_def validate_def)
      then show ?thesis using e1 e2 d Inl guarded_repair [OF laws d(2), where post = "[]" and r = r2 and ns = ns and post' = "[]"]
        by (intro exI [of _ "[?check r1, Repairing ns damage, ?repair r2]"])
          (auto simp: visited_def announce_damage_def)
    next
      case (Inr resp)
      let ?ann = "announce_repair ns (Repaired_parse B resp)"
      obtain r3 w3 where t3: "traced run (log_events ?ann w2) (ns_database ns)
          (validate_command B ns Check_mode) = (r3, w3)" by fastforce
      note e3 = events_traced [OF t3]
      obtain tail where w': "wo_events w' = wo_events w3 @ tail" "list_all (quiet B) tail"
        and settles: "r = Inr () \<longrightarrow> (\<exists>conf. r3 = Inr conf \<and>
          (\<forall>reason. Health_parse B conf \<noteq> Inconclusive reason) \<and>
          tail = (case Health_parse B conf of Damaged residual \<Rightarrow> [Still_damaged ns residual] | _ \<Rightarrow> []))"
        using assms(2) t1 t2 t3 d Inr
        by (cases r3) (auto simp: visit_def validate_def announce_residual_damage_def split: Health.splits)
      let ?post = "?ann @ ?check r3 # tail"
      have "guarded B ([?check r1, Repairing ns damage] @ ?repair r2 # ?post)"
        unfolding d(1)
        by (rule guarded_repair [OF laws d(2), where post' = "?check r3 # tail"])
          (use quiet1 quiet_announce w'(2) Inr in auto)
      moreover have "wo_events w' = wo_events w @ [?check r1, Repairing ns damage] @ ?repair r2 # ?post"
        using e1 e2 e3 w' by (simp add: announce_damage_def)
      moreover have "r = Inr () \<longrightarrow> settled B ns ([?check r1, Repairing ns damage] @ ?repair r2 # ?post)"
        using settles d Inr by (auto simp: settled_def)
      ultimately show ?thesis by (fastforce simp: visited_def)
    qed
  qed
qed

section \<open>A sweep\<close>

lemma sweep_visits_all:
  assumes laws: "bson_laws B"
  shows "sweep_from (visit B run) nss out w = (out', w') \<Longrightarrow>
    \<exists>segs. wo_events w' = wo_events w @ concat segs \<and> list_all2 (visited B) nss segs \<and>
      (out' = Complete \<longrightarrow> out = Complete \<and> list_all2 (settled B) nss segs)"
proof (induction nss arbitrary: out w)
  case Nil
  then show ?case by (intro exI [of _ "[]"]) simp
next
  case (Cons ns nss)
  obtain r w1 where v: "visit B run ns w = (r, w1)" by fastforce
  from visit_checks [OF laws v] obtain seg where
    seg: "wo_events w1 = wo_events w @ seg" "visited B ns seg" "r = Inr () \<longrightarrow> settled B ns seg" by blast
  show ?case
  proof (cases r)
    case (Inr u)
    with Cons.prems v have "sweep_from (visit B run) nss out w1 = (out', w')" by simp
    from Cons.IH [OF this] obtain segs where
      "wo_events w' = wo_events w1 @ concat segs" "list_all2 (visited B) nss segs"
      "out' = Complete \<longrightarrow> out = Complete \<and> list_all2 (settled B) nss segs" by blast
    with seg Inr show ?thesis by (intro exI [of _ "seg # segs"]) simp
  next
    case (Inl err)
    with Cons.prems v have "sweep_from (visit B run) nss Incomplete (log_events [Cannot_check ns err] w1) = (out', w')"
      by simp
    from Cons.IH [OF this] obtain segs where
      "wo_events w' = wo_events w1 @ [Cannot_check ns err] @ concat segs" "list_all2 (visited B) nss segs"
      "out' \<noteq> Complete" by auto
    moreover have "visited B ns (seg @ [Cannot_check ns err])"
      using seg(2) guarded_append [of B seg "[Cannot_check ns err]"] guarded_quiet [of B "[Cannot_check ns err]"]
      by (auto simp: visited_def)
    ultimately show ?thesis using seg(1) by (intro exI [of _ "(seg @ [Cannot_check ns err]) # segs"]) simp
  qed
qed

section \<open>A pass\<close>

lemma announce_no_failure: "Cannot_check ns' err \<notin> set (announce_repair ns repaired)"
  by (simp add: announce_repair_def announce_deletions_def announce_missing_destination_def)

lemma settled_no_failure:
  assumes "settled B ns seg"
  shows "Cannot_check ns' err \<notin> set seg"
proof -
  have "Cannot_check ns' err \<notin> set (case h of Damaged residual \<Rightarrow> [Still_damaged ns residual] | _ \<Rightarrow> [])" for h
    by (cases h) auto
  with assms announce_no_failure [of ns' err ns] show ?thesis
    unfolding settled_def by (elim disjE exE conjE) simp_all
qed

lemma pass_events:
  assumes laws: "bson_laws B" and "pass B de run w = Some (out, w')"
  shows "\<exists>evs. wo_events w' = wo_events w @ evs \<and> guarded B evs \<and>
    (\<forall>cat w1. namespaces B de (traced run) w = Some (Inr cat, w1) \<longrightarrow>
       (\<forall>ns\<in>set (cat_namespaces cat).
          \<exists>reply. Ran (ns_database ns) (validate_command B ns Check_mode) reply \<in> set evs)) \<and>
    (out = Complete \<longrightarrow> (\<exists>cat w1 listing segs.
       namespaces B de (traced run) w = Some (Inr cat, w1) \<and>
       (cat_databases cat = 0 \<or> cat_namespaces cat \<noteq> []) \<and>
       evs = listing @ concat segs \<and> list_all (plain B) listing \<and>
       list_all2 (settled B) (cat_namespaces cat) segs))"
proof -
  obtain listed w1 where n: "namespaces B de (traced run) w = Some (listed, w1)"
    using assms(2) by (auto simp: pass_def)
  from quietly_namespaces [OF laws n] obtain listing where
    listing: "wo_events w1 = wo_events w @ listing" "list_all (plain B) listing" by (auto simp: quietly_def)
  then have g: "guarded B listing" by (auto intro: guarded_quiet simp: list_all_iff plain_quiet)
  have g1: "guarded B (listing @ [ev])" if "quiet B ev" for ev
    using that by (intro guarded_append [OF g] guarded_quiet) simp
  show ?thesis
  proof (cases listed)
    case (Inl err)
    with assms(2) n have "out = Incomplete" "w' = log_events [Cannot_list err] w1" by (auto simp: pass_def)
    with Inl n listing g1 show ?thesis by (intro exI [of _ "listing @ [Cannot_list err]"]) simp
  next
    case (Inr cat)
    show ?thesis
    proof (cases "0 < cat_databases cat \<and> cat_namespaces cat = []")
      case True
      with assms(2) n Inr have "out = Incomplete" "w' = log_events [No_collection_listed (cat_databases cat)] w1"
        by (auto simp: pass_def)
      with True Inr n listing g1 show ?thesis
        by (intro exI [of _ "listing @ [No_collection_listed (cat_databases cat)]"]) simp
    next
      case False
      with assms(2) n Inr have "sweep_from (visit B run) (cat_namespaces cat) Complete w1 = (out, w')"
        by (auto simp: pass_def sweep_def)
      from sweep_visits_all [OF laws this] obtain segs where
        segs: "wo_events w' = wo_events w1 @ concat segs" "list_all2 (visited B) (cat_namespaces cat) segs"
          "out = Complete \<longrightarrow> list_all2 (settled B) (cat_namespaces cat) segs" by blast
      have "list_all (guarded B) segs"
        using segs(2) by (induction rule: list_all2_induct) (auto simp: visited_def)
      then have "guarded B (listing @ concat segs)" by (intro guarded_append [OF g] guarded_concat)
      moreover have "\<exists>reply. Ran (ns_database ns) (validate_command B ns Check_mode) reply \<in> set (listing @ concat segs)"
        if "ns \<in> set (cat_namespaces cat)" for ns
        using segs(2) that by (induction rule: list_all2_induct) (auto simp: visited_def)
      ultimately show ?thesis using Inr n listing segs False
        by (intro exI [of _ "listing @ concat segs"]) (simp, blast)
    qed
  qed
qed

section \<open>The marker\<close>

lemma first_line_before_newline:
  assumes "CHR 0x0A \<notin> set r" and "r = [] \<or> last r \<noteq> CHR 0x0D"
  shows "first_line (r @ newline @ rest) = Some r"
proof -
  have "takeWhile (\<lambda>c. c \<noteq> CHR 0x0A) (r @ newline @ rest) = r"
    using assms(1) by (induction r) (auto simp: newline_def)
  with assms(2) show ?thesis by (auto simp: first_line_def Let_def strip_cr_def newline_def)
qed

lemma first_line_marker: "first_line marker_contents = Some RECORD"
  unfolding marker_contents_def by (rule first_line_before_newline) (simp_all add: RECORD_def)

lemma file_names_differ: "PARTIAL_FILE_NAME \<noteq> FILE_NAME"
  by (simp add: PARTIAL_FILE_NAME_def FILE_NAME_def)

lemma written_keeps: "fs' \<in> set (written PARTIAL_FILE_NAME c n fs) \<Longrightarrow> fs' FILE_NAME = fs FILE_NAME"
  using file_names_differ by (auto simp: written_def)

lemma write_partial_keeps:
  "write_partial faults fs = (r, states) \<Longrightarrow> fs' \<in> set states \<Longrightarrow> fs' FILE_NAME = fs FILE_NAME"
  by (auto simp: write_partial_def written_keeps split: option.splits)

lemma write_partial_last:
  "write_partial faults fs = (Inr u, states) \<Longrightarrow> last (fs # states) PARTIAL_FILE_NAME = Some (Text marker_contents)"
  by (auto simp: write_partial_def written_def split: option.splits)

lemma last_keeps:
  assumes "write_partial faults fs = (r, states)"
  shows "last (fs # states) FILE_NAME = fs FILE_NAME"
  using write_partial_keeps [OF assms, of "last (fs # states)"] by (cases states) auto

lemma Marker_record_states:
  assumes "Marker_record faults fs = (r, states)"
  shows "(\<forall>fs'\<in>set states. fs' FILE_NAME = fs FILE_NAME) \<or>
    r = Inr () \<and> (\<exists>before. states = before @ [rename_partial (last (fs # before))] \<and>
      (\<forall>fs'\<in>set before. fs' FILE_NAME = fs FILE_NAME) \<and>
      last states FILE_NAME = Some (Text marker_contents) \<and> last states PARTIAL_FILE_NAME = None)"
proof -
  obtain p sts where p: "write_partial faults fs = (p, sts)" by fastforce
  show ?thesis
  proof (cases "p = Inr () \<and> rename_fails faults = None")
    case True
    with assms p have "r = Inr ()" "states = sts @ [rename_partial (last (fs # sts))]"
      by (auto simp: Marker_record_def)
    with True write_partial_last [of faults fs "()" sts] write_partial_keeps [OF p] p file_names_differ
    show ?thesis by (auto simp: rename_partial_def)
  next
    case False
    have "states = sts \<or> states = sts @ [(last (fs # sts))(PARTIAL_FILE_NAME := None)]"
    proof (cases p)
      case (Inl err)
      with assms p show ?thesis by (simp add: Marker_record_def del: last.simps split: if_splits)
    next
      case (Inr u)
      with assms p False show ?thesis by (auto simp: Marker_record_def simp del: last.simps split: option.splits)
    qed
    moreover have "((last (fs # sts))(PARTIAL_FILE_NAME := None)) FILE_NAME = fs FILE_NAME"
      using last_keeps [OF p] file_names_differ by (simp del: last.simps)
    ultimately have "\<forall>fs'\<in>set states. fs' FILE_NAME = fs FILE_NAME"
      using write_partial_keeps [OF p] by (auto simp del: last.simps)
    then show ?thesis by blast
  qed
qed

lemma Marker_state_same: "fs' FILE_NAME = fs FILE_NAME \<Longrightarrow> Marker_state fs' = Marker_state fs"
  by (simp add: Marker_state_def)

text \<open>
  A rename that fails leaves the partial file where it is: only a write that fails removes it.
\<close>

lemma failed_rename_leaves_partial:
  assumes "create_fails faults = None" and "write_fails faults = None" and "sync_fails faults = None"
    and "rename_fails faults = Some err"
  shows "fst (Marker_record faults fs) = Inl err"
    and "last (fs # snd (Marker_record faults fs)) PARTIAL_FILE_NAME = Some (Text marker_contents)"
  using assms by (auto simp: Marker_record_def write_partial_def written_def)

section \<open>The pass returns\<close>

text \<open>
  Asking for more of a cursor ends: after finitely many batches its id is zero or the engine answers
  an error or something that is not a batch.
\<close>

inductive cursor_ends ::
  "'d bson_lib \<Rightarrow> ('e, 'd) runner \<Rightarrow> string \<Rightarrow> string \<Rightarrow> 'e \<Rightarrow> i64 \<Rightarrow> bool" for B run db coll where
  ends_zero: "cursor_ends B run db coll e 0"
| ends_asked: "run e db (get_more_command B cid coll) = (r, e1) \<Longrightarrow>
    (\<And>resp cid' ds. r = Inr resp \<Longrightarrow> take_cursor_batch B resp ''nextBatch'' = Inr (cid', ds) \<Longrightarrow>
       cursor_ends B run db coll e1 cid') \<Longrightarrow>
    cursor_ends B run db coll e cid"

lemma cursor_ends_traced:
  assumes "cursor_ends B run db coll e cid" and "e = wo_engine w"
  shows "cursor_ends B (traced run) db coll w cid"
  using assms
proof (induction arbitrary: w)
  case (ends_zero e)
  show ?case by (rule cursor_ends.ends_zero)
next
  case (ends_asked e cid r e1)
  show ?case
  proof (rule cursor_ends.ends_asked)
    show "traced run w db (get_more_command B cid coll) =
        (r, log_events [Ran db (get_more_command B cid coll) r] (w\<lparr>wo_engine := e1\<rparr>))"
      using ends_asked.hyps(1) ends_asked.prems by (simp add: traced_def)
  next
    fix resp cid' ds
    assume "r = Inr resp" "take_cursor_batch B resp ''nextBatch'' = Inr (cid', ds)"
    then show "cursor_ends B (traced run) db coll
        (log_events [Ran db (get_more_command B cid coll) r] (w\<lparr>wo_engine := e1\<rparr>)) cid'"
      by (rule ends_asked.IH) (simp add: log_events_def)
  qed
qed

lemma loop_buffered:
  assumes "\<And>acc. \<exists>y. collections_loop B de run db acc (c\<lparr>cur_documents := []\<rparr>) w = Some y"
  shows "\<exists>y. collections_loop B de run db acc (c\<lparr>cur_documents := ds\<rparr>) w = Some y"
proof (induction ds arbitrary: acc)
  case Nil
  show ?case by (rule assms)
next
  case (Cons d ds)
  have n: "Cursor_next B de run (c\<lparr>cur_documents := d # ds\<rparr>) w =
      Some (Some (map_err Bson (de d)), c\<lparr>cur_documents := ds\<rparr>, w)"
    by (subst Cursor_next.simps) simp
  show ?case using Cons.IH
    by (subst collections_loop.simps) (auto simp: n split: sum.splits option.splits)
qed

lemma loop_returns:
  assumes "cursor_ends B run db' coll w cid"
    and "cur_database c = db'" and "cur_collection c = coll" and "cur_id c = cid"
  shows "\<exists>y. collections_loop B de run db acc c w = Some y"
  using assms
proof (induction arbitrary: c acc)
  case (ends_zero w)
  have "Cursor_next B de run (c\<lparr>cur_documents := []\<rparr>) w = Some (None, c\<lparr>cur_documents := [], cur_finished := True\<rparr>, w)"
    using ends_zero by (subst Cursor_next.simps) simp
  then have "\<exists>y. collections_loop B de run db acc (c\<lparr>cur_documents := []\<rparr>) w = Some y" for acc
    by (subst collections_loop.simps) simp
  from loop_buffered [OF this, of acc "cur_documents c"] show ?case by simp
next
  case (ends_asked w cid r w1)
  let ?c = "c\<lparr>cur_documents := []\<rparr>"
  have "\<exists>y. collections_loop B de run db acc ?c w = Some y" for acc
  proof (cases "cur_finished c \<or> cid = 0")
    case True
    then have "Cursor_next B de run ?c w = Some (None, ?c\<lparr>cur_finished := True\<rparr>, w)"
      using ends_asked.prems by (subst Cursor_next.simps) auto
    then show ?thesis by (subst collections_loop.simps) simp
  next
    case False
    show ?thesis
    proof (cases "\<exists>resp cid' ds. r = Inr resp \<and> take_cursor_batch B resp ''nextBatch'' = Inr (cid', ds)")
      case True
      then obtain resp cid' ds where r: "r = Inr resp" "take_cursor_batch B resp ''nextBatch'' = Inr (cid', ds)"
        by blast
      let ?d = "c\<lparr>cur_id := cid', cur_documents := ds\<rparr>"
      have "Cursor_next B de run ?c w = Cursor_next B de run ?d w1"
        using False r ends_asked.prems ends_asked.hyps(1)
        by (subst Cursor_next.simps) (simp add: fetch_next_batch_def)
      then have "collections_loop B de run db acc ?c w = collections_loop B de run db acc ?d w1"
        by (subst (1 2) collections_loop.simps) simp
      with ends_asked.IH [OF r, of ?d acc] ends_asked.prems show ?thesis by simp
    next
      case no_batch: False
      have "\<exists>err. fetch_next_batch B run ?c w = (Inl err, ?c, w1)"
      proof (cases r)
        case (Inl err)
        with ends_asked.prems ends_asked.hyps(1) show ?thesis by (simp add: fetch_next_batch_def)
      next
        case (Inr resp)
        with no_batch obtain err where "take_cursor_batch B resp ''nextBatch'' = Inl err"
          by (cases "take_cursor_batch B resp ''nextBatch''") auto
        with Inr ends_asked.prems ends_asked.hyps(1) show ?thesis by (simp add: fetch_next_batch_def)
      qed
      then obtain err where "fetch_next_batch B run ?c w = (Inl err, ?c, w1)" by blast
      then have "Cursor_next B de run ?c w = Some (Some (Inl err), ?c\<lparr>cur_finished := True\<rparr>, w1)"
        using False ends_asked.prems by (subst Cursor_next.simps) simp
      then show ?thesis by (subst collections_loop.simps) simp
    qed
  qed
  from loop_buffered [OF this, of acc "cur_documents c"] show ?case by simp
qed

lemma collections_returns:
  assumes "\<forall>cid. cursor_ends B run db LIST_COLLECTIONS (snd (run (wo_engine w) db (list_collections_command B))) cid"
  shows "\<exists>y. collections B de (traced run) db w = Some y"
proof -
  obtain reply v where t: "traced run w db (list_collections_command B) = (reply, v)" by fastforce
  then have v: "wo_engine v = snd (run (wo_engine w) db (list_collections_command B))"
    by (auto simp: traced_def log_events_def Let_def split: prod.splits)
  have "\<exists>y. collections_loop B de (traced run) db [] c v = Some y"
    if "Cursor_from_response B db LIST_COLLECTIONS resp ''firstBatch'' = Inr c" for resp c
    using that assms v cursor_ends_traced [of B run db LIST_COLLECTIONS]
    by (intro loop_returns [where db' = db and coll = LIST_COLLECTIONS and cid = "cur_id c"])
      (auto simp: Cursor_from_response_def result_iffs)
  with t show ?thesis
    by (auto simp: collections_def result_iffs split: sum.splits)
qed

section \<open>What a sequence of commands keeps\<close>

text \<open>
  A property of engine states that every command keeps, and with it everything the components do
  through commands alone.
\<close>

locale kept_by_commands =
  fixes run :: "('e, 'd) runner" and keeps :: "'e \<Rightarrow> bool"
  assumes run_keeps: "keeps e \<Longrightarrow> keeps (snd (run e db cmd))"
begin

lemma traced_keeps:
  "keeps (wo_engine w) \<Longrightarrow> traced run w db cmd = (r, w') \<Longrightarrow> keeps (wo_engine w')"
  using run_keeps [of "wo_engine w" db cmd]
  by (auto simp: traced_def log_events_def Let_def split: prod.splits)

lemma fetch_keeps:
  assumes "keeps (wo_engine w)" and "fetch_next_batch B (traced run) c w = (r, c', w')"
  shows "keeps (wo_engine w')"
proof -
  obtain reply v where t: "traced run w (cur_database c) (get_more_command B (cur_id c) (cur_collection c)) = (reply, v)"
    by fastforce
  with assms(2) have "w' = v" by (auto simp: fetch_next_batch_def split: sum.splits)
  with traced_keeps [OF assms(1) t] show ?thesis by simp
qed

lemma drop_keeps:
  assumes "keeps (wo_engine w)"
  shows "keeps (wo_engine (Cursor_drop B (traced run) c w))"
proof (cases "cur_id c = 0")
  case True
  with assms show ?thesis by (simp add: drop_ended)
next
  case False
  obtain reply v where t: "traced run w (cur_database c) (kill_cursors_command B (cur_collection c) (cur_id c)) = (reply, v)"
    by fastforce
  with False have "Cursor_drop B (traced run) c w = v" by (simp add: Cursor_drop_def Cursor_kill_def Let_def)
  with traced_keeps [OF assms t] show ?thesis by simp
qed

lemma next_keeps:
  assumes "Cursor_next B de (traced run) c w = Some (item, c', w')" and "keeps (wo_engine w)"
  shows "keeps (wo_engine w')"
  using assms by (induction rule: Cursor_next_induct) (auto dest: fetch_keeps)

lemma collections_loop_keeps:
  assumes "collections_loop B de (traced run) db acc c w = Some (r, c', w')" and "keeps (wo_engine w)"
  shows "keeps (wo_engine w')"
proof -
  have "run' = traced run \<longrightarrow> keeps (wo_engine w) \<longrightarrow> keeps (wo_engine (snd (snd y)))"
    if "collections_loop B' de' run' db acc c w = Some y" for B' de' run' db acc c w y
  proof (rule collections_loop.raw_induct [OF _ that], intro impI, goal_cases)
    case (1 loop B' de' run' db acc c w y)
    then obtain item c1 w1 where n: "Cursor_next B' de' (traced run) c w = Some (item, c1, w1)"
      by (auto split: bind_splits)
    with 1 next_keeps [OF n] show ?case by (auto split: option.splits sum.splits if_splits)
  qed
  from this [OF assms(1)] assms(2) show ?thesis by simp
qed

lemma collections_keeps:
  assumes "collections B de (traced run) db w = Some (r, w')" and "keeps (wo_engine w)"
  shows "keeps (wo_engine w')"
proof -
  obtain reply v where t: "traced run w db (list_collections_command B) = (reply, v)" by fastforce
  note v = traced_keeps [OF assms(2) t]
  show ?thesis
  proof (cases "and_then reply (\<lambda>resp. Cursor_from_response B db LIST_COLLECTIONS resp ''firstBatch'')")
    case (Inl err)
    with assms(1) t v show ?thesis by (simp add: collections_def)
  next
    case (Inr cursor)
    with assms(1) t obtain c1 w1 where
      "collections_loop B de (traced run) db [] cursor v = Some (r, c1, w1)"
      "w' = Cursor_drop B (traced run) c1 w1" by (auto simp: collections_def)
    with collections_loop_keeps v show ?thesis by (auto intro!: drop_keeps)
  qed
qed

lemma databases_loop_keeps:
  "databases_loop B de (traced run) dbs acc w = Some (r, w') \<Longrightarrow> keeps (wo_engine w) \<Longrightarrow>
     keeps (wo_engine w')"
proof (induction dbs arbitrary: acc w)
  case Nil
  then show ?case by simp
next
  case (Cons d dbs)
  show ?case
  proof (cases "Option.bind (as_document d) (\<lambda>d. get_str B d ''name'')")
    case None
    with Cons.prems show ?thesis by simp
  next
    case (Some name)
    with Cons.prems obtain r1 w1 where c: "collections B de (traced run) name w = Some (r1, w1)"
      by (auto split: bind_splits)
    with Cons Some collections_keeps [OF c] show ?thesis by (auto split: sum.splits)
  qed
qed

lemma namespaces_keeps:
  assumes "namespaces B de (traced run) w = Some (r, w')" and "keeps (wo_engine w)"
  shows "keeps (wo_engine w')"
proof -
  obtain reply v where t: "traced run w ''admin'' (list_databases_command B) = (reply, v)" by fastforce
  from assms(1) t traced_keeps [OF assms(2) t] show ?thesis
    by (auto simp: namespaces_def dest: databases_loop_keeps split: sum.splits option.splits bson.splits)
qed

lemma logged_keeps: "keeps (wo_engine (log_events evs w)) = keeps (wo_engine w)"
  by (simp add: log_events_def)

lemma visit_keeps:
  assumes "visit B run ns w = (r, w')" and "keeps (wo_engine w)"
  shows "keeps (wo_engine w')"
  using assms
  by (auto simp: visit_def validate_def logged_keeps dest!: traced_keeps [rotated]
      split: prod.splits sum.splits Health.splits)

lemma sweep_keeps:
  "sweep_from (visit B run) nss out w = (out', w') \<Longrightarrow> keeps (wo_engine w) \<Longrightarrow> keeps (wo_engine w')"
  by (induction "visit B run" nss out w rule: sweep_from.induct)
    (auto simp: logged_keeps dest: visit_keeps split: prod.splits sum.splits)

lemma pass_keeps:
  assumes "pass B de run w = Some (out, w')" and "keeps (wo_engine w)"
  shows "keeps (wo_engine w')"
proof -
  from assms(1) obtain listed v where n: "namespaces B de (traced run) w = Some (listed, v)"
    by (auto simp: pass_def)
  note v = namespaces_keeps [OF n assms(2)]
  show ?thesis
  proof (cases listed)
    case (Inl err)
    with assms(1) n v show ?thesis by (auto simp: pass_def logged_keeps)
  next
    case (Inr cat)
    with assms(1) n v show ?thesis
      by (auto simp: pass_def sweep_def logged_keeps dest: sweep_keeps split: if_splits)
  qed
qed

lemma run_repair_keeps:
  assumes "run_repair B de run var faults orig fs w = Some (states, w')" and "keeps (wo_engine w)"
  shows "keeps (wo_engine w')"
proof -
  have recorded: "keeps (wo_engine v')" if "record_pass faults fs v = (sts, v')" "keeps (wo_engine v)" for v v' sts
    using that by (auto simp: record_pass_def logged_keeps split: prod.splits sum.splits)
  show ?thesis
    using assms
    by (auto simp: run_repair_def logged_keeps dest!: pass_keeps recorded split: if_splits Outcome.splits)
      (use Outcome.exhaust in blast)
qed

lemma namespaces_returns:
  assumes "\<And>db e cid. keeps e \<Longrightarrow> cursor_ends B run db LIST_COLLECTIONS e cid" and "keeps (wo_engine w)"
  shows "\<exists>y. namespaces B de (traced run) w = Some y"
proof -
  have loop: "\<exists>r v'. databases_loop B de (traced run) dbs acc v = Some (r, v')" if "keeps (wo_engine v)" for dbs acc v
    using that
  proof (induction dbs arbitrary: acc v)
    case Nil
    show ?case by simp
  next
    case (Cons d dbs)
    have "\<exists>y. collections B de (traced run) name v = Some y" for name
      by (rule collections_returns) (use assms(1) run_keeps [OF Cons.prems] in blast)
    then obtain r1 w1 where c: "collections B de (traced run) (the (Option.bind (as_document d)
        (\<lambda>d. get_str B d ''name''))) v = Some (r1, w1)" by fastforce
    show ?case
    proof (cases "Option.bind (as_document d) (\<lambda>d. get_str B d ''name'')")
      case None
      then show ?thesis by simp
    next
      case (Some name)
      with c Cons collections_keeps [OF c] show ?thesis by (cases r1) auto
    qed
  qed
  obtain r v where t: "traced run w ''admin'' (list_databases_command B) = (r, v)" by fastforce
  moreover obtain r' v' where "databases_loop B de (traced run) (case r of
      Inr reply \<Rightarrow> (case doc_get B reply ''databases'' of Some (BArray dbs) \<Rightarrow> dbs | _ \<Rightarrow> []) | _ \<Rightarrow> []) [] v =
      Some (r', v')" using loop [OF traced_keeps [OF assms(2) t]] by blast
  ultimately show ?thesis
    by (auto simp: namespaces_def split: sum.splits option.splits bson.splits)
qed

lemma run_repair_returns:
  assumes "\<And>db e cid. keeps e \<Longrightarrow> cursor_ends B run db LIST_COLLECTIONS e cid" and "keeps (wo_engine w)"
  shows "\<exists>states w'. run_repair B de run var faults orig fs w = Some (states, w')"
proof -
  have "keeps (wo_engine (log_events [Checking_directory] w))" using assms(2) by (simp add: logged_keeps)
  from namespaces_returns [OF assms(1) this] obtain y where
    "namespaces B de (traced run) (log_events [Checking_directory] w) = Some y" by blast
  then have "\<exists>z. pass B de run (log_events [Checking_directory] w) = Some z" by (simp add: pass_def)
  then obtain out v where "pass B de run (log_events [Checking_directory] w) = Some (out, v)" by fastforce
  then have "\<exists>y. run_repair B de run var faults orig fs w = Some y" by (simp add: run_repair_def)
  then show ?thesis by auto
qed

end

interpretation always: kept_by_commands run "\<lambda>_. True" for run
  by unfold_locales simp

section \<open>What the listing finds\<close>

definition listed :: "'d bson_lib \<Rightarrow> string \<Rightarrow> 'd list \<Rightarrow> Namespace list" where
  "listed B db docs =
     map (\<lambda>d. Namespace_new db (unwrap_or [] (get_str B d ''name''))) (filter (is_collection B) docs)"

lemma loop_lists:
  assumes "remains B de run z c w (map Inr docs)"
    and "\<forall>d\<in>set docs. is_collection B d \<longrightarrow> get_str B d ''name'' \<noteq> None"
  shows "\<exists>c'. collections_loop B de run db acc c w = Some (Inr (acc @ listed B db docs), c', z) \<and> cur_id c' = 0"
  using assms
proof (induction docs arbitrary: acc c w)
  case Nil
  then have "remains B de run z c w []" by simp
  from remains_nil [OF this] obtain c' where
    "Cursor_next B de run c w = Some (None, c', z)" "cur_id c' = 0" by blast
  then show ?case by (subst collections_loop.simps) (simp add: listed_def)
next
  case (Cons d docs)
  then have "remains B de run z c w (Inr d # map Inr docs)" by simp
  from remains_cons [OF this] obtain c' w' where
    n: "Cursor_next B de run c w = Some (Some (Inr d), c', w')" "remains B de run z c' w' (map Inr docs)" by blast
  from Cons.IH [OF n(2)] Cons.prems(2) have
    ih: "\<exists>c''. collections_loop B de run db acc c' w' = Some (Inr (acc @ listed B db docs), c'', z) \<and> cur_id c'' = 0" for acc
    by simp
  show ?case
  proof (cases "is_collection B d")
    case False
    then have "collections_loop B de run db acc c w = collections_loop B de run db acc c' w'"
      by (subst collections_loop.simps) (simp add: n(1))
    with ih [of acc] False show ?thesis by (simp add: listed_def)
  next
    case True
    with Cons.prems(2) obtain name where name: "get_str B d ''name'' = Some name" by auto
    with True have "collections_loop B de run db acc c w =
        collections_loop B de run db (acc @ [Namespace_new db name]) c' w'"
      by (subst collections_loop.simps) (simp add: n(1))
    with ih [of "acc @ [Namespace_new db name]"] True name show ?thesis by (simp add: listed_def)
  qed
qed

section \<open>A run that scans\<close>

lemma run_repair_scan:
  assumes "run_repair B de run var faults orig fs w = Some (states, w')"
    and "\<not> skip_requested var" and "Marker_state fs = Missing" and "orig = PreExisting"
  obtains out w2 where "pass B de run (log_events [Checking_directory] w) = Some (out, w2)"
    and "(case out of
        Complete \<Rightarrow> record_pass faults fs (log_events [Pass_finished] w2)
      | Incomplete \<Rightarrow> ([], log_events [Pass_incomplete] w2)) = (states, w')"
proof -
  have "map_option (\<lambda>(out, w').
      case out of
        Complete \<Rightarrow> record_pass faults fs (log_events [Pass_finished] w')
      | Incomplete \<Rightarrow> ([], log_events [Pass_incomplete] w'))
    (pass B de run (log_events [Checking_directory] w)) = Some (states, w')"
    using assms by (simp add: run_repair_def)
  with that show ?thesis by auto
qed

lemma record_pass_events:
  assumes "record_pass faults fs w = (states, w')"
  shows "\<exists>evs. wo_events w' = wo_events w @ evs \<and> (evs = [] \<or> (\<exists>err. evs = [Cannot_record err]))"
  using assms by (auto simp: record_pass_def split: prod.splits sum.splits)

lemma run_repair_guarded:
  assumes laws: "bson_laws B" and run: "run_repair B de run var faults orig fs w = Some (states, w')"
  shows "\<exists>evs. wo_events w' = wo_events w @ evs \<and> guarded B evs"
proof (cases "skip_requested var \<or> Marker_state fs = Recorded \<or> orig = Fresh")
  case True
  with run have "w' = log_events [Skipping_pass] w \<or> w' = w \<or> record_pass faults fs w = (states, w')"
    by (auto simp: run_repair_def split: if_splits)
  then have "\<exists>evs. wo_events w' = wo_events w @ evs \<and> list_all (quiet B) evs"
    using record_pass_events [of faults fs w states w'] by force
  then show ?thesis using guarded_quiet by blast
next
  case False
  then have "\<not> skip_requested var" "Marker_state fs = Missing" "orig = PreExisting"
    by (auto intro: Origin.exhaust [of orig] MarkerState.exhaust [of "Marker_state fs"])
  from run_repair_scan [OF run this] obtain out w2 where
    p: "pass B de run (log_events [Checking_directory] w) = Some (out, w2)"
    and out: "(case out of
        Complete \<Rightarrow> record_pass faults fs (log_events [Pass_finished] w2)
      | Incomplete \<Rightarrow> ([], log_events [Pass_incomplete] w2)) = (states, w')" by blast
  from pass_events [OF laws p] obtain evs where
    evs: "wo_events w2 = wo_events w @ [Checking_directory] @ evs" "guarded B evs" by auto
  have "\<exists>tail. wo_events w' = wo_events w2 @ tail \<and> list_all (quiet B) tail"
    using out record_pass_events [of faults fs "log_events [Pass_finished] w2" states w']
    by (cases out) force+
  then obtain tail where tail: "wo_events w' = wo_events w2 @ tail" "guarded B tail"
    using guarded_quiet by blast
  have "guarded B ([Checking_directory] @ evs @ tail)"
    by (intro guarded_append evs(2) tail(2) guarded_quiet) simp
  with evs tail show ?thesis by (intro exI [of _ "[Checking_directory] @ evs @ tail"]) simp
qed

lemma trim_text_Some:
  "trim_text s = m \<Longrightarrow> \<exists>l r. s = l @ m @ r \<and> list_all is_white_space l \<and> list_all is_white_space r"
  unfolding trim_text_def
  by (rule exI [of _ "takeWhile is_white_space s"],
      rule exI [of _ "rev (takeWhile is_white_space (rev (dropWhile is_white_space s)))"])
    (metis (no_types, lifting) append_assoc list_all_iff rev_append rev_rev_ident set_rev
      set_takeWhileD takeWhile_dropWhile_id)

lemma dropWhile_all_append: "list_all P l \<Longrightarrow> dropWhile P (l @ xs) = dropWhile P xs"
  by (induction l) auto

lemma trim_text_around:
  assumes "list_all is_white_space l" and "list_all is_white_space r"
    and "m \<noteq> []" and "\<not> is_white_space (hd m)" and "\<not> is_white_space (last m)"
  shows "trim_text (l @ m @ r) = m"
proof -
  have "dropWhile is_white_space (m @ r) = m @ r" using assms(3,4) by (cases m) auto
  moreover have "dropWhile is_white_space (rev m) = rev m"
    using assms(3,5) by (cases "rev m") (auto simp: last_rev [symmetric])
  ultimately show ?thesis
    using assms(1,2) by (simp add: trim_text_def dropWhile_all_append list_all_iff)
qed

lemma lower_code_white: "is_white_space (lower_code c) \<Longrightarrow> is_white_space c"
  by (auto simp: lower_code_def is_white_space_def split: if_splits)

lemma word_not_white:
  assumes "map lower_code m = map (lower_code \<circ> of_char) w" and "w \<in> set SKIP_VALUES"
  shows "m \<noteq> [] \<and> \<not> is_white_space (hd m) \<and> \<not> is_white_space (last m)"
proof -
  have "\<not> is_white_space c" if "c \<in> set m" for c
  proof
    assume "is_white_space c"
    then have "is_white_space (lower_code c)"
      by (auto simp: lower_code_def is_white_space_def)
    moreover have "lower_code c \<in> set (map (lower_code \<circ> of_char) w)"
      using that assms(1) by (metis imageI list.set_map)
    ultimately show False
      using assms(2) by (auto simp: SKIP_VALUES_def lower_code_def is_white_space_def)
  qed
  moreover have "m \<noteq> []" using assms by (auto simp: SKIP_VALUES_def)
  ultimately show ?thesis by simp
qed

section \<open>A damaged directory\<close>

text \<open>
  One database with one collection, whose first check finds damage; the repair deletes two records
  and the confirmation is sound.
\<close>

definition no_faults :: io_faults where
  "no_faults = \<lparr>create_fails = None, write_fails = None, sync_fails = None, rename_fails = None,
     remove_fails = None\<rparr>"

definition demo_ns :: Namespace where "demo_ns = Namespace_new ''shop'' ''orders''"

definition demo_listing :: "(adoc error + adoc) list" where
  "demo_listing =
     [Inr (ADoc [(''databases'', BArray [BDocument (ADoc [(''name'', BString ''shop'')])])]),
      Inr (batch_reply ''firstBatch'' 0 [ADoc [(''name'', BString ''orders'')], ADoc [(''type'', BString ''view'')]])]"

definition damaged_reply :: adoc where
  "damaged_reply = ADoc [(''valid'', BBoolean False), (''errors'', BArray [BString ''_id_''])]"

definition repair_reply :: adoc where
  "repair_reply = ADoc [(''numRemovedCorruptRecords'', BInt32 2)]"

definition sound_reply :: adoc where
  "sound_reply = ADoc [(''valid'', BBoolean True)]"

definition demo_world :: "(adoc error + adoc) list \<Rightarrow> (adoc script, adoc) world" where
  "demo_world replies = \<lparr>wo_engine = (replies, []), wo_events = []\<rparr>"

definition demo_directory :: directory where
  "demo_directory = [''WiredTiger'' \<mapsto> Text ''WiredTiger'']"

lemma next_item:
  "Cursor_next B de run \<lparr>cur_database = db, cur_collection = coll, cur_id = cid, cur_documents = d # ds,
     cur_finished = f\<rparr> e =
   Some (Some (map_err Bson (de d)), \<lparr>cur_database = db, cur_collection = coll, cur_id = cid,
     cur_documents = ds, cur_finished = f\<rparr>, e)"
  by (subst Cursor_next.simps) simp

lemma next_end:
  "Cursor_next B de run \<lparr>cur_database = db, cur_collection = coll, cur_id = 0, cur_documents = [],
     cur_finished = f\<rparr> e =
   Some (None, \<lparr>cur_database = db, cur_collection = coll, cur_id = 0, cur_documents = [],
     cur_finished = True\<rparr>, e)"
  by (subst Cursor_next.simps) simp

lemma loop_item:
  "Cursor_next B de run c w = Some (Some (Inr d), c', w') \<Longrightarrow>
   collections_loop B de run db acc c w =
     (if \<not> is_collection B d then collections_loop B de run db acc c' w'
      else case get_str B d ''name'' of
             None \<Rightarrow> Some (Inl (InvalidResponse ''listCollections response has an entry without a name''), c', w')
           | Some name \<Rightarrow> collections_loop B de run db (acc @ [Namespace_new db name]) c' w')"
  by (subst collections_loop.simps) simp

lemma loop_end:
  "Cursor_next B de run c w = Some (None, c', w') \<Longrightarrow>
   collections_loop B de run db acc c w = Some (Inr acc, c', w')"
  by (subst collections_loop.simps) simp

lemmas demo_simps = traced_def log_events_def alist_lib_def batch_reply_def accessor_defs
  is_collection_def VIEW_def loop_item [OF next_item [where de = Inr, simplified]]
  loop_end [OF next_end] take_cursor_batch_def Cursor_from_response_def drop_ended

lemma demo_namespaces:
  "namespaces alist_lib Inr (traced scripted) \<lparr>wo_engine = (demo_listing @ replies, []), wo_events = evs\<rparr> =
     Some (Inr \<lparr>cat_databases = 1, cat_namespaces = [demo_ns]\<rparr>,
       \<lparr>wo_engine = (replies, [(''admin'', list_databases_command alist_lib), (''shop'', list_collections_command alist_lib)]),
        wo_events = evs @ [Ran ''admin'' (list_databases_command alist_lib) (demo_listing ! 0),
          Ran ''shop'' (list_collections_command alist_lib) (demo_listing ! 1)]\<rparr>)"
  by (simp add: namespaces_def demo_listing_def collections_def demo_ns_def demo_simps)

definition demo_damage :: Damage where
  "demo_damage = \<lparr>dm_errors = [''_id_''], dm_missing_index_entries = 0\<rparr>"

definition demo_repaired :: Repaired where
  "demo_repaired = \<lparr>rp_inserted_index_entries = 0, rp_moved_documents = 0, rp_removed_corrupt_records = 2,
     rp_removed_extra_index_entries = 0, rp_lost_and_found = None, rp_warnings = []\<rparr>"

lemma demo_health_parses:
  "Health_parse alist_lib damaged_reply = Damaged demo_damage"
  "Health_parse alist_lib sound_reply = Sound"
  "Repaired_parse alist_lib repair_reply = demo_repaired"
  by (simp_all add: Health_parse_def Repaired_parse_def damaged_reply_def sound_reply_def repair_reply_def
      strings_def map_filter_def accessor_defs demo_damage_def demo_repaired_def lost_and_found_def)

text \<open>The events of a visit that repairs.\<close>

definition demo_visit :: "adoc event list" where
  "demo_visit =
     [Ran ''shop'' (validate_command alist_lib demo_ns Check_mode) (Inr damaged_reply),
      Repairing demo_ns demo_damage,
      Ran ''shop'' (validate_command alist_lib demo_ns Repair_mode) (Inr repair_reply),
      Repaired_entries demo_ns demo_repaired, Deleted_records demo_ns 2,
      Ran ''shop'' (validate_command alist_lib demo_ns Check_mode) (Inr sound_reply)]"

definition demo_listed :: "adoc event list" where
  "demo_listed =
     [Ran ''admin'' (list_databases_command alist_lib) (demo_listing ! 0),
      Ran ''shop'' (list_collections_command alist_lib) (demo_listing ! 1)]"

lemma demo_announced: "announce_repair demo_ns demo_repaired =
    [Repaired_entries demo_ns demo_repaired, Deleted_records demo_ns 2]"
  by (simp add: announce_repair_def announce_deletions_def announce_missing_destination_def
      changed_anything_def demo_repaired_def)

lemma demo_pass:
  "\<exists>w'. pass alist_lib Inr scripted (log_events [Checking_directory]
       (demo_world (demo_listing @ [Inr damaged_reply, Inr repair_reply, Inr sound_reply]))) =
     Some (Complete, w') \<and> wo_events w' = Checking_directory # demo_listed @ demo_visit"
proof -
  have db: "ns_database demo_ns = ''shop''" by (simp add: demo_ns_def Namespace_new_def)
  show ?thesis
    by (simp add: pass_def demo_world_def log_events_def demo_namespaces sweep_def visit_def validate_def
        traced_def db demo_health_parses announce_damage_def demo_announced demo_visit_def demo_listed_def)
qed

lemma demo_failed_pass:
  "\<exists>w'. pass alist_lib Inr scripted (log_events [Checking_directory] (demo_world demo_listing)) =
     Some (Incomplete, w') \<and> Cannot_check demo_ns Closed \<in> set (wo_events w')"
proof -
  have "namespaces alist_lib Inr (traced scripted)
      \<lparr>wo_engine = (demo_listing, []), wo_events = [Checking_directory]\<rparr> =
    Some (Inr \<lparr>cat_databases = 1, cat_namespaces = [demo_ns]\<rparr>,
       \<lparr>wo_engine = ([], [(''admin'', list_databases_command alist_lib), (''shop'', list_collections_command alist_lib)]),
        wo_events = [Checking_directory] @ demo_listed\<rparr>)"
    using demo_namespaces [of "[]" "[Checking_directory]"] by (simp add: demo_listed_def)
  then show ?thesis
    by (simp add: pass_def demo_world_def log_events_def sweep_def visit_def validate_def traced_def)
qed

lemma demo_missing: "Marker_state demo_directory = Missing"
  by (simp add: Marker_state_def demo_directory_def FILE_NAME_def)

lemma demo_recorded:
  "\<exists>states. Marker_record no_faults fs = (Inr (), states) \<and> states \<noteq> [] \<and> Marker_state (last states) = Recorded"
proof -
  obtain r states where m: "Marker_record no_faults fs = (r, states)" by fastforce
  then have "r = Inr ()"
    by (auto simp: Marker_record_def no_faults_def write_partial_def)
  moreover have "states \<noteq> [] \<and> Marker_state (last states) = Recorded"
    using m first_line_marker
    by (auto simp: Marker_record_def no_faults_def write_partial_def rename_partial_def written_def
        Marker_state_def PARTIAL_FILE_NAME_def FILE_NAME_def)
  ultimately show ?thesis using m by simp
qed

lemma demo_run:
  "\<exists>states w'. run_repair alist_lib Inr scripted None no_faults PreExisting demo_directory
       (demo_world (demo_listing @ [Inr damaged_reply, Inr repair_reply, Inr sound_reply])) = Some (states, w') \<and>
     wo_events w' = Checking_directory # demo_listed @ demo_visit @ [Pass_finished] \<and>
     states \<noteq> [] \<and> Marker_state (last states) = Recorded"
proof -
  from demo_pass obtain v where p: "pass alist_lib Inr scripted (log_events [Checking_directory]
       (demo_world (demo_listing @ [Inr damaged_reply, Inr repair_reply, Inr sound_reply]))) = Some (Complete, v)"
    "wo_events v = Checking_directory # demo_listed @ demo_visit" by blast
  from demo_recorded [of demo_directory] obtain states where m: "Marker_record no_faults demo_directory = (Inr (), states)"
    "states \<noteq> []" "Marker_state (last states) = Recorded" by blast
  with p demo_missing show ?thesis
    by (simp add: run_repair_def skip_requested_def record_pass_def log_events_def)
qed

section \<open>Properties\<close>

text \<open>C4: The marker means the directory was checked. If the directory had no marker and has one at
  any moment during or after the pass, then the pass was not skipped, and either the directory held
  no database before this open, or the listing of its collections succeeded, did not name databases
  without a single collection, and every collection listed was checked, in order, to a conclusion:
  found sound, or found damaged, announced, repaired, its repair announced, and checked again to a
  conclusion. Nothing else happened between the start of the check and the log line that it
  finished.\<close>

theorem marker_means_checked:
  assumes laws: "bson_laws B" and run: "run_repair B de run var faults orig fs w = Some (states, w')"
    and "Marker_state fs = Missing" and "fs' \<in> set states" and "Marker_state fs' = Recorded"
  shows "\<not> skip_requested var \<and>
    (orig = Fresh \<or>
     (\<exists>cat w1 listing segs.
        namespaces B de (traced run) (log_events [Checking_directory] w) = Some (Inr cat, w1) \<and>
        (cat_databases cat = 0 \<or> cat_namespaces cat \<noteq> []) \<and>
        wo_events w' = wo_events w @ [Checking_directory] @ listing @ concat segs @ [Pass_finished] \<and>
        list_all (plain B) listing \<and> list_all2 (settled B) (cat_namespaces cat) segs))"
proof (cases "skip_requested var \<or> orig = Fresh")
  case True
  with run assms(3,4) show ?thesis by (auto simp: run_repair_def)
next
  case False
  then have "\<not> skip_requested var" "orig = PreExisting" by (auto intro: Origin.exhaust [of orig])
  from run_repair_scan [OF run this(1) assms(3) this(2)] obtain out w2 where
    p: "pass B de run (log_events [Checking_directory] w) = Some (out, w2)"
    and out: "(case out of
        Complete \<Rightarrow> record_pass faults fs (log_events [Pass_finished] w2)
      | Incomplete \<Rightarrow> ([], log_events [Pass_incomplete] w2)) = (states, w')" by blast
  have rec: "out = Complete" "record_pass faults fs (log_events [Pass_finished] w2) = (states, w')"
    using out assms(4) by (cases out; simp)+
  obtain r where m: "Marker_record faults fs = (r, states)"
    using rec(2) by (auto simp: record_pass_def split: prod.splits sum.splits)
  have "r = Inr ()"
    using Marker_record_states [OF m] assms(3,4,5) Marker_state_same [of fs' fs] by auto
  with rec(2) m have "wo_events w' = wo_events w2 @ [Pass_finished]" by (auto simp: record_pass_def)
  with pass_events [OF laws p] rec(1) False show ?thesis by fastforce
qed


theorem marker_means_checked_witness:
  "\<exists>states w' segs. run_repair alist_lib Inr scripted None no_faults PreExisting demo_directory
       (demo_world (demo_listing @ [Inr damaged_reply, Inr repair_reply, Inr sound_reply])) = Some (states, w') \<and>
     states \<noteq> [] \<and> Marker_state (last states) = Recorded \<and> list_all2 (settled alist_lib) [demo_ns] segs"
proof -
  let ?w = "demo_world (demo_listing @ [Inr damaged_reply, Inr repair_reply, Inr sound_reply])"
  from demo_run obtain states w' where r: "run_repair alist_lib Inr scripted None no_faults PreExisting
      demo_directory ?w = Some (states, w')" "states \<noteq> []" "Marker_state (last states) = Recorded" by blast
  from marker_means_checked [OF bson_laws_alist r(1) demo_missing last_in_set [OF r(2)] r(3)]
  obtain cat :: Catalog and v segs where
    n: "namespaces alist_lib Inr (traced scripted) (log_events [Checking_directory] ?w) = Some (Inr cat, v)"
    and segs: "list_all2 (settled alist_lib) (cat_namespaces cat) segs" by blast
  have "cat_namespaces cat = [demo_ns]"
    using n demo_namespaces [of "[Inr damaged_reply, Inr repair_reply, Inr sound_reply]" "[Checking_directory]"]
    by (auto simp: demo_world_def log_events_def)
  with r segs show ?thesis by auto
qed

text \<open>C19: Only damage is repaired, and nothing is moved or deleted silently. Whenever the pass runs a
  command that carries a \<open>repair\<close> field, that command is a \<open>validate\<close> of a collection, the
  command run right before it was the plain \<open>validate\<close> of the same collection, its reply reported
  damage, and the damage was logged between the two. If the engine's reply to the repair says
  documents were moved or records deleted, the very next event is the log line with the whole report,
  deletions are logged with their number, and so is a move whose destination the reply does not
  name.\<close>

theorem repairs_are_guarded_and_announced:
  assumes "bson_laws B" and "run_repair B de run var faults orig fs w = Some (states, w')"
    and "wo_events w' = wo_events w @ pre @ Ran db cmd r # post"
    and "doc_get B cmd ''repair'' \<noteq> None"
  shows "\<exists>ns reply damage pre'.
    db = ns_database ns \<and> cmd = validate_command B ns Repair_mode \<and>
    Health_parse B reply = Damaged damage \<and>
    pre = pre' @ [Ran db (validate_command B ns Check_mode) (Inr reply), Repairing ns damage] \<and>
    (\<forall>resp. r = Inr resp \<longrightarrow>
       (let report = Repaired_parse B resp
        in 0 < sint (rp_moved_documents report) \<or> 0 < sint (rp_removed_corrupt_records report) \<longrightarrow>
           (\<exists>post'. post = Repaired_entries ns report # post' \<and>
              (0 < sint (rp_removed_corrupt_records report) \<longrightarrow>
                 Deleted_records ns (rp_removed_corrupt_records report) \<in> set post') \<and>
              (0 < sint (rp_moved_documents report) \<and> rp_lost_and_found report = None \<longrightarrow>
                 Moved_to_unknown ns (rp_moved_documents report) (rp_warnings report) \<in> set post'))))"
proof -
  from run_repair_guarded [OF assms(1,2)] assms(3) have "guarded B (pre @ Ran db cmd r # post)" by auto
  with assms(4) obtain ns reply damage pre' post' where g: "db = ns_database ns"
    "cmd = validate_command B ns Repair_mode" "Health_parse B reply = Damaged damage"
    "pre = pre' @ [Ran db (validate_command B ns Check_mode) (Inr reply), Repairing ns damage]"
    "post = (case r of Inl _ \<Rightarrow> [] | Inr resp \<Rightarrow> announce_repair ns (Repaired_parse B resp)) @ post'"
    unfolding guarded_def by blast
  have "sint (x :: i64) > 0 \<Longrightarrow> x \<noteq> 0" for x by auto
  with g show ?thesis
    by (intro exI [of _ ns] exI [of _ reply] exI [of _ damage] exI [of _ pre'])
      (auto simp: announce_repair_def announce_deletions_def announce_missing_destination_def
        changed_anything_def Let_def)
qed

theorem repairs_are_guarded_and_announced_witness:
  "\<exists>states w' ns damage pre' post.
     run_repair alist_lib Inr scripted None no_faults PreExisting demo_directory
       (demo_world (demo_listing @ [Inr damaged_reply, Inr repair_reply, Inr sound_reply])) = Some (states, w') \<and>
     wo_events w' = pre' @ [Ran ''shop'' (validate_command alist_lib ns Check_mode) (Inr damaged_reply), Repairing ns damage,
       Ran ''shop'' (validate_command alist_lib demo_ns Repair_mode) (Inr repair_reply),
       Repaired_entries ns demo_repaired] @ post \<and> Deleted_records ns 2 \<in> set post"
proof -
  let ?w = "demo_world (demo_listing @ [Inr damaged_reply, Inr repair_reply, Inr sound_reply])"
  let ?pre = "Checking_directory # demo_listed @
    [Ran ''shop'' (validate_command alist_lib demo_ns Check_mode) (Inr damaged_reply), Repairing demo_ns demo_damage]"
  let ?post = "[Repaired_entries demo_ns demo_repaired, Deleted_records demo_ns 2,
    Ran ''shop'' (validate_command alist_lib demo_ns Check_mode) (Inr sound_reply), Pass_finished]"
  from demo_run obtain states w' where r: "run_repair alist_lib Inr scripted None no_faults PreExisting
      demo_directory ?w = Some (states, w')"
    "wo_events w' = Checking_directory # demo_listed @ demo_visit @ [Pass_finished]" by blast
  have "wo_events w' = wo_events ?w @ ?pre @ Ran ''shop'' (validate_command alist_lib demo_ns Repair_mode) (Inr repair_reply) # ?post"
    by (simp add: r(2) demo_visit_def demo_world_def)
  note guard = repairs_are_guarded_and_announced [OF bson_laws_alist r(1) this]
  have "doc_get alist_lib (validate_command alist_lib demo_ns Repair_mode) ''repair'' \<noteq> None"
    by (simp add: command_with_repair [OF bson_laws_alist])
  from guard [OF this] obtain ns reply damage pre' where
    "?pre = pre' @ [Ran ''shop'' (validate_command alist_lib ns Check_mode) (Inr reply), Repairing ns damage]"
    by (elim exE conjE)
  then have "reply = damaged_reply" by simp
  then show ?thesis using r
    by (intro exI [of _ states] exI [of _ w'] exI [of _ demo_ns] exI [of _ demo_damage]
        exI [of _ "Checking_directory # demo_listed"] exI [of _ "tl ?post"]) (simp add: demo_visit_def)
qed

text \<open>C28: One collection that cannot be checked costs the others nothing but withholds the marker. In
  a pass that gets as far as its list of collections, every collection listed is validated, whatever
  the engine answers for the others; and if a collection could not be checked, the directory is
  left exactly as it was.\<close>

theorem failures_do_not_stop_the_sweep:
  assumes laws: "bson_laws B" and run: "run_repair B de run var faults orig fs w = Some (states, w')"
    and scan: "\<not> skip_requested var" "Marker_state fs = Missing" "orig = PreExisting"
    and listed: "namespaces B de (traced run) (log_events [Checking_directory] w) = Some (Inr cat, w1)"
  shows "\<exists>evs. wo_events w' = wo_events w @ evs \<and>
    (\<forall>ns\<in>set (cat_namespaces cat).
       \<exists>reply. Ran (ns_database ns) (validate_command B ns Check_mode) reply \<in> set evs) \<and>
    ((\<exists>ns err. Cannot_check ns err \<in> set evs) \<longrightarrow> states = [])"
proof -
  from run_repair_scan [OF run scan] obtain out w2 where
    p: "pass B de run (log_events [Checking_directory] w) = Some (out, w2)"
    and out: "(case out of
        Complete \<Rightarrow> record_pass faults fs (log_events [Pass_finished] w2)
      | Incomplete \<Rightarrow> ([], log_events [Pass_incomplete] w2)) = (states, w')" by blast
  from pass_events [OF laws p] obtain evs where
    evs: "wo_events w2 = wo_events (log_events [Checking_directory] w) @ evs"
    and all: "\<forall>cat w1. namespaces B de (traced run) (log_events [Checking_directory] w) = Some (Inr cat, w1) \<longrightarrow>
       (\<forall>ns\<in>set (cat_namespaces cat).
          \<exists>reply. Ran (ns_database ns) (validate_command B ns Check_mode) reply \<in> set evs)"
    and complete: "out = Complete \<longrightarrow> (\<exists>cat w1 listing segs.
       namespaces B de (traced run) (log_events [Checking_directory] w) = Some (Inr cat, w1) \<and>
       (cat_databases cat = 0 \<or> cat_namespaces cat \<noteq> []) \<and>
       evs = listing @ concat segs \<and> list_all (plain B) listing \<and>
       list_all2 (settled B) (cat_namespaces cat) segs)"
    by (elim exE conjE)
  have checked: "\<forall>ns\<in>set (cat_namespaces cat).
      \<exists>reply. Ran (ns_database ns) (validate_command B ns Check_mode) reply \<in> set evs"
    using all listed by blast
  have "\<exists>tail. wo_events w' = wo_events w2 @ tail \<and> (\<forall>ns err. Cannot_check ns err \<notin> set tail)"
    using out record_pass_events [of faults fs "log_events [Pass_finished] w2" states w']
    by (cases out) force+
  then obtain tail where tail: "wo_events w' = wo_events w2 @ tail" "\<And>ns err. Cannot_check ns err \<notin> set tail" by blast
  have "Cannot_check ns err \<notin> set evs" if "out = Complete" for ns err
  proof -
    from mp [OF complete that] obtain cat' :: Catalog and listing segs where c: "evs = listing @ concat segs"
      "list_all (plain B) listing" "list_all2 (settled B) (cat_namespaces cat') segs" by (elim exE conjE)
    have "Cannot_check ns err \<notin> set (concat segs)"
      using c(3) by (induction rule: list_all2_induct) (auto simp: settled_no_failure)
    moreover have "Cannot_check ns err \<notin> set listing" using c(2) by (auto simp: list_all_iff)
    ultimately show ?thesis using c(1) by simp
  qed
  moreover have "states = []" if "out = Incomplete" using out that by simp
  ultimately show ?thesis using evs tail checked
    by (intro exI [of _ "[Checking_directory] @ evs @ tail"]) (cases out; auto)
qed


theorem failures_do_not_stop_the_sweep_witness:
  "\<exists>w'. run_repair alist_lib Inr scripted None no_faults PreExisting demo_directory (demo_world demo_listing) =
     Some ([], w') \<and>
     (\<exists>reply. Ran ''shop'' (validate_command alist_lib demo_ns Check_mode) reply \<in> set (wo_events w'))"
proof -
  from demo_failed_pass obtain v where
    "pass alist_lib Inr scripted (log_events [Checking_directory] (demo_world demo_listing)) = Some (Incomplete, v)"
    "Cannot_check demo_ns Closed \<in> set (wo_events v)" by blast
  with demo_missing have r: "run_repair alist_lib Inr scripted None no_faults PreExisting demo_directory
      (demo_world demo_listing) = Some ([], log_events [Pass_incomplete] v)"
    by (simp add: run_repair_def skip_requested_def)
  obtain v1 where n: "namespaces alist_lib Inr (traced scripted) (log_events [Checking_directory] (demo_world demo_listing)) =
      Some (Inr \<lparr>cat_databases = 1, cat_namespaces = [demo_ns]\<rparr>, v1)"
    using demo_namespaces [of "[]" "[Checking_directory]"] by (simp add: demo_world_def log_events_def)
  have ns: "ns_database demo_ns = ''shop''" by (simp add: demo_ns_def Namespace_new_def)
  have "\<not> skip_requested None" by (simp add: skip_requested_def)
  from failures_do_not_stop_the_sweep [OF bson_laws_alist r this demo_missing refl n] r ns show ?thesis
    by (auto simp: demo_world_def)
qed

text \<open>C29: The marker is whole or absent at every moment, and whichever system calls fail. While the
  marker is being written its file is what it was before, until the moment it has the complete
  contents; recording reports success exactly when that moment came, the marker is then recognised,
  and no partial file is left. A partial file that cannot be written out is removed again.\<close>

theorem marker_is_atomic:
  assumes "Marker_record faults fs = (r, states)"
  shows "(\<forall>fs'\<in>set states. fs' FILE_NAME = fs FILE_NAME \<or> fs' FILE_NAME = Some (Text marker_contents)) \<and>
    (r = Inr () \<longrightarrow>
       Marker_state (last (fs # states)) = Recorded \<and> last (fs # states) PARTIAL_FILE_NAME = None) \<and>
    (r \<noteq> Inr () \<longrightarrow> (\<forall>fs'\<in>set states. Marker_state fs' = Marker_state fs) \<and>
       (rename_fails faults = None \<and> remove_fails faults = None \<longrightarrow>
          last (fs # states) PARTIAL_FILE_NAME = None))"
proof -
  have recorded: "Marker_state g = Recorded" if "g FILE_NAME = Some (Text marker_contents)" for g
    using that first_line_marker by (simp add: Marker_state_def)
  have wrote: "r = Inr () \<longleftrightarrow> fst (write_partial faults fs) = Inr () \<and> rename_fails faults = None"
    using assms by (auto simp: Marker_record_def split: prod.splits sum.splits option.splits)
  show ?thesis
  proof (cases "r = Inr ()")
    case True
    with wrote obtain sts where p: "write_partial faults fs = (Inr (), sts)" and "rename_fails faults = None"
      by (cases "write_partial faults fs") auto
    with assms have states: "states = sts @ [rename_partial (last (fs # sts))]"
      by (auto simp: Marker_record_def)
    let ?l = "rename_partial (last (fs # sts))"
    have l: "?l FILE_NAME = Some (Text marker_contents)" "?l PARTIAL_FILE_NAME = None"
      using write_partial_last [OF p] file_names_differ by (auto simp: rename_partial_def)
    with recorded [of ?l] write_partial_keeps [OF p] True show ?thesis by (auto simp: states)
  next
    case False
    with Marker_record_states [OF assms] have keeps: "\<forall>fs'\<in>set states. fs' FILE_NAME = fs FILE_NAME" by blast
    have "last (fs # states) PARTIAL_FILE_NAME = None" if "rename_fails faults = None" "remove_fails faults = None"
    proof -
      obtain p sts where p: "write_partial faults fs = (p, sts)" by fastforce
      with wrote False that obtain err where "p = Inl err" by (cases p) auto
      with assms p that have "states = sts @ [(last (fs # sts))(PARTIAL_FILE_NAME := None)]"
        by (simp add: Marker_record_def del: last.simps)
      then show ?thesis by simp
    qed
    with keeps False show ?thesis by (auto intro: Marker_state_same simp del: last.simps)
  qed
qed

theorem marker_is_atomic_witness:
  "\<exists>states. Marker_record (no_faults\<lparr>write_fails := Some (3, ''disk full'')\<rparr>) demo_directory = (Inl ''disk full'', states) \<and>
     length states = 5 \<and> (\<forall>fs'\<in>set states. Marker_state fs' = Missing) \<and>
     last (demo_directory # states) PARTIAL_FILE_NAME = None"
proof -
  obtain r states where m: "Marker_record (no_faults\<lparr>write_fails := Some (3, ''disk full'')\<rparr>) demo_directory = (r, states)"
    by fastforce
  then have "r = Inl ''disk full''" "length states = 5"
    by (auto simp: Marker_record_def write_partial_def no_faults_def written_def)
  with marker_is_atomic [OF m] m demo_missing show ?thesis by (simp add: no_faults_def)
qed

text \<open>The pass is left out only on an explicit yes, and runs at most once. The variable skips it
  exactly when its value, without the white space around it and in any case of ASCII letters, is
  one of \<open>1\<close>, \<open>true\<close>, \<open>yes\<close> and \<open>on\<close>. Skipping sends no command and leaves the directory alone, and a
  directory with a marker is left alone entirely, whatever the variable and the origin say; so the
  next open after a run that recorded its marker does nothing.\<close>

theorem pass_runs_once_unless_skipped:
  "(skip_requested (Some (Some chars)) \<longleftrightarrow>
      (\<exists>l m r. chars = l @ m @ r \<and> list_all is_white_space l \<and> list_all is_white_space r \<and>
         (\<exists>word\<in>{''1'', ''true'', ''yes'', ''on''}. map lower_code m = map of_char word))) \<and>
   \<not> skip_requested None \<and> \<not> skip_requested (Some None) \<and>
   (skip_requested var \<longrightarrow>
      run_repair B de run var faults orig fs w = Some ([], log_events [Skipping_pass] w)) \<and>
   (run_repair B de run var faults orig fs w = Some (states, w') \<and>
    Marker_state (last (fs # states)) = Recorded \<and> \<not> skip_requested var2 \<longrightarrow>
      run_repair B de run var2 faults2 orig2 (last (fs # states)) w2 = Some ([], w2))"
proof (intro conjI impI)
  have lower: "map (lower_code \<circ> of_char) word = map of_char word" if "word \<in> set SKIP_VALUES" for word
    using that by (auto simp: SKIP_VALUES_def lower_code_def)
  have same: "set SKIP_VALUES = {''1'', ''true'', ''yes'', ''on''}" by (auto simp: SKIP_VALUES_def)
  show "skip_requested (Some (Some chars)) \<longleftrightarrow>
      (\<exists>l m r. chars = l @ m @ r \<and> list_all is_white_space l \<and> list_all is_white_space r \<and>
         (\<exists>word\<in>{''1'', ''true'', ''yes'', ''on''}. map lower_code m = map of_char word))"
    (is "?skip \<longleftrightarrow> ?yes")
  proof
    assume ?skip
    then obtain word where "word \<in> set SKIP_VALUES"
      "map lower_code (trim_text chars) = map (lower_code \<circ> of_char) word"
      by (auto simp: skip_requested_def list_ex_iff simp del: map_map)
    with lower [of word] trim_text_Some [OF refl, of chars] show ?yes
      unfolding same by metis
  next
    assume ?yes
    then obtain l m r word where v: "chars = l @ m @ r" "list_all is_white_space l"
      "list_all is_white_space r" and word: "word \<in> set SKIP_VALUES" "map lower_code m = map of_char word"
      unfolding same by blast
    then have m: "map lower_code m = map (lower_code \<circ> of_char) word" using lower by simp
    have "trim_text chars = m"
      unfolding v(1) using word_not_white [OF m word(1)] v(2,3) by (intro trim_text_around) auto
    with m word(1) show ?skip by (auto simp: skip_requested_def list_ex_iff simp del: map_map)
  qed
qed (auto simp: skip_requested_def run_repair_def)

theorem pass_runs_once_unless_skipped_witness:
  "skip_requested (Some (Some (map of_char ('' YES'' @ newline)))) \<and>
   \<not> skip_requested (Some (Some (map of_char ''no''))) \<and>
   run_repair alist_lib Inr scripted (Some (Some (map of_char ''on''))) no_faults PreExisting demo_directory
     (demo_world []) = Some ([], log_events [Skipping_pass] (demo_world [])) \<and>
   (\<exists>states w'. run_repair alist_lib Inr scripted None no_faults Fresh demo_directory (demo_world []) = Some (states, w') \<and>
      run_repair alist_lib Inr scripted None no_faults PreExisting (last (demo_directory # states)) w' = Some ([], w'))"
proof (intro conjI)
  have "map of_char ('' YES'' @ newline) = [32] @ [89, 69, 83] @ [10 :: nat]" by (simp add: newline_def)
  moreover have "\<exists>word\<in>{''1'', ''true'', ''yes'', ''on''}. map lower_code [89, 69, 83] = map of_char word"
    by (rule bexI [of _ "''yes''"]) (simp_all add: lower_code_def)
  moreover have "list_all is_white_space [32]" "list_all is_white_space [10]" by (simp_all add: is_white_space_def)
  ultimately have "\<exists>l m r. map of_char ('' YES'' @ newline) = l @ m @ r \<and> list_all is_white_space l \<and>
      list_all is_white_space r \<and> (\<exists>word\<in>{''1'', ''true'', ''yes'', ''on''}. map lower_code m = map of_char word)"
    by blast
  then show "skip_requested (Some (Some (map of_char ('' YES'' @ newline))))"
    using pass_runs_once_unless_skipped by blast
  show "\<not> skip_requested (Some (Some (map of_char ''no'')))"
    by (simp add: skip_requested_def SKIP_VALUES_def trim_text_def is_white_space_def lower_code_def)
  have "skip_requested (Some (Some (map of_char ''on'')))"
    by (simp add: skip_requested_def SKIP_VALUES_def trim_text_def is_white_space_def lower_code_def)
  with pass_runs_once_unless_skipped
  show "run_repair alist_lib Inr scripted (Some (Some (map of_char ''on''))) no_faults PreExisting demo_directory
     (demo_world []) = Some ([], log_events [Skipping_pass] (demo_world []))" by blast
  from demo_recorded [of demo_directory] obtain states where m: "Marker_record no_faults demo_directory = (Inr (), states)"
    "states \<noteq> []" "Marker_state (last states) = Recorded" by blast
  with demo_missing have r: "run_repair alist_lib Inr scripted None no_faults Fresh demo_directory (demo_world []) =
      Some (states, demo_world [])" by (simp add: run_repair_def skip_requested_def record_pass_def)
  have "Marker_state (last (demo_directory # states)) = Recorded" using m by simp
  with r pass_runs_once_unless_skipped show "\<exists>states w'. run_repair alist_lib Inr scripted None no_faults Fresh
        demo_directory (demo_world []) = Some (states, w') \<and>
      run_repair alist_lib Inr scripted None no_faults PreExisting (last (demo_directory # states)) w' = Some ([], w')"
    by blast
qed

text \<open>C30: The pass returns. If every \<open>listCollections\<close> cursor the engine opens comes to an end (its
  id becomes zero, or asking for more fails), then the pass answers, whatever the engine replies
  otherwise.\<close>

theorem repair_returns:
  assumes "\<forall>db e cid. cursor_ends B run db LIST_COLLECTIONS e cid"
  shows "\<exists>states w'. run_repair B de run var faults orig fs w = Some (states, w')"
  by (rule always.run_repair_returns) (use assms in simp_all)

theorem repair_returns_witness:
  "\<exists>states w'. run_repair alist_lib Inr (\<lambda>e db cmd. (Inr (batch_reply ''nextBatch'' 0 []), e)) None no_faults
     PreExisting demo_directory \<lparr>wo_engine = (), wo_events = []\<rparr> = Some (states, w')"
proof (rule repair_returns, intro allI)
  fix db cid and e :: unit
  let ?run = "\<lambda>e db cmd. (Inr (batch_reply ''nextBatch'' 0 []), e)"
  have batch: "take_cursor_batch alist_lib (batch_reply ''nextBatch'' 0 []) ''nextBatch'' = Inr (0, [])"
    by (simp add: take_cursor_batch_def batch_reply_def alist_lib_def)
  show "cursor_ends alist_lib ?run db LIST_COLLECTIONS e cid"
  proof (rule cursor_ends.ends_asked [OF refl])
    fix resp cid' ds
    assume "(Inr (batch_reply ''nextBatch'' 0 []) :: adoc error + adoc) = Inr resp"
      "take_cursor_batch alist_lib resp ''nextBatch'' = Inr (cid', ds)"
    with batch have "cid' = 0" by simp
    then show "cursor_ends alist_lib ?run db LIST_COLLECTIONS e cid'" by (simp add: cursor_ends.ends_zero)
  qed
qed

text \<open>The listing of a database finds every collection in it. If the reply to \<open>listCollections\<close>
  carries a first batch and a cursor the server serves to its end, in any number of batches, and
  every entry that is not a view has a name, then \<open>collections\<close> answers exactly the entries that
  are not views, in the server's order, and leaves no cursor open.\<close>

theorem listing_finds_every_collection:
  assumes "bson_laws B" and "run e db (list_collections_command B) = (Inr resp, e1)"
    and "doc_get B resp ''cursor'' = Some (BDocument cur)"
    and "cursor_id_of (doc_get B cur ''id'') = Some cid"
    and "doc_get B cur ''firstBatch'' = Some (BArray (map BDocument ds))"
    and "serves B run db LIST_COLLECTIONS e1 cid docs z"
    and "\<forall>d\<in>set (ds @ docs). de d = Inr d \<and> (get_str B d ''type'' \<noteq> Some ''view'' \<longrightarrow> get_str B d ''name'' \<noteq> None)"
  shows "collections B de run db e =
    Some (Inr [Namespace_new db (unwrap_or [] (get_str B d ''name'')).
               d \<leftarrow> ds @ docs, get_str B d ''type'' \<noteq> Some ''view''], z)"
proof -
  let ?c = "\<lparr>cur_database = db, cur_collection = LIST_COLLECTIONS, cur_id = cid,
    cur_documents = ds, cur_finished = False\<rparr>"
  have "take_cursor_batch B resp ''firstBatch'' = Inr (cid, ds)"
    by (rule reply_batch [OF assms(1,3,4,5)]) simp
  then have "Cursor_from_response B db LIST_COLLECTIONS resp ''firstBatch'' = Inr ?c"
    by (simp add: Cursor_from_response_def)
  moreover have "remains B de run z ?c e1 (map Inr (ds @ docs))"
    unfolding remains_def using assms(1,6,7) by (intro conjI exI [of _ docs]) auto
  from loop_lists [OF this, of db "[]"] assms(7) obtain c' where
    "collections_loop B de run db [] ?c e1 = Some (Inr (listed B db (ds @ docs)), c', z)" "cur_id c' = 0"
    by (auto simp: is_collection_def VIEW_def)
  moreover have "listed B db xs = [Namespace_new db (unwrap_or [] (get_str B d ''name'')).
      d \<leftarrow> xs, get_str B d ''type'' \<noteq> Some ''view'']" for xs
    by (induction xs) (auto simp: listed_def is_collection_def VIEW_def)
  ultimately show ?thesis
    using assms(2) by (simp add: collections_def drop_ended del: map_append)
qed


theorem listing_finds_every_collection_witness:
  "collections alist_lib Inr scripted ''shop''
     ([Inr (batch_reply ''firstBatch'' 0 [ADoc [(''name'', BString ''orders'')], ADoc [(''type'', BString ''view'')]])], []) =
   Some (Inr [demo_ns], [], [(''shop'', list_collections_command alist_lib)])"
  using listing_finds_every_collection [OF bson_laws_alist, of scripted
      "([Inr (batch_reply ''firstBatch'' 0 [ADoc [(''name'', BString ''orders'')], ADoc [(''type'', BString ''view'')]])], [])"
      "''shop''" "batch_reply ''firstBatch'' 0 [ADoc [(''name'', BString ''orders'')], ADoc [(''type'', BString ''view'')]]"
      "([], [(''shop'', list_collections_command alist_lib)])"
      "ADoc [(''id'', BInt64 0), (''firstBatch'', BArray (map BDocument
         [ADoc [(''name'', BString ''orders'')], ADoc [(''type'', BString ''view'')]]))]"
      0 "[ADoc [(''name'', BString ''orders'')], ADoc [(''type'', BString ''view'')]]" "[]"
      "([], [(''shop'', list_collections_command alist_lib)])" Inr]
    serves.exhausted [of alist_lib scripted "''shop''" LIST_COLLECTIONS]
  by (simp add: batch_reply_def accessor_defs demo_ns_def)

end
