(* ===== verification/Blocking_Client.thy ===== *)
theory Blocking_Client
  imports Session_Pool Floors Repair_Pass
begin

text \<open>
  \<open>src/client.rs\<close>: the blocking client, which puts the other components together. Opening starts
  the engine, opens the session pool, establishes the process's free-disk floors and runs the repair
  pass, in that order; a command is encoded, run on a session of the pool, decoded and checked.

  The native engine behind \<open>embedded-mongodb-sys\<close> is a record of functions of its own state. What
  many threads do on one pool is the step relation of \<open>Session_Pool\<close>; here one thread uses the client,
  so a checkout that would have to wait for somebody else's session never returns, as does the panic
  behind \<open>expect\<close>: both are \<open>None\<close>. The lemmas show that neither happens to a client between two
  calls, which is what makes its commands a runner in the sense of the other components.
\<close>

section \<open>The native engine\<close>

record ('s, 'rt) native =
  nt_open :: "string \<Rightarrow> sys_error + 'rt"
  nt_open_with_options :: "string \<Rightarrow> NativeOpenOptions \<Rightarrow> sys_error + 'rt"
  nt_open_session :: "'rt \<Rightarrow> (sys_error + 's) \<times> 'rt"
  nt_run_command :: "'s \<Rightarrow> string \<Rightarrow> bytes \<Rightarrow> 'rt \<Rightarrow> (sys_error + bytes) \<times> 'rt"
  nt_close :: "'rt \<Rightarrow> sys_error + unit"
  nt_now :: "'rt \<Rightarrow> instant"
  nt_spawned :: "'rt \<Rightarrow> string + unit"

record ('s, 'rt) Client =
  client_pool :: "('s, unit) SessionPool"
  client_runtime :: 'rt

definition on_idles :: "('s pool_state \<Rightarrow> 's pool_state) \<Rightarrow> ('s, 'rt) Client \<Rightarrow> ('s, 'rt) Client" where
  "on_idles f self = self\<lparr>client_pool := (client_pool self)\<lparr>sp_idles := f (sp_idles (client_pool self))\<rparr>\<rparr>"

section \<open>One call on the pool\<close>

text \<open>\<open>checkout\<close> and \<open>grow\<close>, with nobody else holding a session.\<close>

definition SessionPool_checkout ::
  "('s, 'rt) native \<Rightarrow> ('s, 'rt) Client \<Rightarrow> (('d error + 's) \<times> ('s, 'rt) Client) option" where
  "SessionPool_checkout N self =
     (case checkout_turn (sp_limits (client_pool self)) (sp_idles (client_pool self)) of
        (Checked_out s, st) \<Rightarrow> Some (Inr s, on_idles (\<lambda>_. st) self)
      | (Reserved, st) \<Rightarrow>
          (case nt_open_session N (client_runtime self) of
             (Inr s, rt) \<Rightarrow> Some (Inr s, (on_idles (\<lambda>_. st) self)\<lparr>client_runtime := rt\<rparr>)
           | (Inl e, rt) \<Rightarrow>
               Some (Inl (error_of_sys e), (on_idles (\<lambda>_. grow_failed st) self)\<lparr>client_runtime := rt\<rparr>))
      | (Must_wait, st) \<Rightarrow> None)"

definition give_session_back :: "('s, 'rt) native \<Rightarrow> 's \<Rightarrow> ('s, 'rt) Client \<Rightarrow> ('s, 'rt) Client" where
  "give_session_back N s self = on_idles (Checkout_drop (nt_now N (client_runtime self)) (Some s)) self"

definition SessionPool_run ::
  "('s, 'rt) native \<Rightarrow> 's Slot \<Rightarrow> string \<Rightarrow> bytes \<Rightarrow> ('s, 'rt) Client
     \<Rightarrow> (('d error + bytes) option \<times> 's Slot \<times> ('s, 'rt) Client) option" where
  "SessionPool_run N slot db cmd self =
     (case SessionPool_checkout N self of
        None \<Rightarrow> None
      | Some (Inl err, self') \<Rightarrow> Some (Some (Inl err), slot, self')
      | Some (Inr s, self') \<Rightarrow>
          (case CommandSlot_start slot s of
             (False, slot') \<Rightarrow> Some (None, slot', give_session_back N s self')
           | (True, slot') \<Rightarrow>
               (let (r, rt) = nt_run_command N s db cmd (client_runtime self')
                in Some (Some (map_err error_of_sys r), Disarm_drop slot',
                         give_session_back N s (self'\<lparr>client_runtime := rt\<rparr>)))))"

section \<open>Commands\<close>

definition Client_send ::
  "('s, 'rt) native \<Rightarrow> string \<Rightarrow> bytes \<Rightarrow> ('s, 'rt) Client
     \<Rightarrow> (('d error + bytes) \<times> ('s, 'rt) Client) option" where
  "Client_send N db cmd self =
     (case SessionPool_run N CommandSlot_new db cmd self of
        Some (Some r, _, self') \<Rightarrow> Some (r, self')
      | _ \<Rightarrow> None)"

definition Client_run_command_bytes ::
  "('s, 'rt) native \<Rightarrow> string \<Rightarrow> bytes \<Rightarrow> ('s, 'rt) Client
     \<Rightarrow> (('d error + bytes) \<times> ('s, 'rt) Client) option" where
  "Client_run_command_bytes N db cmd self = Client_send N db cmd self"

definition decode_reply :: "'d bson_lib \<Rightarrow> bytes \<Rightarrow> 'd error + 'd" where
  "decode_reply B reply = and_then (map_err Bson (doc_from_reader B reply)) (validate_response B)"

definition Client_run_command ::
  "'d bson_lib \<Rightarrow> ('s, 'rt) native \<Rightarrow> ('s, 'rt) Client \<Rightarrow> string \<Rightarrow> 'd
     \<Rightarrow> (('d error + 'd) \<times> ('s, 'rt) Client) option" where
  "Client_run_command B N self db cmd =
     (case doc_to_vec B cmd of
        Inl err \<Rightarrow> Some (Inl (Bson err), self)
      | Inr encoded \<Rightarrow>
          map_option (\<lambda>(r, self'). (and_then r (decode_reply B), self')) (Client_send N db encoded self))"

definition Client_run_command_cancellable ::
  "'d bson_lib \<Rightarrow> ('s, 'rt) native \<Rightarrow> 's Slot \<Rightarrow> string \<Rightarrow> 'd \<Rightarrow> ('s, 'rt) Client
     \<Rightarrow> (('d error + 'd) option \<times> 's Slot \<times> ('s, 'rt) Client) option" where
  "Client_run_command_cancellable B N slot db cmd self =
     (case doc_to_vec B cmd of
        Inl err \<Rightarrow> Some (Some (Inl (Bson err)), slot, self)
      | Inr encoded \<Rightarrow>
          map_option (\<lambda>(r, slot', self'). (map_option (\<lambda>r. and_then r (decode_reply B)) r, slot', self'))
            (SessionPool_run N slot db encoded self))"

definition Client_send_cancellable ::
  "('s, 'rt) native \<Rightarrow> 's Slot \<Rightarrow> string \<Rightarrow> bytes \<Rightarrow> ('s, 'rt) Client
     \<Rightarrow> (('d error + bytes) option \<times> 's Slot \<times> ('s, 'rt) Client) option" where
  "Client_send_cancellable N slot db cmd self = SessionPool_run N slot db cmd self"

text \<open>Closing drops the pool, then closes the runtime it was opened on.\<close>

definition Client_close_engine :: "('s, 'rt) native \<Rightarrow> ('s, 'rt) Client \<Rightarrow> 'd error + unit" where
  "Client_close_engine N self = map_err error_of_sys (nt_close N (client_runtime self))"

section \<open>Opening\<close>

text \<open>The commands of a client between two calls, as the components that send commands take them.\<close>

definition Client_runner :: "'d bson_lib \<Rightarrow> ('s, 'rt) native \<Rightarrow> (('s, 'rt) Client, 'd) runner" where
  "Client_runner B N self db cmd = the (Client_run_command B N self db cmd)"

text \<open>
  What an open leaves behind: the client or the error, the floors recorded for the process, the
  states the marker's writes took the data directory through, and the commands it sent with the events
  of the repair pass. A failed open leaves what was done up to the call that failed. The path is
  \<open>None\<close> when it is not UTF-8.
\<close>

record ('s, 'rt, 'd) opened =
  od_client :: "'d error + ('s, 'rt) Client"
  od_recorded :: "ReportedFloors option"
  od_states :: "directory list"
  od_events :: "'d event list"

definition open_failed ::
  "'d error \<Rightarrow> ReportedFloors option \<Rightarrow> 'd event list \<Rightarrow> ('s, 'rt, 'd) opened" where
  "open_failed err recorded events =
     \<lparr>od_client = Inl err, od_recorded = recorded, od_states = [], od_events = events\<rparr>"

definition Client_open ::
  "'d bson_lib \<Rightarrow> ('d \<Rightarrow> string + 'd) \<Rightarrow> ('s, 'rt) native \<Rightarrow> nat list option option \<Rightarrow> io_faults
     \<Rightarrow> directory \<Rightarrow> ReportedFloors option \<Rightarrow> string option \<Rightarrow> OpenOptions option
     \<Rightarrow> ('s, 'rt, 'd) opened option" where
  "Client_open B de N var faults fs recorded path options =
     (case path of
        None \<Rightarrow> Some (open_failed NonUtf8Path recorded [])
      | Some name \<Rightarrow>
          (let orig = origin fs
           in case (case options of
                      Some opts \<Rightarrow> nt_open_with_options N name (EngineOptions_to_ffi (oo_engine opts))
                    | None \<Rightarrow> nt_open N name) of
                Inl e \<Rightarrow> Some (open_failed (error_of_sys e) recorded [])
              | Inr runtime \<Rightarrow>
                  (case SessionPool_open (nt_open_session N) (nt_spawned N runtime) (nt_now N runtime)
                          runtime (resolve_concurrency options) of
                     (Inl err, _) \<Rightarrow> Some (open_failed err recorded [])
                   | (Inr pool, runtime') \<Rightarrow>
                       (let client = \<lparr>client_pool = pool, client_runtime = runtime'\<rparr>
                        in case establish B (\<lambda>w. traced (Client_runner B N) w ''admin'')
                                  (Option.bind options oo_free_disk_floor)
                                  (recorded, \<lparr>wo_engine = client, wo_events = []\<rparr>) of
                             (Inl err, recorded', w) \<Rightarrow> Some (open_failed err recorded' (wo_events w))
                           | (Inr _, recorded', w) \<Rightarrow>
                               map_option (\<lambda>(states, w').
                                   \<lparr>od_client = Inr (wo_engine w'), od_recorded = recorded',
                                    od_states = states, od_events = wo_events w'\<rparr>)
                                 (run_repair B de (Client_runner B N) var faults orig fs w)))))"

section \<open>A client between two calls\<close>

text \<open>Every session the pool has open is free.\<close>

definition client_rests :: "('s, 'rt) Client \<Rightarrow> bool" where
  "client_rests self \<longleftrightarrow>
     Concurrency_wf (sp_limits (client_pool self)) \<and>
     unat (ps_open (sp_idles (client_pool self))) = length (ps_idle (sp_idles (client_pool self))) \<and>
     unat (ps_open (sp_idles (client_pool self))) \<le> unat (cc_max (sp_limits (client_pool self)))"

text \<open>Exactly one session is on loan.\<close>

definition client_lends :: "('s, 'rt) Client \<Rightarrow> bool" where
  "client_lends self \<longleftrightarrow>
     Concurrency_wf (sp_limits (client_pool self)) \<and>
     unat (ps_open (sp_idles (client_pool self))) = Suc (length (ps_idle (sp_idles (client_pool self)))) \<and>
     unat (ps_open (sp_idles (client_pool self))) \<le> unat (cc_max (sp_limits (client_pool self)))"

lemma checkout_returns:
  assumes "client_rests self"
  shows "\<exists>r self'. (SessionPool_checkout N self :: (('d error + 's) \<times> ('s, 'rt) Client) option) = Some (r, self') \<and>
    (case r of Inl _ \<Rightarrow> client_rests self' | Inr _ \<Rightarrow> client_lends self')"
proof -
  let ?st = "sp_idles (client_pool self)" and ?limits = "sp_limits (client_pool self)"
  from assms have wf: "Concurrency_wf ?limits" and idle: "unat (ps_open ?st) = length (ps_idle ?st)"
    "unat (ps_open ?st) \<le> unat (cc_max ?limits)" by (auto simp: client_rests_def)
  show ?thesis
  proof (cases "ps_idle ?st = []")
    case False
    then have "client_lends (on_idles (\<lambda>_. ?st\<lparr>ps_idle := butlast (ps_idle ?st)\<rparr>) self)"
      using wf idle by (simp add: client_lends_def on_idles_def)
    with False show ?thesis by (simp add: SessionPool_checkout_def checkout_turn_def State_take_def)
  next
    case True
    then have "unat (ps_open ?st) = 0" using idle by simp
    then have "ps_open ?st = 0" by (simp add: unat_eq_0)
    moreover from wf have max: "0 < unat (cc_max ?limits)"
      by (auto simp: Concurrency_wf_def word_le_nat_alt)
    ultimately have turn: "checkout_turn ?limits ?st = (Reserved, ?st\<lparr>ps_open := 1\<rparr>)"
      using True by (simp add: checkout_turn_def State_take_def word_less_nat_alt)
    obtain r rt where "nt_open_session N (client_runtime self) = (r, rt)" by fastforce
    with turn True wf max show ?thesis
      by (cases r) (auto simp: SessionPool_checkout_def on_idles_def client_rests_def client_lends_def grow_failed_def)
  qed
qed

lemma give_back_rests: "client_lends self \<Longrightarrow> client_rests (give_session_back N s self)"
  by (simp add: client_lends_def client_rests_def give_session_back_def on_idles_def Checkout_drop_def
      Idles_give_back_def)

lemma runtime_lends [simp]: "client_lends (self\<lparr>client_runtime := rt\<rparr>) = client_lends self"
  by (simp add: client_lends_def)

lemma run_returns:
  assumes "client_rests self"
  shows "\<exists>r slot' self'. (SessionPool_run N slot db cmd self ::
      (('d error + bytes) option \<times> 's Slot \<times> ('s, 'rt) Client) option) = Some (r, slot', self') \<and>
    client_rests self' \<and> (slot = Waiting \<longrightarrow> r \<noteq> None)"
proof -
  from checkout_returns [OF assms, of N] obtain r self' where
    c: "(SessionPool_checkout N self :: (('d error + 's) \<times> ('s, 'rt) Client) option) = Some (r, self')"
    "case r of Inl _ \<Rightarrow> client_rests self' | Inr _ \<Rightarrow> client_lends self'" by blast
  show ?thesis
  proof (cases r)
    case (Inl err)
    with c show ?thesis by (simp add: SessionPool_run_def)
  next
    case (Inr s)
    obtain res rt where "nt_run_command N s db cmd (client_runtime self') = (res, rt)" by fastforce
    with c Inr show ?thesis
      by (cases slot) (auto simp: SessionPool_run_def give_back_rests)
  qed
qed

lemma send_returns:
  assumes "client_rests self"
  shows "\<exists>r self'. (Client_send N db cmd self :: (('d error + bytes) \<times> ('s, 'rt) Client) option) =
    Some (r, self') \<and> client_rests self'"
  using run_returns [OF assms, of N CommandSlot_new db cmd, where 'd = 'd]
  by (auto simp: Client_send_def CommandSlot_new_def)

lemma run_command_returns:
  fixes B :: "'d bson_lib" and N :: "('s, 'rt) native"
  assumes "client_rests self"
  shows "\<exists>r self'. Client_run_command B N self db cmd = Some (r, self') \<and> client_rests self'"
proof (cases "doc_to_vec B cmd")
  case (Inl err)
  with assms show ?thesis by (simp add: Client_run_command_def)
next
  case (Inr encoded)
  from send_returns [OF assms, of N db encoded, where 'd = 'd] Inr show ?thesis
    by (auto simp: Client_run_command_def)
qed

lemma runner_rests: "client_rests self \<Longrightarrow> client_rests (snd (Client_runner B N self db cmd))"
  using run_command_returns [of self B N db cmd] by (auto simp: Client_runner_def)

section \<open>What a sequence of commands keeps\<close>

context kept_by_commands
begin

lemma admin_keeps: "keeps e \<Longrightarrow> run e ''admin'' cmd = (r, e') \<Longrightarrow> keeps e'"
  using run_keeps [of e "''admin''" cmd] by simp

lemma send_floors_keeps:
  "send_floors (\<lambda>e. run e ''admin'') commands e = (r, e') \<Longrightarrow> keeps e \<Longrightarrow> keeps e'"
  by (auto simp: send_floors_def dest!: admin_keeps [rotated] split: prod.splits sum.splits)

lemma reported_floors_keeps:
  "reported_floors B (\<lambda>e. run e ''admin'') e = (r, e') \<Longrightarrow> keeps e \<Longrightarrow> keeps e'"
  by (auto simp: reported_floors_def dest!: admin_keeps [rotated] split: prod.splits)

lemma establish_keeps:
  assumes "establish B (\<lambda>e. run e ''admin'') requested (recorded, e) = (r, recorded', e')" and "keeps e"
  shows "keeps e'"
proof -
  obtain d recorded1 e1 where d: "EngineFloorDefaults_of B (\<lambda>e. run e ''admin'') recorded e = (d, recorded1, e1)"
    by (metis prod_cases3)
  have "keeps e1"
    using d assms(2)
    by (auto simp: EngineFloorDefaults_of_def dest!: reported_floors_keeps split: option.splits prod.splits sum.splits)
  with assms(1) d show ?thesis
    by (auto simp: establish_def one_at_a_time_def Let_def dest!: send_floors_keeps
        split: sum.splits option.splits prod.splits)
qed

end

interpretation resting: kept_by_commands "Client_runner B N" client_rests for B N
  by unfold_locales (rule runner_rests)


interpretation resting_world:
  kept_by_commands "traced (Client_runner B N)" "\<lambda>w. client_rests (wo_engine w)" for B N
  by unfold_locales (auto simp: traced_def log_events_def split_beta intro: runner_rests)

section \<open>What an open sends before the repair pass\<close>

text \<open>The engine's own floors, asked for unless the process has them recorded.\<close>

definition asked_for ::
  "'d bson_lib \<Rightarrow> ReportedFloors option \<Rightarrow> ReportedFloors \<Rightarrow> 'd event list \<Rightarrow> bool" where
  "asked_for B recorded own evs \<longleftrightarrow>
     (case recorded of
        Some floors \<Rightarrow> own = floors \<and> evs = []
      | None \<Rightarrow> (\<exists>reported index_build spilling.
          evs = [Ran ''admin'' (read_floors_command B) (Inr reported)] \<and>
          floor_in B reported INDEX_BUILD_FLOOR = Inr index_build \<and>
          floor_in B reported QUERY_SPILLING_FLOOR = Inr spilling \<and>
          own = ReportedFloors_new (IndexBuildFloor index_build) (QuerySpillingFloor spilling)))"

definition floors_to_set ::
  "'d bson_lib \<Rightarrow> FreeDiskFloor option \<Rightarrow> ReportedFloors \<Rightarrow> 'd \<times> 'd" where
  "floors_to_set B requested own =
     (case requested of Some floor \<Rightarrow> FreeDiskFloor_commands B floor | None \<Rightarrow> ReportedFloors_commands B own)"

text \<open>
  Setting them, up to and with the command that was refused: the events of the two commands, whether
  both were accepted.
\<close>

definition set_both :: "'d \<times> 'd \<Rightarrow> 'd event list \<Rightarrow> bool" where
  "set_both cmds evs \<longleftrightarrow>
     (\<exists>r1 r2. evs = [Ran ''admin'' (fst cmds) (Inr r1), Ran ''admin'' (snd cmds) (Inr r2)])"

definition set_refused :: "'d \<times> 'd \<Rightarrow> 'd error \<Rightarrow> 'd event list \<Rightarrow> bool" where
  "set_refused cmds err evs \<longleftrightarrow>
     evs = [Ran ''admin'' (fst cmds) (Inl err)] \<or>
     (\<exists>r1. evs = [Ran ''admin'' (fst cmds) (Inr r1), Ran ''admin'' (snd cmds) (Inl err)])"

lemma send_floors_traced:
  assumes "send_floors (\<lambda>w. traced run w ''admin'') cmds w = (r, w')"
  shows "\<exists>evs. wo_events w' = wo_events w @ evs \<and>
    (case r of Inl err \<Rightarrow> set_refused cmds err evs | Inr _ \<Rightarrow> set_both cmds evs)"
  using assms
  by (auto simp: send_floors_def traced_def log_events_def set_both_def set_refused_def
      split: prod.splits sum.splits)

lemma defaults_traced:
  assumes "EngineFloorDefaults_of B (\<lambda>w. traced run w ''admin'') recorded w = (d, recorded', w')"
  shows "\<exists>evs. wo_events w' = wo_events w @ evs \<and>
    (case d of
       Inl err \<Rightarrow> recorded = None \<and> recorded' = None \<and>
         (\<exists>reply. evs = [Ran ''admin'' (read_floors_command B) reply])
     | Inr own \<Rightarrow> recorded' = Some own \<and> asked_for B recorded own evs)"
  using assms
  by (auto simp: EngineFloorDefaults_of_def reported_floors_def traced_def log_events_def asked_for_def
      result_iffs split: option.splits prod.splits sum.splits)

text \<open>Everything establishing the floors did, with the events it did it by.\<close>

definition floors_established ::
  "'d bson_lib \<Rightarrow> FreeDiskFloor option \<Rightarrow> ReportedFloors option \<Rightarrow> ReportedFloors option \<Rightarrow> 'd event list \<Rightarrow> bool" where
  "floors_established B requested recorded recorded' evs \<longleftrightarrow>
     (\<exists>own asking setting. recorded' = Some own \<and> evs = asking @ setting \<and>
        asked_for B recorded own asking \<and> set_both (floors_to_set B requested own) setting)"

definition floors_refused ::
  "'d bson_lib \<Rightarrow> FreeDiskFloor option \<Rightarrow> ReportedFloors option \<Rightarrow> ReportedFloors option \<Rightarrow> 'd error
     \<Rightarrow> 'd event list \<Rightarrow> bool" where
  "floors_refused B requested recorded recorded' err evs \<longleftrightarrow>
     recorded = None \<and> recorded' = None \<and> (\<exists>reply. evs = [Ran ''admin'' (read_floors_command B) reply]) \<or>
     (\<exists>own asking setting. recorded' = Some own \<and> evs = asking @ setting \<and>
        asked_for B recorded own asking \<and> set_refused (floors_to_set B requested own) err setting)"

lemma establish_traced:
  assumes "establish B (\<lambda>w. traced run w ''admin'') requested (recorded, w) = (r, recorded', w')"
  shows "\<exists>evs. wo_events w' = wo_events w @ evs \<and>
    (case r of
       Inl err \<Rightarrow> floors_refused B requested recorded recorded' err evs
     | Inr _ \<Rightarrow> floors_established B requested recorded recorded' evs)"
proof -
  obtain d recorded1 w1 where
    d: "EngineFloorDefaults_of B (\<lambda>w. traced run w ''admin'') recorded w = (d, recorded1, w1)"
    by (metis prod_cases3)
  from defaults_traced [OF d] obtain asking where asking: "wo_events w1 = wo_events w @ asking"
    "case d of
       Inl err \<Rightarrow> recorded = None \<and> recorded1 = None \<and>
         (\<exists>reply. asking = [Ran ''admin'' (read_floors_command B) reply])
     | Inr own \<Rightarrow> recorded1 = Some own \<and> asked_for B recorded own asking" by blast
  show ?thesis
  proof (cases d)
    case (Inl err)
    with assms d have "r = Inl err" "recorded' = recorded1" "w' = w1"
      by (auto simp: establish_def one_at_a_time_def)
    with Inl asking show ?thesis by (auto simp: floors_refused_def)
  next
    case (Inr own)
    with assms d have sent: "send_floors (\<lambda>w. traced run w ''admin'') (floors_to_set B requested own) w1 = (r, w')"
      and rec: "recorded' = recorded1"
      by (auto simp: establish_def one_at_a_time_def floors_to_set_def Let_def split: option.splits prod.splits)
    from send_floors_traced [OF sent] obtain setting where "wo_events w' = wo_events w1 @ setting"
      "case r of Inl err \<Rightarrow> set_refused (floors_to_set B requested own) err setting
        | Inr _ \<Rightarrow> set_both (floors_to_set B requested own) setting" by blast
    with Inr asking rec show ?thesis
      by (intro exI [of _ "asking @ setting"])
        (cases r; auto simp: floors_refused_def floors_established_def)
  qed
qed

section \<open>What the repair pass leaves on disk\<close>

text \<open>Only the marker's own files, and only once the directory needs no further check.\<close>

definition marker_only :: "directory \<Rightarrow> directory \<Rightarrow> bool" where
  "marker_only fs fs' \<longleftrightarrow> (\<forall>name. name \<noteq> FILE_NAME \<and> name \<noteq> PARTIAL_FILE_NAME \<longrightarrow> fs' name = fs name)"

lemma marker_only_last:
  assumes "\<forall>fs'\<in>set sts. marker_only fs fs'"
  shows "marker_only fs (last (fs # sts))"
  using assms by (cases "sts = []") (auto simp: marker_only_def)

lemma record_marker_only:
  assumes "Marker_record faults fs = (r, states)"
  shows "\<forall>fs'\<in>set states. marker_only fs fs'"
proof -
  obtain p sts where p: "write_partial faults fs = (p, sts)" by fastforce
  then have sts: "\<forall>fs'\<in>set sts. marker_only fs fs'"
    by (auto simp: write_partial_def written_def marker_only_def split: option.splits prod.splits)
  have "set states \<subseteq> set sts \<union> {rename_partial (last (fs # sts)), (last (fs # sts))(PARTIAL_FILE_NAME := None)}"
    using assms p by (auto simp: Marker_record_def simp del: last.simps split: sum.splits option.splits if_splits)
  moreover have "marker_only fs (rename_partial (last (fs # sts)))"
    "marker_only fs ((last (fs # sts))(PARTIAL_FILE_NAME := None))"
    using marker_only_last [OF sts] by (simp_all add: marker_only_def rename_partial_def del: last.simps)
  ultimately show ?thesis using sts by (auto simp del: last.simps)
qed

lemma run_repair_disk:
  assumes "run_repair B de run var faults orig fs w = Some (states, w')" and "states \<noteq> []"
  shows "(\<forall>fs'\<in>set states. marker_only fs fs') \<and> Marker_state fs = Missing \<and> \<not> skip_requested var \<and>
    (orig = Fresh \<or> Pass_finished \<in> set (wo_events w'))"
proof -
  from assms have asked: "\<not> skip_requested var" "Marker_state fs = Missing"
    by (auto simp: run_repair_def split: if_splits intro: MarkerState.exhaust [of "Marker_state fs"])
  have wrote: "\<forall>fs'\<in>set states. marker_only fs fs'" if "record_pass faults fs v = (states, w')" for v
    using that record_marker_only by (auto simp: record_pass_def split: prod.splits sum.splits)
  show ?thesis
  proof (cases orig)
    case Fresh
    with assms asked wrote show ?thesis by (auto simp: run_repair_def)
  next
    case PreExisting
    from run_repair_scan [OF assms(1) asked this] obtain out w2 where
      "(case out of
          Complete \<Rightarrow> record_pass faults fs (log_events [Pass_finished] w2)
        | Incomplete \<Rightarrow> ([], log_events [Pass_incomplete] w2)) = (states, w')" by blast
    with assms(2) have rec: "record_pass faults fs (log_events [Pass_finished] w2) = (states, w')"
      by (cases out) auto
    from record_pass_events [OF this] wrote [OF rec] asked show ?thesis by auto
  qed
qed

section \<open>A pool that was just opened\<close>

lemma open_sessions_length: "open_sessions f n rt = (Inr ss, rt') \<Longrightarrow> length ss = n"
  by (induction f n rt arbitrary: ss rt' rule: open_sessions.induct)
    (auto split: prod.splits sum.splits)

lemma opened_pool_rests:
  assumes "SessionPool_open f spawned now rt limits = (Inr pool, rt')" and "Concurrency_wf limits"
  shows "client_rests \<lparr>client_pool = pool, client_runtime = rt'\<rparr>"
  using assms
  by (auto simp: SessionPool_open_def client_rests_def Idles_new_def Concurrency_wf_def word_le_nat_alt
      dest: open_sessions_length split: prod.splits sum.splits)

lemma resolve_wf:
  assumes "\<forall>opts c. options = Some opts \<and> oo_concurrency opts = Some c \<longrightarrow> Concurrency_wf c"
  shows "Concurrency_wf (resolve_concurrency options)"
  using assms Concurrency_DEFAULT_wf
  by (cases options; cases "Option.bind options oo_concurrency") (auto simp: resolve_concurrency_def)

section \<open>An engine that answers one reply\<close>

definition fixed_reply :: adoc where
  "fixed_reply = ADoc [(''ok'', BInt32 1), (INDEX_BUILD_FLOOR, BInt64 500),
     (QUERY_SPILLING_FLOOR, BInt64 1000), (''databases'', BArray [])]"

definition fixed_lib :: "adoc bson_lib" where
  "fixed_lib = alist_lib\<lparr>doc_to_vec := \<lambda>d. Inr [1], doc_from_reader := \<lambda>bs. Inr fixed_reply\<rparr>"

definition quiet_native :: "(nat, nat) native" where
  "quiet_native =
     \<lparr>nt_open = (\<lambda>path. Inr 0), nt_open_with_options = (\<lambda>path opts. Inr 0),
      nt_open_session = (\<lambda>rt. (Inr rt, Suc rt)), nt_run_command = (\<lambda>s db cmd rt. (Inr [2], rt)),
      nt_close = (\<lambda>rt. Inr ()), nt_now = (\<lambda>rt. 0), nt_spawned = (\<lambda>rt. Inr ())\<rparr>"

lemma fixed_get: "doc_get fixed_lib (ADoc kvs) k = map_of kvs k"
  by (simp add: fixed_lib_def alist_lib_def)

lemma fixed_valid: "validate_response fixed_lib fixed_reply = Inr fixed_reply"
  by (simp add: validate_response_def fixed_get fixed_reply_def contains_key_def
      INDEX_BUILD_FLOOR_def QUERY_SPILLING_FLOOR_def)

lemma fixed_run:
  assumes "client_rests c"
  shows "\<exists>c'. Client_runner fixed_lib quiet_native c db cmd = (Inr fixed_reply, c') \<and> client_rests c'"
proof -
  from checkout_returns [OF assms, of quiet_native, where 'd = adoc] obtain r c1 where
    r: "(SessionPool_checkout quiet_native c :: ((adoc error + nat) \<times> (nat, nat) Client) option) = Some (r, c1)"
    "case r of Inl _ \<Rightarrow> client_rests c1 | Inr _ \<Rightarrow> client_lends c1" by blast
  then obtain s where "r = Inr s"
    by (cases r) (auto simp: SessionPool_checkout_def quiet_native_def split: checkout_outcome.splits prod.splits)
  with r have "Client_run_command fixed_lib quiet_native c db cmd =
      Some (Inr fixed_reply, give_session_back quiet_native s (c1\<lparr>client_runtime := client_runtime c1\<rparr>))"
    by (simp add: Client_run_command_def Client_send_def SessionPool_run_def CommandSlot_new_def
        quiet_native_def fixed_lib_def decode_reply_def)
      (simp add: fixed_valid [unfolded fixed_lib_def])
  with r \<open>r = Inr s\<close> show ?thesis by (simp add: Client_runner_def give_back_rests)
qed

lemma fixed_traced:
  assumes "client_rests (wo_engine w)"
  shows "\<exists>w'. traced (Client_runner fixed_lib quiet_native) w db cmd = (Inr fixed_reply, w') \<and>
    client_rests (wo_engine w')"
  using fixed_run [OF assms, of db cmd] by (auto simp: traced_def log_events_def)

lemma fixed_establish:
  assumes "client_rests (wo_engine w)"
  shows "\<exists>w'. establish fixed_lib (\<lambda>w. traced (Client_runner fixed_lib quiet_native) w ''admin'') None (None, w) =
    (Inr (), Some (ReportedFloors_new (IndexBuildFloor 500) (QuerySpillingFloor 1000)), w')"
proof -
  let ?run = "traced (Client_runner fixed_lib quiet_native)"
  let ?own = "ReportedFloors_new (IndexBuildFloor 500) (QuerySpillingFloor 1000)"
  from fixed_traced [OF assms] obtain w1 where
    w1: "?run w ''admin'' (read_floors_command fixed_lib) = (Inr fixed_reply, w1)" "client_rests (wo_engine w1)" by blast
  have own: "reported_floors fixed_lib (\<lambda>w. ?run w ''admin'') w = (Inr ?own, w1)"
    using w1(1) by (simp add: reported_floors_def floor_in_def fixed_get fixed_reply_def
        INDEX_BUILD_FLOOR_def QUERY_SPILLING_FLOOR_def)
  obtain a b where ab: "ReportedFloors_commands fixed_lib ?own = (a, b)" by fastforce
  from fixed_traced [OF w1(2)] obtain w2 where
    w2: "?run w1 ''admin'' a = (Inr fixed_reply, w2)" "client_rests (wo_engine w2)" by blast
  from fixed_traced [OF w2(2)] obtain w3 where w3: "?run w2 ''admin'' b = (Inr fixed_reply, w3)" by blast
  from own ab w2 w3 show ?thesis
    by (simp add: establish_def one_at_a_time_def EngineFloorDefaults_of_def send_floors_def)
qed

lemma fixed_laws: "bson_laws fixed_lib"
  using bson_laws_alist by (simp add: fixed_lib_def bson_laws_def)

lemma quiet_sessions: "\<exists>ss rt'. open_sessions (nt_open_session quiet_native) n rt = (Inr ss, rt')"
proof (induction n arbitrary: rt)
  case 0
  show ?case by simp
next
  case (Suc n)
  from Suc.IH [of "Suc rt"] show ?case by (auto simp: quiet_native_def)
qed

section \<open>Properties\<close>

text \<open>C25: A command of the blocking client always returns. On a client between two calls, whatever
  the engine answers, \<open>run_command\<close> neither waits for a session nobody can give back nor panics over a
  cancelled slot, and leaves the client between two calls again. Its answer is the reply the engine
  gave, decoded and accepted; any other outcome is an error.\<close>

theorem blocking_commands_return:
  fixes B :: "'d bson_lib" and N :: "('s, 'rt) native"
  assumes "client_rests self"
  shows "\<exists>r self'. Client_run_command B N self db cmd = Some (r, self') \<and> client_rests self' \<and>
    (\<forall>d. r = Inr d \<longrightarrow>
       (\<exists>encoded s rt reply. doc_to_vec B cmd = Inr encoded \<and>
          fst (nt_run_command N s db encoded rt) = Inr reply \<and>
          doc_from_reader B reply = Inr d \<and> validate_response B d = Inr d))"
proof -
  from run_command_returns [OF assms, of B N db cmd] obtain r self' where
    c: "Client_run_command B N self db cmd = Some (r, self')" "client_rests self'" by blast
  have "\<exists>encoded s rt reply. doc_to_vec B cmd = Inr encoded \<and>
      fst (nt_run_command N s db encoded rt) = Inr reply \<and>
      doc_from_reader B reply = Inr d \<and> validate_response B d = Inr d" if "r = Inr d" for d
  proof -
    from c(1) that obtain encoded sent where e: "doc_to_vec B cmd = Inr encoded"
      "(Client_send N db encoded self :: (('d error + bytes) \<times> _) option) = Some (sent, self')"
      "and_then sent (decode_reply B) = Inr d"
      by (auto simp: Client_run_command_def split: sum.splits)
    then obtain reply where reply: "sent = Inr reply" "decode_reply B reply = Inr d"
      by (auto simp: result_iffs)
    have "\<exists>s rt. fst (nt_run_command N s db encoded rt) = Inr reply"
      using e(2) reply(1)
      by (auto simp: Client_send_def SessionPool_run_def Let_def map_err_Inr_iff
          split: option.splits prod.splits sum.splits bool.splits) (metis fst_conv)+
    with e reply(2) show ?thesis
      by (auto simp: decode_reply_def result_iffs validate_response_Inr_iff)
  qed
  with c show ?thesis by blast
qed

theorem blocking_commands_return_witness:
  "client_rests (\<lparr>client_pool = \<lparr>sp_limits = Concurrency_DEFAULT, sp_idles = Idles_new 0 [] 0, sp_reaper = None\<rparr>,
      client_runtime = 3\<rparr> :: (nat, nat) Client) \<and>
   (\<exists>self'. Client_run_command fixed_lib quiet_native
      \<lparr>client_pool = \<lparr>sp_limits = Concurrency_DEFAULT, sp_idles = Idles_new 0 [] 0, sp_reaper = None\<rparr>,
       client_runtime = 3\<rparr> ''admin'' (ADoc []) = Some (Inr fixed_reply, self') \<and> client_rests self')"
proof -
  let ?c = "\<lparr>client_pool = \<lparr>sp_limits = Concurrency_DEFAULT, sp_idles = Idles_new 0 [] 0, sp_reaper = None\<rparr>,
    client_runtime = 3\<rparr> :: (nat, nat) Client"
  have rests: "client_rests ?c"
    using Concurrency_DEFAULT_wf by (simp add: client_rests_def Idles_new_def)
  from blocking_commands_return [OF rests, of fixed_lib quiet_native "''admin''" "ADoc []"]
    fixed_run [OF rests, of "''admin''" "ADoc []"]
  have "\<exists>self'. Client_run_command fixed_lib quiet_native ?c ''admin'' (ADoc []) = Some (Inr fixed_reply, self') \<and>
      client_rests self'"
    by (auto simp: Client_runner_def)
  with rests show ?thesis by blast
qed

text \<open>C18: An open sets the floors before it repairs, and leaves behind what it got to. With options the
  constructors answer and an engine that ends its \<open>listCollections\<close> cursors, every open returns.
  An open that answers a client asked the engine for its own floors if the process had none
  recorded, recorded them, and had both floors accepted (the ones asked for, or the engine's own)
  before the repair pass did anything; the client is between two calls, every repair of the pass
  comes after a check that found damage, and on disk only the marker's files changed, which
  happens only in a directory that had no marker, was not told to skip, and was new or has been
  checked to the end. An open that fails sent floor commands only, up to the one refused, started no
  repair and wrote no marker; floors it learnt before that stay recorded.\<close>

theorem open_sets_floors_before_repair:
  fixes B :: "'d bson_lib" and N :: "('s, 'rt) native"
  assumes "bson_laws B"
    and "\<forall>opts c. options = Some opts \<and> oo_concurrency opts = Some c \<longrightarrow> Concurrency_wf c"
    and "\<forall>db c cid. client_rests c \<longrightarrow> cursor_ends B (Client_runner B N) db LIST_COLLECTIONS c cid"
  shows "\<exists>od. Client_open B de N var faults fs recorded path options = Some od \<and>
    (case od_client od of
       Inr client \<Rightarrow>
         client_rests client \<and>
         (\<exists>floors repair. od_events od = floors @ repair \<and>
            floors_established B (Option.bind options oo_free_disk_floor) recorded (od_recorded od) floors \<and>
            guarded B repair \<and>
            (od_states od \<noteq> [] \<longrightarrow>
               (\<forall>fs'\<in>set (od_states od). marker_only fs fs') \<and> Marker_state fs = Missing \<and>
               \<not> skip_requested var \<and> (origin fs = Fresh \<or> Pass_finished \<in> set repair)))
     | Inl err \<Rightarrow>
         od_states od = [] \<and>
         (od_events od = [] \<and> od_recorded od = recorded \<or>
          floors_refused B (Option.bind options oo_free_disk_floor) recorded (od_recorded od) err (od_events od)))"
proof (cases path)
  case None
  then show ?thesis by (simp add: Client_open_def open_failed_def)
next
  case (Some name)
  let ?native = "case options of
      Some opts \<Rightarrow> nt_open_with_options N name (EngineOptions_to_ffi (oo_engine opts))
    | None \<Rightarrow> nt_open N name"
  show ?thesis
  proof (cases ?native)
    case (Inl e)
    with Some show ?thesis by (simp add: Client_open_def open_failed_def)
  next
    case (Inr rt)
    obtain p rt' where p: "(SessionPool_open (nt_open_session N) (nt_spawned N rt) (nt_now N rt) rt
        (resolve_concurrency options) :: ('d error + ('s, unit) SessionPool) \<times> 'rt) = (p, rt')" by fastforce
    show ?thesis
    proof (cases p)
      case (Inl err)
      with Some Inr p show ?thesis by (simp add: Client_open_def open_failed_def)
    next
      case pool: (Inr pool)
      let ?w = "\<lparr>wo_engine = \<lparr>client_pool = pool, client_runtime = rt'\<rparr>, wo_events = []\<rparr>"
      have rests: "client_rests (wo_engine ?w)"
        using p pool resolve_wf [OF assms(2)] by (auto intro: opened_pool_rests)
      obtain r recorded' w1 where f: "establish B (\<lambda>w. traced (Client_runner B N) w ''admin'')
          (Option.bind options oo_free_disk_floor) (recorded, ?w) = (r, recorded', w1)" by (metis prod_cases3)
      from establish_traced [OF f] have sent: "case r of
          Inl err \<Rightarrow> floors_refused B (Option.bind options oo_free_disk_floor) recorded recorded' err (wo_events w1)
        | Inr _ \<Rightarrow> floors_established B (Option.bind options oo_free_disk_floor) recorded recorded' (wo_events w1)"
        by simp
      show ?thesis
      proof (cases r)
        case (Inl err)
        with Some Inr p pool f sent show ?thesis by (simp add: Client_open_def open_failed_def)
      next
        case est: (Inr u)
        note w1 = resting_world.establish_keeps [OF f rests]
        have "\<exists>states w. run_repair B de (Client_runner B N) var faults (origin fs) fs w1 = Some (states, w)"
          by (rule resting.run_repair_returns) (use assms(3) w1 in auto)
        then obtain states w where
          rep: "run_repair B de (Client_runner B N) var faults (origin fs) fs w1 = Some (states, w)" by blast
        from run_repair_guarded [OF assms(1) rep] obtain repair where
          repair: "wo_events w = wo_events w1 @ repair" "guarded B repair" by blast
        have "Pass_finished \<notin> set (wo_events w1)"
          using sent est by (auto simp: floors_established_def set_both_def asked_for_def split: option.splits)
        with repair run_repair_disk [OF rep] resting.run_repair_keeps [OF rep w1] Some Inr p pool f est rep sent
        show ?thesis by (auto simp: Client_open_def)
      qed
    qed
  qed
qed

theorem open_sets_floors_before_repair_witness:
  "\<exists>od client. Client_open fixed_lib Inr quiet_native None no_faults Map.empty None (Some ''db'') None = Some od \<and>
     od_client od = Inr client \<and> client_rests client \<and>
     od_recorded od = Some (ReportedFloors_new (IndexBuildFloor 500) (QuerySpillingFloor 1000))"
proof -
  have ends: "\<forall>db c cid. client_rests c \<longrightarrow>
      cursor_ends fixed_lib (Client_runner fixed_lib quiet_native) db LIST_COLLECTIONS c cid"
  proof (intro allI impI)
    fix db cid and c :: "(nat, nat) Client" assume "client_rests c"
    from fixed_run [OF this] obtain c' where
      r: "Client_runner fixed_lib quiet_native c db (get_more_command fixed_lib cid LIST_COLLECTIONS) =
        (Inr fixed_reply, c')" by blast
    have no_batch: "take_cursor_batch fixed_lib fixed_reply ''nextBatch'' \<noteq> Inr x" for x
      by (simp add: take_cursor_batch_def fixed_lib_def alist_lib_def fixed_reply_def
          INDEX_BUILD_FLOOR_def QUERY_SPILLING_FLOOR_def)
    show "cursor_ends fixed_lib (Client_runner fixed_lib quiet_native) db LIST_COLLECTIONS c cid"
      by (rule cursor_ends.ends_asked [where r = "Inr fixed_reply" and ?e1.0 = c']) (simp_all add: r no_batch)
  qed
  obtain ss rt' where "open_sessions (nt_open_session quiet_native) (unat (cc_min (resolve_concurrency None))) 0 = (Inr ss, rt')"
    using quiet_sessions by blast
  then obtain pool :: "(nat, unit) SessionPool" where
    p: "(SessionPool_open (nt_open_session quiet_native) (nt_spawned quiet_native 0) (nt_now quiet_native 0) 0
      (resolve_concurrency None) :: (adoc error + (nat, unit) SessionPool) \<times> nat) = (Inr pool, rt')"
    by (simp add: SessionPool_open_def)
  let ?w = "\<lparr>wo_engine = \<lparr>client_pool = pool, client_runtime = rt'\<rparr>, wo_events = []\<rparr>"
  have "client_rests \<lparr>client_pool = pool, client_runtime = rt'\<rparr>"
    by (rule opened_pool_rests [OF p]) (simp add: resolve_concurrency_def Concurrency_DEFAULT_wf)
  with fixed_establish [of ?w] obtain w' where
    e: "establish fixed_lib (\<lambda>w. traced (Client_runner fixed_lib quiet_native) w ''admin'') None (None, ?w) =
      (Inr (), Some (ReportedFloors_new (IndexBuildFloor 500) (QuerySpillingFloor 1000)), w')" by auto
  have n: "nt_open quiet_native ''db'' = Inr 0" by (simp add: quiet_native_def)
  have opts: "\<forall>opts c. None = Some opts \<and> oo_concurrency opts = Some c \<longrightarrow> Concurrency_wf c" by simp
  from open_sets_floors_before_repair [OF fixed_laws opts ends, of Inr None no_faults Map.empty None "Some ''db''"]
  obtain od where od: "Client_open fixed_lib Inr quiet_native None no_faults Map.empty None (Some ''db'') None = Some od"
    "\<And>client. od_client od = Inr client \<Longrightarrow> client_rests client"
    by (elim exE conjE) (metis (no_types, lifting) old.sum.simps(6))
  moreover from od(1) n p e have "od_recorded od = Some (ReportedFloors_new (IndexBuildFloor 500) (QuerySpillingFloor 1000))"
    "\<exists>client. od_client od = Inr client"
    by (auto simp: Client_open_def)
  ultimately show ?thesis by blast
qed

end
