(* ===== verification/Async_Api.thy ===== *)
theory Async_Api
  imports Crud Floors
begin

text \<open>
  The document API of the async client, \<open>src/nonblocking/\<close>: \<open>client.rs\<close>, \<open>database.rs\<close>,
  \<open>collection.rs\<close>, \<open>insert.rs\<close>, \<open>find.rs\<close>, \<open>aggregate.rs\<close>, \<open>process.rs\<close>, and the three ways
  \<open>engine.rs\<close> dispatches a call. One task awaits one call at a time, each to its end, so a call is
  the operation a worker runs, or \<open>Closed\<close> once the pool refuses work. What is not awaited, the kill
  a dropped cursor detaches, stays in the queue and runs when the schedule says a worker got to it.
  The worker threads behind a call are the theories \<open>Worker_State\<close> and \<open>Worker_Pool\<close>; a command
  interrupted because its future was dropped is \<open>Slot\<close> and \<open>Session_Pool\<close>.

  While the engine is open every operation is shown to answer what the blocking one answers and,
  once the detached kills have run, to leave the client in the state the blocking one leaves it in;
  the async cursor interprets the same locale \<open>result_stream\<close>. Once it is closed nothing reaches
  the client any more.
\<close>

section \<open>Dispatching\<close>

text \<open>
  The jobs detached and not yet run, in the order they were queued, and the schedule: from the state
  of the client and the number of jobs waiting, which of them the workers run before they come to
  the job just dispatched (places in the queue, each counted after the ones before it left).
  Workers run in parallel, so the schedule may pick any of them in any order, or none.
\<close>

record 'e async_engine =
  ae_client :: 'e
  ae_detached :: "('e \<Rightarrow> 'e) list"
  ae_due :: "'e \<Rightarrow> nat \<Rightarrow> nat list"
  ae_closed :: bool

fun run_jobs :: "nat list \<Rightarrow> 'e \<Rightarrow> ('e \<Rightarrow> 'e) list \<Rightarrow> 'e \<times> ('e \<Rightarrow> 'e) list" where
  "run_jobs [] e q = (e, q)"
| "run_jobs (i # is) e q =
     (if i < length q then run_jobs is ((q ! i) e) (take i q @ drop (Suc i) q) else run_jobs is e q)"

definition Engine_turn :: "'e async_engine \<Rightarrow> 'e async_engine" where
  "Engine_turn self =
     (let (e, q) = run_jobs (ae_due self (ae_client self) (length (ae_detached self)))
                     (ae_client self) (ae_detached self)
      in self\<lparr>ae_client := e, ae_detached := q\<rparr>)"

text \<open>
  \<open>Engine::run_cancellable\<close> and \<open>Engine::run\<close>: an operation that sends no reply (\<open>None\<close>: it was
  cancelled before it began, or it panicked and the worker caught the panic) drops the channel, which
  the caller sees as \<open>Closed\<close>; the engine stays as it is.
\<close>

definition Engine_run_cancellable ::
  "('e \<Rightarrow> ('d error + 'r) option \<times> 'e) \<Rightarrow> 'e async_engine \<Rightarrow> ('d error + 'r) \<times> 'e async_engine" where
  "Engine_run_cancellable operation self =
     (if ae_closed self then (Inl Closed, self)
      else let self' = Engine_turn self; (reply, e) = operation (ae_client self')
           in (case reply of None \<Rightarrow> Inl Closed | Some r \<Rightarrow> r, self'\<lparr>ae_client := e\<rparr>))"

definition Engine_run ::
  "('e \<Rightarrow> ('d error + 'r) option \<times> 'e) \<Rightarrow> 'e async_engine \<Rightarrow> ('d error + 'r) \<times> 'e async_engine" where
  "Engine_run operation self =
     (if ae_closed self then (Inl Closed, self)
      else let self' = Engine_turn self; (reply, e) = operation (ae_client self')
           in (case reply of None \<Rightarrow> Inl Closed | Some r \<Rightarrow> r, self'\<lparr>ae_client := e\<rparr>))"

text \<open>Queued and not waited for; refused like any other job once the engine is closed.\<close>

definition Engine_run_detached :: "('e \<Rightarrow> 'e) \<Rightarrow> 'e async_engine \<Rightarrow> 'e async_engine" where
  "Engine_run_detached operation self =
     (if ae_closed self then self else self\<lparr>ae_detached := ae_detached self @ [operation]\<rparr>)"

text \<open>The client once every detached job has run.\<close>

definition drained :: "'e async_engine \<Rightarrow> 'e" where
  "drained ae = fold (\<lambda>job. job) (ae_detached ae) (ae_client ae)"

text \<open>
  A close is accepted once. Its stops are queued behind every job already there, so those have run
  by the time the last worker closes; what it answers is what closing the client said.
\<close>

definition Engine_close ::
  "('e \<Rightarrow> 'd error + unit) \<Rightarrow> 'e async_engine \<Rightarrow> ('d error + unit) \<times> 'e async_engine" where
  "Engine_close close self =
     (if ae_closed self then (Inl Closed, self)
      else let e = drained (Engine_turn self)
           in (close e, self\<lparr>ae_client := e, ae_detached := [], ae_closed := True\<rparr>))"

section \<open>The client\<close>

text \<open>\<open>run_command_cancellable\<close> on a slot the awaiting task has not cancelled.\<close>

definition uncancelled :: "('e, 'd) runner \<Rightarrow> string \<Rightarrow> 'd \<Rightarrow> 'e \<Rightarrow> ('d error + 'd) option \<times> 'e" where
  "uncancelled run db cmd e = (let (r, e') = run e db cmd in (Some r, e'))"

definition Async_run_command :: "('e, 'd) runner \<Rightarrow> ('e async_engine, 'd) runner" where
  "Async_run_command run self db cmd = Engine_run_cancellable (uncancelled run db cmd) self"


definition Async_set_free_disk_floor ::
  "'d bson_lib \<Rightarrow> ('e, 'd) runner \<Rightarrow> FreeDiskFloor \<Rightarrow> 'e async_engine
     \<Rightarrow> ('d error + unit) \<times> 'e async_engine" where
  "Async_set_free_disk_floor B run floor =
     Engine_run (apfst Some \<circ> move_free_disk_floor B (\<lambda>e. run e ''admin'') floor)"


definition Async_Database_run_command ::
  "('e, 'd) runner \<Rightarrow> Database \<Rightarrow> 'd \<Rightarrow> 'e async_engine \<Rightarrow> ('d error + 'd) \<times> 'e async_engine" where
  "Async_Database_run_command run self cmd ae = Async_run_command run ae (database_name self) cmd"

section \<open>Inserting\<close>

definition Async_insert_one ::
  "'d bson_lib \<Rightarrow> ('t \<Rightarrow> string + 'd) \<Rightarrow> ('o \<Rightarrow> nat \<times> 'o) \<Rightarrow> ('e, 'd) runner \<Rightarrow> Collection \<Rightarrow> 't
     \<Rightarrow> 'o \<Rightarrow> 'e async_engine \<Rightarrow> ('d error + 'd InsertOneResult) \<times> 'o \<times> 'e async_engine" where
  "Async_insert_one B ser new_oid run self t ids ae =
     (case ser t of
        Inl err \<Rightarrow> (Inl (Bson err), ids, ae)
      | Inr document \<Rightarrow>
          (let (i, document', ids') = ensure_id B new_oid document ids;
               (reply, ae') = Async_run_command run ae (coll_database self)
                                (insert_command B (coll_name self) [BDocument document'])
           in (and_then reply (\<lambda>resp. map_ok (\<lambda>_. \<lparr>inserted_id = i\<rparr>)
                 (expect_inserted_count B resp 1)), ids', ae')))"

definition Async_insert_many ::
  "'d bson_lib \<Rightarrow> ('t \<Rightarrow> string + 'd) \<Rightarrow> ('o \<Rightarrow> nat \<times> 'o) \<Rightarrow> ('e, 'd) runner \<Rightarrow> Collection \<Rightarrow> 't list
     \<Rightarrow> 'o \<Rightarrow> 'e async_engine \<Rightarrow> ('d error + 'd InsertManyResult) \<times> 'o \<times> 'e async_engine" where
  "Async_insert_many B ser new_oid run self ts ids ae =
     (case serialize_many B ser new_oid ts ids of
        (Inl err, ids') \<Rightarrow> (Inl err, ids', ae)
      | (Inr (serialized, ids_of), ids') \<Rightarrow>
          (let expected = length serialized;
               (reply, ae') = Async_run_command run ae (coll_database self)
                                (insert_command B (coll_name self) serialized)
           in (and_then reply (\<lambda>resp. map_ok (\<lambda>_. \<lparr>inserted_ids = ids_of\<rparr>)
                 (expect_inserted_count B resp expected)), ids', ae')))"

section \<open>Finding and aggregating\<close>

text \<open>
  The async cursor has the blocking one's fields, with the engine handle in place of the borrowed
  client.
\<close>

definition Async_fetch_next_batch ::
  "'d bson_lib \<Rightarrow> ('e, 'd) runner \<Rightarrow> 'd Cursor \<Rightarrow> 'e async_engine
     \<Rightarrow> ('d error + unit) \<times> 'd Cursor \<times> 'e async_engine" where
  "Async_fetch_next_batch B run self ae =
     (let cmd = get_more_command B (cur_id self) (cur_collection self); db = cur_database self
      in case Engine_run_cancellable (uncancelled run db cmd) ae of
           (Inl err, ae') \<Rightarrow> (Inl err, self, ae')
         | (Inr resp, ae') \<Rightarrow>
             (case take_cursor_batch B resp ''nextBatch'' of
                Inl err \<Rightarrow> (Inl err, self, ae')
              | Inr (cid, documents) \<Rightarrow>
                  (Inr (), self\<lparr>cur_id := cid, cur_documents := documents\<rparr>, ae')))"

partial_function (option) Async_Cursor_next ::
  "'d bson_lib \<Rightarrow> ('d \<Rightarrow> string + 't) \<Rightarrow> ('e, 'd) runner \<Rightarrow> 'd Cursor \<Rightarrow> 'e async_engine
     \<Rightarrow> (('d error + 't) option \<times> 'd Cursor \<times> 'e async_engine) option" where
  "Async_Cursor_next B de run self ae =
     (case cur_documents self of
        d # ds \<Rightarrow> Some (Some (map_err Bson (de d)), self\<lparr>cur_documents := ds\<rparr>, ae)
      | [] \<Rightarrow>
          if cur_finished self \<or> cur_id self = 0 then Some (None, self\<lparr>cur_finished := True\<rparr>, ae)
          else case Async_fetch_next_batch B run self ae of
                 (fetched, self', ae') \<Rightarrow>
                   (case fetched of
                      Inl err \<Rightarrow> Some (Some (Inl err), self'\<lparr>cur_finished := True\<rparr>, ae')
                    | Inr _ \<Rightarrow> Async_Cursor_next B de run self' ae'))"

partial_function (option) Async_Cursor_collect ::
  "'d bson_lib \<Rightarrow> ('d \<Rightarrow> string + 't) \<Rightarrow> ('e, 'd) runner \<Rightarrow> 't list \<Rightarrow> 'd Cursor \<Rightarrow> 'e async_engine
     \<Rightarrow> (('d error + 't list) \<times> 'd Cursor \<times> 'e async_engine) option" where
  "Async_Cursor_collect B de run collected self ae =
     Option.bind (Async_Cursor_next B de run self ae) (\<lambda>(item, self', ae').
       case item of
         None \<Rightarrow> Some (Inr collected, self', ae')
       | Some document \<Rightarrow>
           (case document of
              Inl err \<Rightarrow> Some (Inl err, self', ae')
            | Inr t \<Rightarrow> Async_Cursor_collect B de run (collected @ [t]) self' ae'))"

text \<open>Dropping detaches the kill; nobody hears what it answers.\<close>

definition Async_Cursor_drop ::
  "'d bson_lib \<Rightarrow> ('e, 'd) runner \<Rightarrow> 'd Cursor \<Rightarrow> 'e async_engine \<Rightarrow> 'e async_engine" where
  "Async_Cursor_drop B run self ae =
     (let cid = cur_id self
      in if cid = 0 then ae
         else Engine_run_detached
                (\<lambda>e. snd (run e (cur_database self) (kill_cursors_command B (cur_collection self) cid))) ae)"


definition Async_find ::
  "'d bson_lib \<Rightarrow> ('e, 'd) runner \<Rightarrow> Collection \<Rightarrow> 'd \<Rightarrow> 'e async_engine
     \<Rightarrow> ('d error + 'd Cursor) \<times> 'e async_engine" where
  "Async_find B run self query ae =
     (let (reply, ae') = Async_run_command run ae (coll_database self) (find_command B (coll_name self) query)
      in (and_then reply (\<lambda>resp.
            Cursor_from_response B (coll_database self) (coll_name self) resp ''firstBatch''), ae'))"

definition Async_find_one ::
  "'d bson_lib \<Rightarrow> ('d \<Rightarrow> string + 't) \<Rightarrow> ('e, 'd) runner \<Rightarrow> Collection \<Rightarrow> 'd \<Rightarrow> 'e async_engine
     \<Rightarrow> (('d error + 't option) \<times> 'e async_engine) option" where
  "Async_find_one B de run self query ae =
     (let (reply, ae') = Async_run_command run ae (coll_database self) (find_one_command B (coll_name self) query)
      in case and_then reply (\<lambda>resp.
                Cursor_from_response B (coll_database self) (coll_name self) resp ''firstBatch'') of
           Inl err \<Rightarrow> Some (Inl err, ae')
         | Inr cursor \<Rightarrow>
             map_option (\<lambda>(item, cursor', ae''). (transpose_item item, Async_Cursor_drop B run cursor' ae''))
               (Async_Cursor_next B de run cursor ae'))"

definition Async_aggregate ::
  "'d bson_lib \<Rightarrow> ('e, 'd) runner \<Rightarrow> Collection \<Rightarrow> 'd list \<Rightarrow> 'e async_engine
     \<Rightarrow> ('d error + 'd Cursor) \<times> 'e async_engine" where
  "Async_aggregate B run self pipeline ae =
     (let (reply, ae') = Async_run_command run ae (coll_database self) (aggregate_command B (coll_name self) pipeline)
      in (and_then reply (\<lambda>resp.
            Cursor_from_response B (coll_database self) (coll_name self) resp ''firstBatch''), ae'))"

section \<open>While the engine is open\<close>

text \<open>
  An open engine settles to a client state when that is where its detached jobs leave it. It is in
  step with it when no later job can be run out of turn: nothing is detached, or the schedule takes
  the queue in order, as a pool of one worker does.
\<close>

definition settles :: "('e \<Rightarrow> nat \<Rightarrow> nat list) \<Rightarrow> 'e async_engine \<Rightarrow> 'e \<Rightarrow> bool" where
  "settles due ae e \<longleftrightarrow> \<not> ae_closed ae \<and> ae_due ae = due \<and> drained ae = e"

definition in_turn :: "('e \<Rightarrow> nat \<Rightarrow> nat list) \<Rightarrow> bool" where
  "in_turn due \<longleftrightarrow> (\<forall>e n. due e n = replicate n 0)"

definition in_step :: "('e \<Rightarrow> nat \<Rightarrow> nat list) \<Rightarrow> 'e async_engine \<Rightarrow> 'e \<Rightarrow> bool" where
  "in_step due ae e \<longleftrightarrow> settles due ae e \<and> (ae_detached ae = [] \<or> in_turn due)"


lemma settles_in_turn: "settles due ae e \<Longrightarrow> in_turn due \<Longrightarrow> in_step due ae e"
  by (simp add: in_step_def)

lemma run_jobs_none: "run_jobs is e [] = (e, [])"
  by (induction "is") auto

lemma run_jobs_in_turn: "run_jobs (replicate (length q) 0) e q = (fold (\<lambda>job. job) q e, [])"
  by (induction q arbitrary: e) auto

lemma turn_in_step:
  assumes "in_step due ae e"
  shows "Engine_turn ae = ae\<lparr>ae_client := e, ae_detached := []\<rparr>"
  using assms
  by (auto simp: in_step_def settles_def drained_def in_turn_def Engine_turn_def run_jobs_none run_jobs_in_turn)




text \<open>An engine with nothing detached.\<close>

definition open_on :: "('e \<Rightarrow> nat \<Rightarrow> nat list) \<Rightarrow> 'e \<Rightarrow> 'e async_engine" where
  "open_on due e = \<lparr>ae_client = e, ae_detached = [], ae_due = due, ae_closed = False\<rparr>"

lemma open_on_in_step: "in_step due (open_on due e) e"
  by (simp add: open_on_def in_step_def settles_def drained_def)

lemma run_on_open:
  "Engine_run_cancellable (uncancelled run db cmd) (open_on due e) = (let (r, e') = run e db cmd in (r, open_on due e'))"
  by (simp add: Engine_run_cancellable_def uncancelled_def open_on_def Engine_turn_def run_jobs_none split_beta)

subsection \<open>What follows of any way of being in step\<close>

lemma rel_optionI:
  assumes "\<And>y. g = Some y \<Longrightarrow> \<exists>x. f = Some x \<and> R x y" and "\<And>x. f = Some x \<Longrightarrow> g \<noteq> None"
  shows "rel_option R f g"
  using assms by (cases f; cases g) auto

text \<open>
  The cursor needs one law: a command answers alike and leaves engine and client related. It holds
  of \<open>in_step\<close>, and of the engine with nothing detached.
\<close>

locale engine_follows =
  fixes R :: "'e async_engine \<Rightarrow> 'e \<Rightarrow> bool" and run :: "('e, 'd) runner"
  assumes run_follows:
    "R ae e \<Longrightarrow> rel_prod (=) R (Engine_run_cancellable (uncancelled run db cmd) ae) (run e db cmd)"
begin

lemma followsE:
  assumes "rel_prod (=) R x (r, e)"
  obtains ae where "x = (r, ae)" "R ae e"
  using assms by (cases x) auto

lemma follows3E:
  assumes "rel_prod (=) (rel_prod (=) R) x (r, c, e)"
  obtains ae where "x = (r, c, ae)" "R ae e"
  using assms by (cases x) auto

lemma command_follows:
  assumes "R ae e"
  shows "rel_prod (=) R (Async_run_command run ae db cmd) (run e db cmd)"
  using run_follows [OF assms] by (simp add: Async_run_command_def)

lemma fetch_follows:
  assumes "R ae e"
  shows "rel_prod (=) (rel_prod (=) R) (Async_fetch_next_batch B run c ae) (fetch_next_batch B run c e)"
  using run_follows [OF assms, of "cur_database c" "get_more_command B (cur_id c) (cur_collection c)"]
  by (auto simp: Async_fetch_next_batch_def fetch_next_batch_def Let_def split: prod.splits sum.splits)

lemma next_follows_returns:
  assumes "Cursor_next B de run c e = Some (item, c', e')" and "R ae e"
  shows "\<exists>ae'. Async_Cursor_next B de run c ae = Some (item, c', ae') \<and> R ae' e'"
  using assms
proof (induction arbitrary: ae rule: Cursor_next_induct)
  case (fetched c e c1 e1 item c' e')
  from fetch_follows [OF fetched.prems, of B c] fetched.hyps obtain ae1 where
    "Async_fetch_next_batch B run c ae = (Inr (), c1, ae1)" "R ae1 e1"
    by (auto elim: follows3E)
  with fetched show ?case by (subst Async_Cursor_next.simps) simp
next
  case (failed c e err c1 e1)
  from fetch_follows [OF failed.prems, of B c] failed.hyps obtain ae1 where
    "Async_fetch_next_batch B run c ae = (Inl err, c1, ae1)" "R ae1 e1"
    by (auto elim: follows3E)
  with failed show ?case by (subst Async_Cursor_next.simps) simp
qed (subst Async_Cursor_next.simps, simp)+

lemma next_follows_loops:
  assumes "Async_Cursor_next B de run c ae = Some y" and "R ae e"
  shows "\<exists>z. Cursor_next B de run c e = Some z"
proof -
  have "\<forall>e. B' = B \<longrightarrow> de' = de \<longrightarrow> run' = run \<longrightarrow> R ae e \<longrightarrow> (\<exists>y. Cursor_next B de run c e = Some y)"
    if "Async_Cursor_next B' de' run' c ae = Some y" for B' de' run' c ae y
  proof (rule Async_Cursor_next.raw_induct [OF _ that], intro allI impI, goal_cases)
    case (1 nxt B' de' run' c ae y e)
    show ?case
    proof (cases "cur_documents c = [] \<and> \<not> (cur_finished c \<or> cur_id c = 0)")
      case False
      then show ?thesis by (subst Cursor_next.simps) (auto split: list.splits)
    next
      case True
      obtain f c1 e1 where f: "fetch_next_batch B run c e = (f, c1, e1)" by (metis prod_cases3)
      with fetch_follows [OF 1(6), of B c] obtain ae1 where
        ae1: "Async_fetch_next_batch B run c ae = (f, c1, ae1)" "R ae1 e1" by (auto elim: follows3E)
      show ?thesis
      proof (cases f)
        case (Inl err)
        with True f show ?thesis by (subst Cursor_next.simps) simp
      next
        case (Inr u)
        with 1 True ae1 have "nxt B de run c1 ae1 = Some y" by simp
        with 1(1) ae1(2) have "\<exists>y. Cursor_next B de run c1 e1 = Some y" by blast
        with True f Inr show ?thesis by (subst Cursor_next.simps) simp
      qed
    qed
  qed
  from this [OF assms(1)] assms(2) show ?thesis by blast
qed

lemma next_follows:
  assumes "R ae e"
  shows "rel_option (rel_prod (=) (rel_prod (=) R)) (Async_Cursor_next B de run c ae) (Cursor_next B de run c e)"
  using next_follows_returns [OF _ assms] next_follows_loops [OF _ assms]
  by (intro rel_optionI) fastforce+

lemma collect_follows_returns:
  assumes "Cursor_collect B de run acc c e = Some (r, c', e')" and "R ae e"
  shows "\<exists>ae'. Async_Cursor_collect B de run acc c ae = Some (r, c', ae') \<and> R ae' e'"
proof -
  have "\<forall>ae. B' = B \<longrightarrow> de' = de \<longrightarrow> run' = run \<longrightarrow> R ae e \<longrightarrow>
      (\<exists>ae'. Async_Cursor_collect B de run acc c ae = Some (fst y, fst (snd y), ae') \<and>
        R ae' (snd (snd y)))"
    if "Cursor_collect B' de' run' acc c e = Some y" for B' de' run' acc c e y
  proof (rule Cursor_collect.raw_induct [OF _ that], intro allI impI, goal_cases)
    case (1 loop B' de' run' acc c e y ae)
    then obtain item c1 e1 where n: "Cursor_next B de run c e = Some (item, c1, e1)"
      by (auto split: bind_splits)
    from next_follows_returns [OF this 1(6)] obtain ae1 where
      "Async_Cursor_next B de run c ae = Some (item, c1, ae1)" "R ae1 e1" by blast
    with 1 n show ?case
      by (subst Async_Cursor_collect.simps) (auto split: option.splits sum.splits)
  qed
  from this [OF assms(1)] assms(2) show ?thesis by simp
qed

lemma collect_follows_loops:
  assumes "Async_Cursor_collect B de run acc c ae = Some y" and "R ae e"
  shows "\<exists>z. Cursor_collect B de run acc c e = Some z"
proof -
  have "\<forall>e. B' = B \<longrightarrow> de' = de \<longrightarrow> run' = run \<longrightarrow> R ae e \<longrightarrow>
      (\<exists>z. Cursor_collect B de run acc c e = Some z)"
    if "Async_Cursor_collect B' de' run' acc c ae = Some y" for B' de' run' acc c ae y
  proof (rule Async_Cursor_collect.raw_induct [OF _ that], intro allI impI, goal_cases)
    case (1 loop B' de' run' acc c ae y e)
    then obtain item c1 ae1 where a: "Async_Cursor_next B de run c ae = Some (item, c1, ae1)"
      by (auto split: bind_splits)
    from next_follows [OF 1(6), of B de c] a obtain e1 where
      n: "Cursor_next B de run c e = Some (item, c1, e1)" "R ae1 e1"
      by (auto simp: rel_option_iff rel_prod_sel split: option.splits)
    show ?case
    proof (cases "\<exists>t. item = Some (Inr t)")
      case True
      then obtain t where t: "item = Some (Inr t)" by blast
      with 1 a have "loop B de run (acc @ [t]) c1 ae1 = Some y" by simp
      from 1(1) [OF this] n(2) obtain z where "Cursor_collect B de run (acc @ [t]) c1 e1 = Some z" by blast
      with n t show ?thesis by (subst Cursor_collect.simps) (cases z, simp)
    next
      case False
      with n show ?thesis by (subst Cursor_collect.simps) (auto split: option.splits sum.splits)
    qed
  qed
  from this [OF assms(1)] assms(2) show ?thesis by blast
qed

lemma collect_follows:
  assumes "R ae e"
  shows "rel_option (rel_prod (=) (rel_prod (=) R)) (Async_Cursor_collect B de run acc c ae) (Cursor_collect B de run acc c e)"
  using collect_follows_returns [OF _ assms] collect_follows_loops [OF _ assms]
  by (intro rel_optionI) fastforce+

lemma insert_one_follows:
  assumes "R ae e"
  shows "rel_prod (=) (rel_prod (=) R) (Async_insert_one B ser new_oid run coll t ids ae)
    (insert_one B ser new_oid run coll t ids e)"
  using command_follows [OF assms] assms
  by (cases "ser t") (simp_all add: Async_insert_one_def insert_one_def split_beta Let_def rel_prod_sel)

lemma insert_many_follows:
  assumes "R ae e"
  shows "rel_prod (=) (rel_prod (=) R) (Async_insert_many B ser new_oid run coll ts ids ae)
    (insert_many B ser new_oid run coll ts ids e)"
  using command_follows [OF assms] assms
  by (cases "serialize_many B ser new_oid ts ids"; cases "fst (serialize_many B ser new_oid ts ids)")
    (simp_all add: Async_insert_many_def insert_many_def split_beta Let_def rel_prod_sel)

lemma find_follows:
  assumes "R ae e"
  shows "rel_prod (=) R (Async_find B run coll query ae) (find_documents B run coll query e)"
  using command_follows [OF assms]
  by (simp add: Async_find_def find_documents_def split_beta rel_prod_sel)

lemma aggregate_follows:
  assumes "R ae e"
  shows "rel_prod (=) R (Async_aggregate B run coll pipeline ae) (aggregate B run coll pipeline e)"
  using command_follows [OF assms]
  by (simp add: Async_aggregate_def aggregate_def split_beta rel_prod_sel)

end


interpretation quiet: engine_follows "\<lambda>ae e. ae = open_on due e" run for due run
  by unfold_locales (simp add: run_on_open rel_prod_sel split_beta)




text \<open>The cursor's contract, carried over to an engine with nothing detached.\<close>

definition async_remains ::
  "('e \<Rightarrow> nat \<Rightarrow> nat list) \<Rightarrow> 'd bson_lib \<Rightarrow> ('d \<Rightarrow> string + 't) \<Rightarrow> ('e, 'd) runner \<Rightarrow> 'e async_engine
     \<Rightarrow> 'd Cursor \<Rightarrow> 'e async_engine \<Rightarrow> ('d error + 't) list \<Rightarrow> bool" where
  "async_remains due B de run z self ae rs \<longleftrightarrow>
     (\<exists>e y. ae = open_on due e \<and> z = open_on due y \<and> remains B de run y self e rs)"

interpretation async_cursor:
  result_stream "Async_Cursor_next B de run" "Async_Cursor_collect B de run" "async_remains due B de run"
    "\<lambda>self. cur_finished self \<and> cur_id self = 0 \<and> cur_documents self = []" for B de run due
proof (unfold_locales, goal_cases)
  case (1 acc c e)
  show ?case by (subst Async_Cursor_collect.simps) (auto split: option.splits sum.splits)
next
  case (2 z c ae)
  then obtain e y where eqs: "ae = open_on due e" "z = open_on due y" and r: "remains B de run y c e []"
    by (auto simp: async_remains_def)
  from remains_nil [OF r] quiet.next_follows_returns [OF _ eqs(1)] eqs show ?case by fastforce
next
  case (3 z c ae r rs)
  then obtain e y where eqs: "ae = open_on due e" "z = open_on due y" and m: "remains B de run y c e (r # rs)"
    by (auto simp: async_remains_def)
  from remains_cons [OF m] obtain c' e' where n:
    "Cursor_next B de run c e = Some (Some r, c', e')" "remains B de run y c' e' rs" by blast
  from quiet.next_follows_returns [OF n(1) eqs(1)] n(2) eqs(2) show ?case by (auto simp: async_remains_def)
qed

text \<open>A panic costs the command that made it its answer and nothing else.\<close>

lemma panicked_command_answers_closed:
  assumes "in_step due ae e" and "operation e = (None, e')"
  shows "\<exists>ae'. Engine_run operation ae = (Inl Closed, ae') \<and> in_step due ae' e'"
  using assms turn_in_step [OF assms(1)]
  by (simp add: Engine_run_def in_step_def settles_def drained_def)

section \<open>Properties\<close>



text \<open>Once the engine is closed nothing reaches it. Every command, insert, find, aggregate and
  floor move answers an error (\<open>Closed\<close>, or what made the insert unsendable before it was sent), a
  second close answers \<open>Closed\<close>, and the client behind the engine is not touched. A cursor still
  answers the documents it has; then, if the server had more, it answers \<open>Closed\<close> once and
  nothing after that; dropping it sends nothing.\<close>

theorem closed_engine_is_unreachable:
  assumes "ae_closed ae"
  shows "Async_run_command run ae db cmd = (Inl Closed, ae) \<and>
    Async_find B run coll query ae = (Inl Closed, ae) \<and>
    Async_aggregate B run coll pipeline ae = (Inl Closed, ae) \<and>
    Async_find_one B de run coll query ae = Some (Inl Closed, ae) \<and>
    (\<exists>err ids'. Async_insert_many B ser new_oid run coll ts ids ae = (Inl err, ids', ae)) \<and>
    (\<exists>err ids'. Async_insert_one B ser new_oid run coll t ids ae = (Inl err, ids', ae)) \<and>
    Async_set_free_disk_floor B run floor ae = (Inl Closed, ae) \<and>
    Engine_close close ae = (Inl Closed, ae) \<and>
    Async_Cursor_drop B run cursor ae = ae \<and>
    (\<forall>d ds. cur_documents cursor = d # ds \<longrightarrow>
       Async_Cursor_next B de run cursor ae =
         Some (Some (map_err Bson (de d)), cursor\<lparr>cur_documents := ds\<rparr>, ae)) \<and>
    (cur_documents cursor = [] \<and> \<not> cur_finished cursor \<and> cur_id cursor \<noteq> 0 \<longrightarrow>
       (let ended = cursor\<lparr>cur_finished := True\<rparr>
        in Async_Cursor_next B de run cursor ae = Some (Some (Inl Closed), ended, ae) \<and>
           Async_Cursor_next B de run ended ae = Some (None, ended, ae)))"
proof -
  have cmd: "Async_run_command run ae db cmd = (Inl Closed, ae)" for db cmd
    using assms by (simp add: Async_run_command_def Engine_run_cancellable_def)
  have insert_many: "\<exists>err ids'. Async_insert_many B ser new_oid run coll ts ids ae = (Inl err, ids', ae)"
    by (auto simp: Async_insert_many_def cmd split: prod.splits sum.splits)
  have insert_one: "\<exists>err ids'. Async_insert_one B ser new_oid run coll t ids ae = (Inl err, ids', ae)"
    by (auto simp: Async_insert_one_def cmd split: prod.splits sum.splits)
  have buffered: "Async_Cursor_next B de run cursor ae =
      Some (Some (map_err Bson (de d)), cursor\<lparr>cur_documents := ds\<rparr>, ae)" if "cur_documents cursor = d # ds" for d ds
    using that by (subst Async_Cursor_next.simps) simp
  have fetch: "Async_fetch_next_batch B run cursor ae = (Inl Closed, cursor, ae)"
    using assms by (simp add: Async_fetch_next_batch_def Engine_run_cancellable_def Let_def)
  have refused: "Async_Cursor_next B de run cursor ae = Some (Some (Inl Closed), cursor\<lparr>cur_finished := True\<rparr>, ae)"
    if "cur_documents cursor = []" "\<not> cur_finished cursor" "cur_id cursor \<noteq> 0"
    using that by (subst Async_Cursor_next.simps) (simp add: fetch)
  have ended: "Async_Cursor_next B de run (cursor\<lparr>cur_finished := True\<rparr>) ae = Some (None, cursor\<lparr>cur_finished := True\<rparr>, ae)"
    if "cur_documents cursor = []"
    using that by (subst Async_Cursor_next.simps) simp
  show ?thesis
    using assms cmd insert_many insert_one buffered refused ended
    by (simp add: Async_find_def Async_aggregate_def Async_find_one_def Async_set_free_disk_floor_def
        Engine_run_def Engine_close_def Async_Cursor_drop_def Engine_run_detached_def Let_def)
qed

theorem closed_engine_is_unreachable_witness:
  "Async_run_command scripted \<lparr>ae_client = ([Inr (tagged 1)], []), ae_detached = [], ae_due = \<lambda>e n. [], ae_closed = True\<rparr> ''shop'' (tagged 2) =
     (Inl Closed, \<lparr>ae_client = ([Inr (tagged 1)], []), ae_detached = [], ae_due = \<lambda>e n. [], ae_closed = True\<rparr>)"
  by (rule closed_engine_is_unreachable [THEN conjunct1]) simp

end
