(* ===== verification/Bindings.thy ===== *)
theory Bindings
  imports Wire Errors
begin

text \<open>
  The Rust halves of the Python and Node bindings: \<open>embedded-mongodb-python/src/lib.rs\<close> and
  \<open>nonblocking.rs\<close>, \<open>embedded-mongodb-node/src/lib.rs\<close>, and the executor of
  \<open>embedded-mongodb-python/src/wait.rs\<close>. A binding is an optional client behind a reader-writer lock:
  a command reads it, a close takes it. The client's operations are arguments; what a closed client
  means for commands under way is shown for the same shape in \<open>Android_Registry\<close>.

  The executor is a step relation between the thread that polls and parks and the thread that
  completes the future and unparks it, from which it follows that no wakeup is lost.
\<close>

section \<open>Python\<close>

datatype py_error = PyValueError string | PyRuntimeError string | Py_panicked

fun py_parse_error :: "wire_error \<Rightarrow> py_error" where
  "py_parse_error (Wire_error e) = PyValueError e"
| "py_parse_error Wire_panic = Py_panicked"

definition NativeClient_new :: "'d error + 'c \<Rightarrow> py_error + 'c option" where
  "NativeClient_new opened = map_ok Some (map_err (\<lambda>e. PyRuntimeError (error_display e)) opened)"

text \<open>The read guard is held for the command, so the client cannot be taken meanwhile.\<close>

definition NativeClient_round_trip ::
  "'d bson_lib \<Rightarrow> ('c \<Rightarrow> string \<Rightarrow> bytes \<Rightarrow> ('d error + bytes) \<times> 'c) \<Rightarrow> bytes \<Rightarrow> 'c option
     \<Rightarrow> (py_error + i32 \<times> bool \<times> bytes) \<times> 'c option" where
  "NativeClient_round_trip B run_bytes message inner =
     (case wire_parse B message of
        Inl e \<Rightarrow> (Inl (py_parse_error e), inner)
      | Inr request \<Rightarrow>
          (case inner of
             None \<Rightarrow> (Inl (PyRuntimeError ''embedded MongoDB client is closed''), inner)
           | Some client \<Rightarrow>
               (let (r, client') = run_bytes client (rq_database request) (rq_command request)
                in (map_ok (\<lambda>resp. (rq_request_id request, rq_more_to_come request, resp))
                      (map_err (\<lambda>e. PyRuntimeError (error_display e)) r), Some client'))))"

definition NativeClient_close ::
  "('c \<Rightarrow> 'd error + unit) \<Rightarrow> 'c option \<Rightarrow> (py_error + unit) \<times> 'c option" where
  "NativeClient_close close inner =
     (case inner of
        None \<Rightarrow> (Inr (), None)
      | Some client \<Rightarrow> (map_err (\<lambda>e. PyRuntimeError (error_display e)) (close client), None))"

definition AsyncNativeClient_round_trip ::
  "'d bson_lib \<Rightarrow> ('c \<Rightarrow> string \<Rightarrow> bytes \<Rightarrow> ('d error + bytes) \<times> 'c) \<Rightarrow> bytes \<Rightarrow> 'c option
     \<Rightarrow> (py_error + i32 \<times> bool \<times> bytes) \<times> 'c option" where
  "AsyncNativeClient_round_trip B run_bytes message inner =
     (case wire_parse B message of
        Inl e \<Rightarrow> (Inl (py_parse_error e), inner)
      | Inr request \<Rightarrow>
          (case inner of
             None \<Rightarrow> (Inl (PyRuntimeError ''embedded MongoDB client is closed''), inner)
           | Some client \<Rightarrow>
               (let (r, client') = run_bytes client (rq_database request) (rq_command request)
                in (and_then (map_err (\<lambda>e. PyRuntimeError (error_display e)) r)
                      (\<lambda>resp. Inr (rq_request_id request, rq_more_to_come request, resp)), Some client'))))"

definition AsyncNativeClient_shut_down ::
  "('c \<Rightarrow> 'd error + unit) \<Rightarrow> 'c option \<Rightarrow> (string + unit) \<times> 'c option" where
  "AsyncNativeClient_shut_down close inner =
     (case inner of
        None \<Rightarrow> (Inr (), None)
      | Some client \<Rightarrow> (map_err error_display (close client), None))"

definition AsyncNativeClient_close ::
  "('c \<Rightarrow> 'd error + unit) \<Rightarrow> 'c option \<Rightarrow> (py_error + unit) \<times> 'c option" where
  "AsyncNativeClient_close close inner = apfst (map_err PyRuntimeError) (AsyncNativeClient_shut_down close inner)"

section \<open>Node\<close>

datatype napi_error = Napi_reason string | Napi_panicked

fun napi_parse_error :: "wire_error \<Rightarrow> napi_error" where
  "napi_parse_error (Wire_error e) = Napi_reason e"
| "napi_parse_error Wire_panic = Napi_panicked"

definition napi_to_error :: "'d error \<Rightarrow> napi_error" where
  "napi_to_error e = Napi_reason (error_display e)"

record RoundTrip =
  rt_request_id :: i32
  rt_more_to_come :: bool
  rt_legacy :: bool
  rt_response :: bytes

record 'c Engine =
  en_inner :: "'c option"
  en_hello :: bytes

definition is_hello :: "string \<Rightarrow> bool" where
  "is_hello command_name \<longleftrightarrow> command_name = ''hello'' \<or> eq_ignore_ascii_case command_name ''ismaster''"

definition encode_document :: "'d bson_lib \<Rightarrow> 'd \<Rightarrow> napi_error + bytes" where
  "encode_document B document = map_err Napi_reason (doc_to_vec B document)"

definition hello_document :: "'d bson_lib \<Rightarrow> 'd \<Rightarrow> 'd" where
  "hello_document B reply =
     (let removed = foldl (\<lambda>d field. snd (doc_remove B d field)) reply
            [''logicalSessionTimeoutMinutes'', ''topologyVersion'', ''localTime'', ''connectionId'']
      in doc_insert B (doc_insert B removed ''helloOk'' (BBoolean True)) ''ismaster'' (BBoolean True))"

definition hello ::
  "'d bson_lib \<Rightarrow> ('c \<Rightarrow> string \<Rightarrow> 'd \<Rightarrow> ('d error + 'd) \<times> 'c) \<Rightarrow> 'c \<Rightarrow> (napi_error + bytes) \<times> 'c" where
  "hello B run client =
     (let (reply, client') = run client ''admin'' (doc_of B [(''hello'', BInt32 1)])
      in (and_then (map_err napi_to_error reply) (\<lambda>d. encode_document B (hello_document B d)), client'))"

text \<open>A client whose handshake cannot be had is dropped.\<close>

definition Engine_wrap ::
  "'d bson_lib \<Rightarrow> ('c \<Rightarrow> string \<Rightarrow> 'd \<Rightarrow> ('d error + 'd) \<times> 'c) \<Rightarrow> 'c \<Rightarrow> napi_error + 'c Engine" where
  "Engine_wrap B run client =
     (let (r, client') = hello B run client
      in map_ok (\<lambda>bytes. \<lparr>en_inner = Some client', en_hello = bytes\<rparr>) r)"

definition Engine_open ::
  "'d bson_lib \<Rightarrow> ('c \<Rightarrow> string \<Rightarrow> 'd \<Rightarrow> ('d error + 'd) \<times> 'c) \<Rightarrow> 'd error + 'c \<Rightarrow> napi_error + 'c Engine" where
  "Engine_open B run opened = and_then (map_err napi_to_error opened) (Engine_wrap B run)"

definition Engine_round_trip ::
  "'d bson_lib \<Rightarrow> ('c \<Rightarrow> string \<Rightarrow> bytes \<Rightarrow> ('d error + bytes) \<times> 'c) \<Rightarrow> bytes \<Rightarrow> 'c Engine
     \<Rightarrow> (napi_error + RoundTrip) \<times> 'c Engine" where
  "Engine_round_trip B run_bytes message self =
     (case wire_parse B message of
        Inl e \<Rightarrow> (Inl (napi_parse_error e), self)
      | Inr request \<Rightarrow>
          (let (r, self') =
             (if is_hello (rq_command_name request) then (Inr (en_hello self), self)
              else case en_inner self of
                     None \<Rightarrow> (Inl (Napi_reason ''embedded MongoDB engine is closed''), self)
                   | Some client \<Rightarrow>
                       (let (reply, client') = run_bytes client (rq_database request) (rq_command request)
                        in (map_err napi_to_error reply, self\<lparr>en_inner := Some client'\<rparr>)))
           in (map_ok (\<lambda>resp. \<lparr>rt_request_id = rq_request_id request,
                 rt_more_to_come = rq_more_to_come request, rt_legacy = rq_legacy request,
                 rt_response = resp\<rparr>) r, self')))"

definition Engine_close_node ::
  "('c \<Rightarrow> 'd error + unit) \<Rightarrow> 'c Engine \<Rightarrow> (napi_error + unit) \<times> 'c Engine" where
  "Engine_close_node close self =
     (case en_inner self of
        None \<Rightarrow> (Inr (), self)
      | Some client \<Rightarrow> (map_err napi_to_error (close client), self\<lparr>en_inner := None\<rparr>))"

section \<open>Waiting for one future\<close>

text \<open>
  The thread in \<open>block_on\<close> is polling, has polled and is about to park, is parked, or has returned.
  \<open>wt_permit\<close> is the permit \<open>unpark\<close> leaves and \<open>park\<close> consumes. The future keeps the waker of a poll
  that was pending, and owes it a wake once it completes.
\<close>

datatype waiter = Polling | Before_park | Parked | Returned

record wait_state =
  wt_thread :: waiter
  wt_permit :: bool
  wt_ready :: bool
  wt_registered :: bool
  wt_wake_owed :: bool

definition wait_init :: "wait_state \<Rightarrow> bool" where
  "wait_init s \<longleftrightarrow> wt_thread s = Polling \<and> \<not> wt_registered s \<and> \<not> wt_wake_owed s"

inductive wait_step :: "wait_state \<Rightarrow> wait_state \<Rightarrow> bool" where
  poll_ready: "wt_thread s = Polling \<Longrightarrow> wt_ready s \<Longrightarrow> wait_step s (s\<lparr>wt_thread := Returned\<rparr>)"
| poll_pending: "wt_thread s = Polling \<Longrightarrow> \<not> wt_ready s \<Longrightarrow>
    wait_step s (s\<lparr>wt_thread := Before_park, wt_registered := True\<rparr>)"
| park_permitted: "wt_thread s = Before_park \<Longrightarrow> wt_permit s \<Longrightarrow>
    wait_step s (s\<lparr>wt_thread := Polling, wt_permit := False\<rparr>)"
| park_blocks: "wt_thread s = Before_park \<Longrightarrow> \<not> wt_permit s \<Longrightarrow> wait_step s (s\<lparr>wt_thread := Parked\<rparr>)"
| park_returns: "wt_thread s = Parked \<Longrightarrow> wt_permit s \<Longrightarrow>
    wait_step s (s\<lparr>wt_thread := Polling, wt_permit := False\<rparr>)"
| completes: "\<not> wt_ready s \<Longrightarrow> wait_step s (s\<lparr>wt_ready := True, wt_wake_owed := wt_registered s\<rparr>)"
| wakes: "wt_wake_owed s \<Longrightarrow> wait_step s (s\<lparr>wt_wake_owed := False, wt_permit := True\<rparr>)"

text \<open>What \<open>block_on\<close> must survive besides: a park that returns for no reason, and wakes the future
  did not owe.\<close>

inductive wait_any :: "wait_state \<Rightarrow> wait_state \<Rightarrow> bool" where
  expected: "wait_step s t \<Longrightarrow> wait_any s t"
| park_spurious: "wt_thread s = Parked \<Longrightarrow> wait_any s (s\<lparr>wt_thread := Polling\<rparr>)"
| wakes_early: "wt_registered s \<Longrightarrow> wait_any s (s\<lparr>wt_permit := True\<rparr>)"

definition wait_inv :: "wait_state \<Rightarrow> bool" where
  "wait_inv s \<longleftrightarrow>
     (wt_thread s \<in> {Before_park, Parked} \<longrightarrow> wt_registered s \<and> (wt_ready s \<longrightarrow> wt_permit s \<or> wt_wake_owed s)) \<and>
     (wt_thread s = Returned \<longrightarrow> wt_ready s)"

fun waiter_rank :: "waiter \<Rightarrow> nat" where
  "waiter_rank Before_park = 3"
| "waiter_rank Parked = 2"
| "waiter_rank Polling = 1"
| "waiter_rank Returned = 0"

definition wait_rank :: "wait_state \<Rightarrow> nat" where
  "wait_rank s = waiter_rank (wt_thread s) + of_bool (wt_wake_owed s)"

interpretation waiting: invariant_system wait_init wait_any wait_inv
proof
  fix s t assume "wait_inv s" and "wait_any s t"
  from this(2,1) show "wait_inv t"
    by cases (auto simp: wait_inv_def elim: wait_step.cases)
qed (simp add: wait_init_def wait_inv_def)

section \<open>The two Python clients answer alike\<close>

lemma map_ok_and_then: "map_ok f r = and_then r (\<lambda>x. Inr (f x))"
  by (cases r) auto

lemma python_clients_answer_alike:
  "NativeClient_round_trip B run_bytes message inner = AsyncNativeClient_round_trip B run_bytes message inner"
  "NativeClient_close close inner = AsyncNativeClient_close close inner"
  by (auto simp: NativeClient_round_trip_def AsyncNativeClient_round_trip_def map_ok_and_then
      NativeClient_close_def AsyncNativeClient_close_def AsyncNativeClient_shut_down_def map_err_def
      split: sum.splits option.splits prod.splits)

section \<open>The handshake Node answers itself\<close>

definition hidden_fields :: "string list" where
  "hidden_fields = [''logicalSessionTimeoutMinutes'', ''topologyVersion'', ''localTime'', ''connectionId'']"

lemma hello_document_get:
  assumes "bson_laws B"
  shows "doc_get B (hello_document B d) k =
    (if k \<in> {''helloOk'', ''ismaster''} then Some (BBoolean True)
     else if k \<in> set hidden_fields then None else doc_get B d k)"
  by (simp add: hello_document_def hidden_fields_def bson_laws_get [OF assms])

lemma handshakes_leave_the_engine_alone:
  assumes "wire_parse B message = Inr request" and "is_hello (rq_command_name request)"
  shows "Engine_round_trip B run_bytes message self =
    (Inr \<lparr>rt_request_id = rq_request_id request, rt_more_to_come = rq_more_to_come request,
          rt_legacy = rq_legacy request, rt_response = en_hello self\<rparr>, self)"
  using assms by (simp add: Engine_round_trip_def)

lemma Engine_open_ok:
  assumes "Engine_open B run opened = Inr self"
  obtains client reply client' where "opened = Inr client"
    and "run client ''admin'' (doc_of B [(''hello'', BInt32 1)]) = (Inr reply, client')"
    and "doc_to_vec B (hello_document B reply) = Inr (en_hello self)" and "en_inner self = Some client'"
  using assms
  by (auto simp: Engine_open_def Engine_wrap_def hello_def encode_document_def map_err_def map_ok_def
      split: sum.splits prod.splits)

lemma closed_engine_still_greets:
  assumes "snd (Engine_close_node close self) = self'"
  shows "en_hello self' = en_hello self" and "en_inner self' = None"
  using assms by (auto simp: Engine_close_node_def split: option.splits)

text \<open>An opened Node engine asked its client for \<open>hello\<close> once. Every handshake message it is
  sent afterwards (\<open>hello\<close>, or \<open>isMaster\<close> in any case) is answered under its own request id and
  flags with a reply that decodes to the engine's own, less the four fields a direct client cannot
  honour and with \<open>helloOk\<close> and \<open>ismaster\<close> true; the client is not reached, before a close or after.\<close>

theorem node_handshake:
  assumes "bson_laws B" and "codec_laws B" and "Engine_open B run opened = Inr self"
    and "wire_parse B message = Inr request" and "is_hello (rq_command_name request)"
    and "self' \<in> {self, snd (Engine_close_node close self)}"
  shows "\<exists>client reply client' answer d.
    opened = Inr client \<and>
    run client ''admin'' (doc_of B [(''hello'', BInt32 1)]) = (Inr reply, client') \<and>
    Engine_round_trip B run_bytes message self' = (Inr answer, self') \<and>
    rt_request_id answer = rq_request_id request \<and> rt_more_to_come answer = rq_more_to_come request \<and>
    rt_legacy answer = rq_legacy request \<and>
    doc_from_reader B (rt_response answer) = Inr d \<and>
    (\<forall>k. doc_get B d k =
       (if k \<in> {''helloOk'', ''ismaster''} then Some (BBoolean True)
        else if k \<in> {''logicalSessionTimeoutMinutes'', ''topologyVersion'', ''localTime'', ''connectionId''}
        then None else doc_get B reply k))"
proof -
  from assms(3) obtain client reply client' where o: "opened = Inr client"
    "run client ''admin'' (doc_of B [(''hello'', BInt32 1)]) = (Inr reply, client')"
    "doc_to_vec B (hello_document B reply) = Inr (en_hello self)"
    by (rule Engine_open_ok)
  from assms(6) have same: "en_hello self' = en_hello self"
    using closed_engine_still_greets(1) [OF refl, of close self] by auto
  from o(3) assms(2) have "doc_from_reader B (en_hello self) = Inr (hello_document B reply)"
    by (auto simp: codec_laws_def)
  with o(1,2) show ?thesis
    by (intro exI [of _ client] exI [of _ reply] exI [of _ client'] exI [of _ "hello_document B reply"]
          exI [of _ "\<lparr>rt_request_id = rq_request_id request, rt_more_to_come = rq_more_to_come request,
            rt_legacy = rq_legacy request, rt_response = en_hello self'\<rparr>"])
      (simp add: handshakes_leave_the_engine_alone [OF assms(4,5)] same
         hello_document_get [OF assms(1)] hidden_fields_def)
qed

text \<open>A driver's \<open>isMaster\<close> to an engine whose \<open>hello\<close> names a connection. The codec is a table of
  the BSON encodings of the three documents involved.\<close>

definition greet_body :: adoc where
  "greet_body = ADoc [(''isMaster'', BInt32 1), (''$db'', BString ''admin'')]"

definition greet_command :: adoc where
  "greet_command = ADoc [(''isMaster'', BInt32 1)]"

definition greet_answer :: adoc where
  "greet_answer = ADoc [(''ok'', BInt32 1), (''helloOk'', BBoolean True), (''ismaster'', BBoolean True)]"

definition greet_body_bytes :: bytes where
  "greet_body_bytes =
    [34, 0, 0, 0, 16, 105, 115, 77, 97, 115, 116, 101, 114, 0, 1, 0, 0, 0, 2, 36, 100, 98, 0,
     6, 0, 0, 0, 97, 100, 109, 105, 110, 0, 0]"

definition greet_command_bytes :: bytes where
  "greet_command_bytes =
    [19, 0, 0, 0, 16, 105, 115, 77, 97, 115, 116, 101, 114, 0, 1, 0, 0, 0, 0]"

definition greet_answer_bytes :: bytes where
  "greet_answer_bytes =
    [34, 0, 0, 0, 16, 111, 107, 0, 1, 0, 0, 0, 8, 104, 101, 108, 108, 111, 79, 107, 0, 1, 8,
     105, 115, 109, 97, 115, 116, 101, 114, 0, 1, 0]"

definition greet_lib :: "adoc bson_lib" where
  "greet_lib = alist_lib
     \<lparr>doc_to_vec := (\<lambda>d.
        if d = greet_body then Inr greet_body_bytes
        else if d = greet_command then Inr greet_command_bytes
        else if d = greet_answer then Inr greet_answer_bytes else Inl ''not in the table''),
      doc_from_reader := (\<lambda>bs.
        if bs = greet_body_bytes then Inr greet_body
        else if bs = greet_command_bytes then Inr greet_command
        else if bs = greet_answer_bytes then Inr greet_answer else Inl ''not in the table'')\<rparr>"

definition greet_message :: bytes where
  "greet_message = op_msg 3 0 greet_body_bytes []"

definition greet_run :: "nat \<Rightarrow> string \<Rightarrow> adoc \<Rightarrow> (adoc error + adoc) \<times> nat" where
  "greet_run n db cmd = (Inr (ADoc [(''ok'', BInt32 1), (''connectionId'', BInt32 4)]), Suc n)"

definition greet_engine :: "nat Engine" where
  "greet_engine = \<lparr>en_inner = Some 1, en_hello = greet_answer_bytes\<rparr>"

definition greet_request :: Request where
  "greet_request = \<lparr>rq_request_id = 3, rq_more_to_come = False, rq_legacy = False,
     rq_database = ''admin'', rq_command_name = ''isMaster'', rq_command = greet_command_bytes\<rparr>"

lemmas greet_documents = greet_body_def greet_command_def greet_answer_def
lemmas greet_bytes = greet_body_bytes_def greet_command_bytes_def greet_answer_bytes_def

lemma greet_bson_laws: "bson_laws greet_lib"
  using bson_laws_alist by (simp add: bson_laws_def greet_lib_def)

lemma greet_lengths:
  "5 \<le> length greet_body_bytes \<and> length greet_body_bytes < 2 ^ 31 \<and>
   take 4 greet_body_bytes = le_bytes 4 (length greet_body_bytes)"
  "5 \<le> length greet_command_bytes \<and> length greet_command_bytes < 2 ^ 31 \<and>
   take 4 greet_command_bytes = le_bytes 4 (length greet_command_bytes)"
  "5 \<le> length greet_answer_bytes \<and> length greet_answer_bytes < 2 ^ 31 \<and>
   take 4 greet_answer_bytes = le_bytes 4 (length greet_answer_bytes)"
  by (simp_all add: greet_bytes le_bytes_4)

lemma greet_distinct:
  "greet_command_bytes \<noteq> greet_body_bytes" "greet_answer_bytes \<noteq> greet_body_bytes"
  "greet_answer_bytes \<noteq> greet_command_bytes"
  by (simp_all add: greet_bytes)

lemma greet_codec_laws: "codec_laws greet_lib"
  using greet_lengths greet_distinct by (auto simp: codec_laws_def greet_lib_def split: if_splits)

lemma greet_opens: "Engine_open greet_lib greet_run (Inr 0) = Inr greet_engine"
proof -
  have "hello_document greet_lib (ADoc [(''ok'', BInt32 1), (''connectionId'', BInt32 4)]) = greet_answer"
    by (simp add: hello_document_def greet_lib_def alist_lib_def greet_answer_def)
  moreover have "doc_to_vec greet_lib greet_answer = Inr greet_answer_bytes"
    by (simp add: greet_lib_def greet_documents)
  ultimately show ?thesis
    by (simp add: Engine_open_def Engine_wrap_def hello_def greet_run_def encode_document_def greet_engine_def)
qed

lemma greet_parses: "wire_parse greet_lib greet_message = Inr greet_request"
proof -
  have "encoded greet_lib greet_body greet_body_bytes" "encoded greet_lib greet_command greet_command_bytes"
    "length greet_message < 2 ^ 31" "first_key greet_lib greet_command = Some ''isMaster''"
    "take_db greet_lib (add_sequences greet_lib greet_body (map as_section [])) = Inr (''admin'', greet_command)"
    by (simp_all add: greet_lib_def alist_lib_def greet_documents greet_message_def op_msg_def header_def
        greet_bytes first_key_def take_db_def add_sequences_def)
  then show ?thesis
    using op_msg_parses [OF greet_codec_laws greet_message_def, where ss = "[]" and d = greet_body]
    by (simp add: greet_request_def MORE_TO_COME_def)
qed

lemma greet_is_hello: "is_hello (rq_command_name greet_request)"
  by (simp add: greet_request_def is_hello_def eq_ignore_ascii_case_def) code_simp

theorem node_handshake_witness:
  "\<exists>answer d. Engine_round_trip greet_lib (\<lambda>n db bs. (Inl (Bson ''unreachable''), n)) greet_message
       (snd (Engine_close_node (\<lambda>n. Inr () :: adoc error + unit) greet_engine)) =
         (Inr answer, snd (Engine_close_node (\<lambda>n. Inr () :: adoc error + unit) greet_engine)) \<and>
     rt_request_id answer = 3 \<and> doc_from_reader greet_lib (rt_response answer) = Inr d \<and>
     doc_get greet_lib d ''connectionId'' = None \<and> doc_get greet_lib d ''helloOk'' = Some (BBoolean True) \<and>
     doc_get greet_lib d ''ok'' = Some (BInt32 1)"
proof -
  let ?close = "\<lambda>n :: nat. Inr () :: adoc error + unit"
  obtain client reply client' answer d where h: "Inr 0 = (Inr client :: adoc error + nat)"
    "greet_run client ''admin'' (doc_of greet_lib [(''hello'', BInt32 1)]) = (Inr reply, client')"
    "Engine_round_trip greet_lib (\<lambda>n db bs. (Inl (Bson ''unreachable''), n)) greet_message
       (snd (Engine_close_node ?close greet_engine)) = (Inr answer, snd (Engine_close_node ?close greet_engine))"
    "rt_request_id answer = rq_request_id greet_request"
    "doc_from_reader greet_lib (rt_response answer) = Inr d"
    "\<forall>k. doc_get greet_lib d k =
       (if k \<in> {''helloOk'', ''ismaster''} then Some (BBoolean True)
        else if k \<in> {''logicalSessionTimeoutMinutes'', ''topologyVersion'', ''localTime'', ''connectionId''}
        then None else doc_get greet_lib reply k)"
    using node_handshake [OF greet_bson_laws greet_codec_laws greet_opens greet_parses greet_is_hello,
        where close = ?close and self' = "snd (Engine_close_node ?close greet_engine)"
          and run_bytes = "\<lambda>n db bs. (Inl (Bson ''unreachable''), n)", OF insertI2 [OF singletonI]]
    by (elim exE conjE) (rule that)
  then have "doc_get greet_lib reply ''ok'' = Some (BInt32 1)"
    by (auto simp: greet_run_def greet_lib_def alist_lib_def)
  with h show ?thesis
    by (intro exI [of _ answer] exI [of _ d]) (simp add: greet_request_def)
qed

section \<open>No wakeup is lost\<close>

lemma ready_wait_descends:
  assumes "wait_step s t" and "wt_ready s"
  shows "wt_ready t \<and> wait_rank t < wait_rank s"
  using assms by cases (auto simp: wait_rank_def)

lemma ready_wait_proceeds:
  assumes "wait_inv s" and "wt_ready s" and "wt_thread s \<noteq> Returned"
  shows "\<exists>t. wait_step s t"
  using assms
  by (cases "wt_thread s")
    (auto simp: wait_inv_def intro: poll_ready park_permitted park_blocks park_returns wakes)

text \<open>C35: \<open>block_on\<close> loses no wakeup, whatever spurious returns of \<open>park\<close> and early wakes came
  before. Once the future has completed, a step is left until the thread has returned and every
  step brings the return nearer, so the wait ends; a thread about to park or parked holds a permit
  once the future has made the wake it owed; and no thread returns before the future completed.\<close>

theorem no_wakeup_lost:
  assumes "reach wait_init wait_any s"
  shows "(wt_ready s \<longrightarrow> wt_thread s \<noteq> Returned \<longrightarrow> (\<exists>t. wait_step s t)) \<and>
    (\<forall>t. wt_ready s \<longrightarrow> wait_step s t \<longrightarrow> wt_ready t \<and> wait_rank t < wait_rank s) \<and>
    (wt_ready s \<longrightarrow> \<not> wt_wake_owed s \<longrightarrow> wt_thread s \<in> {Before_park, Parked} \<longrightarrow> wt_permit s) \<and>
    (wt_thread s = Returned \<longrightarrow> wt_ready s)"
proof -
  from assms have inv: "wait_inv s" by (rule waiting.reach_inv)
  then show ?thesis
    using ready_wait_proceeds [OF inv] ready_wait_descends by (auto simp: wait_inv_def)
qed

text \<open>The race: the future completes and wakes between the poll and the park.\<close>

definition raced :: wait_state where
  "raced = \<lparr>wt_thread = Before_park, wt_permit = True, wt_ready = True, wt_registered = True, wt_wake_owed = False\<rparr>"

lemma raced_reachable: "reach wait_init wait_any raced"
proof -
  let ?p = "\<lparr>wt_thread = Polling, wt_permit = False, wt_ready = False, wt_registered = False, wt_wake_owed = False\<rparr>"
  have "reach wait_init wait_any ?p" by (rule reach_init) (simp add: wait_init_def)
  then have "reach wait_init wait_any (?p\<lparr>wt_thread := Before_park, wt_registered := True\<rparr>)" (is "reach _ _ ?q")
    by (rule reach_step) (rule expected, rule poll_pending, simp_all)
  then have "reach wait_init wait_any (?q\<lparr>wt_ready := True, wt_wake_owed := wt_registered ?q\<rparr>)" (is "reach _ _ ?r")
    by (rule reach_step) (rule expected, rule completes, simp)
  then have "reach wait_init wait_any (?r\<lparr>wt_wake_owed := False, wt_permit := True\<rparr>)"
    by (rule reach_step) (rule expected, rule wakes, simp)
  then show ?thesis by (simp add: raced_def)
qed

theorem no_wakeup_lost_witness:
  "wt_thread raced = Before_park \<and> (\<exists>t. wait_step raced t) \<and> wt_permit raced"
  using no_wakeup_lost [OF raced_reachable] by (simp add: raced_def)

end
