(* ===== verification/Driver_Shims.thy ===== *)
theory Driver_Shims
  imports Bindings
begin

text \<open>
  The JavaScript and Python halves of the driver bindings: \<open>embedded-mongodb-node/index.js\<close>, which serves the engine on
  a socket to the Node driver, and \<open>python/pymongo_embedded\<close>, which gives PyMongo connections that have no socket. What the
  two drivers do on their side is an argument.

  A socket of the Node package is a step relation: bytes arrive in chunks of any size, the messages cut from them
  are answered one at a time through \<open>Engine_round_trip\<close>, and the socket may be destroyed at any moment. Its lemmas are
  that the messages handed to the engine do not depend on the chunks, and that the replies
  written answer them in order. A Python connection is a record with at most one reply in it.
\<close>

section \<open>Embedded addresses\<close>

definition SCHEMES :: "string list" where
  "SCHEMES = [''mongodb+embedded://'', ''mongodb_embedded://'']"

fun embedded_path :: "string list \<Rightarrow> string \<Rightarrow> string option" where
  "embedded_path [] uri = None"
| "embedded_path (scheme # schemes) uri =
     (if take (length scheme) uri = scheme then Some (drop (length scheme) uri) else embedded_path schemes uri)"

fun hex_value :: "char \<Rightarrow> nat option" where
  "hex_value c =
     (let n = of_char c in
      if 48 \<le> n \<and> n \<le> 57 then Some (n - 48)
      else if 65 \<le> n \<and> n \<le> 70 then Some (n - 55)
      else if 97 \<le> n \<and> n \<le> 102 then Some (n - 87)
      else None)"

text \<open>The bytes a path with percent escapes stands for; \<open>decodeURIComponent\<close> throws at an escape without two digits
  or at bytes that are no UTF-8, \<open>unquote\<close> keeps the one as it is and replaces the other.\<close>

fun escape :: "string \<Rightarrow> (u8 \<times> string) option" where
  "escape (p # a # b # rest) =
     (if p = CHR ''%'' then
        (case (hex_value a, hex_value b) of
           (Some x, Some y) \<Rightarrow> Some (word_of_nat (16 * x + y), rest)
         | _ \<Rightarrow> None)
      else None)"
| "escape _ = None"

lemma escape_shorter: "escape s = Some (b, rest) \<Longrightarrow> length rest < length s"
  by (induction s rule: escape.induct) (auto simp del: hex_value.simps split: if_splits option.splits)

function js_unescaped :: "string \<Rightarrow> bytes option" where
  "js_unescaped s =
     (case s of
        [] \<Rightarrow> Some []
      | c # cs \<Rightarrow>
          (case escape s of
             Some (b, rest) \<Rightarrow> map_option (Cons b) (js_unescaped rest)
           | None \<Rightarrow> if c = CHR ''%'' then None else map_option (Cons (byte_of_char c)) (js_unescaped cs)))"
  by pat_completeness auto
termination
  by (relation "measure length") (auto dest: escape_shorter)

function py_unescaped :: "string \<Rightarrow> bytes" where
  "py_unescaped s =
     (case s of
        [] \<Rightarrow> []
      | c # cs \<Rightarrow>
          (case escape s of
             Some (b, rest) \<Rightarrow> b # py_unescaped rest
           | None \<Rightarrow> byte_of_char c # py_unescaped cs))"
  by pat_completeness auto
termination
  by (relation "measure length") (auto dest: escape_shorter)

declare js_unescaped.simps [simp del] py_unescaped.simps [simp del]

datatype uri_error = Not_only_a_directory | Malformed_escape

definition pathFromUri :: "string \<Rightarrow> uri_error + string option" where
  "pathFromUri uri =
     (case embedded_path SCHEMES uri of
        None \<Rightarrow> Inr None
      | Some directory \<Rightarrow>
          if directory = [] \<or> CHR ''?'' \<in> set directory \<or> CHR ''#'' \<in> set directory then Inl Not_only_a_directory
          else case Option.bind (js_unescaped directory) from_utf8 of
            None \<Rightarrow> Inl Malformed_escape
          | Some path \<Rightarrow> Inr (Some path))"

definition path_from_uri :: "(bytes \<Rightarrow> string) \<Rightarrow> string \<Rightarrow> uri_error + string option" where
  "path_from_uri replaced uri =
     (case embedded_path SCHEMES uri of
        None \<Rightarrow> Inr None
      | Some path \<Rightarrow>
          if path = [] \<or> CHR ''?'' \<in> set path \<or> CHR ''#'' \<in> set path then Inl Not_only_a_directory
          else Inr (Some (case from_utf8 (py_unescaped path) of Some text \<Rightarrow> text | None \<Rightarrow> replaced (py_unescaped path))))"

section \<open>A connection of the Node driver\<close>

definition OP_REPLY :: nat where "OP_REPLY = 1"
definition HEADER_LENGTH :: nat where "HEADER_LENGTH = 16"

text \<open>\<open>writeInt32LE\<close>, and the two frames with the three fields of the header still to fill in.\<close>

definition write_i32 :: "nat \<Rightarrow> nat \<Rightarrow> bytes \<Rightarrow> bytes" where
  "write_i32 v offset frame = take offset frame @ le_bytes 4 v @ drop (offset + 4) frame"

definition msgFrame :: "bytes \<Rightarrow> bytes" where
  "msgFrame body = replicate 12 0 @ le_bytes 4 (unat OP_MSG) @ le_bytes 4 0 @ [0] @ body"

definition replyFrame :: "bytes \<Rightarrow> bytes" where
  "replyFrame body =
     replicate 12 0 @ le_bytes 4 OP_REPLY @ le_bytes 4 0 @ le_bytes 8 0 @ le_bytes 4 0 @ le_bytes 4 1 @ body"

definition answer_frame :: "nat \<Rightarrow> RoundTrip \<Rightarrow> bytes" where
  "answer_frame replyId rt =
     (let frame = (if rt_legacy rt then replyFrame (rt_response rt) else msgFrame (rt_response rt))
      in write_i32 (unat (rt_request_id rt)) 8 (write_i32 replyId 4 (write_i32 (length frame) 0 frame)))"

text \<open>The messages the buffered bytes hold, what is left of them, and whether a length in them is no length.\<close>

function take_frames :: "bytes \<Rightarrow> bytes list \<times> bytes \<times> bool" where
  "take_frames pending =
     (if length pending < 4 then ([], pending, False)
      else
        let n = sint (i32_from_le_bytes (take 4 pending)) in
        if n < int HEADER_LENGTH then ([], pending, True)
        else if length pending < nat n then ([], pending, False)
        else let (messages, rest, bad) = take_frames (drop (nat n) pending)
             in (take (nat n) pending # messages, rest, bad))"
  by pat_completeness auto
termination
  by (relation "measure length") (auto simp: HEADER_LENGTH_def)

declare take_frames.simps [simp del]

text \<open>\<open>sv_received\<close> and \<open>sv_handed\<close> record what arrived and what the engine answered.\<close>

record serve_state =
  sv_pending :: bytes
  sv_queue :: "bytes list"
  sv_busy :: "bytes option"
  sv_replyId :: nat
  sv_destroyed :: bool
  sv_written :: "bytes list"
  sv_received :: bytes
  sv_handed :: "(bytes \<times> (napi_error + RoundTrip)) list"

definition serve_init :: "serve_state \<Rightarrow> bool" where
  "serve_init s \<longleftrightarrow> s = \<lparr>sv_pending = [], sv_queue = [], sv_busy = None, sv_replyId = 0, sv_destroyed = False,
     sv_written = [], sv_received = [], sv_handed = []\<rparr>"

definition on_data :: "bytes \<Rightarrow> serve_state \<Rightarrow> serve_state" where
  "on_data chunk s =
     (let (messages, rest, bad) = take_frames (sv_pending s @ chunk)
      in s\<lparr>sv_pending := rest, sv_queue := sv_queue s @ messages, sv_destroyed := sv_destroyed s \<or> bad,
           sv_received := sv_received s @ chunk\<rparr>)"

text \<open>A number that does not fit its field throws, and a failure destroys the socket.\<close>

definition on_answer :: "napi_error + RoundTrip \<Rightarrow> serve_state \<Rightarrow> serve_state" where
  "on_answer r s =
     (case r of
        Inl _ \<Rightarrow> s\<lparr>sv_destroyed := True\<rparr>
      | Inr rt \<Rightarrow>
          if rt_more_to_come rt \<or> sv_destroyed s then s
          else let frame = answer_frame (Suc (sv_replyId s)) rt in
            if 2 ^ 31 \<le> length frame then s\<lparr>sv_destroyed := True\<rparr>
            else if 2 ^ 31 \<le> Suc (sv_replyId s) then s\<lparr>sv_replyId := Suc (sv_replyId s), sv_destroyed := True\<rparr>
            else s\<lparr>sv_replyId := Suc (sv_replyId s), sv_written := sv_written s @ [frame]\<rparr>)"

inductive serve_step ::
  "'d bson_lib \<Rightarrow> ('c \<Rightarrow> string \<Rightarrow> bytes \<Rightarrow> ('d error + bytes) \<times> 'c) \<Rightarrow> serve_state \<Rightarrow> serve_state \<Rightarrow> bool"
  for B run_bytes where
  data_arrives: "\<not> sv_destroyed s \<Longrightarrow> serve_step B run_bytes s (on_data chunk s)"
| answer_starts: "sv_busy s = None \<Longrightarrow> sv_queue s = message # rest \<Longrightarrow>
    serve_step B run_bytes s (s\<lparr>sv_busy := Some message, sv_queue := rest\<rparr>)"
| answer_ends: "sv_busy s = Some message \<Longrightarrow> Engine_round_trip B run_bytes message engine = (r, engine') \<Longrightarrow>
    serve_step B run_bytes s ((on_answer r s)\<lparr>sv_busy := None, sv_handed := sv_handed s @ [(message, r)]\<rparr>)"
| socket_closes: "serve_step B run_bytes s (s\<lparr>sv_destroyed := True\<rparr>)"

section \<open>An engine behind a socket, and the Node client\<close>

record 'c EmbeddedMongodb =
  eb_engine :: "'c Engine"
  eb_sockets :: "nat set"
  eb_listening :: bool
  eb_directory :: bool
  eb_closed :: bool

definition EmbeddedMongodb_new :: "'c Engine \<Rightarrow> 'c EmbeddedMongodb" where
  "EmbeddedMongodb_new engine =
     \<lparr>eb_engine = engine, eb_sockets = {}, eb_listening = True, eb_directory = True, eb_closed = False\<rparr>"

definition EmbeddedMongodb_close ::
  "('c \<Rightarrow> 'd error + unit) \<Rightarrow> 'c EmbeddedMongodb \<Rightarrow> (napi_error + unit) \<times> 'c EmbeddedMongodb" where
  "EmbeddedMongodb_close close self =
     (if eb_closed self then (Inr (), self)
      else let stopped = self\<lparr>eb_closed := True, eb_listening := False, eb_sockets := {}\<rparr>;
               (r, engine') = Engine_close_node close (eb_engine stopped)
           in (r, stopped\<lparr>eb_engine := engine', eb_directory := False\<rparr>))"

datatype 'x node_error = Bad_uri uri_error | Engine_failure napi_error | Driver_failure 'x

text \<open>The client's constructor: the driver's own for a foreign address; otherwise the engine, and the driver over its
  socket. \<open>driver\<close> is the driver's constructor. A close that throws hides what it was undoing.\<close>

definition MongoClient_new ::
  "(string \<Rightarrow> napi_error + 'c Engine) \<Rightarrow> ('c \<Rightarrow> 'd error + unit) \<Rightarrow> (string \<Rightarrow> 'x + 'm) \<Rightarrow> string \<Rightarrow> string
     \<Rightarrow> ('x node_error + 'm) \<times> 'c EmbeddedMongodb option" where
  "MongoClient_new openSync close driver socket_uri uri =
     (case pathFromUri uri of
        Inl e \<Rightarrow> (Inl (Bad_uri e), None)
      | Inr None \<Rightarrow> (map_err Driver_failure (driver uri), None)
      | Inr (Some directory) \<Rightarrow>
          (case openSync directory of
             Inl e \<Rightarrow> (Inl (Engine_failure e), None)
           | Inr engine \<Rightarrow>
               (case driver socket_uri of
                  Inr m \<Rightarrow> (Inr m, Some (EmbeddedMongodb_new engine))
                | Inl x \<Rightarrow>
                    (let (r, embedded) = EmbeddedMongodb_close close (EmbeddedMongodb_new engine)
                     in (Inl (case r of Inr _ \<Rightarrow> Driver_failure x | Inl e \<Rightarrow> Engine_failure e), Some embedded)))))"

definition MongoClient_close_node ::
  "('c \<Rightarrow> 'd error + unit) \<Rightarrow> 'x + unit \<Rightarrow> 'c EmbeddedMongodb option
     \<Rightarrow> ('x node_error + unit) \<times> 'c EmbeddedMongodb option" where
  "MongoClient_close_node close driver_closed embedded =
     (case embedded of
        None \<Rightarrow> (map_err Driver_failure driver_closed, None)
      | Some e \<Rightarrow>
          (let (r, e') = EmbeddedMongodb_close close e
           in (case r of Inl f \<Rightarrow> Inl (Engine_failure f) | Inr _ \<Rightarrow> map_err Driver_failure driver_closed, Some e')))"

section \<open>A connection of PyMongo\<close>

definition PENDING_ALREADY :: string where "PENDING_ALREADY = ''embedded connection already has a pending response''"
definition PENDING_MISSING :: string where "PENDING_MISSING = ''embedded connection has no pending response''"

definition mismatched :: "i32 \<Rightarrow> i32 \<Rightarrow> string" where
  "mismatched response_to request_id =
     ''response id '' @ show_int (sint response_to) @ '' does not match request id '' @ show_int (sint request_id)"

definition too_large :: "nat \<Rightarrow> nat \<Rightarrow> string" where
  "too_large document_size maximum =
     ''BSON document too large ('' @ show_nat document_size @ '' bytes); maximum is '' @ show_nat maximum @ '' bytes''"

text \<open>A failure of the connection is raised through PyMongo, which closes the connection.\<close>

datatype py_exception =
    DocumentTooLarge string
  | ProtocolError string
  | Connection_failure py_exception
  | Round_trip_error py_error

record EmbeddedConnection =
  ec_pending :: "(i32 \<times> bytes) option"
  ec_max_bson_size :: nat
  ec_closed :: bool

definition raise_connection_failure :: "py_exception \<Rightarrow> EmbeddedConnection \<Rightarrow> (py_exception + 'a) \<times> EmbeddedConnection" where
  "raise_connection_failure e self = (Inl (Connection_failure e), self\<lparr>ec_closed := True\<rparr>)"

definition send_message ::
  "('c \<Rightarrow> bytes \<Rightarrow> (py_error + i32 \<times> bool \<times> bytes) \<times> 'c) \<Rightarrow> bytes \<Rightarrow> nat \<Rightarrow> EmbeddedConnection \<Rightarrow> 'c
     \<Rightarrow> (py_exception + unit) \<times> EmbeddedConnection \<times> 'c" where
  "send_message round_trip message max_doc_size self runtime =
     (if ec_max_bson_size self < max_doc_size
      then (Inl (DocumentTooLarge (too_large max_doc_size (ec_max_bson_size self))), self, runtime)
      else if ec_pending self \<noteq> None then (Inl (ProtocolError PENDING_ALREADY), self, runtime)
      else case round_trip runtime message of
        (Inl e, runtime') \<Rightarrow>
          (let (r, self') = raise_connection_failure (Round_trip_error e) self in (r, self', runtime'))
      | (Inr (request_id, more_to_come, response), runtime') \<Rightarrow>
          (Inr (), if more_to_come then self else self\<lparr>ec_pending := Some (request_id, response)\<rparr>, runtime'))"

definition receive_message :: "i32 option \<Rightarrow> EmbeddedConnection \<Rightarrow> (py_exception + bytes) \<times> EmbeddedConnection" where
  "receive_message request_id self =
     (let emptied = self\<lparr>ec_pending := None\<rparr> in
      case ec_pending self of
        None \<Rightarrow> raise_connection_failure (ProtocolError PENDING_MISSING) emptied
      | Some (response_to, response) \<Rightarrow>
          (case request_id of
             None \<Rightarrow> (Inr response, emptied)
           | Some rid \<Rightarrow>
               if rid \<noteq> response_to then raise_connection_failure (ProtocolError (mismatched response_to rid)) emptied
               else (Inr response, emptied)))"

section \<open>The clients of PyMongo\<close>

datatype 'x py_client_error = Bad_host uri_error | Type_error string | Native_failure py_error | Pymongo_failure 'x

text \<open>A host that is no string is not an embedded address. \<open>shut\<close> is the close of the native client: the blocking one in
  both constructors. \<open>foreign\<close> and \<open>driver\<close> are what PyMongo's constructor does with the caller's
  arguments and with the embedded ones.\<close>

definition MongoClient_init ::
  "(bytes \<Rightarrow> string) \<Rightarrow> (string \<Rightarrow> py_error + 'c option) \<Rightarrow> ('c option \<Rightarrow> (py_error + unit) \<times> 'c option) \<Rightarrow> 'x + unit \<Rightarrow> 'x + unit
     \<Rightarrow> string option \<Rightarrow> bool \<Rightarrow> bool \<Rightarrow> ('x py_client_error + unit) \<times> 'c option option" where
  "MongoClient_init replaced native shut foreign driver host has_port has_pool_class =
     (case (case host of None \<Rightarrow> Inr None | Some uri \<Rightarrow> path_from_uri replaced uri) of
        Inl e \<Rightarrow> (Inl (Bad_host e), None)
      | Inr None \<Rightarrow> (map_err Pymongo_failure foreign, None)
      | Inr (Some path) \<Rightarrow>
          if has_port then (Inl (Type_error ''port is not valid with an embedded MongoDB URI''), None)
          else if has_pool_class then (Inl (Type_error ''_pool_class cannot be combined with embedded MongoDB''), None)
          else case native path of
            Inl e \<Rightarrow> (Inl (Native_failure e), None)
          | Inr runtime \<Rightarrow>
              (case driver of
                 Inr _ \<Rightarrow> (Inr (), Some runtime)
               | Inl x \<Rightarrow>
                   (let (r, runtime') = shut runtime
                    in (Inl (case r of Inr _ \<Rightarrow> Pymongo_failure x | Inl e \<Rightarrow> Native_failure e), Some runtime'))))"

definition MongoClient_close_py ::
  "('c option \<Rightarrow> (py_error + unit) \<times> 'c option) \<Rightarrow> 'x + unit \<Rightarrow> 'c option option
     \<Rightarrow> ('x py_client_error + unit) \<times> 'c option option" where
  "MongoClient_close_py shut driver_closed runtime =
     (case runtime of
        None \<Rightarrow> (map_err Pymongo_failure driver_closed, None)
      | Some inner \<Rightarrow>
          (let (r, inner') = shut inner
           in (case r of Inl e \<Rightarrow> Inl (Native_failure e) | Inr _ \<Rightarrow> map_err Pymongo_failure driver_closed, Some inner')))"

section \<open>Frames\<close>

lemma take_frames_cons:
  assumes "n = sint (i32_from_le_bytes (take 4 xs))" and "4 \<le> length xs" and "int HEADER_LENGTH \<le> n" and "nat n \<le> length xs"
    and "take_frames (drop (nat n) xs) = (ms, rest, bad)"
  shows "take_frames xs = (take (nat n) xs # ms, rest, bad)"
  using assms(2-) unfolding assms(1) by (subst take_frames.simps) (simp add: Let_def)

lemma take_frames_stop:
  assumes "n = sint (i32_from_le_bytes (take 4 xs))" and "\<not> (4 \<le> length xs \<and> int HEADER_LENGTH \<le> n \<and> nat n \<le> length xs)"
  shows "take_frames xs = ([], xs, 4 \<le> length xs \<and> n < int HEADER_LENGTH)"
  using assms(2) unfolding assms(1) by (subst take_frames.simps) (auto simp: Let_def)

lemma take_frames_append:
  assumes "take_frames xs = (ms, rest, False)"
  shows "take_frames (xs @ ys) = (case take_frames (rest @ ys) of (ms', rest', bad) \<Rightarrow> (ms @ ms', rest', bad))"
  using assms
proof (induction "length xs" arbitrary: xs ms rule: less_induct)
  case less
  define n where "n = sint (i32_from_le_bytes (take 4 xs))"
  show ?case
  proof (cases "4 \<le> length xs \<and> int HEADER_LENGTH \<le> n \<and> nat n \<le> length xs")
    case True
    obtain ms1 rest1 bad1 where tail: "take_frames (drop (nat n) xs) = (ms1, rest1, bad1)" by (metis prod_cases3)
    with take_frames_cons [OF n_def] True less.prems have ms: "ms = take (nat n) xs # ms1" "rest1 = rest" "bad1 = False" by simp_all
    have shorter: "length (drop (nat n) xs) < length xs" using True by (auto simp: HEADER_LENGTH_def)
    obtain ms2 rest2 bad2 where more: "take_frames (rest @ ys) = (ms2, rest2, bad2)" by (metis prod_cases3)
    with less.hyps [OF shorter, of ms1] tail ms have "take_frames (drop (nat n) xs @ ys) = (ms1 @ ms2, rest2, bad2)" by simp
    with take_frames_cons [of n "xs @ ys" "ms1 @ ms2" rest2 bad2] True ms(1) more show ?thesis by (simp add: n_def)
  next
    case False
    with take_frames_stop [OF n_def] less.prems have "ms = []" "rest = xs" by simp_all
    then show ?thesis by (simp split: prod.split)
  qed
qed

text \<open>Every message cut out of a stream is as long as it says.\<close>

lemma take_frames_lengths:
  "take_frames xs = (ms, rest, bad) \<Longrightarrow> m \<in> set ms \<Longrightarrow>
     HEADER_LENGTH \<le> length m \<and> sint (i32_from_le_bytes (take 4 m)) = int (length m)"
proof (induction "length xs" arbitrary: xs ms rule: less_induct)
  case less
  define n where "n = sint (i32_from_le_bytes (take 4 xs))"
  have long: "4 \<le> length xs \<and> int HEADER_LENGTH \<le> n \<and> nat n \<le> length xs"
    using take_frames_stop [OF n_def] less.prems by (metis Pair_inject empty_iff list.set(1))
  obtain ms1 rest1 bad1 where tail: "take_frames (drop (nat n) xs) = (ms1, rest1, bad1)" by (metis prod_cases3)
  with take_frames_cons [OF n_def] long less.prems have ms: "ms = take (nat n) xs # ms1" "rest1 = rest" "bad1 = bad" by simp_all
  have shorter: "length (drop (nat n) xs) < length xs" using long by (auto simp: HEADER_LENGTH_def)
  have "take 4 (take (nat n) xs) = take 4 xs" using long by (auto simp: HEADER_LENGTH_def min_def)
  with long have "HEADER_LENGTH \<le> length (take (nat n) xs)"
      "sint (i32_from_le_bytes (take 4 (take (nat n) xs))) = int (length (take (nat n) xs))"
    by (auto simp: n_def [symmetric] HEADER_LENGTH_def)
  with less.hyps [OF shorter, of ms1] less.prems(2) tail ms show ?case by auto
qed

definition frame_tail :: "RoundTrip \<Rightarrow> bytes" where
  "frame_tail rt =
     (if rt_legacy rt then le_bytes 4 0 @ le_bytes 8 0 @ le_bytes 4 0 @ le_bytes 4 1 else le_bytes 4 0 @ [0]) @ rt_response rt"

lemma answer_frame_layout:
  "answer_frame n rt =
     le_bytes 4 (16 + length (frame_tail rt)) @ le_bytes 4 n @ le_bytes 4 (unat (rt_request_id rt)) @
     le_bytes 4 (if rt_legacy rt then OP_REPLY else unat OP_MSG) @ frame_tail rt"
  by (simp add: answer_frame_def Let_def write_i32_def msgFrame_def replyFrame_def frame_tail_def)

lemma length_answer_frame: "length (answer_frame n rt) = 16 + length (frame_tail rt)"
  by (simp add: answer_frame_layout)

lemma read_i32_number:
  assumes "length xs = pos" and "v < 2 ^ 32"
  shows "read_i32 (xs @ le_bytes 4 v @ zs) pos = Inr (word_of_nat v)"
proof -
  have "le_nat (le_bytes 4 v) = v" using assms(2) by (intro le_nat_le_bytes) simp
  with read_i32_mid [OF assms(1), of "le_bytes 4 v" zs] show ?thesis by (simp add: i32_from_le_bytes_def)
qed

lemma answer_frame_reads:
  assumes "length (answer_frame n rt) < 2 ^ 31" and "n < 2 ^ 31"
  shows "read_i32 (answer_frame n rt) 0 = Inr (word_of_nat (length (answer_frame n rt)))"
    and "read_i32 (answer_frame n rt) 4 = Inr (word_of_nat n)"
    and "read_i32 (answer_frame n rt) 8 = Inr (rt_request_id rt)"
    and "read_i32 (answer_frame n rt) 12 = Inr (if rt_legacy rt then 1 else OP_MSG)"
    and "drop (if rt_legacy rt then 36 else 21) (answer_frame n rt) = rt_response rt"
proof -
  let ?a = "le_bytes 4 (16 + length (frame_tail rt))" and ?b = "le_bytes 4 n" and ?c = "le_bytes 4 (unat (rt_request_id rt))"
  let ?op = "if rt_legacy rt then OP_REPLY else unat OP_MSG"
  have len: "16 + length (frame_tail rt) < 2 ^ 32" using assms(1) by (simp add: length_answer_frame)
  have n: "n < 2 ^ 32" using assms(2) by simp
  have rid: "unat (rt_request_id rt) < 2 ^ 32" by (rule u32_bound)
  have op: "?op < 2 ^ 32" "word_of_nat ?op = (if rt_legacy rt then 1 else OP_MSG)" by (simp_all add: OP_REPLY_def OP_MSG_def)
  show "read_i32 (answer_frame n rt) 0 = Inr (word_of_nat (length (answer_frame n rt)))"
    unfolding length_answer_frame unfolding answer_frame_layout
    using read_i32_number [where xs = "[]" and pos = 0, OF _ len] by simp
  show "read_i32 (answer_frame n rt) 4 = Inr (word_of_nat n)"
    unfolding answer_frame_layout by (rule read_i32_number [OF _ n]) simp
  show "read_i32 (answer_frame n rt) 8 = Inr (rt_request_id rt)"
    unfolding answer_frame_layout using read_i32_number [where xs = "?a @ ?b" and pos = 8, OF _ rid] by simp
  show "read_i32 (answer_frame n rt) 12 = Inr (if rt_legacy rt then 1 else OP_MSG)"
    unfolding answer_frame_layout using read_i32_number [where xs = "?a @ ?b @ ?c" and pos = 12, OF _ op(1)] op(2) by simp
  show "drop (if rt_legacy rt then 36 else 21) (answer_frame n rt) = rt_response rt"
    unfolding answer_frame_layout by (simp add: frame_tail_def)
qed

section \<open>A connection answers in order\<close>

text \<open>The answers that are to be written, and the frames they are written in.\<close>

fun replying :: "(bytes \<times> (napi_error + RoundTrip)) list \<Rightarrow> RoundTrip list" where
  "replying [] = []"
| "replying ((m, r) # handed) =
     (case r of Inl _ \<Rightarrow> replying handed | Inr rt \<Rightarrow> if rt_more_to_come rt then replying handed else rt # replying handed)"

fun numbered :: "nat \<Rightarrow> RoundTrip list \<Rightarrow> bytes list" where
  "numbered n [] = []"
| "numbered n (rt # rts) = answer_frame (Suc n) rt # numbered (Suc n) rts"

lemma replying_append [simp]: "replying (xs @ ys) = replying xs @ replying ys"
  by (induction xs rule: replying.induct) (auto split: sum.splits)

lemma numbered_append [simp]: "numbered n (xs @ ys) = numbered n xs @ numbered (n + length xs) ys"
  by (induction xs arbitrary: n) auto

lemma length_numbered [simp]: "length (numbered n rts) = length rts"
  by (induction rts arbitrary: n) auto

lemma numbered_nth: "i < length rts \<Longrightarrow> numbered n rts ! i = answer_frame (Suc (n + i)) (rts ! i)"
  by (induction rts arbitrary: n i) (auto simp: nth_Cons split: nat.split)

text \<open>What arrived is what was handed over, what is being answered, what waits, and an incomplete rest; \<open>k\<close> answers were
  dealt with before the socket was destroyed.\<close>

definition streamed :: "serve_state \<Rightarrow> bool" where
  "streamed s \<longleftrightarrow> (\<exists>bad. take_frames (sv_received s) =
     (map fst (sv_handed s) @ (case sv_busy s of None \<Rightarrow> [] | Some m \<Rightarrow> [m]) @ sv_queue s, sv_pending s, bad) \<and>
     (bad \<longrightarrow> sv_destroyed s))"

definition wrote :: "nat \<Rightarrow> serve_state \<Rightarrow> bool" where
  "wrote k s \<longleftrightarrow> k \<le> length (sv_handed s) \<and> sv_written s = numbered 0 (replying (take k (sv_handed s))) \<and>
     (\<not> sv_destroyed s \<longrightarrow> k = length (sv_handed s) \<and> sv_replyId s = length (sv_written s)) \<and>
     length (sv_written s) < 2 ^ 31 \<and> (\<forall>frame \<in> set (sv_written s). length frame < 2 ^ 31)"

definition serve_inv ::
  "'d bson_lib \<Rightarrow> ('c \<Rightarrow> string \<Rightarrow> bytes \<Rightarrow> ('d error + bytes) \<times> 'c) \<Rightarrow> serve_state \<Rightarrow> bool" where
  "serve_inv B run_bytes s \<longleftrightarrow> streamed s \<and>
     (\<forall>(m, r) \<in> set (sv_handed s). \<exists>engine. r = fst (Engine_round_trip B run_bytes m engine)) \<and> (\<exists>k. wrote k s)"

lemma on_data_streamed:
  assumes "streamed s" and "\<not> sv_destroyed s"
  shows "streamed (on_data chunk s)"
proof -
  obtain ms rest bad where ms: "take_frames (sv_pending s @ chunk) = (ms, rest, bad)" by (metis prod_cases3)
  have "take_frames (sv_received s) =
      (map fst (sv_handed s) @ (case sv_busy s of None \<Rightarrow> [] | Some m \<Rightarrow> [m]) @ sv_queue s, sv_pending s, False)"
    using assms by (auto simp: streamed_def)
  from take_frames_append [OF this, of chunk] ms show ?thesis by (simp add: streamed_def on_data_def)
qed

lemma on_answer_same:
  "sv_received (on_answer r s) = sv_received s" "sv_queue (on_answer r s) = sv_queue s"
  "sv_pending (on_answer r s) = sv_pending s" "sv_destroyed s \<Longrightarrow> sv_destroyed (on_answer r s)"
  by (auto simp: on_answer_def Let_def split: sum.split)

lemma on_answer_wrote:
  assumes "wrote k s"
  shows "\<exists>k'. wrote k' ((on_answer r s)\<lparr>sv_busy := None, sv_handed := sv_handed s @ [(m, r)]\<rparr>)"
proof (cases "sv_destroyed s")
  case True
  with assms have "wrote k ((on_answer r s)\<lparr>sv_busy := None, sv_handed := sv_handed s @ [(m, r)]\<rparr>)"
    by (auto simp: wrote_def on_answer_def split: sum.split)
  then show ?thesis by blast
next
  case False
  with assms have k: "k = length (sv_handed s)" "sv_replyId s = length (sv_written s)"
    and w: "sv_written s = numbered 0 (replying (sv_handed s))" "length (sv_written s) < 2 ^ 31"
      "\<forall>frame \<in> set (sv_written s). length frame < 2 ^ 31"
    by (auto simp: wrote_def)
  let ?t = "(on_answer r s)\<lparr>sv_busy := None, sv_handed := sv_handed s @ [(m, r)]\<rparr>"
  show ?thesis
  proof (cases "sv_destroyed ?t")
    case True
    with w False have "wrote k ?t" by (auto simp: wrote_def k(1) on_answer_def Let_def split: sum.splits if_splits)
    then show ?thesis by blast
  next
    case alive: False
    with w k(2) False have "wrote (Suc k) ?t"
      by (auto simp: wrote_def k(1) on_answer_def Let_def split: sum.splits if_splits)
    then show ?thesis by blast
  qed
qed

interpretation serving: invariant_system serve_init "serve_step B run_bytes" "serve_inv B run_bytes" for B run_bytes
proof
  fix s t assume inv: "serve_inv B run_bytes s" and "serve_step B run_bytes s t"
  from this(2) show "serve_inv B run_bytes t"
  proof cases
    case (data_arrives chunk)
    with inv on_data_streamed have "streamed t" by (auto simp: serve_inv_def)
    with inv data_arrives show ?thesis by (auto simp: serve_inv_def on_data_def wrote_def split: prod.splits)
  next
    case (answer_starts message rest)
    with inv show ?thesis by (auto simp: serve_inv_def streamed_def wrote_def)
  next
    case (answer_ends message engine r engine')
    with inv have "\<exists>k. wrote k t" using on_answer_wrote by (auto simp: serve_inv_def)
    moreover from inv answer_ends have "streamed t" by (auto simp: serve_inv_def streamed_def on_answer_same)
    moreover have "r = fst (Engine_round_trip B run_bytes message engine)" using answer_ends by simp
    ultimately show ?thesis using inv answer_ends(1) by (auto simp: serve_inv_def)
  next
    case socket_closes
    with inv show ?thesis by (auto simp: serve_inv_def streamed_def wrote_def)
  qed
next
  fix s assume "serve_init s"
  moreover have "take_frames [] = ([], [], False)" by (simp add: take_frames.simps)
  ultimately show "serve_inv B run_bytes s" by (auto simp: serve_inv_def serve_init_def streamed_def wrote_def)
qed

lemma round_trip_keeps_id:
  assumes "Engine_round_trip B run_bytes m engine = (Inr rt, engine')"
  shows "read_i32 m 4 = Inr (rt_request_id rt)"
proof -
  from assms obtain request where "wire_parse B m = Inr request" "rt_request_id rt = rq_request_id request"
    by (auto simp: Engine_round_trip_def result_iffs Let_def split: sum.splits prod.splits if_splits option.splits)
  with wire_parse_Inr show ?thesis by fastforce
qed

lemma declared_length:
  assumes "4 \<le> length m" and "sint (i32_from_le_bytes (take 4 m)) = int (length m)"
  shows "\<exists>n. read_i32 m 0 = Inr n \<and> sint n = int (length m)"
  using assms by (auto simp: read_i32_def get_range_def)

text \<open>C16: a socket of the Node package, however the bytes of the driver are cut into chunks and whenever it is destroyed. The
  engine is handed, in order and once each, the first messages of the byte stream, and all of the complete ones once
  the socket is idle; each is as long as its header says, so the parser never refuses its length. The frames written back are
  the answers of the first of them that expect one, in order, and of all of them while the socket lives: each declares its own
  length, is numbered from one, answers the request id in the header of its message, and carries the engine's reply.\<close>

theorem socket_answers_in_order:
  assumes "reach serve_init (serve_step B run_bytes) s"
  shows "(\<exists>waiting bad. take_frames (sv_received s) = (map fst (sv_handed s) @ waiting, sv_pending s, bad) \<and>
      (bad \<longrightarrow> sv_destroyed s) \<and> (sv_busy s = None \<longrightarrow> sv_queue s = [] \<longrightarrow> waiting = [])) \<and>
    (\<forall>(m, r) \<in> set (sv_handed s). (\<exists>n. read_i32 m 0 = Inr n \<and> sint n = int (length m)) \<and>
      (\<forall>rt. r = Inr rt \<longrightarrow> read_i32 m 4 = Inr (rt_request_id rt))) \<and>
    (\<exists>k \<le> length (sv_handed s). (\<not> sv_destroyed s \<longrightarrow> k = length (sv_handed s)) \<and>
      length (sv_written s) = length (replying (take k (sv_handed s))) \<and>
      (\<forall>i < length (sv_written s).
        let frame = sv_written s ! i; rt = replying (take k (sv_handed s)) ! i in
        read_i32 frame 0 = Inr (word_of_nat (length frame)) \<and> read_i32 frame 4 = Inr (word_of_nat (Suc i)) \<and>
        read_i32 frame 8 = Inr (rt_request_id rt) \<and> read_i32 frame 12 = Inr (if rt_legacy rt then 1 else OP_MSG) \<and>
        drop (if rt_legacy rt then 36 else 21) frame = rt_response rt))"
proof (intro conjI)
  from assms have inv: "serve_inv B run_bytes s" by (rule serving.reach_inv)
  then obtain bad where stream: "take_frames (sv_received s) =
      (map fst (sv_handed s) @ (case sv_busy s of None \<Rightarrow> [] | Some m \<Rightarrow> [m]) @ sv_queue s, sv_pending s, bad)" "bad \<longrightarrow> sv_destroyed s"
    by (auto simp: serve_inv_def streamed_def)
  then show "\<exists>waiting bad. take_frames (sv_received s) = (map fst (sv_handed s) @ waiting, sv_pending s, bad) \<and>
      (bad \<longrightarrow> sv_destroyed s) \<and> (sv_busy s = None \<longrightarrow> sv_queue s = [] \<longrightarrow> waiting = [])" by auto
  have "16 \<le> length m \<and> sint (i32_from_le_bytes (take 4 m)) = int (length m)" if "(m, r) \<in> set (sv_handed s)" for m r
    using take_frames_lengths [OF stream(1), of m] that by (force simp: HEADER_LENGTH_def)
  moreover have "read_i32 m 4 = Inr (rt_request_id rt)" if "(m, Inr rt) \<in> set (sv_handed s)" for m rt
  proof -
    from inv that obtain engine where "Inr rt = fst (Engine_round_trip B run_bytes m engine)"
      by (fastforce simp: serve_inv_def)
    then show ?thesis using round_trip_keeps_id [of B run_bytes m engine rt] by (metis prod.collapse)
  qed
  ultimately show "\<forall>(m, r) \<in> set (sv_handed s). (\<exists>n. read_i32 m 0 = Inr n \<and> sint n = int (length m)) \<and>
      (\<forall>rt. r = Inr rt \<longrightarrow> read_i32 m 4 = Inr (rt_request_id rt))"
    using declared_length by fastforce
  from inv obtain k where k: "wrote k s" by (auto simp: serve_inv_def)
  have frame: "sv_written s ! i = answer_frame (Suc i) (replying (take k (sv_handed s)) ! i)" "length (sv_written s ! i) < 2 ^ 31"
      "Suc i < 2 ^ 31" if "i < length (sv_written s)" for i
  proof -
    show "sv_written s ! i = answer_frame (Suc i) (replying (take k (sv_handed s)) ! i)"
      using k that numbered_nth [of i "replying (take k (sv_handed s))" 0] by (simp add: wrote_def)
    show "length (sv_written s ! i) < 2 ^ 31" "Suc i < 2 ^ 31" using k nth_mem [OF that] that by (auto simp: wrote_def)
  qed
  show "\<exists>k \<le> length (sv_handed s). (\<not> sv_destroyed s \<longrightarrow> k = length (sv_handed s)) \<and>
      length (sv_written s) = length (replying (take k (sv_handed s))) \<and>
      (\<forall>i < length (sv_written s).
        let frame = sv_written s ! i; rt = replying (take k (sv_handed s)) ! i in
        read_i32 frame 0 = Inr (word_of_nat (length frame)) \<and> read_i32 frame 4 = Inr (word_of_nat (Suc i)) \<and>
        read_i32 frame 8 = Inr (rt_request_id rt) \<and> read_i32 frame 12 = Inr (if rt_legacy rt then 1 else OP_MSG) \<and>
        drop (if rt_legacy rt then 36 else 21) frame = rt_response rt)"
  proof (intro exI [of _ k] conjI allI impI)
    fix i assume i: "i < length (sv_written s)"
    note reads = answer_frame_reads [of "Suc i" "replying (take k (sv_handed s)) ! i"]
    show "let frame = sv_written s ! i; rt = replying (take k (sv_handed s)) ! i in
        read_i32 frame 0 = Inr (word_of_nat (length frame)) \<and> read_i32 frame 4 = Inr (word_of_nat (Suc i)) \<and>
        read_i32 frame 8 = Inr (rt_request_id rt) \<and> read_i32 frame 12 = Inr (if rt_legacy rt then 1 else OP_MSG) \<and>
        drop (if rt_legacy rt then 36 else 21) frame = rt_response rt"
      unfolding Let_def frame(1) [OF i] using reads frame [OF i] by (intro conjI) simp_all
  qed (use k in \<open>auto simp: wrote_def\<close>)
qed

text \<open>A greeting that arrives in two chunks.\<close>

definition greeted :: RoundTrip where
  "greeted = \<lparr>rt_request_id = 3, rt_more_to_come = False, rt_legacy = False, rt_response = greet_answer_bytes\<rparr>"

definition greeted_socket :: serve_state where
  "greeted_socket = \<lparr>sv_pending = [], sv_queue = [], sv_busy = None, sv_replyId = 1, sv_destroyed = False,
     sv_written = [answer_frame 1 greeted], sv_received = greet_message, sv_handed = [(greet_message, Inr greeted)]\<rparr>"

definition refusing :: "nat \<Rightarrow> string \<Rightarrow> bytes \<Rightarrow> (adoc error + bytes) \<times> nat" where
  "refusing n db bs = (Inl (Bson ''unreachable''), n)"

lemma greet_message_bytes: "length greet_message = 55" "take 4 greet_message = le_bytes 4 55"
  by (simp_all add: greet_message_def op_msg_def header_def greet_body_bytes_def Let_def)

lemma greet_frames: "take_frames (take 10 greet_message) = ([], take 10 greet_message, False)"
  "take_frames greet_message = ([greet_message], [], False)"
proof -
  have n: "sint (i32_from_le_bytes (take 4 greet_message)) = 55" by (simp add: greet_message_bytes(2) sint_i32_le)
  have "take 4 (take 10 greet_message) = take 4 greet_message" by simp
  with n take_frames_stop [of 55 "take 10 greet_message"]
  show "take_frames (take 10 greet_message) = ([], take 10 greet_message, False)"
    by (simp add: greet_message_bytes(1) HEADER_LENGTH_def)
  have "take_frames [] = ([], [], False)" by (simp add: take_frames.simps)
  with n take_frames_cons [of 55 greet_message "[]" "[]" False]
  show "take_frames greet_message = ([greet_message], [], False)" by (simp add: greet_message_bytes(1) HEADER_LENGTH_def)
qed

lemma greeted_reachable: "reach serve_init (serve_step greet_lib refusing) greeted_socket"
proof -
  let ?reach = "reach serve_init (serve_step greet_lib refusing)"
  let ?s = "\<lparr>sv_pending = [], sv_queue = [], sv_busy = None, sv_replyId = 0, sv_destroyed = False,
     sv_written = [], sv_received = [], sv_handed = []\<rparr>"
  have "?reach ?s" by (rule reach_init) (simp add: serve_init_def)
  then have "?reach (on_data (take 10 greet_message) ?s)" (is "reach _ _ ?s1") by (rule reach_step) (rule data_arrives, simp)
  moreover have s1: "?s1 = ?s\<lparr>sv_pending := take 10 greet_message, sv_received := take 10 greet_message\<rparr>"
    by (simp add: on_data_def greet_frames)
  ultimately have "?reach (on_data (drop 10 greet_message) ?s1)" (is "reach _ _ ?s2")
    by (elim reach_step) (rule data_arrives, simp)
  moreover have "?s2 = ?s\<lparr>sv_queue := [greet_message], sv_received := greet_message\<rparr>"
    unfolding s1 by (simp add: on_data_def greet_frames)
  ultimately have s2: "?reach (?s\<lparr>sv_queue := [greet_message], sv_received := greet_message\<rparr>)" (is "reach _ _ ?s2'") by simp
  then have s3: "?reach (?s2'\<lparr>sv_busy := Some greet_message, sv_queue := []\<rparr>)" (is "reach _ _ ?s3")
    by (rule reach_step) (rule answer_starts, simp_all)
  have round: "Engine_round_trip greet_lib refusing greet_message greet_engine = (Inr greeted, greet_engine)"
    using handshakes_leave_the_engine_alone [OF greet_parses greet_is_hello, of refusing greet_engine]
    by (simp add: greeted_def greet_request_def greet_engine_def)
  have "?reach ((on_answer (Inr greeted) ?s3)\<lparr>sv_busy := None, sv_handed := sv_handed ?s3 @ [(greet_message, Inr greeted)]\<rparr>)"
    using s3 by (rule reach_step) (rule answer_ends [OF _ round], simp)
  moreover have "length (answer_frame (Suc 0) greeted) = 55"
    by (simp add: length_answer_frame frame_tail_def greeted_def greet_answer_bytes_def)
  ultimately show ?thesis by (simp add: on_answer_def greeted_socket_def greeted_def)
qed

theorem socket_answers_in_order_witness:
  "reach serve_init (serve_step greet_lib refusing) greeted_socket \<and> sv_handed greeted_socket = [(greet_message, Inr greeted)] \<and>
   length (sv_written greeted_socket) = 1 \<and> read_i32 greet_message 4 = Inr 3 \<and>
   read_i32 (sv_written greeted_socket ! 0) 8 = Inr 3 \<and> drop 21 (sv_written greeted_socket ! 0) = greet_answer_bytes"
proof -
  have rt: "rt_more_to_come greeted = False" "rt_legacy greeted = False" "rt_request_id greeted = 3" "rt_response greeted = greet_answer_bytes"
    by (simp_all add: greeted_def)
  note answers = socket_answers_in_order [OF greeted_reachable]
  have "read_i32 greet_message 4 = Inr 3"
    using answers [THEN conjunct2, THEN conjunct1] rt(3) by (simp add: greeted_socket_def)
  moreover have "read_i32 (answer_frame 1 greeted) 8 = Inr 3 \<and> drop 21 (answer_frame 1 greeted) = greet_answer_bytes"
    using answers [THEN conjunct2, THEN conjunct2] by (simp add: greeted_socket_def rt Let_def)
  ultimately show ?thesis using greeted_reachable by (simp add: greeted_socket_def)
qed

section \<open>Both bindings name the same directory\<close>

lemma unescaped_agree: "js_unescaped s = Some bs \<Longrightarrow> py_unescaped s = bs"
proof (induction s arbitrary: bs rule: js_unescaped.induct)
  case (1 s)
  then show ?case
    by (subst py_unescaped.simps, subst (asm) (3) js_unescaped.simps) (auto split: list.splits option.splits if_splits)
qed

lemma addresses_agree:
  "pathFromUri uri = Inr path \<Longrightarrow> path_from_uri replaced uri = Inr path"
  "pathFromUri uri = Inl Not_only_a_directory \<longleftrightarrow> path_from_uri replaced uri = Inl Not_only_a_directory"
  by (auto simp: pathFromUri_def path_from_uri_def bind_eq_Some_conv unescaped_agree split: option.splits if_splits)

section \<open>What a client leaves behind\<close>

lemma shut_closes:
  "snd (NativeClient_close close inner) = None" "snd (AsyncNativeClient_close close inner) = None"
  by (simp_all add: NativeClient_close_def AsyncNativeClient_close_def AsyncNativeClient_shut_down_def split: option.split)

lemma new_is_open: "\<not> eb_closed (EmbeddedMongodb_new e)"
  by (simp add: EmbeddedMongodb_new_def)

lemma node_close_closes:
  assumes "EmbeddedMongodb_close close self = (r, self')" and "\<not> eb_closed self"
  shows "en_inner (eb_engine self') = None \<and> \<not> eb_directory self' \<and> \<not> eb_listening self' \<and> eb_sockets self' = {} \<and>
    eb_closed self' \<and> EmbeddedMongodb_close close self' = (Inr (), self')"
  using assms by (auto simp: EmbeddedMongodb_close_def Engine_close_node_def Let_def split: prod.splits option.splits)

text \<open>A client of either driver whose constructor throws after it opened the engine has closed the engine, and so has a
  client that was closed, whatever the driver's own constructor or close did and whether or not the engine's close
  succeeds; the Node client has also stopped listening and removed its directory, and a second close does nothing.\<close>

lemma node_client_leaves_no_engine:
  assumes "MongoClient_new openSync close driver socket_uri uri = (Inl x, Some embedded) \<or>
    \<not> eb_closed self \<and> MongoClient_close_node close closed (Some self) = (r, Some embedded)"
  shows "en_inner (eb_engine embedded) = None \<and> \<not> eb_directory embedded \<and> \<not> eb_listening embedded \<and>
    eb_sockets embedded = {} \<and> eb_closed embedded \<and> EmbeddedMongodb_close close embedded = (Inr (), embedded)"
proof -
  from assms have "\<exists>self. \<not> eb_closed self \<and> (\<exists>q. EmbeddedMongodb_close close self = (q, embedded))"
  proof
    assume "MongoClient_new openSync close driver socket_uri uri = (Inl x, Some embedded)"
    then show ?thesis
      by (auto simp: MongoClient_new_def split: sum.splits option.splits prod.splits) (use new_is_open in blast)+
  qed (auto simp: MongoClient_close_node_def split: prod.splits)
  with node_close_closes show ?thesis by metis
qed

lemma python_client_leaves_no_engine:
  assumes "shut = NativeClient_close close \<or> shut = AsyncNativeClient_close close"
    and "MongoClient_init replaced native shut foreign driver host port pool = (Inl x, Some runtime) \<or>
      MongoClient_close_py shut closed (Some inner) = (r, Some runtime)"
  shows "runtime = None"
proof -
  from assms(2) have "\<exists>inner. runtime = snd (shut inner)"
    by (auto simp: MongoClient_init_def MongoClient_close_py_def split: sum.splits option.splits prod.splits if_splits)
      (metis snd_conv)+
  with assms(1) shut_closes show ?thesis by metis
qed

text \<open>A reply is handed out once, to the request it answers; a second request before that reaches no engine.\<close>

lemma python_replies_pair:
  assumes "ec_pending self = None" and "n \<le> ec_max_bson_size self"
    and "NativeClient_round_trip B run_bytes message inner = (Inr (rid, False, response), inner')"
    and "send_message (\<lambda>c m. NativeClient_round_trip B run_bytes m c) message n self inner = (r, self', c)"
  shows "r = Inr () \<and> c = inner' \<and> read_i32 message 4 = Inr rid \<and>
    receive_message (Some rid) self' = (Inr response, self) \<and>
    fst (receive_message (Some rid) (snd (receive_message (Some rid) self'))) =
      Inl (Connection_failure (ProtocolError PENDING_MISSING)) \<and>
    (n' \<le> ec_max_bson_size self \<longrightarrow> send_message f message' n' self' d = (Inl (ProtocolError PENDING_ALREADY), self', d))"
proof -
  from assms(1-4) have out: "r = Inr ()" "c = inner'" "self' = self\<lparr>ec_pending := Some (rid, response)\<rparr>"
    by (auto simp: send_message_def split: if_splits)
  from assms(3) obtain request where "wire_parse B message = Inr request" "rq_request_id request = rid"
    by (auto simp: NativeClient_round_trip_def result_iffs split: sum.splits option.splits prod.splits)
  with wire_parse_Inr have "read_i32 message 4 = Inr rid" by fastforce
  with out assms(1) show ?thesis
    by (auto simp: receive_message_def send_message_def raise_connection_failure_def)
qed

end
