(* ===== verification/Prebuilt.thy ===== *)
theory Prebuilt
  imports Bytes
begin

text \<open>
  How the build finds the native library, \<open>embedded-mongodb-sys/build.rs\<close> with \<open>build_cache.rs\<close>,
  \<open>build_download.rs\<close>, \<open>build_glibc.rs\<close>, \<open>build_freshness.rs\<close> and \<open>build_exports.rs\<close>, and the
  generated manifest \<open>prebuilt.rs\<close>. A panic is a value of \<open>build_panic\<close> with what its message
  reports. The machine a build runs on is a record: its environment, clock and process id, the
  programs it can start, and which calls on the cache directory fail. The digest of the \<open>sha2\<close> crate is
  an argument, as is what git, \<open>getconf\<close> and \<open>ldd\<close> print. Environment values, paths and the header are
  ASCII text.

  The library a build downloads or takes from its cache is shown to be the published one, for a
  checkout that did not drift from it and a host that can load it; the check of the entry points is
  shown to report exactly the declared names the library lacks.
\<close>

section \<open>The manifest\<close>

record Prebuilt =
  pb_target :: string
  pb_asset :: string
  pb_sha256 :: string
  pb_size :: nat
  pb_glibc_min :: "(nat \<times> nat) option"

definition RELEASE_TAG :: string where "RELEASE_TAG = ''native-40c54ef85138''"
definition SOURCE_COMMIT :: string where "SOURCE_COMMIT = ''e2890298c28551337652603c1f8767607bf22fc1''"
definition BASE_URL :: string where
  "BASE_URL = ''https://github.com/jeroenvervaeke/embedded-mongo/releases/download''"
definition NATIVE_LIBRARY :: string where "NATIVE_LIBRARY = ''libembedded_mongodb_native.so''"

definition PREBUILT :: "Prebuilt list" where
  "PREBUILT =
    [\<lparr>pb_target = ''aarch64-apple-darwin'',
      pb_asset = ''libembedded_mongodb_native-aarch64-apple-darwin.so'',
      pb_sha256 = ''5a189876ce6b383e964ebca31889ebd684acfa6895fb85305ee9a8bce517aad0'',
      pb_size = 72766096, pb_glibc_min = None\<rparr>,
     \<lparr>pb_target = ''aarch64-linux-android'',
      pb_asset = ''libembedded_mongodb_native-aarch64-linux-android.so'',
      pb_sha256 = ''c90d5c3ab744073d3db3295c22b3f44efc6acc7891a988b0bc1c8eb014f50047'',
      pb_size = 48599160, pb_glibc_min = None\<rparr>,
     \<lparr>pb_target = ''aarch64-unknown-linux-gnu'',
      pb_asset = ''libembedded_mongodb_native-aarch64-unknown-linux-gnu.so'',
      pb_sha256 = ''7921cf975be80227cb9bef30706ed8b22a797b47587afe0c0b01f82a6dea30de'',
      pb_size = 37453336, pb_glibc_min = Some (2, 38)\<rparr>,
     \<lparr>pb_target = ''x86_64-linux-android'',
      pb_asset = ''libembedded_mongodb_native-x86_64-linux-android.so'',
      pb_sha256 = ''2e26ac6d687a3b1b34bc9c0fa8e8f28032d84848c93c0cb06f8fa1e00a489a02'',
      pb_size = 48058024, pb_glibc_min = None\<rparr>,
     \<lparr>pb_target = ''x86_64-unknown-linux-gnu'',
      pb_asset = ''libembedded_mongodb_native-x86_64-unknown-linux-gnu.so'',
      pb_sha256 = ''eee6ecfaad6a1cdcf4f27086486f9f517cb9473e164fb677969686072cbbd76c'',
      pb_size = 34575480, pb_glibc_min = Some (2, 38)\<rparr>]"

definition ARTIFACT_PATHS :: "string list" where
  "ARTIFACT_PATHS = [''patches'', ''embedded-mongodb-sys/native'',
     ''embedded-mongodb-sys/build_native.rs'', ''embedded-mongodb-sys/build_android.rs'']"

section \<open>The machine\<close>

text \<open>A file of the cache directory with its time of modification, in nanoseconds since the epoch.\<close>

datatype cached = Regular bytes nat | Unreadable_file nat nat | Subdirectory

type_synonym cache = "string \<rightharpoonup> cached"

datatype spawn_error = Spawn_not_found | Spawn_failed string
datatype exit_status = Exit_success | Exit_failure string

text \<open>
  \<open>mc_renamed\<close> is \<open>None\<close> when the rename goes through, and otherwise what other builds had made of the
  directory by the time it failed.
\<close>

record machine =
  mc_env :: "string \<rightharpoonup> string"
  mc_macos :: bool
  mc_now :: nat
  mc_pid :: nat
  mc_create_dir :: "string + unit"
  mc_read_dir :: bool
  mc_removes :: "string \<Rightarrow> bool"
  mc_spawn :: "string \<Rightarrow> string list \<Rightarrow> cache \<Rightarrow> (spawn_error + exit_status) \<times> cache"
  mc_renamed :: "(cache \<Rightarrow> cache) option"

datatype build_panic =
    No_out_dir
  | Not_published string
  | Offline string string
  | No_cache_dir string
  | Download_failed string
  | Vanished string
  | Truncated nat nat
  | Wrong_digest string string
  | Not_installed string
  | Old_glibc "nat \<times> nat" "nat \<times> nat"
  | Shallow_clone
  | Stale "string list"
  | Source_build_failed string

definition flag :: "machine \<Rightarrow> string \<Rightarrow> bool" where
  "flag M name =
     (case mc_env M name of
        None \<Rightarrow> False
      | Some v \<Rightarrow> (let v = trim v in v \<noteq> [] \<and> v \<noteq> ''0'' \<and> \<not> eq_ignore_ascii_case v ''false''))"

text \<open>\<open>Path::join\<close> with a relative path.\<close>

definition path_join :: "string \<Rightarrow> string \<Rightarrow> string" where
  "path_join base name =
     (if base = [] then name else if last base = CHR ''/'' then base @ name else base @ ''/'' @ name)"

definition cache_dir :: "machine \<Rightarrow> build_panic + string" where
  "cache_dir M =
     (case mc_env M ''EMBEDDED_MONGODB_CACHE_DIR'' of
        Some dir \<Rightarrow> Inr dir
      | None \<Rightarrow>
          (case mc_env M ''XDG_CACHE_HOME'' of
             Some dir \<Rightarrow> Inr (path_join dir ''embedded-mongodb'')
           | None \<Rightarrow>
               (case mc_env M ''HOME'' of
                  Some home \<Rightarrow>
                    Inr (path_join home (if mc_macos M then ''Library/Caches/embedded-mongodb''
                                         else ''.cache/embedded-mongodb''))
                | None \<Rightarrow> map_ok (\<lambda>dir. path_join dir ''cache'') (ok_or No_out_dir (mc_env M ''OUT_DIR'')))))"

section \<open>The cache\<close>

datatype Problem = Problem_missing | Problem_size nat | Problem_digest string

definition hex_digit :: "nat \<Rightarrow> char" where
  "hex_digit n = (if n < 10 then char_of (48 + n) else char_of (87 + n))"

definition hex_byte :: "u8 \<Rightarrow> string" where
  "hex_byte b = [hex_digit (unat b div 16), hex_digit (unat b mod 16)]"

text \<open>The chunks the file is read in add up to its contents.\<close>

definition sha256 :: "(bytes \<Rightarrow> bytes) \<Rightarrow> cached \<Rightarrow> string option" where
  "sha256 digest file =
     (case file of Regular contents _ \<Rightarrow> Some (concat (map hex_byte (digest contents))) | _ \<Rightarrow> None)"

fun file_len :: "cached \<Rightarrow> nat option" where
  "file_len (Regular contents _) = Some (length contents)"
| "file_len (Unreadable_file len _) = Some len"
| "file_len Subdirectory = None"

definition verify :: "(bytes \<Rightarrow> bytes) \<Rightarrow> cache \<Rightarrow> string \<Rightarrow> Prebuilt \<Rightarrow> Problem option" where
  "verify digest fs name entry =
     (case fs name of
        None \<Rightarrow> Some Problem_missing
      | Some file \<Rightarrow>
          (case file_len file of
             None \<Rightarrow> Some Problem_missing
           | Some len \<Rightarrow>
               if len \<noteq> pb_size entry then Some (Problem_size len)
               else (case sha256 digest file of
                       Some actual \<Rightarrow> if actual = pb_sha256 entry then None else Some (Problem_digest actual)
                     | None \<Rightarrow> Some Problem_missing)))"

definition remove_file :: "machine \<Rightarrow> string \<Rightarrow> cache \<Rightarrow> cache" where
  "remove_file M name fs = (if mc_removes M name \<and> fs name \<noteq> Some Subdirectory then fs(name := None) else fs)"

fun modified :: "cached \<Rightarrow> nat option" where
  "modified (Regular _ t) = Some t"
| "modified (Unreadable_file _ t) = Some t"
| "modified Subdirectory = None"

definition is_stale :: "machine \<Rightarrow> cached \<Rightarrow> bool" where
  "is_stale M file =
     (case modified file of
        None \<Rightarrow> False
      | Some t \<Rightarrow> t \<le> mc_now M \<and> 24 * 60 * 60 * 1000000000 < mc_now M - t)"

definition sweep_stale_temporaries :: "machine \<Rightarrow> cache \<Rightarrow> cache" where
  "sweep_stale_temporaries M fs =
     (if \<not> mc_read_dir M then fs
      else (\<lambda>name. case fs name of
              None \<Rightarrow> None
            | Some file \<Rightarrow>
                if starts_with name ''.tmp-'' \<and> is_stale M file then remove_file M name fs name else Some file))"

section \<open>Downloading\<close>

definition downloader_args :: "string \<Rightarrow> string list" where
  "downloader_args program =
     (if program = ''wget''
      then [''--quiet'', ''--timeout=60'', ''--tries=3'', ''--output-document'']
      else [''--silent'', ''--show-error'', ''--location'', ''--fail'', ''--proto'', ''=https'', ''--tlsv1.2'',
            ''--retry'', ''3'', ''--retry-connrefused'', ''--connect-timeout'', ''30'', ''--max-time'', ''1800'',
            ''--output''])"

fun fetch_with ::
  "machine \<Rightarrow> string \<Rightarrow> string \<Rightarrow> string \<Rightarrow> string list \<Rightarrow> cache \<Rightarrow> (string + unit) \<times> cache" where
  "fetch_with M url destination lst [] fs = (Inl lst, fs)"
| "fetch_with M url destination lst (program # programs) fs =
     (case mc_spawn M program (downloader_args program @ [destination, url]) fs of
        (Inr Exit_success, fs') \<Rightarrow> (Inr (), fs')
      | (Inr (Exit_failure status), fs') \<Rightarrow> (Inl (program @ '' exited with '' @ status), fs')
      | (Inl Spawn_not_found, fs') \<Rightarrow>
          fetch_with M url destination (program @ '' is not installed'') programs fs'
      | (Inl (Spawn_failed e), fs') \<Rightarrow> (Inl (''failed to run '' @ program @ '': '' @ e), fs'))"

definition fetch :: "machine \<Rightarrow> string \<Rightarrow> string \<Rightarrow> cache \<Rightarrow> (string + unit) \<times> cache" where
  "fetch M url destination fs =
     fetch_with M url destination ''neither curl nor wget is installed'' [''curl'', ''wget''] fs"

definition cache_name :: "Prebuilt \<Rightarrow> string" where
  "cache_name entry = pb_sha256 entry @ ''.so''"

definition temporary_name :: "machine \<Rightarrow> string" where
  "temporary_name M = ''.tmp-'' @ show_nat (mc_pid M) @ ''-'' @ show_nat (mc_now M mod 1000000000)"

text \<open>A file cannot take the place of a directory.\<close>

definition install_temporary ::
  "(bytes \<Rightarrow> bytes) \<Rightarrow> machine \<Rightarrow> Prebuilt \<Rightarrow> string \<Rightarrow> string \<Rightarrow> cache \<Rightarrow> (build_panic + unit) \<times> cache" where
  "install_temporary digest M entry temporary destination fs =
     (if mc_renamed M = None \<and> fs destination \<noteq> Some Subdirectory
      then (Inr (), fs(destination := fs temporary, temporary := None))
      else let fs1 = (case mc_renamed M of None \<Rightarrow> fs | Some others \<Rightarrow> others fs);
               installed = verify digest fs1 destination entry = None;
               fs2 = remove_file M temporary fs1
           in (if installed then Inr () else Inl (Not_installed destination), fs2))"

definition download ::
  "(bytes \<Rightarrow> bytes) \<Rightarrow> machine \<Rightarrow> Prebuilt \<Rightarrow> string \<Rightarrow> string \<Rightarrow> cache \<Rightarrow> (build_panic + unit) \<times> cache" where
  "download digest M entry dir url fs =
     (let destination = cache_name entry; temporary = temporary_name M in
      case fetch M url (path_join dir temporary) fs of
        (Inl e, fs1) \<Rightarrow> (Inl (Download_failed e), remove_file M temporary fs1)
      | (Inr _, fs1) \<Rightarrow>
          (case verify digest fs1 temporary entry of
             None \<Rightarrow> install_temporary digest M entry temporary destination fs1
           | Some Problem_missing \<Rightarrow> (Inl (Vanished temporary), fs1)
           | Some (Problem_size actual) \<Rightarrow>
               (Inl (Truncated actual (pb_size entry)), remove_file M temporary fs1)
           | Some (Problem_digest actual) \<Rightarrow>
               (Inl (Wrong_digest (pb_sha256 entry) actual), remove_file M temporary fs1)))"

definition fetch_prebuilt ::
  "(bytes \<Rightarrow> bytes) \<Rightarrow> machine \<Rightarrow> Prebuilt \<Rightarrow> cache \<Rightarrow> (build_panic + string) \<times> cache" where
  "fetch_prebuilt digest M entry fs =
     (case cache_dir M of
        Inl e \<Rightarrow> (Inl e, fs)
      | Inr dir \<Rightarrow>
          (let destination = path_join dir (cache_name entry) in
           case verify digest fs (cache_name entry) entry of
             None \<Rightarrow> (Inr destination, fs)
           | Some problem \<Rightarrow>
               (let fs1 = (if problem = Problem_missing then fs else remove_file M (cache_name entry) fs);
                    url = BASE_URL @ ''/'' @ RELEASE_TAG @ ''/'' @ pb_asset entry
                in if flag M ''CARGO_NET_OFFLINE'' then (Inl (Offline destination url), fs1)
                   else case mc_create_dir M of
                     Inl e \<Rightarrow> (Inl (No_cache_dir e), fs1)
                   | Inr _ \<Rightarrow> apfst (map_ok (\<lambda>_. destination))
                       (download digest M entry dir url (sweep_stale_temporaries M fs1)))))"

section \<open>The host's glibc\<close>

fun split_char :: "char \<Rightarrow> string \<Rightarrow> string list" where
  "split_char d [] = [[]]"
| "split_char d (c # cs) =
     (if c = d then [] # split_char d cs
      else case split_char d cs of [] \<Rightarrow> [[c]] | p # ps \<Rightarrow> (c # p) # ps)"

definition last_word :: "string \<Rightarrow> string option" where
  "last_word s =
     (let w = rev (takeWhile (\<lambda>c. \<not> is_whitespace c) (dropWhile is_whitespace (rev s)))
      in if w = [] then None else Some w)"

text \<open>\<open>u32::from_str\<close>, which takes a leading plus sign.\<close>

definition parse_u32 :: "string \<Rightarrow> nat option" where
  "parse_u32 s = parse_digits (2 ^ 32 - 1) (case s of CHR ''+'' # t \<Rightarrow> t | _ \<Rightarrow> s)"

definition parse_glibc :: "string \<Rightarrow> (nat \<times> nat) option" where
  "parse_glibc s =
     Option.bind (last_word s) (\<lambda>version.
       case split_char (CHR ''.'') version of
         major # minor # _ \<Rightarrow>
           Option.bind (parse_u32 major) (\<lambda>a. Option.bind (parse_u32 minor) (\<lambda>b. Some (a, b)))
       | _ \<Rightarrow> None)"

text \<open>What a program printed, and whether it succeeded; \<open>None\<close> when it could not be started.\<close>

type_synonym printed = "(bool \<times> string) option"

definition host_glibc :: "printed \<Rightarrow> printed \<Rightarrow> (nat \<times> nat) option" where
  "host_glibc getconf ldd =
     or_else (case getconf of Some (True, out) \<Rightarrow> parse_glibc (trim out) | _ \<Rightarrow> None)
       (Option.bind ldd (\<lambda>(_, out). Option.bind (first_line out) parse_glibc))"

definition check_glibc_floor :: "Prebuilt \<Rightarrow> (nat \<times> nat) option \<Rightarrow> build_panic + unit" where
  "check_glibc_floor entry host =
     (case pb_glibc_min entry of
        None \<Rightarrow> Inr ()
      | Some (need_major, need_minor) \<Rightarrow>
          (case host of
             None \<Rightarrow> Inr ()
           | Some (have_major, have_minor) \<Rightarrow>
               if need_major < have_major \<or> need_major = have_major \<and> need_minor \<le> have_minor then Inr ()
               else Inl (Old_glibc (need_major, need_minor) (have_major, have_minor))))"

section \<open>The checkout's freshness\<close>

record checkout =
  co_has_git :: bool
  co_mongo_git :: bool
  co_git :: "string list \<Rightarrow> printed"
  co_canonicalize :: "string \<Rightarrow> string option"
  co_workspace_root :: string

definition git :: "checkout \<Rightarrow> string list \<Rightarrow> string option" where
  "git co args = (case co_git co args of Some (True, out) \<Rightarrow> Some (trim_end out) | _ \<Rightarrow> None)"

definition is_workspace_root :: "checkout \<Rightarrow> string \<Rightarrow> bool" where
  "is_workspace_root co toplevel =
     (case (co_canonicalize co toplevel, co_canonicalize co (co_workspace_root co)) of
        (Some a, Some b) \<Rightarrow> a = b
      | _ \<Rightarrow> False)"

definition has_source_commit :: "checkout \<Rightarrow> bool" where
  "has_source_commit co \<longleftrightarrow> git co [''cat-file'', ''-e'', SOURCE_COMMIT @ ''^{commit}''] \<noteq> None"

definition local_pin :: "checkout \<Rightarrow> string option" where
  "local_pin co =
     (if co_mongo_git co then git co [''-C'', ''mongo'', ''rev-parse'', ''HEAD'']
      else git co [''rev-parse'', ''HEAD:mongo''])"

definition published_pin :: "checkout \<Rightarrow> string option" where
  "published_pin co = git co [''rev-parse'', SOURCE_COMMIT @ ''^{commit}:mongo'']"

definition commits_since :: "checkout \<Rightarrow> string option" where
  "commits_since co =
     git co ([''rev-list'', ''--count'', SOURCE_COMMIT @ ''..HEAD'', ''--''] @ ARTIFACT_PATHS @ [''mongo''])"

definition uncommitted :: "checkout \<Rightarrow> string option" where
  "uncommitted co = git co ([''status'', ''--porcelain'', ''--''] @ ARTIFACT_PATHS)"

text \<open>Every line after the first is indented under the first.\<close>

definition indent_lines :: "string \<Rightarrow> string" where
  "indent_lines s = concat (map (\<lambda>c. if c = CHR 0x0A then CHR 0x0A # ''    '' else [c]) s)"

definition drift_reasons :: "checkout \<Rightarrow> string list" where
  "drift_reasons co =
     (case (local_pin co, published_pin co) of
        (Some l, Some p) \<Rightarrow>
          if l \<noteq> p then [''the mongo submodule is at '' @ l @ '', the prebuilt was built from '' @ p] else []
      | _ \<Rightarrow> []) @
     (case commits_since co of
        Some n \<Rightarrow>
          if n \<noteq> ''0'' then [n @ '' commit(s) since '' @ SOURCE_COMMIT @ '' changed the native inputs''] else []
      | None \<Rightarrow> []) @
     (case uncommitted co of
        Some dirty \<Rightarrow>
          if dirty \<noteq> [] then [''uncommitted changes:'' @ CHR 0x0A # ''    '' @ indent_lines dirty] else []
      | None \<Rightarrow> [])"

definition check_not_stale :: "checkout \<Rightarrow> build_panic + unit" where
  "check_not_stale co =
     (if \<not> co_has_git co then Inr ()
      else case git co [''rev-parse'', ''--show-toplevel''] of
        None \<Rightarrow> Inr ()
      | Some toplevel \<Rightarrow>
          if \<not> is_workspace_root co toplevel then Inr ()
          else if \<not> has_source_commit co then
            (if git co [''rev-parse'', ''--is-shallow-repository''] \<noteq> Some ''true'' then Inr ()
             else Inl Shallow_clone)
          else if drift_reasons co = [] then Inr () else Inl (Stale (drift_reasons co)))"

section \<open>Choosing the library\<close>

definition resolve ::
  "(bytes \<Rightarrow> bytes) \<Rightarrow> machine \<Rightarrow> checkout \<Rightarrow> (nat \<times> nat) option \<Rightarrow> build_panic + string \<Rightarrow> string \<Rightarrow> cache
     \<Rightarrow> (build_panic + string) \<times> cache" where
  "resolve digest M co host built target fs =
     (case mc_env M ''EMBEDDED_MONGODB_NATIVE_LIB_DIR'' of
        Some native_dir \<Rightarrow> (Inr (path_join native_dir NATIVE_LIBRARY), fs)
      | None \<Rightarrow>
          if flag M ''EMBEDDED_MONGODB_BUILD_FROM_SOURCE'' then (built, fs)
          else case find (\<lambda>entry. pb_target entry = target) PREBUILT of
            None \<Rightarrow> (Inl (Not_published target), fs)
          | Some entry \<Rightarrow>
              (case and_then (check_not_stale co) (\<lambda>_. check_glibc_floor entry host) of
                 Inl e \<Rightarrow> (Inl e, fs)
               | Inr _ \<Rightarrow> fetch_prebuilt digest M entry fs))"

section \<open>The entry points a library exports\<close>

definition NATIVE_MARKER :: string where "NATIVE_MARKER = ''EMBEDDED_MONGODB_API''"
definition DEFINITION :: string where "DEFINITION = ''#define EMBEDDED_MONGODB_API''"

text \<open>\<open>str::match_indices\<close> and \<open>str::split\<close>, for a pattern that is not empty: matches do not overlap.\<close>

fun match_indices_from :: "nat \<Rightarrow> nat \<Rightarrow> string \<Rightarrow> string \<Rightarrow> nat list" where
  "match_indices_from pos skip p [] = []"
| "match_indices_from pos (Suc skip) p (c # cs) = match_indices_from (Suc pos) skip p cs"
| "match_indices_from pos 0 p (c # cs) =
     (if starts_with (c # cs) p then pos # match_indices_from (Suc pos) (length p - 1) p cs
      else match_indices_from (Suc pos) 0 p cs)"

definition match_indices :: "string \<Rightarrow> string \<Rightarrow> nat list" where
  "match_indices p s = match_indices_from 0 0 p s"

fun split_from :: "nat \<Rightarrow> string \<Rightarrow> string \<Rightarrow> string \<Rightarrow> string list" where
  "split_from skip p piece [] = [piece]"
| "split_from (Suc skip) p piece (c # cs) = split_from skip p piece cs"
| "split_from 0 p piece (c # cs) =
     (if starts_with (c # cs) p then piece # split_from (length p - 1) p [] cs
      else split_from 0 p (piece @ [c]) cs)"

definition split_str :: "string \<Rightarrow> string \<Rightarrow> string list" where
  "split_str p s = split_from 0 p [] s"

definition is_alphanumeric :: "char \<Rightarrow> bool" where
  "is_alphanumeric c =
     (let n = of_char c :: nat in 48 \<le> n \<and> n \<le> 57 \<or> 65 \<le> n \<and> n \<le> 90 \<or> 97 \<le> n \<and> n \<le> 122)"

fun find_map :: "('a \<Rightarrow> 'b option) \<Rightarrow> 'a list \<Rightarrow> 'b option" where
  "find_map f [] = None"
| "find_map f (x # xs) = (case f x of Some y \<Rightarrow> Some y | None \<Rightarrow> find_map f xs)"

definition entry_point_name :: "string \<Rightarrow> string option" where
  "entry_point_name declaration =
     find_map (\<lambda>start.
         case position (\<lambda>c. \<not> is_alphanumeric c \<and> c \<noteq> CHR ''_'') (drop start declaration) of
           None \<Rightarrow> None
         | Some n \<Rightarrow>
             if starts_with (trim_start (drop (start + n) declaration)) ''(''
             then Some (take n (drop start declaration)) else None)
       (match_indices ''embedded_mongodb_'' declaration)"

definition declared_entry_points :: "string \<Rightarrow> string list" where
  "declared_entry_points header = List.map_filter entry_point_name (drop 1 (split_str NATIVE_MARKER header))"

definition windows :: "nat \<Rightarrow> 'a list \<Rightarrow> 'a list list" where
  "windows n xs = map (\<lambda>i. take n (drop i xs)) [0..<length xs + 1 - n]"

definition exports :: "bytes \<Rightarrow> string \<Rightarrow> bool" where
  "exports library name =
     (let needle = bytes_of_string name @ [0]
      in list_ex (\<lambda>window. window = needle) (windows (length needle) library))"

datatype export_panic =
    Header_unreadable string
  | Count_underflow
  | Declarations_unread nat "string list"
  | Library_unreadable string
  | Entry_points_missing "string list"

datatype export_check = Exports_checked | Exports_unchecked

definition check_exports :: "string + string \<Rightarrow> string + bytes \<Rightarrow> export_panic + export_check" where
  "check_exports header_file library_file =
     and_then (map_err Header_unreadable header_file) (\<lambda>header.
       let expected = declared_entry_points header;
           markers = length (match_indices NATIVE_MARKER header);
           definitions = length (match_indices DEFINITION header)
       in if markers < definitions then Inl Count_underflow
          else if length expected \<noteq> markers - definitions
          then Inl (Declarations_unread (markers - definitions) expected)
          else and_then (map_err Library_unreadable library_file) (\<lambda>library.
            let (present, missing) = partition (exports library) expected
            in if present = [] then Inr Exports_unchecked
               else if missing = [] then Inr Exports_checked
               else Inl (Entry_points_missing missing)))"

section \<open>What a build links\<close>

lemma verify_None:
  "verify digest fs name entry = None \<longleftrightarrow>
     (\<exists>contents t. fs name = Some (Regular contents t) \<and> length contents = pb_size entry \<and>
        concat (map hex_byte (digest contents)) = pb_sha256 entry)"
  by (auto simp: verify_def sha256_def split: option.splits cached.splits if_splits)

lemma verify_cong: "fs name = fs' name' \<Longrightarrow> verify digest fs name entry = verify digest fs' name' entry"
  by (simp add: verify_def)

lemma verify_remove_other: "name \<noteq> other \<Longrightarrow> verify digest (remove_file M other fs) name entry = verify digest fs name entry"
  by (intro verify_cong) (simp add: remove_file_def)

lemma install_verified:
  assumes "install_temporary digest M entry temporary destination fs = (Inr u, fs')"
    and "verify digest fs temporary entry = None" and "temporary \<noteq> destination"
  shows "verify digest fs' destination entry = None"
proof (cases "mc_renamed M = None \<and> fs destination \<noteq> Some Subdirectory")
  case True
  with assms have "fs' destination = fs temporary" by (auto simp: install_temporary_def)
  with assms(2) show ?thesis by (metis verify_cong)
next
  case False
  with assms show ?thesis
    by (auto simp: install_temporary_def Let_def verify_remove_other split: if_splits)
qed

lemma download_verified:
  assumes "download digest M entry dir url fs = (Inr u, fs')" and "temporary_name M \<noteq> cache_name entry"
  shows "verify digest fs' (cache_name entry) entry = None"
  using assms
  by (auto simp: download_def Let_def dest!: install_verified split: prod.splits sum.splits option.splits Problem.splits)

lemma fetched_verified:
  assumes "fetch_prebuilt digest M entry fs = (Inr path, fs')" and "temporary_name M \<noteq> cache_name entry"
  shows "verify digest fs' (cache_name entry) entry = None \<and>
    (\<exists>dir. cache_dir M = Inr dir \<and> path = path_join dir (cache_name entry))"
proof -
  from assms(1) obtain dir where dir: "cache_dir M = Inr dir"
    by (auto simp: fetch_prebuilt_def split: sum.splits)
  show ?thesis
  proof (cases "verify digest fs (cache_name entry) entry")
    case None
    with assms(1) dir show ?thesis by (simp add: fetch_prebuilt_def)
  next
    case (Some problem)
    with assms(1) dir obtain url fs1 u where
      "download digest M entry dir url fs1 = (Inr u, fs')" "path = path_join dir (cache_name entry)"
      by (auto simp: fetch_prebuilt_def Let_def apfst_def map_prod_def map_ok_Inr_iff split: if_splits sum.splits prod.splits)
    with dir download_verified [OF _ assms(2)] show ?thesis by blast
  qed
qed

lemma temporary_not_cached:
  assumes "entry \<in> set PREBUILT"
  shows "temporary_name M \<noteq> cache_name entry"
  using assms by (auto simp: PREBUILT_def temporary_name_def cache_name_def)

definition comparable :: "checkout \<Rightarrow> bool" where
  "comparable co \<longleftrightarrow> co_has_git co \<and>
     (\<exists>toplevel. git co [''rev-parse'', ''--show-toplevel''] = Some toplevel \<and> is_workspace_root co toplevel)"

lemma check_not_stale_Inr:
  assumes "check_not_stale co = Inr u" and "comparable co"
  shows "(has_source_commit co \<longrightarrow> drift_reasons co = []) \<and>
    (\<not> has_source_commit co \<longrightarrow> git co [''rev-parse'', ''--is-shallow-repository''] \<noteq> Some ''true'')"
  using assms by (auto simp: check_not_stale_def comparable_def split: if_splits)

lemma drift_reasons_Nil:
  "drift_reasons co = [] \<longleftrightarrow>
     (\<forall>l p. local_pin co = Some l \<longrightarrow> published_pin co = Some p \<longrightarrow> l = p) \<and>
     commits_since co \<in> {None, Some ''0''} \<and> uncommitted co \<in> {None, Some []}"
  by (auto simp: drift_reasons_def split: option.splits if_splits)

text \<open>C37: A build that is neither given a library nor told to build one links only the published
  bytes. When \<open>resolve\<close> answers a path, it names a file of the cache with the size and the digest the
  manifest records for the target, whether it was downloaded now, found in the cache, or installed by a
  racing build; the host's glibc is new enough where its version is known; and a checkout whose history
  can be compared has the engine pin the library was built from, no commit since that touches
  the native inputs, and no uncommitted change to them, as far as git answers.\<close>

theorem only_verified_bytes_are_linked:
  assumes "mc_env M ''EMBEDDED_MONGODB_NATIVE_LIB_DIR'' = None"
    and "\<not> flag M ''EMBEDDED_MONGODB_BUILD_FROM_SOURCE''"
    and "resolve digest M co host built target fs = (Inr path, fs')"
  shows "\<exists>entry dir contents t. entry \<in> set PREBUILT \<and> pb_target entry = target \<and>
    cache_dir M = Inr dir \<and> path = path_join dir (pb_sha256 entry @ ''.so'') \<and>
    fs' (pb_sha256 entry @ ''.so'') = Some (Regular contents t) \<and>
    length contents = pb_size entry \<and> concat (map hex_byte (digest contents)) = pb_sha256 entry \<and>
    (\<forall>a b c d. pb_glibc_min entry = Some (a, b) \<longrightarrow> host = Some (c, d) \<longrightarrow> a < c \<or> a = c \<and> b \<le> d) \<and>
    (comparable co \<longrightarrow> has_source_commit co \<longrightarrow>
       (\<forall>l p. local_pin co = Some l \<longrightarrow> published_pin co = Some p \<longrightarrow> l = p) \<and>
       commits_since co \<in> {None, Some ''0''} \<and> uncommitted co \<in> {None, Some []}) \<and>
    (comparable co \<longrightarrow> \<not> has_source_commit co \<longrightarrow>
       git co [''rev-parse'', ''--is-shallow-repository''] \<noteq> Some ''true'')"
proof -
  from assms obtain entry where e: "find (\<lambda>entry. pb_target entry = target) PREBUILT = Some entry"
    and checks: "check_not_stale co = Inr ()" "check_glibc_floor entry host = Inr ()"
    and fetched: "fetch_prebuilt digest M entry fs = (Inr path, fs')"
    by (auto simp: resolve_def and_then_Inr_iff and_then_Inl_iff split: option.splits sum.splits)
  from e have entry: "entry \<in> set PREBUILT" "pb_target entry = target"
    by (auto simp: find_Some_iff)
  from fetched_verified [OF fetched temporary_not_cached [OF entry(1)]]
  obtain dir contents t where f: "cache_dir M = Inr dir" "path = path_join dir (cache_name entry)"
    "fs' (cache_name entry) = Some (Regular contents t)" "length contents = pb_size entry"
    "concat (map hex_byte (digest contents)) = pb_sha256 entry"
    by (auto simp: verify_None)
  from checks(2) have g: "a < c \<or> a = c \<and> b \<le> d"
    if "pb_glibc_min entry = Some (a, b)" "host = Some (c, d)" for a b c d
    using that by (auto simp: check_glibc_floor_def split: if_splits)
  show ?thesis
    using entry f g check_not_stale_Inr [OF checks(1)]
    by (intro exI [of _ entry] exI [of _ dir] exI [of _ contents] exI [of _ t])
      (auto simp: cache_name_def drift_reasons_Nil)
qed

text \<open>A first build on a Linux host: nothing cached, curl brings the published file.\<close>

definition published_entry :: Prebuilt where
  "published_entry = PREBUILT ! 4"

definition published_contents :: bytes where
  "published_contents = replicate 34575480 0"

definition published_digest :: "bytes \<Rightarrow> bytes" where
  "published_digest contents =
     [238, 230, 236, 250, 173, 106, 28, 220, 244, 242, 112, 134, 72, 111, 159, 81, 124, 185, 71, 62, 22,
      79, 182, 119, 150, 150, 134, 7, 44, 187, 215, 108]"

definition linux_machine :: machine where
  "linux_machine =
     \<lparr>mc_env = [''HOME'' \<mapsto> ''/root''], mc_macos = False, mc_now = 5, mc_pid = 7, mc_create_dir = Inr (),
      mc_read_dir = True, mc_removes = (\<lambda>_. True),
      mc_spawn = (\<lambda>program args fs. (Inr Exit_success, fs(''.tmp-7-5'' \<mapsto> Regular published_contents 5))),
      mc_renamed = None\<rparr>"

definition packaged :: checkout where
  "packaged = \<lparr>co_has_git = False, co_mongo_git = False, co_git = (\<lambda>_. None), co_canonicalize = (\<lambda>_. None),
     co_workspace_root = ''/src''\<rparr>"

lemma length_published: "length published_contents = 34575480"
  unfolding published_contents_def by (rule length_replicate)

lemma published_fields:
  "pb_target published_entry = ''x86_64-unknown-linux-gnu''" "pb_size published_entry = 34575480"
  "pb_sha256 published_entry = ''eee6ecfaad6a1cdcf4f27086486f9f517cb9473e164fb677969686072cbbd76c''"
  "pb_glibc_min published_entry = Some (2, 38)"
  by (simp_all add: published_entry_def PREBUILT_def)

lemma published_hex: "concat (map hex_byte (published_digest contents)) = pb_sha256 published_entry"
  unfolding published_fields published_digest_def by code_simp

lemma published_found: "find (\<lambda>entry. pb_target entry = ''x86_64-unknown-linux-gnu'') PREBUILT = Some published_entry"
  by (simp add: PREBUILT_def published_entry_def)

lemma linux_temporary: "temporary_name linux_machine = ''.tmp-7-5''"
proof -
  have "show_nat 7 = ''7''" "show_nat 5 = ''5''" by code_simp+
  then show ?thesis by (simp add: temporary_name_def linux_machine_def)
qed

lemma linux_download:
  "fetch_prebuilt published_digest linux_machine published_entry Map.empty =
     (Inr (path_join ''/root/.cache/embedded-mongodb'' (cache_name published_entry)),
      [cache_name published_entry \<mapsto> Regular published_contents 5])"
proof -
  let ?fs = "[''.tmp-7-5'' \<mapsto> Regular published_contents 5]"
  have v: "verify published_digest ?fs ''.tmp-7-5'' published_entry = None"
    unfolding verify_None using published_hex length_published published_fields(2) by auto
  have s: "sweep_stale_temporaries linux_machine Map.empty = Map.empty"
    by (simp add: sweep_stale_temporaries_def fun_eq_iff)
  have f: "fetch linux_machine url path Map.empty = (Inr (), ?fs)" for url path
    by (simp add: fetch_def linux_machine_def)
  have r: "mc_renamed linux_machine = None" by (simp add: linux_machine_def)
  have n: "''.tmp-7-5'' \<noteq> cache_name published_entry" by (simp add: cache_name_def published_fields)
  have d: "download published_digest linux_machine published_entry dir url Map.empty =
      (Inr (), [cache_name published_entry \<mapsto> Regular published_contents 5])" for dir url
    using n r by (simp add: download_def Let_def f v linux_temporary install_temporary_def fun_eq_iff)
  have c: "cache_dir linux_machine = Inr ''/root/.cache/embedded-mongodb''"
    by (simp add: cache_dir_def linux_machine_def path_join_def)
  have "verify published_digest Map.empty name published_entry = Some Problem_missing" for name
    by (simp add: verify_def)
  moreover have "\<not> flag linux_machine ''CARGO_NET_OFFLINE''" "mc_create_dir linux_machine = Inr ()"
    by (simp_all add: flag_def linux_machine_def)
  ultimately show ?thesis by (simp add: fetch_prebuilt_def c s d)
qed

theorem only_verified_bytes_are_linked_witness:
  "\<exists>fs' entry contents t.
     resolve published_digest linux_machine packaged (Some (2, 39)) (Inl No_out_dir) ''x86_64-unknown-linux-gnu'' Map.empty =
       (Inr (path_join ''/root/.cache/embedded-mongodb'' (cache_name published_entry)), fs') \<and>
     entry \<in> set PREBUILT \<and> pb_target entry = ''x86_64-unknown-linux-gnu'' \<and>
     fs' (pb_sha256 entry @ ''.so'') = Some (Regular contents t) \<and> length contents = pb_size entry"
proof -
  have env: "mc_env linux_machine ''EMBEDDED_MONGODB_NATIVE_LIB_DIR'' = None"
    "\<not> flag linux_machine ''EMBEDDED_MONGODB_BUILD_FROM_SOURCE''"
    by (simp_all add: flag_def linux_machine_def)
  have r: "resolve published_digest linux_machine packaged (Some (2, 39)) (Inl No_out_dir)
      ''x86_64-unknown-linux-gnu'' Map.empty =
      (Inr (path_join ''/root/.cache/embedded-mongodb'' (cache_name published_entry)),
       [cache_name published_entry \<mapsto> Regular published_contents 5])"
    using env by (simp add: resolve_def published_found linux_download check_not_stale_def packaged_def
        check_glibc_floor_def published_fields)
  from only_verified_bytes_are_linked [OF env r] r show ?thesis by blast
qed

section \<open>The entry points are the declared ones\<close>

lemma strip_prefix_Some: "strip_prefix p s = Some t \<longleftrightarrow> s = p @ t"
  by (induction p s rule: strip_prefix.induct) auto

lemma starts_with_iff: "starts_with s p \<longleftrightarrow> (\<exists>t. s = p @ t)"
  using strip_prefix_Some by (auto simp: starts_with_def)

lemma match_indices_from_starts:
  "i \<in> set (match_indices_from pos skip p s) \<Longrightarrow> pos \<le> i \<and> starts_with (drop (i - pos) s) p"
  by (induction pos skip p s rule: match_indices_from.induct)
    (fastforce split: if_splits simp: Suc_diff_le drop_Cons')+

lemma split_from_pieces:
  "q \<in> set (split_from skip p piece s) \<Longrightarrow> skip = 0 \<or> piece = [] \<Longrightarrow> \<exists>a b. piece @ s = a @ q @ b"
proof (induction skip p piece s rule: split_from.induct)
  case (1 skip p piece)
  then show ?case by (intro exI [of _ "[]"]) simp
next
  case (2 skip p piece c cs)
  then obtain a b where "cs = a @ q @ b" by auto
  with 2 show ?case by (intro exI [of _ "c # a"] exI [of _ b]) auto
next
  case (3 p piece c cs)
  show ?case
  proof (cases "starts_with (c # cs) p \<and> q \<noteq> piece")
    case True
    with 3 obtain a b where "cs = a @ q @ b" by auto
    then show ?thesis by (intro exI [of _ "piece @ c # a"] exI [of _ b]) auto
  next
    case False
    with 3 show ?thesis by (cases "starts_with (c # cs) p") auto
  qed
qed

lemma find_map_Some: "find_map f xs = Some y \<Longrightarrow> \<exists>x\<in>set xs. f x = Some y"
  by (induction xs) (auto split: option.splits)

text \<open>A name read from a declaration is the whole of an identifier its parameter list follows.\<close>

lemma position_past_prefix:
  assumes "position P (pre @ t) = Some n" and "list_all (\<lambda>c. \<not> P c) pre"
  shows "\<exists>rest. take n (pre @ t) = pre @ rest"
proof -
  from assms have "length pre \<le> n"
    using position_Some [OF assms(1)] by (auto simp: nth_append list_all_length not_less [symmetric])
  then show ?thesis by (intro exI [of _ "take (n - length pre) t"]) simp
qed

lemma entry_point_name_Some:
  assumes "entry_point_name d = Some name"
  shows "\<exists>a b. d = a @ name @ b \<and> starts_with name ''embedded_mongodb_'' \<and> starts_with (trim_start b) ''(''"
proof -
  let ?P = "\<lambda>c. \<not> is_alphanumeric c \<and> c \<noteq> CHR ''_''"
  define pre where "pre = ''embedded_mongodb_''"
  have prefix: "list_all (\<lambda>c. \<not> ?P c) pre" unfolding pre_def by code_simp
  from assms obtain start n where i: "start \<in> set (match_indices pre d)"
    and n: "position ?P (drop start d) = Some n" "starts_with (trim_start (drop (start + n) d)) ''(''"
      "name = take n (drop start d)"
    by (auto simp: entry_point_name_def pre_def dest!: find_map_Some split: option.splits if_splits)
  from i obtain t where t: "drop start d = pre @ t"
    using match_indices_from_starts [of start 0 0 pre d] by (auto simp: match_indices_def starts_with_iff)
  have "\<exists>rest. name = pre @ rest"
    using position_past_prefix [OF n(1) [unfolded t] prefix] by (simp only: n(3) t)
  moreover have "d = take start d @ name @ drop (start + n) d"
    by (simp add: n(3) add.commute flip: drop_drop)
  ultimately show ?thesis using n(2) unfolding pre_def [symmetric] starts_with_iff [of name] by blast
qed

lemma declared_in_header:
  assumes "name \<in> set (declared_entry_points header)"
  shows "\<exists>a b. header = a @ name @ b \<and> starts_with name ''embedded_mongodb_''"
proof -
  from assms obtain d where d: "d \<in> set (split_str NATIVE_MARKER header)" "entry_point_name d = Some name"
    by (auto simp: declared_entry_points_def List.map_filter_def dest: in_set_dropD)
  from d(1) obtain a b where "header = a @ d @ b"
    using split_from_pieces [of d 0 NATIVE_MARKER "[]" header] by (auto simp: split_str_def)
  with entry_point_name_Some [OF d(2)] show ?thesis by (metis append.assoc)
qed

lemma exports_iff: "exports library name \<longleftrightarrow> (\<exists>a b. library = a @ bytes_of_string name @ 0 # b)"
proof
  let ?n = "bytes_of_string name @ [0]"
  assume "exports library name"
  then obtain i where i: "take (length ?n) (drop i library) = ?n"
    by (auto simp: exports_def windows_def list_ex_iff)
  have "library = take i library @ ?n @ drop (length ?n) (drop i library)"
    by (subst i [symmetric]) (simp only: append_take_drop_id)
  then show "\<exists>a b. library = a @ bytes_of_string name @ 0 # b" by (metis append.assoc append_Cons append_Nil)
next
  assume "\<exists>a b. library = a @ bytes_of_string name @ 0 # b"
  then obtain a b where l: "library = a @ (bytes_of_string name @ [0]) @ b" by auto
  then show "exports library name"
    by (auto simp: exports_def windows_def list_ex_iff intro!: image_eqI [of _ _ "length a"])
qed

text \<open>The check of the entry points never invents a mismatch and overlooks no declaration. When it
  passes a library or refuses it for missing names, it read as many names as the header has
  markers beside their definitions; each is an identifier of the header with the engine's
  prefix; and the names it reports are exactly the declared ones the library does not contain as a
  terminated string, none when it passes. A library with none of the names is passed unchecked.\<close>

theorem export_mismatch_is_real:
  assumes "check_exports (Inr header) (Inr library) = r"
    and "r = Inr Exports_checked \<and> ms = [] \<or> r = Inl (Entry_points_missing ms) \<and> ms \<noteq> []"
  shows "length (declared_entry_points header) + length (match_indices DEFINITION header) =
      length (match_indices NATIVE_MARKER header) \<and>
    (\<forall>name\<in>set (declared_entry_points header).
       \<exists>a b. header = a @ name @ b \<and> starts_with name ''embedded_mongodb_'') \<and>
    set ms = {name \<in> set (declared_entry_points header). \<nexists>a b. library = a @ bytes_of_string name @ 0 # b} \<and>
    (\<exists>name\<in>set (declared_entry_points header). \<exists>a b. library = a @ bytes_of_string name @ 0 # b)"
proof -
  from assms have "length (declared_entry_points header) + length (match_indices DEFINITION header) =
      length (match_indices NATIVE_MARKER header)"
    and ms: "set ms = {name \<in> set (declared_entry_points header). \<not> exports library name}"
    and "\<exists>name\<in>set (declared_entry_points header). exports library name"
    by (auto simp: check_exports_def Let_def filter_empty_conv o_def split: if_splits)
  then show ?thesis using declared_in_header by (simp add: exports_iff)
qed

definition small_header :: string where
  "small_header = ''#define EMBEDDED_MONGODB_API; EMBEDDED_MONGODB_API int embedded_mongodb_open(); EMBEDDED_MONGODB_API int embedded_mongodb_close (int);''"

definition old_library :: bytes where
  "old_library = 1 # bytes_of_string ''embedded_mongodb_open'' @ [0, 2]"

lemma small_header_counts:
  "declared_entry_points small_header = [''embedded_mongodb_open'', ''embedded_mongodb_close'']"
  "length (match_indices NATIVE_MARKER small_header) = 3" "length (match_indices DEFINITION small_header) = 1"
  by code_simp+

lemma old_library_exports:
  "exports old_library ''embedded_mongodb_open''" "\<not> exports old_library ''embedded_mongodb_close''"
  by code_simp+

theorem export_mismatch_is_real_witness:
  "check_exports (Inr small_header) (Inr old_library) = Inl (Entry_points_missing [''embedded_mongodb_close'']) \<and>
   \<not> (\<exists>a b. old_library = a @ bytes_of_string ''embedded_mongodb_close'' @ 0 # b)"
proof -
  have r: "check_exports (Inr small_header) (Inr old_library) =
      Inl (Entry_points_missing [''embedded_mongodb_close''])"
    by (simp add: check_exports_def small_header_counts old_library_exports)
  have "set [''embedded_mongodb_close''] = {name \<in> set (declared_entry_points small_header).
      \<nexists>a b. old_library = a @ bytes_of_string name @ 0 # b}"
    using export_mismatch_is_real [OF r, of "[''embedded_mongodb_close'']"] by (simp only: simp_thms list.simps sum.simps)
  then have "''embedded_mongodb_close'' \<in> {name \<in> set (declared_entry_points small_header).
      \<nexists>a b. old_library = a @ bytes_of_string name @ 0 # b}"
    by (metis list.set_intros(1))
  with r show ?thesis by simp
qed

end
