(* ===== verification/Source_Build.thy ===== *)
theory Source_Build
  imports Prebuilt "HOL-Library.Sublist"
begin

text \<open>
  Building the native library from its sources and handing it to the linker, \<open>embedded-mongodb-sys/build_native.rs\<close>,
  \<open>build_android.rs\<close>, \<open>build_logging.rs\<close>, \<open>build_link.rs\<close> and the \<open>main\<close> of \<open>build.rs\<close>, and \<open>embedded-mongodb-node/build.rs\<close>. Bazel is a command line, an
  environment and what came of running it; the file system is which paths are files. A panic is its message.

  The lemmas are that a debug build asks for the engine of the release build, that nothing in the caller's
  environment chooses the compiler of an Android build, that the log of a build is shown whole, and that the
  library linked is one that passed the check of its entry points.
\<close>

section \<open>The Android toolchain\<close>

definition ANDROID_API_LEVEL :: string where "ANDROID_API_LEVEL = ''24''"

definition ANDROID_NDK_VARIABLES :: "string list" where
  "ANDROID_NDK_VARIABLES = [''ANDROID_NDK_HOME'', ''ANDROID_NDK_ROOT'', ''ANDROID_NDK'']"

record bazel_command =
  bz_program :: string
  bz_directory :: string
  bz_args :: "string list"
  bz_env :: "(string \<times> string) list"

record AndroidNdk =
  ndk_cc :: string
  ndk_cxx :: string
  ndk_bin :: string
  ndk_cpu :: string

definition android_triple :: "string \<Rightarrow> string + string \<times> string" where
  "android_triple target_arch =
     (if target_arch = ''aarch64'' then Inr (''aarch64-linux-android'', ''aarch64'')
      else if target_arch = ''x86_64'' then Inr (''x86_64-linux-android'', ''x86_64'')
      else Inl (''the embedded MongoDB engine has no Android build for `'' @ target_arch @
        ''`; aarch64 and x86_64 are the supported architectures''))"

definition AndroidNdk_detect :: "machine \<Rightarrow> (string \<Rightarrow> bool) \<Rightarrow> string \<Rightarrow> string + AndroidNdk" where
  "AndroidNdk_detect M is_file target_arch =
     and_then (android_triple target_arch) (\<lambda>(triple, cpu).
     and_then (ok_or ''building the engine for Android needs the NDK; set one of ANDROID_NDK_HOME, ANDROID_NDK_ROOT, ANDROID_NDK to an NDK r27 or newer''
         (find_map (mc_env M) ANDROID_NDK_VARIABLES)) (\<lambda>root.
       let host_tag = (if mc_macos M then ''darwin-x86_64'' else ''linux-x86_64'');
           bin = path_join (path_join (path_join root ''toolchains/llvm/prebuilt'') host_tag) ''bin'';
           api = unwrap_or ANDROID_API_LEVEL (mc_env M ''EMBEDDED_MONGODB_ANDROID_API'');
           cc = path_join bin (triple @ api @ ''-clang'');
           cxx = path_join bin (triple @ api @ ''-clang++'')
       in if \<not> (case parse_u32 api of None \<Rightarrow> False | Some n \<Rightarrow> 21 \<le> n)
          then Inl (''EMBEDDED_MONGODB_ANDROID_API must be 21 or higher, got `'' @ api @ ''`'')
          else if \<not> (is_file cc \<and> is_file cxx)
          then Inl (bin @ '' does not hold a clang for '' @ triple @ '' at API '' @ api @
            ''; check the NDK version and EMBEDDED_MONGODB_ANDROID_API'')
          else Inr \<lparr>ndk_cc = cc, ndk_cxx = cxx, ndk_bin = bin, ndk_cpu = cpu\<rparr>))"

definition ndk_env :: "AndroidNdk \<Rightarrow> (string \<times> string) list" where
  "ndk_env self =
     [(''CC'', ndk_cc self), (''CXX'', ndk_cxx self), (''AS'', ndk_cc self), (''MONGO_NATIVE_TARGET_CPU'', ndk_cpu self)] @
     map (\<lambda>(variable, tool). (variable, path_join (ndk_bin self) tool))
       [(''AR'', ''llvm-ar''), (''NM'', ''llvm-nm''), (''LD'', ''ld.lld''), (''DWP'', ''llvm-dwp''),
        (''OBJCOPY'', ''llvm-objcopy''), (''OBJDUMP'', ''llvm-objdump''), (''STRIP'', ''llvm-strip'')]"

definition ndk_args :: "AndroidNdk \<Rightarrow> string list" where
  "ndk_args self =
     [''--platforms=@mongot_localdev//:linux_'' @ ndk_cpu self @ ''_native'',
      ''--cxxopt=-D__GCC_DESTRUCTIVE_SIZE=64'', ''--cxxopt=-D__GCC_CONSTRUCTIVE_SIZE=64'',
      ''--features=-global_libs'', ''--linkopt=-lm'', ''--linkopt=-latomic'']"

definition AndroidNdk_apply :: "AndroidNdk \<Rightarrow> bazel_command \<Rightarrow> bazel_command" where
  "AndroidNdk_apply self command =
     command\<lparr>bz_env := bz_env command @ ndk_env self, bz_args := bz_args command @ ndk_args self\<rparr>"

section \<open>The command line\<close>

definition engine_args :: "string list" where
  "engine_args = [''--//bazel/config:ssl=False'', ''--//bazel/config:build_otel=False'',
     ''--//bazel/config:build_enterprise=False'', ''--//bazel/config:dev_stacktrace=False'']"

definition source_args :: "string \<Rightarrow> string list" where
  "source_args crate_root = [''build'', ''@mongot_localdev//:libembedded_mongodb_native.so'',
     ''--override_repository=mongot_localdev='' @ path_join crate_root ''native'']"

definition release_args :: "string \<Rightarrow> string list" where
  "release_args target_os =
     [''--config=opt'', ''--//bazel/config:opt=size'', ''--fission=no'', ''--debug_symbols=False'',
      ''--copt=-fvisibility=hidden'', ''--copt=-ffunction-sections'', ''--copt=-fdata-sections''] @
     (if target_os = ''linux'' then
        [''--copt=-flto'', ''--linkopt=-flto=4'', ''--linkopt=-Os'', ''--linkopt=-fuse-ld=bfd'', ''--features=-linker_lld'',
         ''--features=-default_linker_lld'', ''--features=-supports_start_end_lib'', ''--linkopt=-Wl,-z,defs,--strip-all'',
         ''--linkopt=-Wl,--gc-sections'', ''--linkopt=-Wl,-z,pack-relative-relocs'', ''--linkopt=-static-libstdc++'',
         ''--linkopt=-static-libgcc'']
      else if target_os = ''macos'' then
        [''--linkopt=-Wl,-x'', ''--linkopt=-Wl,-dead_strip'',
         ''--linkopt=-Wl,-install_name,@rpath/libembedded_mongodb_native.so'', ''--linkopt=-Wl,-headerpad_max_install_names'',
         ''-c'', ''opt'']
      else if target_os = ''android'' then
        [''--linkopt=-Wl,--gc-sections'', ''--linkopt=-Wl,--icf=all'', ''--linkopt=-Wl,-z,defs,--strip-all'',
         ''--linkopt=-static-libstdc++'']
      else [])"

definition common_args :: "string \<Rightarrow> string \<Rightarrow> string list" where
  "common_args compiler_type jobs =
     [''--config=native_toolchain'', ''--compiler_type='' @ compiler_type, ''--local_resources=cpu='' @ jobs,
      ''--//bazel/config:allocator=system'', ''--disable_warnings_as_errors=True'',
      ''--noexperimental_collect_system_network_usage'', ''--conlyopt=-include'', ''--conlyopt=sys/syscall.h'',
      ''--cxxopt=-include'', ''--cxxopt=sys/syscall.h'', ''--copt=-fPIC'']"

definition contains_str :: "string \<Rightarrow> string \<Rightarrow> bool" where
  "contains_str s needle = list_ex (\<lambda>w. w = needle) (windows (length needle) s)"

definition compiler_type_of :: "machine \<Rightarrow> string \<Rightarrow> bool \<Rightarrow> string" where
  "compiler_type_of M target_os android =
     (if android then ''clang''
      else case or_else (mc_env M ''CXX'') (mc_env M ''CC'') of
        Some compiler \<Rightarrow> if contains_str compiler ''clang'' then ''clang'' else ''gcc''
      | None \<Rightarrow> if target_os = ''macos'' then ''clang'' else ''gcc'')"

text \<open>\<open>usize::from_str\<close> on a 64-bit host.\<close>

definition parse_usize :: "string \<Rightarrow> nat option" where
  "parse_usize s = parse_digits (2 ^ 64 - 1) (case s of CHR ''+'' # t \<Rightarrow> t | _ \<Rightarrow> s)"

definition target_os_of :: "machine \<Rightarrow> string" where
  "target_os_of M = unwrap_or [] (mc_env M ''CARGO_CFG_TARGET_OS'')"

definition jobs_of :: "machine \<Rightarrow> string" where
  "jobs_of M = unwrap_or ''8'' (mc_env M ''EMBEDDED_MONGODB_BAZEL_JOBS'')"

text \<open>What is checked before the command is put together: the toolchain of an Android build, and the directory of the log.\<close>

definition bazel_checks :: "machine \<Rightarrow> (string \<Rightarrow> bool) \<Rightarrow> string \<Rightarrow> string + AndroidNdk option \<times> string" where
  "bazel_checks M is_file workspace_root =
     (if \<not> is_file (path_join (path_join workspace_root ''mongo'') ''.bazelversion'')
      then Inl ''MongoDB submodule is missing; run `git submodule update --init --depth 1`''
      else if \<not> (case parse_usize (jobs_of M) of None \<Rightarrow> False | Some n \<Rightarrow> 0 < n)
      then Inl ''EMBEDDED_MONGODB_BAZEL_JOBS must be a positive integer''
      else
        and_then (if target_os_of M = ''android''
                  then map_ok Some (AndroidNdk_detect M is_file (unwrap_or [] (mc_env M ''CARGO_CFG_TARGET_ARCH'')))
                  else Inr None) (\<lambda>android.
        map_ok (\<lambda>out_dir. (android, out_dir)) (ok_or ''cargo sets OUT_DIR for build scripts'' (mc_env M ''OUT_DIR''))))"

definition bazel_line :: "machine \<Rightarrow> string \<Rightarrow> string \<Rightarrow> AndroidNdk option \<Rightarrow> bazel_command" where
  "bazel_line M workspace_root crate_root android =
     (let base = \<lparr>bz_program = unwrap_or ''bazel'' (mc_env M ''BAZEL''), bz_directory = path_join workspace_root ''mongo'',
            bz_args = source_args crate_root @ engine_args @
              (if mc_env M ''PROFILE'' = Some ''release'' then release_args (target_os_of M) else []) @
              common_args (compiler_type_of M (target_os_of M) (android \<noteq> None)) (jobs_of M),
            bz_env = []\<rparr>;
          targeted = (case android of None \<Rightarrow> base | Some ndk \<Rightarrow> AndroidNdk_apply ndk base)
      in if target_os_of M = ''macos'' then targeted\<lparr>bz_args := bz_args targeted @ [''--linker=auto'']\<rparr> else targeted)"

text \<open>\<open>run\<close> is what \<open>run_logged\<close> answers.\<close>

definition build_native ::
  "machine \<Rightarrow> (string \<Rightarrow> bool) \<Rightarrow> (bazel_command \<Rightarrow> string \<Rightarrow> string + exit_status) \<Rightarrow> string \<Rightarrow> string \<Rightarrow> string + string" where
  "build_native M is_file run workspace_root crate_root =
     and_then (bazel_checks M is_file workspace_root) (\<lambda>(android, out_dir).
       let command = bazel_line M workspace_root crate_root android; log_path = path_join out_dir ''bazel-build.log'' in
       case run command log_path of
         Inl e \<Rightarrow> Inl (''failed to run '' @ bz_program command @ '': '' @ e @
           ''; install Bazel with `python3.13 mongo/buildscripts/install_bazel.py` or set BAZEL'')
       | Inr (Exit_failure status) \<Rightarrow> Inl (''Bazel native build failed with '' @ status @ ''. Its output is above, and in '' @ log_path)
       | Inr Exit_success \<Rightarrow>
           Inr (path_join (path_join (path_join workspace_root ''mongo'') ''bazel-bin/external/mongot_localdev'') NATIVE_LIBRARY))"

section \<open>The log of a build\<close>

text \<open>What reading the log answers, and what asking for the child's status does: \<open>None\<close> while it runs.\<close>

datatype log_read = Read_bytes bytes | Caught_up | Interrupted | Read_failed

fun echo :: "log_read list \<Rightarrow> bytes \<times> log_read list" where
  "echo [] = ([], [])"
| "echo (Read_bytes bs # reads) = (let (shown, rest) = echo reads in (bs @ shown, rest))"
| "echo (Caught_up # reads) = ([], reads)"
| "echo (Interrupted # reads) = echo reads"
| "echo (Read_failed # reads) = ([], reads)"

text \<open>The loop of \<open>run_logged\<close>; \<open>None\<close> when the statuses run out, with the child still running.\<close>

fun watch :: "log_read list \<Rightarrow> exit_status option list \<Rightarrow> (exit_status \<times> bytes \<times> log_read list) option" where
  "watch reads [] = None"
| "watch reads (waited # later) =
     (let (shown, reads1) = echo reads in
      case waited of
        Some status \<Rightarrow> (let (more, reads2) = echo reads1 in Some (status, shown @ more, reads2))
      | None \<Rightarrow> map_option (\<lambda>(status, more, reads2). (status, shown @ more, reads2)) (watch reads1 later))"

datatype log_failure = Log_not_replaced string | Log_not_created string | Log_not_duplicated string | Log_not_read string

text \<open>The log is removed (a missing one is as good), created, duplicated, and opened again once the child is
  started. The outcomes of those calls are arguments; an error starting the child is the caller's.\<close>

definition run_logged ::
  "string option \<Rightarrow> string option \<Rightarrow> string option \<Rightarrow> string option \<Rightarrow> string option \<Rightarrow> log_read list \<Rightarrow> exit_status option list
     \<Rightarrow> (log_failure + (string + exit_status \<times> bytes)) option" where
  "run_logged removed created duplicated spawned opened reads waits =
     (case removed of Some e \<Rightarrow> Some (Inl (Log_not_replaced e)) | None \<Rightarrow>
      case created of Some e \<Rightarrow> Some (Inl (Log_not_created e)) | None \<Rightarrow>
      case duplicated of Some e \<Rightarrow> Some (Inl (Log_not_duplicated e)) | None \<Rightarrow>
      case spawned of Some e \<Rightarrow> Some (Inr (Inl e)) | None \<Rightarrow>
      case opened of Some e \<Rightarrow> Some (Inl (Log_not_read e)) | None \<Rightarrow>
        map_option (\<lambda>(status, shown, _). Inr (Inr (status, shown))) (watch reads waits))"

section \<open>Handing the library to the linker\<close>

datatype install_step = Remove_old | Symlink_library | Copy_library | Make_writable | Rewrite_id | Sign_library

text \<open>\<open>fails\<close> is why a step fails; removing what is not there does not fail, and a mode that cannot be changed is left.\<close>

fun perform_steps :: "(install_step \<Rightarrow> string option) \<Rightarrow> install_step list \<Rightarrow> string + unit" where
  "perform_steps fails [] = Inr ()"
| "perform_steps fails (step # steps) =
     (case fails step of
        Some e \<Rightarrow> if step = Make_writable then perform_steps fails steps else Inl e
      | None \<Rightarrow> perform_steps fails steps)"

definition install :: "(install_step \<Rightarrow> string option) \<Rightarrow> string \<Rightarrow> string \<Rightarrow> string + unit" where
  "install fails target_os host =
     and_then (perform_steps fails [Remove_old]) (\<lambda>_.
       if target_os \<noteq> ''macos'' then perform_steps fails [Symlink_library]
       else if \<not> contains_str host ''apple-darwin''
       then Inl (''cross-compiling to '' @ target_os @ '' from '' @ host @ '' needs install_name_tool and codesign'')
       else perform_steps fails [Copy_library, Make_writable, Rewrite_id, Sign_library])"

definition parent_path :: "string \<Rightarrow> string option" where
  "parent_path p =
     (if p = [] \<or> p = ''/'' then None
      else Some (rev (drop 1 (dropWhile (\<lambda>c. c \<noteq> CHR ''/'') (rev p)))))"

definition static_libstdcxx_dir :: "(string \<Rightarrow> bool) \<Rightarrow> printed \<Rightarrow> string option" where
  "static_libstdcxx_dir is_file asked =
     Option.bind asked (\<lambda>(success, out).
       let path = trim out in
       if \<not> success \<or> \<not> is_file path then None else parent_path path)"

datatype main_panic =
    No_variable string
  | Resolve_panic build_panic
  | Library_missing string
  | Export_panic export_panic
  | Install_panic string

definition watched_variables :: "string list" where
  "watched_variables = [''EMBEDDED_MONGODB_NATIVE_LIB_DIR'', ''EMBEDDED_MONGODB_BUILD_FROM_SOURCE'', ''EMBEDDED_MONGODB_CACHE_DIR'',
     ''EMBEDDED_MONGODB_BAZEL_JOBS'', ''EMBEDDED_MONGODB_ANDROID_API'', ''CARGO_NET_OFFLINE'', ''BAZEL'', ''CC'', ''CXX'',
     ''ANDROID_NDK_HOME'', ''ANDROID_NDK_ROOT'', ''ANDROID_NDK'']"

definition link_lines :: "string option \<Rightarrow> string \<Rightarrow> string list" where
  "link_lines static out_dir =
     (case static of
        None \<Rightarrow> []
      | Some directory \<Rightarrow> [''cargo:rustc-link-search=native='' @ directory, ''cargo:rustc-link-lib=static=stdc++'']) @
     [''cargo:rustc-link-search=native='' @ out_dir, ''cargo:rustc-link-lib=dylib=embedded_mongodb_native'']"

text \<open>\<open>main\<close>, with the library \<open>resolve\<close> chose, the header and the library as read, and what the compiler answered about its
  static runtime. The bridge compiles.\<close>

definition build_main ::
  "machine \<Rightarrow> (string \<Rightarrow> build_panic + string) \<Rightarrow> (string \<Rightarrow> bool) \<Rightarrow> (string \<Rightarrow> bool) \<Rightarrow> string + string
     \<Rightarrow> (string \<Rightarrow> string + bytes) \<Rightarrow> (install_step \<Rightarrow> string option) \<Rightarrow> printed \<Rightarrow> main_panic + string list" where
  "build_main M resolve_target is_file is_dir header contents fails asked =
     and_then (ok_or (No_variable ''CARGO_MANIFEST_DIR'') (mc_env M ''CARGO_MANIFEST_DIR'')) (\<lambda>crate_root.
     and_then (ok_or (No_variable ''the workspace'') (parent_path crate_root)) (\<lambda>workspace_root.
     and_then (ok_or (No_variable ''TARGET'') (mc_env M ''TARGET'')) (\<lambda>target.
     let target_os = unwrap_or [] (mc_env M ''CARGO_CFG_TARGET_OS'');
         host = unwrap_or [] (mc_env M ''HOST'');
         patches = path_join workspace_root ''patches'';
         watched = map (\<lambda>name. ''cargo:rerun-if-env-changed='' @ name) watched_variables @
           map (\<lambda>path. ''cargo:rerun-if-changed='' @ path)
             ([''native'', ''include'', ''src/ffi.rs'', ''cpp/bridge.cc'', ''prebuilt.rs'', ''build_native.rs'', ''build_android.rs''] @
              (if is_dir patches then [patches] else []))
     in
     and_then (map_err Resolve_panic (resolve_target target)) (\<lambda>native_library.
     if \<not> is_file native_library then Inl (Library_missing native_library)
     else
     and_then (map_err Export_panic (check_exports header (contents native_library))) (\<lambda>_.
     and_then (ok_or (No_variable ''OUT_DIR'') (mc_env M ''OUT_DIR'')) (\<lambda>out_dir.
     and_then (map_err Install_panic (install fails target_os host)) (\<lambda>_.
       let static = (if target_os = ''linux'' \<and> mc_env M ''CARGO_CFG_TARGET_ENV'' = Some ''gnu''
                     then static_libstdcxx_dir is_file asked else None)
       in Inr (watched @ link_lines static out_dir))))))))"

text \<open>The build script of the Node crate, after the set-up of \<open>napi_build\<close>.\<close>

definition node_main :: "string \<Rightarrow> string list" where
  "node_main target_os =
     (if target_os = ''linux'' then [''cargo:rustc-link-arg=-Wl,-rpath,$ORIGIN'']
      else if target_os = ''macos'' then [''cargo:rustc-link-arg=-Wl,-rpath,@loader_path'']
      else [])"

section \<open>What a build asks for\<close>

lemma detect_ignores:
  assumes "k \<in> {''PROFILE'', ''CC'', ''CXX''}"
  shows "AndroidNdk_detect (M\<lparr>mc_env := (mc_env M)(k := v)\<rparr>) is_file arch = AndroidNdk_detect M is_file arch"
proof -
  have "find_map (mc_env (M\<lparr>mc_env := (mc_env M)(k := v)\<rparr>)) ANDROID_NDK_VARIABLES = find_map (mc_env M) ANDROID_NDK_VARIABLES"
      "mc_env (M\<lparr>mc_env := (mc_env M)(k := v)\<rparr>) ''EMBEDDED_MONGODB_ANDROID_API'' = mc_env M ''EMBEDDED_MONGODB_ANDROID_API''"
      "mc_macos (M\<lparr>mc_env := (mc_env M)(k := v)\<rparr>) = mc_macos M"
    using assms by (elim insertE emptyE; simp add: ANDROID_NDK_VARIABLES_def cong: option.case_cong)+
  then show ?thesis unfolding AndroidNdk_detect_def by (simp only:)
qed

text \<open>The command of a debug build is that of the release build without the arguments of the release: the same
  program, sources, engine and compiler, after the same checks.\<close>

lemma profile_ignored:
  "target_os_of (M\<lparr>mc_env := (mc_env M)(''PROFILE'' := p)\<rparr>) = target_os_of M"
  "jobs_of (M\<lparr>mc_env := (mc_env M)(''PROFILE'' := p)\<rparr>) = jobs_of M"
  "compiler_type_of (M\<lparr>mc_env := (mc_env M)(''PROFILE'' := p)\<rparr>) os android = compiler_type_of M os android"
  "bazel_checks (M\<lparr>mc_env := (mc_env M)(''PROFILE'' := p)\<rparr>) is_file root = bazel_checks M is_file root"
  by (simp_all add: target_os_of_def jobs_of_def compiler_type_of_def bazel_checks_def detect_ignores)

lemma debug_builds_the_same_engine:
  assumes "released = bazel_line (M\<lparr>mc_env := (mc_env M)(''PROFILE'' := Some ''release'')\<rparr>) root crate android"
    and "debug = bazel_line (M\<lparr>mc_env := (mc_env M)(''PROFILE'' := p)\<rparr>) root crate android" and "p \<noteq> Some ''release''"
  shows "bz_program debug = bz_program released \<and> bz_directory debug = bz_directory released \<and> bz_env debug = bz_env released \<and>
    (\<exists>xs ys. bz_args debug = xs @ ys \<and> set engine_args \<subseteq> set xs \<and> bz_args released = xs @ release_args (target_os_of M) @ ys)"
proof -
  let ?xs = "source_args crate @ engine_args"
  have "\<exists>ys. bz_args debug = ?xs @ ys \<and> bz_args released = ?xs @ release_args (target_os_of M) @ ys"
    using assms(3) unfolding assms(1,2) by (simp add: bazel_line_def profile_ignored Let_def AndroidNdk_apply_def split: option.split)
  moreover have "set engine_args \<subseteq> set ?xs" by auto
  ultimately have "\<exists>xs ys. bz_args debug = xs @ ys \<and> set engine_args \<subseteq> set xs \<and> bz_args released = xs @ release_args (target_os_of M) @ ys"
    by blast
  moreover have "bz_program debug = bz_program released \<and> bz_directory debug = bz_directory released \<and> bz_env debug = bz_env released"
    unfolding assms(1,2) by (simp add: bazel_line_def profile_ignored Let_def AndroidNdk_apply_def split: option.split)
  ultimately show ?thesis by blast
qed

text \<open>An Android build is compiled by the NDK it was pointed at, whatever compiler the environment names.\<close>

lemma android_compiler_is_the_ndk:
  assumes "target_os_of M = ''android''" and "bazel_checks M is_file root = Inr (android, out_dir)"
  obtains ndk where "android = Some ndk"
    and "AndroidNdk_detect M is_file (unwrap_or [] (mc_env M ''CARGO_CFG_TARGET_ARCH'')) = Inr ndk"
    and "is_file (ndk_cc ndk)" and "is_file (ndk_cxx ndk)"
    and "(''CC'', ndk_cc ndk) \<in> set (bz_env (bazel_line M root crate android))"
    and "(''CXX'', ndk_cxx ndk) \<in> set (bz_env (bazel_line M root crate android))"
    and "k \<in> {''CC'', ''CXX''} \<Longrightarrow> bazel_line (M\<lparr>mc_env := (mc_env M)(k := v)\<rparr>) root crate android = bazel_line M root crate android"
proof -
  have files: "is_file (ndk_cc ndk) \<and> is_file (ndk_cxx ndk)" if "AndroidNdk_detect M is_file arch = Inr ndk" for ndk arch
    using that by (auto simp: AndroidNdk_detect_def result_iffs Let_def split: if_splits)
  from assms obtain ndk where ndk: "android = Some ndk"
      "AndroidNdk_detect M is_file (unwrap_or [] (mc_env M ''CARGO_CFG_TARGET_ARCH'')) = Inr ndk"
    by (auto simp: bazel_checks_def result_iffs split: if_splits)
  have "(''CC'', ndk_cc ndk) \<in> set (bz_env (bazel_line M root crate android))"
      "(''CXX'', ndk_cxx ndk) \<in> set (bz_env (bazel_line M root crate android))"
    by (simp_all add: ndk(1) bazel_line_def Let_def AndroidNdk_apply_def ndk_env_def)
  moreover have "bazel_line (M\<lparr>mc_env := (mc_env M)(k := v)\<rparr>) root crate android = bazel_line M root crate android"
    if "k \<in> {''CC'', ''CXX''}"
    using that by (auto simp: ndk(1) bazel_line_def Let_def target_os_of_def jobs_of_def compiler_type_of_def)
  ultimately show thesis using that ndk files by blast
qed

text \<open>Every byte read from the log is shown, in order, and interruptions lose none.\<close>

fun bytes_read :: "log_read list \<Rightarrow> bytes" where
  "bytes_read [] = []"
| "bytes_read (Read_bytes bs # reads) = bs @ bytes_read reads"
| "bytes_read (_ # reads) = bytes_read reads"

lemma echo_shows: "echo reads = (shown, rest) \<Longrightarrow> bytes_read reads = shown @ bytes_read rest"
  by (induction reads arbitrary: shown rule: echo.induct) (auto split: prod.splits)

lemma watch_shows: "watch reads waits = Some (status, shown, rest) \<Longrightarrow> bytes_read reads = shown @ bytes_read rest"
proof (induction reads waits arbitrary: shown rule: watch.induct)
  case (2 reads waited later)
  then show ?case by (auto split: prod.splits option.splits dest!: echo_shows)
qed simp

text \<open>A build that links at all links the library that was chosen, found to be a file and checked.\<close>

lemma main_links_a_checked_library:
  assumes "build_main M resolve_target is_file is_dir header contents fails asked = Inr output"
  obtains target native_library checked out_dir where "mc_env M ''TARGET'' = Some target"
    and "resolve_target target = Inr native_library" and "is_file native_library"
    and "check_exports header (contents native_library) = Inr checked" and "mc_env M ''OUT_DIR'' = Some out_dir"
    and "suffix [''cargo:rustc-link-search=native='' @ out_dir, ''cargo:rustc-link-lib=dylib=embedded_mongodb_native''] output"
  using assms
  by (auto simp: build_main_def result_iffs ok_or_Inr_iff Let_def link_lines_def suffix_def split: if_splits option.splits)

end
