(* ===== verification/Native_Engine.thy ===== *)
theory Native_Engine
  imports Options Errors
begin

text \<open>
  The C++ side of \<open>embedded-mongodb-sys\<close>: \<open>native/engine_options.cpp\<close>, the life of a \<open>Runtime\<close> in
  \<open>native/engine_runtime.cpp\<close>, the C entry points of \<open>native/embedded_mongodb_native.cpp\<close> and the
  bridge to Rust in \<open>cpp/bridge.cc\<close>.

  An options struct is the bytes of its memory, little-endian with 8-byte sizes, so that what the
  size field gates is visible. The MongoDB server sources are not part of the repository: each call
  into them is a \<open>native_call\<close>, which an argument \<open>perform\<close> answers with an exception or none, on a
  state of its own; the calls made are recorded in order. An exception carries the text
  \<open>toString\<close> or \<open>what\<close> gives for it, and \<open>location\<close> is the text of a \<open>uassert\<close> with a code.

  The lemmas show what options a runtime is opened with, that at most one runtime is open in the
  process, that a failed open and a close undo whatever was started, and that messages cross the
  two language boundaries.
\<close>

section \<open>Exceptions\<close>

datatype native_exception = DBException string | Std_exception string | Other_exception

type_synonym location = "nat \<Rightarrow> string \<Rightarrow> string"

definition uassert :: "location \<Rightarrow> nat \<Rightarrow> string \<Rightarrow> bool \<Rightarrow> native_exception + unit" where
  "uassert location n message holds = (if holds then Inr () else Inl (DBException (location n message)))"

section \<open>Options\<close>

definition kDefaultCacheSizeMB :: u32 where "kDefaultCacheSizeMB = 256"
definition kDefaultJournalFileMaxKB :: u32 where "kDefaultJournalFileMaxKB = 8 * 1024"
definition kDefaultJournalPrealloc :: bool where "kDefaultJournalPrealloc = False"

definition PREALLOC_ENABLED :: u32 where "PREALLOC_ENABLED = 1"
definition PREALLOC_DISABLED :: u32 where "PREALLOC_DISABLED = 2"

text \<open>\<open>embedded_mongodb_open_options\<close>: a size, three 32-bit fields and four bytes of padding.\<close>

definition options_sizeof :: nat where "options_sizeof = 24"

definition options_image :: "nat \<Rightarrow> u32 \<Rightarrow> u32 \<Rightarrow> u32 \<Rightarrow> bytes" where
  "options_image sz cache journal prealloc =
     le_bytes 8 sz @ le_bytes 4 (unat cache) @ le_bytes 4 (unat journal) @ le_bytes 4 (unat prealloc) @
     le_bytes 4 0"

definition options_field :: "nat \<Rightarrow> bytes \<Rightarrow> u32" where
  "options_field offset memory = u32_from_le_bytes (take 4 (drop offset memory))"

definition requested :: "location \<Rightarrow> bytes option \<Rightarrow> native_exception + bytes" where
  "requested location options =
     (case options of
        None \<Rightarrow> Inr (le_bytes 8 options_sizeof @ replicate 16 0)
      | Some memory \<Rightarrow>
          (let sz = le_nat (take 8 memory)
           in map_ok (\<lambda>_. le_bytes 8 options_sizeof @
                  drop 8 (take (min sz options_sizeof) memory @ replicate (options_sizeof - min sz options_sizeof) 0))
                (uassert location 13180012
                  (''embedded_mongodb_open_options.size must be set to sizeof the caller'' @ CHR 0x27 #
                   ''s struct, got '' @ show_nat sz) (8 \<le> sz))))"

definition valueOrDefault :: "u32 \<Rightarrow> u32 \<Rightarrow> u32" where
  "valueOrDefault v fallback = (if v = 0 then fallback else v)"

definition resolvePrealloc :: "u32 \<Rightarrow> bool" where
  "resolvePrealloc v =
     (if v = PREALLOC_ENABLED then True else if v = PREALLOC_DISABLED then False else kDefaultJournalPrealloc)"

record ResolvedOptions =
  cacheSizeMB :: u32
  journalFileMaxKB :: u32
  journalPrealloc :: bool

definition resolveOptions :: "location \<Rightarrow> bytes option \<Rightarrow> native_exception + ResolvedOptions" where
  "resolveOptions location options =
     map_ok (\<lambda>asked.
         \<lparr>cacheSizeMB = valueOrDefault (options_field 8 asked) kDefaultCacheSizeMB,
          journalFileMaxKB = valueOrDefault (options_field 12 asked) kDefaultJournalFileMaxKB,
          journalPrealloc = resolvePrealloc (options_field 16 asked)\<rparr>)
       (requested location options)"

definition wiredTigerJournalConfig :: "ResolvedOptions \<Rightarrow> string" where
  "wiredTigerJournalConfig self =
     ''log=(file_max='' @ show_nat (unat (journalFileMaxKB self)) @ ''KB,prealloc='' @
     (if journalPrealloc self then ''true'' else ''false'') @ ''),''"

text \<open>The globals the storage engine reads as it starts. A count of mebibytes over 1024 is exact.\<close>

record storage_globals =
  cacheSizeGB :: f64
  engineConfig :: string
  spillCacheMinMB :: nat
  spillCacheMaxMB :: nat

definition applyOptions :: "ResolvedOptions \<Rightarrow> storage_globals" where
  "applyOptions options =
     \<lparr>cacheSizeGB = F64_fin False (unat (cacheSizeMB options)) (- 10),
      engineConfig = wiredTigerJournalConfig options, spillCacheMinMB = 64, spillCacheMaxMB = 64\<rparr>"

section \<open>The runtime\<close>

datatype native_call =
    Run_initializers
  | Create_directories string
  | Make_service
  | Install_process_services
  | Make_lifecycle_strand
  | Apply_options storage_globals
  | Install_catalog_services
  | Create_lock_file
  | Write_pid
  | Start_storage
  | Start_storage_controls
  | Recover_catalog
  | Notify_recovery_complete
  | Shutdown_index_builds
  | Clear_sharding_factories
  | Close_databases
  | Shutdown_storage
  | Unlock_directory
  | Drop_service

type_synonym 'm performer = "native_call \<Rightarrow> 'm \<Rightarrow> native_exception option \<times> 'm"

record 'm process =
  pr_active :: bool
  pr_calls :: "native_call list"
  pr_mongo :: 'm

record runtime =
  rt_service :: bool
  rt_strand :: bool
  rt_storage :: bool
  rt_index_builds :: bool
  rt_owns :: bool

definition call_mongo :: "'m performer \<Rightarrow> native_call \<Rightarrow> 'm process \<Rightarrow> native_exception option \<times> 'm process" where
  "call_mongo perform c p =
     (let (e, s) = perform c (pr_mongo p) in (e, p\<lparr>pr_calls := pr_calls p @ [c], pr_mongo := s\<rparr>))"

text \<open>Calls in order, each with what the runtime records once it has returned; the first exception ends
  them.\<close>

fun run_calls ::
  "'m performer \<Rightarrow> (native_call \<times> (runtime \<Rightarrow> runtime)) list \<Rightarrow> runtime \<Rightarrow> 'm process
     \<Rightarrow> native_exception option \<times> runtime \<times> 'm process" where
  "run_calls perform [] rt p = (None, rt, p)"
| "run_calls perform ((c, then_rt) # rest) rt p =
     (case call_mongo perform c p of
        (Some e, p') \<Rightarrow> (Some e, rt, p')
      | (None, p') \<Rightarrow> run_calls perform rest (then_rt rt) p')"

definition startup_calls :: "string \<Rightarrow> ResolvedOptions \<Rightarrow> (native_call \<times> (runtime \<Rightarrow> runtime)) list" where
  "startup_calls path options =
     [(Create_directories path, \<lambda>rt. rt),
      (Make_service, \<lambda>rt. rt\<lparr>rt_service := True\<rparr>),
      (Install_process_services, \<lambda>rt. rt),
      (Make_lifecycle_strand, \<lambda>rt. rt\<lparr>rt_strand := True\<rparr>),
      (Apply_options (applyOptions options), \<lambda>rt. rt),
      (Install_catalog_services, \<lambda>rt. rt\<lparr>rt_index_builds := True\<rparr>),
      (Create_lock_file, \<lambda>rt. rt),
      (Write_pid, \<lambda>rt. rt),
      (Start_storage, \<lambda>rt. rt\<lparr>rt_storage := True\<rparr>),
      (Start_storage_controls, \<lambda>rt. rt),
      (Recover_catalog, \<lambda>rt. rt),
      (Notify_recovery_complete, \<lambda>rt. rt)]"

definition Runtime_initialize ::
  "location \<Rightarrow> 'm performer \<Rightarrow> string \<Rightarrow> ResolvedOptions \<Rightarrow> runtime \<Rightarrow> 'm process
     \<Rightarrow> native_exception option \<times> runtime \<times> 'm process" where
  "Runtime_initialize location perform path options rt p =
     (case run_calls perform [(Run_initializers, \<lambda>rt. rt)] rt p of
        (Some e, rt', p') \<Rightarrow> (Some e, rt', p')
      | (None, rt', p') \<Rightarrow>
          (case uassert location 13180005 ''database directory cannot be empty'' (path \<noteq> []) of
             Inl e \<Rightarrow> (Some e, rt', p')
           | Inr _ \<Rightarrow> run_calls perform (startup_calls path options) rt' p'))"

text \<open>\<open>attempt\<close>: the action runs, and the first failure is kept. Giving the service up, the last call of a
  cleanup, only frees memory and is taken not to throw. \<open>Unlock_directory\<close> stands for the whole of its block, which
  does nothing where no lock file was made.\<close>

definition attempt ::
  "'m performer \<Rightarrow> native_call \<Rightarrow> native_exception option \<times> 'm process \<Rightarrow> native_exception option \<times> 'm process" where
  "attempt perform c fp =
     (let (e, p') = call_mongo perform c (snd fp) in (or_else (fst fp) e, p'))"

definition Runtime_cleanup ::
  "'m performer \<Rightarrow> bool \<Rightarrow> runtime \<Rightarrow> 'm process \<Rightarrow> native_exception option \<times> runtime \<times> 'm process" where
  "Runtime_cleanup perform report rt p =
     (let (failure, rt1, p1) =
        (if rt_service rt then
           let fp0 = (None, p);
               fp1 = (if rt_index_builds rt \<and> rt_strand rt then attempt perform Shutdown_index_builds fp0 else fp0);
               fp2 = attempt perform Clear_sharding_factories fp1;
               fp3 = (if rt_storage rt \<and> rt_strand rt
                      then attempt perform Shutdown_storage (attempt perform Close_databases fp2) else fp2);
               fp4 = attempt perform Unlock_directory fp3;
               (_, p5) = call_mongo perform Drop_service (snd fp4)
           in (fst fp4,
               rt\<lparr>rt_index_builds := (if rt_strand rt then False else rt_index_builds rt),
                  rt_storage := (if rt_strand rt then False else rt_storage rt),
                  rt_strand := False, rt_service := False\<rparr>, p5)
         else (None, rt, p));
        (rt2, p2) = (if rt_owns rt1 then (rt1\<lparr>rt_owns := False\<rparr>, p1\<lparr>pr_active := False\<rparr>) else (rt1, p1))
      in (if report then failure else None, rt2, p2))"

definition fresh_runtime :: runtime where
  "fresh_runtime = \<lparr>rt_service = False, rt_strand = False, rt_storage = False, rt_index_builds = False, rt_owns = False\<rparr>"

definition Runtime_new ::
  "location \<Rightarrow> 'm performer \<Rightarrow> string \<Rightarrow> ResolvedOptions \<Rightarrow> 'm process \<Rightarrow> (native_exception + runtime) \<times> 'm process" where
  "Runtime_new location perform path options p =
     (case uassert location 13180000 ''only one embedded MongoDB runtime may be open per process'' (\<not> pr_active p) of
        Inl e \<Rightarrow> (Inl e, p)
      | Inr _ \<Rightarrow>
          (case Runtime_initialize location perform path options (fresh_runtime\<lparr>rt_owns := True\<rparr>) (p\<lparr>pr_active := True\<rparr>) of
             (None, rt, p') \<Rightarrow> (Inr rt, p')
           | (Some e, rt, p') \<Rightarrow> (let (_, _, p'') = Runtime_cleanup perform False rt p' in (Inl e, p''))))"

definition Runtime_close ::
  "'m performer \<Rightarrow> runtime \<Rightarrow> 'm process \<Rightarrow> native_exception option \<times> runtime \<times> 'm process" where
  "Runtime_close perform rt p = Runtime_cleanup perform True rt p"

definition Runtime_destroy :: "'m performer \<Rightarrow> runtime \<Rightarrow> 'm process \<Rightarrow> 'm process" where
  "Runtime_destroy perform rt p = snd (snd (Runtime_cleanup perform False rt p))"

section \<open>Sessions\<close>

text \<open>What the server sources answer about a command: whether its name is a database name, whether its
  bytes are BSON, and how long the object in them says it is.\<close>

record server_checks =
  sc_valid_db :: "string \<Rightarrow> bool"
  sc_validate_bson :: "bytes \<Rightarrow> native_exception option"
  sc_objsize :: "bytes \<Rightarrow> nat"

definition Session_new :: "location \<Rightarrow> runtime \<Rightarrow> native_exception + unit" where
  "Session_new location rt = uassert location 13180006 ''embedded MongoDB runtime is closed'' (rt_service rt)"

definition Session_runCommand ::
  "location \<Rightarrow> server_checks \<Rightarrow> ('s \<Rightarrow> string \<Rightarrow> bytes \<Rightarrow> (native_exception + bytes) \<times> 's) \<Rightarrow> runtime
     \<Rightarrow> string \<Rightarrow> bytes option \<Rightarrow> 's \<Rightarrow> (native_exception + bytes) \<times> 's" where
  "Session_runCommand location sc run rt db cmd s =
     (let n = (case cmd of None \<Rightarrow> [] | Some bs \<Rightarrow> bs) in
      case and_then (uassert location 13180001 ''embedded MongoDB runtime is closed'' (rt_service rt)) (\<lambda>_.
           and_then (uassert location 13180002 ''invalid database name'' (sc_valid_db sc db)) (\<lambda>_.
           and_then (uassert location 13180003 ''BSON command is empty'' (cmd \<noteq> None \<and> n \<noteq> [])) (\<lambda>_.
           and_then (case sc_validate_bson sc n of None \<Rightarrow> Inr () | Some e \<Rightarrow> Inl e) (\<lambda>_.
           uassert location 13180004 ''BSON command contains trailing bytes'' (sc_objsize sc n = length n))))) of
        Inl e \<Rightarrow> (Inl e, s)
      | Inr _ \<Rightarrow> run s db n)"

text \<open>\<open>kill\<close> interrupts the operation attached to the session's client, if there is one.\<close>

definition Session_kill :: "runtime \<Rightarrow> 'o option \<Rightarrow> 'o option" where
  "Session_kill rt attached = (if rt_service rt then attached else None)"

section \<open>The C entry points and the bridge\<close>

text \<open>A status and the error string, which is null when nothing failed or memory ran out.\<close>

fun exception_text :: "native_exception \<Rightarrow> string" where
  "exception_text (DBException e) = e"
| "exception_text (Std_exception e) = e"
| "exception_text Other_exception = ''unknown embedded MongoDB error''"

definition translateErrors :: "bool \<Rightarrow> native_exception + 'a \<Rightarrow> (nat \<times> string option) \<times> 'a option" where
  "translateErrors allocates r =
     (case r of
        Inr a \<Rightarrow> ((0, None), Some a)
      | Inl e \<Rightarrow> ((1, if allocates then Some (exception_text e) else None), None))"

text \<open>A C string ends at its first zero byte.\<close>

definition c_string :: "string \<Rightarrow> string" where
  "c_string s = takeWhile (\<lambda>c. c \<noteq> CHR 0x00) s"

definition throw_if_error :: "nat \<times> string option \<Rightarrow> string + unit" where
  "throw_if_error st =
     (if fst st = 0 then Inr ()
      else Inl (case snd st of Some e \<Rightarrow> c_string e | None \<Rightarrow> ''unknown embedded MongoDB error''))"

definition c_open_with_options ::
  "location \<Rightarrow> 'm performer \<Rightarrow> string \<Rightarrow> bytes option \<Rightarrow> 'm process \<Rightarrow> (native_exception + runtime) \<times> 'm process" where
  "c_open_with_options location perform path options p =
     (case resolveOptions location options of
        Inl e \<Rightarrow> (Inl e, p)
      | Inr resolved \<Rightarrow> Runtime_new location perform path resolved p)"

definition c_open ::
  "location \<Rightarrow> 'm performer \<Rightarrow> string \<Rightarrow> 'm process \<Rightarrow> (native_exception + runtime) \<times> 'm process" where
  "c_open location perform path p = c_open_with_options location perform path None p"

definition native_image :: "NativeOpenOptions \<Rightarrow> bytes" where
  "native_image options =
     options_image options_sizeof (cache_size_mb options) (journal_file_max_kb options) (journal_prealloc options)"

text \<open>\<open>EmbeddedMongo\<close> holds its handle until it is closed.\<close>

definition bridge_open_native ::
  "location \<Rightarrow> 'm performer \<Rightarrow> bool \<Rightarrow> string \<Rightarrow> string \<Rightarrow> NativeOpenOptions \<Rightarrow> 'm process
     \<Rightarrow> (string + runtime option) \<times> 'm process" where
  "bridge_open_native location perform allocates initializer_error path options p =
     (if initializer_error \<noteq> [] then (Inl initializer_error, p)
      else let (r, p') = c_open_with_options location perform path (Some (native_image options)) p;
               (st, handle) = translateErrors allocates r
           in (and_then (throw_if_error st) (\<lambda>_.
                 ok_or ''embedded MongoDB returned a null client'' (map_option Some handle)), p'))"

definition EmbeddedMongo_close ::
  "'m performer \<Rightarrow> bool \<Rightarrow> runtime option \<Rightarrow> 'm process \<Rightarrow> (string + unit) \<times> runtime option \<times> 'm process" where
  "EmbeddedMongo_close perform allocates handle p =
     (case handle of
        None \<Rightarrow> (Inr (), None, p)
      | Some rt \<Rightarrow>
          (let (e, rt', p1) = Runtime_close perform rt p; p2 = Runtime_destroy perform rt' p1
           in (throw_if_error (fst (translateErrors allocates (case e of None \<Rightarrow> Inr () | Some e \<Rightarrow> Inl e))), None, p2)))"

definition EmbeddedMongo_destroy :: "'m performer \<Rightarrow> runtime option \<Rightarrow> 'm process \<Rightarrow> 'm process" where
  "EmbeddedMongo_destroy perform handle p = snd (snd (EmbeddedMongo_close perform True handle p))"

section \<open>What options a runtime opens with\<close>

lemma u32_le_bytes [simp]: "u32_from_le_bytes (le_bytes 4 (unat (w :: u32))) = w"
proof -
  have "unat w < 256 ^ 4" using unsigned_less [of w] by simp
  then show ?thesis by (simp add: u32_from_le_bytes_def)
qed

lemma le_nat_zeros [simp]: "le_nat (replicate n 0) = 0"
  by (induction n) auto

lemma options_image_fields:
  "options_field 8 (options_image sz cache journal prealloc) = cache"
  "options_field 12 (options_image sz cache journal prealloc) = journal"
  "options_field 16 (options_image sz cache journal prealloc) = prealloc"
  by (simp_all add: options_field_def options_image_def)

lemma length_options_image [simp]: "length (options_image sz cache journal prealloc) = options_sizeof"
  by (simp add: options_image_def options_sizeof_def)

lemma requested_whole:
  "requested location (Some (options_image options_sizeof cache journal prealloc)) =
     Inr (options_image options_sizeof cache journal prealloc)"
proof -
  have sz: "le_nat (take 8 (options_image options_sizeof cache journal prealloc)) = options_sizeof"
    by (simp add: options_image_def options_sizeof_def)
  have "le_bytes 8 options_sizeof @ drop 8 (options_image options_sizeof cache journal prealloc) =
      options_image options_sizeof cache journal prealloc"
    by (simp add: options_image_def)
  with sz show ?thesis by (simp add: requested_def Let_def uassert_def options_sizeof_def)
qed

lemma resolve_native_image:
  "resolveOptions location (Some (native_image options)) =
     Inr \<lparr>cacheSizeMB = valueOrDefault (cache_size_mb options) kDefaultCacheSizeMB,
          journalFileMaxKB = valueOrDefault (journal_file_max_kb options) kDefaultJournalFileMaxKB,
          journalPrealloc = resolvePrealloc (journal_prealloc options)\<rparr>"
  by (simp add: resolveOptions_def native_image_def requested_whole options_image_fields)

text \<open>No options and a struct of zeros are the same request.\<close>

lemma resolve_null:
  "resolveOptions location None =
     resolveOptions location (Some (native_image \<lparr>cache_size_mb = 0, journal_file_max_kb = 0, journal_prealloc = 0\<rparr>))"
  unfolding resolve_native_image
  by (simp add: resolveOptions_def requested_def options_field_def u32_from_le_bytes_def)

text \<open>A size too small to cover itself is refused.\<close>

lemma resolve_unsized: "le_nat (take 8 memory) < 8 \<Longrightarrow> \<exists>e. resolveOptions location (Some memory) = Inl (DBException e)"
  by (simp add: resolveOptions_def requested_def uassert_def Let_def)

text \<open>A value that is none of the three states is read as the default, not refused.\<close>

lemma unknown_prealloc_is_default:
  "resolvePrealloc 7 = kDefaultJournalPrealloc"
  by (simp add: resolvePrealloc_def PREALLOC_ENABLED_def PREALLOC_DISABLED_def)

section \<open>One runtime per process\<close>

type_synonym 'm native_sys = "'m process \<times> runtime list"

definition native_init :: "'m native_sys \<Rightarrow> bool" where
  "native_init sy \<longleftrightarrow> \<not> pr_active (fst sy) \<and> snd sy = []"

text \<open>
  An open and a close are one step each. The flag is taken, under its mutex, before anything else of an open and
  given up after everything else of a close, so another open that falls in between is refused exactly as
  one that comes before or after while the flag is set.
\<close>

inductive native_step :: "location \<Rightarrow> 'm performer \<Rightarrow> 'm native_sys \<Rightarrow> 'm native_sys \<Rightarrow> bool"
  for location perform where
  runtime_opens: "Runtime_new location perform path options p = (r, p') \<Longrightarrow>
    native_step location perform (p, rts) (p', case r of Inl _ \<Rightarrow> rts | Inr rt \<Rightarrow> rts @ [rt])"
| runtime_closes: "i < length rts \<Longrightarrow> Runtime_cleanup perform report (rts ! i) p = (e, rt, p') \<Longrightarrow>
    native_step location perform (p, rts) (p', rts[i := rt])"

definition all_started :: "runtime \<Rightarrow> bool" where
  "all_started rt \<longleftrightarrow> rt_service rt \<and> rt_strand rt \<and> rt_storage rt \<and> rt_index_builds rt"

definition native_inv :: "'m native_sys \<Rightarrow> bool" where
  "native_inv sy \<longleftrightarrow>
     length (filter rt_owns (snd sy)) = of_bool (pr_active (fst sy)) \<and>
     (\<forall>rt\<in>set (snd sy). if rt_owns rt then all_started rt else \<not> rt_service rt)"

lemma call_mongo_frame: "call_mongo perform c p = (e, p') \<Longrightarrow> pr_active p' = pr_active p \<and> pr_calls p' = pr_calls p @ [c]"
  by (auto simp: call_mongo_def split: prod.splits)

lemma attempt_frame [simp]:
  "pr_active (snd (attempt perform c fp)) = pr_active (snd fp)"
  "pr_calls (snd (attempt perform c fp)) = pr_calls (snd fp) @ [c]"
  by (auto simp: attempt_def call_mongo_def split: prod.splits)

lemma run_calls_active: "run_calls perform cs rt p = (e, rt', p') \<Longrightarrow> pr_active p' = pr_active p"
  by (induction perform cs rt p rule: run_calls.induct)
    (auto dest: call_mongo_frame split: prod.splits option.splits)

lemma cleanup_calls:
  assumes "Runtime_cleanup perform report rt p = (e, rt', p')"
  shows "rt' = rt\<lparr>rt_service := False, rt_owns := False, rt_strand := (if rt_service rt then False else rt_strand rt),
      rt_storage := rt_storage rt \<and> \<not> (rt_service rt \<and> rt_strand rt),
      rt_index_builds := rt_index_builds rt \<and> \<not> (rt_service rt \<and> rt_strand rt)\<rparr> \<and>
    pr_active p' = (pr_active p \<and> \<not> rt_owns rt) \<and>
    pr_calls p' = pr_calls p @
      (if rt_service rt then (if rt_index_builds rt \<and> rt_strand rt then [Shutdown_index_builds] else []) @
         [Clear_sharding_factories] @
         (if rt_storage rt \<and> rt_strand rt then [Close_databases, Shutdown_storage] else []) @
         [Unlock_directory, Drop_service] else [])"
proof -
  have drop: "snd (call_mongo perform Drop_service q) = q\<lparr>pr_calls := pr_calls q @ [Drop_service],
      pr_mongo := snd (perform Drop_service (pr_mongo q))\<rparr>" for q
    by (simp add: call_mongo_def split: prod.splits)
  show ?thesis
    using assms
    by (cases "rt_service rt"; cases "rt_strand rt"; cases "rt_storage rt"; cases "rt_index_builds rt"; cases "rt_owns rt")
      (auto simp: Runtime_cleanup_def Let_def case_prod_beta drop)
qed

lemma cleanup_of_closed:
  assumes "\<not> rt_service rt" and "\<not> rt_owns rt"
  shows "Runtime_cleanup perform report rt p = (None, rt, p)"
  using assms by (simp add: Runtime_cleanup_def)

text \<open>How far a list of calls came: all of it, or up to and including the one that threw.\<close>

lemma run_calls_progress:
  assumes "run_calls perform cs rt p = (e, rt', p')"
  shows "\<exists>n. rt' = fold snd (take n cs) rt \<and>
    (case e of None \<Rightarrow> n = length cs \<and> pr_calls p' = pr_calls p @ map fst cs
     | Some _ \<Rightarrow> n < length cs \<and> pr_calls p' = pr_calls p @ map fst (take (Suc n) cs))"
  using assms
proof (induction cs arbitrary: rt p)
  case Nil
  then show ?case by auto
next
  case (Cons c cs)
  obtain call then_rt where c: "c = (call, then_rt)" by (cases c)
  obtain x q where q: "call_mongo perform call p = (x, q)" by fastforce
  show ?case
  proof (cases x)
    case (Some err)
    with Cons.prems c q call_mongo_frame [OF q] show ?thesis by (intro exI [of _ 0]) auto
  next
    case None
    with Cons.prems c q have "run_calls perform cs (then_rt rt) q = (e, rt', p')" by simp
    from Cons.IH [OF this] obtain n where "rt' = fold snd (take n cs) (then_rt rt) \<and>
      (case e of None \<Rightarrow> n = length cs \<and> pr_calls p' = pr_calls q @ map fst cs
       | Some _ \<Rightarrow> n < length cs \<and> pr_calls p' = pr_calls q @ map fst (take (Suc n) cs))" by blast
    with c call_mongo_frame [OF q] show ?thesis by (intro exI [of _ "Suc n"]) (auto split: option.splits)
  qed
qed

definition teardown_fits :: "native_call list \<Rightarrow> runtime \<Rightarrow> bool" where
  "teardown_fits cs rt \<longleftrightarrow>
     (Install_process_services \<in> set cs \<longrightarrow> rt_service rt) \<and>
     (Create_lock_file \<in> set cs \<longrightarrow> rt_service rt \<and> rt_strand rt \<and> rt_index_builds rt) \<and>
     (Start_storage_controls \<in> set cs \<longrightarrow> rt_service rt \<and> rt_strand rt \<and> rt_storage rt)"

lemma startup_progress:
  assumes "run_calls perform (startup_calls path options) rt p = (e, rt', p')"
  shows "rt_owns rt' = rt_owns rt \<and>
    (\<exists>cs. pr_calls p' = pr_calls p @ cs \<and> teardown_fits cs rt') \<and> (e = None \<longrightarrow> all_started rt')"
proof -
  from run_calls_progress [OF assms] obtain n where n: "rt' = fold snd (take n (startup_calls path options)) rt"
    "case e of None \<Rightarrow> n = length (startup_calls path options) \<and> pr_calls p' = pr_calls p @ map fst (startup_calls path options)
     | Some _ \<Rightarrow> n < length (startup_calls path options) \<and>
         pr_calls p' = pr_calls p @ map fst (take (Suc n) (startup_calls path options))" by blast
  show ?thesis
  proof (cases e)
    case None
    with n show ?thesis by (auto simp: startup_calls_def teardown_fits_def all_started_def)
  next
    case (Some x)
    with n have "n < 12" by (simp add: startup_calls_def)
    then have "n \<in> {0, 1, 2, 3, 4, 5, 6, 7, 8, 9, 10, 11}" unfolding insert_iff empty_iff by presburger
    with n Some show ?thesis
      by (elim insertE; simp add: startup_calls_def teardown_fits_def)
  qed
qed

lemma initialize_progress:
  assumes "Runtime_initialize location perform path options rt p = (e, rt', p')"
  shows "pr_active p' = pr_active p \<and> rt_owns rt' = rt_owns rt \<and>
    (\<exists>cs. pr_calls p' = pr_calls p @ cs \<and> teardown_fits cs rt') \<and> (e = None \<longrightarrow> all_started rt')"
proof -
  obtain x q where q: "call_mongo perform Run_initializers p = (x, q)" by fastforce
  note f = call_mongo_frame [OF q]
  show ?thesis
  proof (cases "x = None \<and> path \<noteq> []")
    case True
    with assms q have run: "run_calls perform (startup_calls path options) rt q = (e, rt', p')"
      by (simp add: Runtime_initialize_def uassert_def)
    from startup_progress [OF run] obtain cs where "pr_calls p' = pr_calls q @ cs" "teardown_fits cs rt'" by blast
    then have "pr_calls p' = pr_calls p @ Run_initializers # cs" "teardown_fits (Run_initializers # cs) rt'"
      using f by (simp_all add: teardown_fits_def)
    with startup_progress [OF run] run_calls_active [OF run] f show ?thesis by blast
  next
    case False
    with assms q f show ?thesis
      by (auto simp: Runtime_initialize_def uassert_def teardown_fits_def split: option.splits)
  qed
qed

text \<open>A failed open leaves the process free to open again, with whatever was started torn down.\<close>

definition torn_down :: "native_call list \<Rightarrow> bool" where
  "torn_down cs \<longleftrightarrow>
     (Install_process_services \<in> set cs \<longrightarrow> last cs = Drop_service \<and> Unlock_directory \<in> set cs) \<and>
     (Create_lock_file \<in> set cs \<longrightarrow> Shutdown_index_builds \<in> set cs) \<and>
     (Start_storage_controls \<in> set cs \<longrightarrow> Close_databases \<in> set cs \<and> Shutdown_storage \<in> set cs)"

lemma Runtime_new_cases:
  assumes "Runtime_new location perform path options p = (r, p')"
  shows "if pr_active p then p' = p \<and> r = Inl (DBException (location 13180000
       ''only one embedded MongoDB runtime may be open per process''))
    else case r of
      Inr rt \<Rightarrow> pr_active p' \<and> rt_owns rt \<and> all_started rt
    | Inl _ \<Rightarrow> \<not> pr_active p' \<and> (\<exists>cs. pr_calls p' = pr_calls p @ cs \<and> torn_down cs)"
proof (cases "pr_active p")
  case True
  with assms show ?thesis by (simp add: Runtime_new_def uassert_def)
next
  case False
  obtain e rt q where q: "Runtime_initialize location perform path options (fresh_runtime\<lparr>rt_owns := True\<rparr>)
      (p\<lparr>pr_active := True\<rparr>) = (e, rt, q)" by (metis prod_cases3)
  note i = initialize_progress [OF q]
  show ?thesis
  proof (cases e)
    case None
    with assms False q i show ?thesis by (auto simp: Runtime_new_def uassert_def)
  next
    case (Some x)
    obtain y rt2 q2 where c: "Runtime_cleanup perform False rt q = (y, rt2, q2)" by (metis prod_cases3)
    from i obtain cs where cs: "pr_calls q = pr_calls p @ cs" "teardown_fits cs rt" by auto
    from assms False q Some c have "r = Inl x" "p' = q2" by (auto simp: Runtime_new_def uassert_def)
    moreover from cleanup_calls [OF c] cs have "\<exists>ds. pr_calls q2 = pr_calls p @ cs @ ds \<and> torn_down (cs @ ds)"
      by (auto simp: torn_down_def teardown_fits_def)
    moreover from cleanup_calls [OF c] i have "\<not> pr_active q2" by auto
    ultimately show ?thesis using False by auto
  qed
qed

text \<open>What a runtime that opened was opened with.\<close>

lemma Runtime_new_options:
  assumes "Runtime_new location perform path options p = (Inr rt, p')"
  shows "\<exists>cs. pr_calls p' = pr_calls p @ cs \<and> (\<forall>g. Apply_options g \<in> set cs \<longleftrightarrow> g = applyOptions options)"
proof -
  obtain x q where q: "call_mongo perform Run_initializers (p\<lparr>pr_active := True\<rparr>) = (x, q)" by fastforce
  from assms q have run: "run_calls perform (startup_calls path options) (fresh_runtime\<lparr>rt_owns := True\<rparr>) q = (None, rt, p')"
    by (auto simp: Runtime_new_def Runtime_initialize_def uassert_def split: if_splits option.splits prod.splits)
  from run_calls_progress [OF run] call_mongo_frame [OF q]
  have "pr_calls p' = pr_calls p @ Run_initializers # map fst (startup_calls path options)" by auto
  then show ?thesis by (intro exI [of _ "Run_initializers # map fst (startup_calls path options)"])
      (auto simp: startup_calls_def)
qed

lemma bridge_opened:
  assumes "bridge_open_native location perform allocates ie path options p = (Inr (Some rt), p')"
  shows "\<exists>resolved. resolveOptions location (Some (native_image options)) = Inr resolved \<and>
    Runtime_new location perform path resolved p = (Inr rt, p')"
  using assms
  by (auto simp: bridge_open_native_def c_open_with_options_def resolve_native_image translateErrors_def
      throw_if_error_def ok_or_def split: if_splits sum.splits prod.splits option.splits)

text \<open>An error keeps its text across both boundaries, up to its first zero byte.\<close>

lemma native_errors_cross:
  "throw_if_error (fst (translateErrors True (Inl e))) = Inl (c_string (exception_text e))"
  "throw_if_error (fst (translateErrors allocates (Inr a))) = Inr ()"
  by (simp_all add: throw_if_error_def translateErrors_def)

lemma owners_update:
  assumes "i < length rts" and "rt_owns (rts ! i)" and "\<not> rt_owns rt"
  shows "length (filter rt_owns rts) = Suc (length (filter rt_owns (rts[i := rt])))"
proof -
  have rts: "rts = take i rts @ rts ! i # drop (Suc i) rts" using assms(1) by (rule id_take_nth_drop)
  have upd: "rts[i := rt] = take i rts @ rt # drop (Suc i) rts" using assms(1) by (rule upd_conv_take_nth_drop)
  show ?thesis unfolding upd by (subst rts) (use assms(2,3) in simp)
qed

lemma native_inv_closes:
  assumes inv: "native_inv (p, rts)" and i: "i < length rts"
    and c: "Runtime_cleanup perform report (rts ! i) p = (e, rt, p')"
  shows "native_inv (p', rts[i := rt])"
proof (cases "rt_owns (rts ! i)")
  case True
  note cc = cleanup_calls [OF c]
  from cc have rt: "\<not> rt_owns rt" "\<not> rt_service rt" by auto
  from owners_update [OF i True rt(1)] inv have "length (filter rt_owns (rts[i := rt])) = 0" "\<not> pr_active p'"
    using cc True by (auto simp: native_inv_def of_bool_def split: if_splits)
  moreover have "\<forall>x\<in>set (rts[i := rt]). if rt_owns x then all_started x else \<not> rt_service x"
    using inv rt set_update_subset_insert [of rts i rt] by (auto simp: native_inv_def)
  ultimately show ?thesis by (simp add: native_inv_def)
next
  case False
  with inv i have "\<not> rt_service (rts ! i)" by (auto simp: native_inv_def split: if_splits)
  with c False have "rt = rts ! i" "p' = p" by (simp_all add: cleanup_of_closed)
  with inv show ?thesis by simp
qed

lemma native_inv_opens:
  assumes inv: "native_inv (p, rts)" and r: "Runtime_new location perform path options p = (r, p')"
  shows "native_inv (p', case r of Inl _ \<Rightarrow> rts | Inr rt \<Rightarrow> rts @ [rt])"
  using Runtime_new_cases [OF r] inv by (auto simp: native_inv_def split: if_splits sum.splits)

interpretation runtimes: invariant_system native_init "native_step location perform" native_inv
proof
  fix s t assume "native_inv s" and "native_step location perform s t"
  from this(2,1) show "native_inv t"
    by cases (auto dest: native_inv_opens native_inv_closes)
qed (auto simp: native_init_def native_inv_def)

text \<open>C11: At most one runtime is open in a process, and neither a failed open nor a close costs the
  process its engine. In any reachable state the process-wide flag is set exactly while one runtime
  is open. An open while one is refused and calls nothing. An open that fails, at whichever call,
  clears the flag and has torn down what it started: index builds, databases and storage where they
  were started, the directory's lock and last the service. Closing the open runtime makes all six
  calls of the shutdown in order whatever any of them throws, clears the flag, and reports
  only once everything ran; closing one that is closed does nothing.\<close>

theorem one_runtime_per_process:
  assumes "reach native_init (native_step location perform) (p, rts)"
  shows "length (filter rt_owns rts) = of_bool (pr_active p) \<and>
    (\<forall>path options r p'. Runtime_new location perform path options p = (r, p') \<longrightarrow>
       (if pr_active p then p' = p \<and> r = Inl (DBException (location 13180000
          ''only one embedded MongoDB runtime may be open per process''))
        else case r of Inr rt \<Rightarrow> pr_active p' \<and> all_started rt
          | Inl _ \<Rightarrow> \<not> pr_active p' \<and> (\<exists>cs. pr_calls p' = pr_calls p @ cs \<and> torn_down cs))) \<and>
    (\<forall>rt\<in>set rts. \<forall>e rt' p'. Runtime_close perform rt p = (e, rt', p') \<longrightarrow>
       (if rt_owns rt then \<not> rt_owns rt' \<and> \<not> pr_active p' \<and>
          pr_calls p' = pr_calls p @ [Shutdown_index_builds, Clear_sharding_factories, Close_databases,
            Shutdown_storage, Unlock_directory, Drop_service]
        else e = None \<and> rt' = rt \<and> p' = p))"
proof (intro conjI allI ballI impI)
  from assms have inv: "native_inv (p, rts)" by (rule runtimes.reach_inv)
  then show "length (filter rt_owns rts) = of_bool (pr_active p)" by (simp add: native_inv_def)
  show "if pr_active p then p' = p \<and> r = Inl (DBException (location 13180000
          ''only one embedded MongoDB runtime may be open per process''))
        else case r of Inr rt \<Rightarrow> pr_active p' \<and> all_started rt
          | Inl _ \<Rightarrow> \<not> pr_active p' \<and> (\<exists>cs. pr_calls p' = pr_calls p @ cs \<and> torn_down cs)"
    if "Runtime_new location perform path options p = (r, p')" for path options r p'
    using Runtime_new_cases [OF that] by (auto split: if_splits sum.splits)
  fix rt e rt' p' assume rt: "rt \<in> set rts" and c: "Runtime_close perform rt p = (e, rt', p')"
  from inv rt have started: "if rt_owns rt then all_started rt else \<not> rt_service rt" by (simp add: native_inv_def)
  note cl = c [unfolded Runtime_close_def]
  show "if rt_owns rt then \<not> rt_owns rt' \<and> \<not> pr_active p' \<and>
          pr_calls p' = pr_calls p @ [Shutdown_index_builds, Clear_sharding_factories, Close_databases,
            Shutdown_storage, Unlock_directory, Drop_service]
        else e = None \<and> rt' = rt \<and> p' = p"
    using cleanup_calls [OF cl] started cl by (auto simp: all_started_def cleanup_of_closed)
qed

text \<open>A process whose storage engine refuses to start.\<close>

definition stuck_storage :: "nat performer" where
  "stuck_storage c n = (if c = Start_storage then Some (DBException ''no space'') else None, Suc n)"

definition idle_process :: "nat process" where
  "idle_process = \<lparr>pr_active = False, pr_calls = [], pr_mongo = 0\<rparr>"

theorem one_runtime_per_process_witness:
  "\<exists>p' cs. Runtime_new (\<lambda>n m. m) stuck_storage ''data''
       \<lparr>cacheSizeMB = 256, journalFileMaxKB = 8192, journalPrealloc = False\<rparr> idle_process =
         (Inl (DBException ''no space''), p') \<and>
     \<not> pr_active p' \<and> pr_calls p' = cs \<and> Start_storage \<in> set cs \<and> last cs = Drop_service"
proof -
  let ?o = "\<lparr>cacheSizeMB = 256, journalFileMaxKB = 8192, journalPrealloc = False\<rparr>"
  have reach: "reach native_init (native_step (\<lambda>n m. m) stuck_storage) (idle_process, [])"
    by (rule reach_init) (simp add: native_init_def idle_process_def)
  obtain r p' where r: "Runtime_new (\<lambda>n m. m) stuck_storage ''data'' ?o idle_process = (r, p')" by fastforce
  then have e: "r = Inl (DBException ''no space'')" and calls: "Start_storage \<in> set (pr_calls p')"
    "Install_process_services \<in> set (pr_calls p')"
    by (auto simp: Runtime_new_def Runtime_initialize_def uassert_def startup_calls_def call_mongo_def
        stuck_storage_def idle_process_def fresh_runtime_def Runtime_cleanup_def attempt_def)
  note failed = one_runtime_per_process [OF reach, THEN conjunct2, THEN conjunct1, rule_format, OF r]
  have "\<not> pr_active p' \<and> (\<exists>cs. pr_calls p' = pr_calls idle_process @ cs \<and> torn_down cs)"
    using failed e by (simp add: idle_process_def)
  then have "\<not> pr_active p'" "torn_down (pr_calls p')" by (auto simp: idle_process_def)
  with r e calls show ?thesis by (auto simp: torn_down_def)
qed

end
