(* ===== verification/Kotlin_Base.thy ===== *)
theory Kotlin_Base
  imports Errors
begin

text \<open>
  What the Kotlin sources under \<open>android/\<close> share: the exceptions they throw
  (\<open>EmbeddedMongoException.kt\<close>), the numbers of a reply read through \<open>Number\<close> (\<open>Bsons.kt\<close>), the
  check of a reply (\<open>CommandReply.kt\<close>) and the write concern of a write (\<open>Durability.kt\<close>).

  The Java BSON library is the record \<open>java_bson\<close>: a \<open>Document\<close> is a map with insertion order, as the
  \<open>bson\<close> crate's is, so the two share \<open>bson_lib\<close>; the codec translates a document to a Java byte
  array \<open>'b\<close> and back; \<open>Decimal128\<close> is a \<open>Number\<close> too, and what it converts to is the library's
  answer. The lemmas compare the check of a reply with the Rust crate's and say what becomes of a
  write.
\<close>

section \<open>Exceptions\<close>

text \<open>An exception and the ones suppressed in favour of it. Its cause is not kept.\<close>

datatype 'd throwable_kind =
    Embedded_mongo_exception string i32 "'d option"
  | Illegal_state string
  | Illegal_argument string
  | Insufficient_storage i64 i64
  | Cancellation
  | Other_throwable string

datatype 'd throwable = Throwable (thrown_kind: "'d throwable_kind") (suppressed: "'d throwable list")

text \<open>Every exception attached is another object than the one it is attached to, so none is refused for being its own.\<close>

fun addSuppressed :: "'d throwable \<Rightarrow> 'd throwable \<Rightarrow> 'd throwable" where
  "addSuppressed (Throwable k ts) t = Throwable k (ts @ [t])"

abbreviation thrown :: "'d throwable_kind \<Rightarrow> 'd throwable" where
  "thrown k \<equiv> Throwable k []"

definition NO_ERROR_CODE :: i32 where "NO_ERROR_CODE = 0"

definition NAMESPACE_NOT_FOUND :: i32 where "NAMESPACE_NOT_FOUND = 26"
definition INDEX_NOT_FOUND :: i32 where "INDEX_NOT_FOUND = 27"

text \<open>A failure raised on this side of the bridge.\<close>

abbreviation raised_here :: "string \<Rightarrow> 'd throwable" where
  "raised_here message \<equiv> thrown (Embedded_mongo_exception message NO_ERROR_CODE None)"

datatype BridgeError_kt = UNKNOWN_HANDLE | INVALID_ARGUMENT | PANIC | JNI_FAILURE | ENGINE_ERROR

fun BridgeError_code :: "BridgeError_kt \<Rightarrow> i32" where
  "BridgeError_code UNKNOWN_HANDLE = - 1"
| "BridgeError_code INVALID_ARGUMENT = - 2"
| "BridgeError_code PANIC = - 3"
| "BridgeError_code JNI_FAILURE = - 4"
| "BridgeError_code ENGINE_ERROR = - 5"

definition BridgeError_of :: "i32 \<Rightarrow> BridgeError_kt option" where
  "BridgeError_of c =
     map_of (map (\<lambda>e. (BridgeError_code e, e))
       [UNKNOWN_HANDLE, INVALID_ARGUMENT, PANIC, JNI_FAILURE, ENGINE_ERROR]) c"

section \<open>Numbers\<close>

datatype java_number = JInt i32 | JLong i64 | JDouble f64 | JDecimal f64 i64 i32

text \<open>\<open>toLong\<close> and \<open>toInt\<close> of a \<open>Double\<close>: towards zero, to the nearest end of the range, zero for NaN.\<close>

definition clamp :: "int \<Rightarrow> int \<Rightarrow> int \<Rightarrow> int" where
  "clamp lo hi i = max lo (min hi i)"

fun f64_truncate :: "int \<Rightarrow> int \<Rightarrow> f64 \<Rightarrow> int" where
  "f64_truncate lo hi F64_nan = 0"
| "f64_truncate lo hi (F64_inf negative) = (if negative then lo else hi)"
| "f64_truncate lo hi (F64_fin negative m e) =
     (let v = (if 0 \<le> e then int m * 2 ^ nat e else int m div 2 ^ nat (- e))
      in clamp lo hi (if negative then - v else v))"

fun toLong :: "java_number \<Rightarrow> i64" where
  "toLong (JInt i) = scast i"
| "toLong (JLong l) = l"
| "toLong (JDouble x) = word_of_int (f64_truncate (- (2 ^ 63)) (2 ^ 63 - 1) x)"
| "toLong (JDecimal x l i) = l"

fun toInt :: "java_number \<Rightarrow> i32" where
  "toInt (JInt i) = i"
| "toInt (JLong l) = ucast l"
| "toInt (JDouble x) = word_of_int (f64_truncate (- (2 ^ 31)) (2 ^ 31 - 1) x)"
| "toInt (JDecimal x l i) = i"

fun toDouble :: "java_number \<Rightarrow> f64" where
  "toDouble (JInt i) = f64_of_int (sint i)"
| "toDouble (JLong l) = f64_of_int (sint l)"
| "toDouble (JDouble x) = x"
| "toDouble (JDecimal x l i) = x"

section \<open>Documents\<close>

text \<open>
  Encoding may throw, with the library's own exception; decoding bytes that are not a document
  throws a \<open>BSONException\<close>, marked \<open>True\<close>, or something else.
\<close>

record ('d, 'b) java_bson =
  jb_lib :: "'d bson_lib"
  jb_decimal :: "nat \<Rightarrow> java_number option"
  jb_encode :: "'d \<Rightarrow> string + 'b"
  jb_decode :: "'b \<Rightarrow> (bool \<times> string) + 'd"
  jb_size :: "'b \<Rightarrow> nat"

abbreviation kt_get :: "('d, 'b) java_bson \<Rightarrow> 'd \<Rightarrow> string \<Rightarrow> 'd bson option" where
  "kt_get K d k \<equiv> doc_get (jb_lib K) d k"

definition as_number :: "('d, 'b) java_bson \<Rightarrow> 'd bson \<Rightarrow> java_number option" where
  "as_number K v =
     (case v of
        BInt32 i \<Rightarrow> Some (JInt i)
      | BInt64 l \<Rightarrow> Some (JLong l)
      | BDouble x \<Rightarrow> Some (JDouble x)
      | BOther n \<Rightarrow> jb_decimal K n
      | _ \<Rightarrow> None)"

definition number_at :: "('d, 'b) java_bson \<Rightarrow> 'd \<Rightarrow> string \<Rightarrow> java_number option" where
  "number_at K d k = Option.bind (kt_get K d k) (as_number K)"

text \<open>\<open>joinToString\<close> with its default separator.\<close>

fun joinToString :: "string list \<Rightarrow> string" where
  "joinToString [] = []"
| "joinToString [s] = s"
| "joinToString (s # t # ss) = s @ '', '' @ joinToString (t # ss)"

definition longOrNull :: "('d, 'b) java_bson \<Rightarrow> 'd \<Rightarrow> string \<Rightarrow> i64 option" where
  "longOrNull K d field = map_option toLong (number_at K d field)"

definition requiredLong :: "('d, 'b) java_bson \<Rightarrow> 'd \<Rightarrow> string \<Rightarrow> 'd throwable + i64" where
  "requiredLong K d field =
     ok_or (raised_here (''the reply carries no numeric `'' @ field @ ''` (fields: '' @
              joinToString (doc_keys (jb_lib K) d) @ '')'')) (longOrNull K d field)"

definition BsonCodec_encode :: "('d, 'b) java_bson \<Rightarrow> 'd \<Rightarrow> 'd throwable + 'b" where
  "BsonCodec_encode K d = map_err (\<lambda>e. thrown (Other_throwable e)) (jb_encode K d)"

definition BsonCodec_decode :: "('d, 'b) java_bson \<Rightarrow> 'b \<Rightarrow> 'd throwable + 'd" where
  "BsonCodec_decode K b =
     map_err (\<lambda>(bson_exception, e).
         if bson_exception
         then raised_here (''the engine returned '' @ show_nat (jb_size K b) @
                '' bytes that are not a BSON document'')
         else thrown (Other_throwable e)) (jb_decode K b)"

section \<open>Replies\<close>

fun documents_of :: "'d bson list \<Rightarrow> 'd list" where
  "documents_of [] = []"
| "documents_of (v # vs) = (case as_document v of Some d \<Rightarrow> d # documents_of vs | None \<Rightarrow> documents_of vs)"

definition failureDetails :: "('d, 'b) java_bson \<Rightarrow> 'd \<Rightarrow> 'd option" where
  "failureDetails K reply =
     or_else (Option.bind (get_array (jb_lib K) reply ''writeErrors'')
                (\<lambda>es. case documents_of es of [] \<Rightarrow> None | d # _ \<Rightarrow> Some d))
       (get_document (jb_lib K) reply ''writeConcernError'')"

definition checkedReply :: "('d, 'b) java_bson \<Rightarrow> 'd \<Rightarrow> 'd throwable + 'd" where
  "checkedReply K reply =
     (case map_option toDouble (number_at K reply ''ok'') of
        None \<Rightarrow> Inl (raised_here (''MongoDB reply carries no ok field (fields: '' @
          joinToString (doc_keys (jb_lib K) reply) @ '')''))
      | Some ok \<Rightarrow>
          (let details = failureDetails K reply in
           if \<not> f64_is_zero ok \<and> details = None then Inr reply
           else
             let failure = unwrap_or reply details in
             Inl (thrown (Embedded_mongo_exception
               (unwrap_or ''the MongoDB command failed without an error message''
                  (get_str (jb_lib K) failure ''errmsg''))
               (unwrap_or NO_ERROR_CODE (map_option toInt (number_at K failure ''code'')))
               (Some reply)))))"

text \<open>The per-document failures an exception carries.\<close>

fun writeErrors :: "('d, 'b) java_bson \<Rightarrow> 'd throwable \<Rightarrow> 'd list" where
  "writeErrors K (Throwable (Embedded_mongo_exception m c (Some response)) ts) =
     documents_of (unwrap_or [] (get_array (jb_lib K) response ''writeErrors''))"
| "writeErrors K t = []"

section \<open>Durable writes\<close>

definition WRITE_CONCERN :: string where "WRITE_CONCERN = ''writeConcern''"

definition WRITE_COMMANDS :: "string list" where
  "WRITE_COMMANDS = [''insert'', ''update'', ''delete'', ''findAndModify'', ''create'', ''createIndexes'',
     ''collMod'', ''drop'', ''dropDatabase'', ''dropIndexes'', ''renameCollection'']"

definition durable :: "('d, 'b) java_bson \<Rightarrow> 'd \<Rightarrow> 'd" where
  "durable K command =
     (if (case doc_keys (jb_lib K) command of [] \<Rightarrow> True | k # _ \<Rightarrow> k \<notin> set WRITE_COMMANDS) \<or>
         contains_key (jb_lib K) command WRITE_CONCERN
      then command
      else doc_insert (jb_lib K) command WRITE_CONCERN
             (BDocument (doc_of (jb_lib K) [(''w'', BInt32 1), (''j'', BBoolean True)])))"

section \<open>Lemmas\<close>

lemma suppressed_addSuppressed [simp]:
  "suppressed (addSuppressed t u) = suppressed t @ [u]" "thrown_kind (addSuppressed t u) = thrown_kind t"
  by (cases t; simp)+

lemma BridgeError_of_code: "BridgeError_of (BridgeError_code e) = Some e"
  by (cases e) (simp_all add: BridgeError_of_def)

lemma BridgeError_of_positive: "0 \<le> sint c \<Longrightarrow> BridgeError_of c = None"
  by (auto simp: BridgeError_of_def)

lemma documents_of_map [simp]: "documents_of (map BDocument ds) = ds"
  by (induction ds) auto

lemma documents_of_Nil_iff: "documents_of vs = [] \<longleftrightarrow> (\<forall>v\<in>set vs. as_document v = None)"
  by (induction vs) (auto split: option.splits)

lemma number_at_int: "kt_get K d k = Some (BInt32 i) \<Longrightarrow> number_at K d k = Some (JInt i)"
  by (simp add: number_at_def as_number_def)

lemma number_at_long: "kt_get K d k = Some (BInt64 i) \<Longrightarrow> number_at K d k = Some (JLong i)"
  by (simp add: number_at_def as_number_def)

text \<open>A number the bson crate takes for \<open>ok\<close> is the double Java reads.\<close>

lemma ok_value_number:
  assumes "\<And>n. kt_get K reply ''ok'' \<noteq> Some (BOther n)"
  shows "map_option toDouble (number_at K reply ''ok'') = ok_value (kt_get K reply ''ok'')"
  using assms
  by (cases "kt_get K reply ''ok''" rule: ok_value.cases) (auto simp: number_at_def as_number_def)

lemma durable_keys:
  assumes "bson_laws (jb_lib K)"
  shows "take 1 (doc_keys (jb_lib K) (durable K command)) = take 1 (doc_keys (jb_lib K) command)"
  using assms
  by (auto simp: durable_def bson_laws_keys split: list.splits)

lemma durable_get:
  assumes "bson_laws (jb_lib K)" and "k \<noteq> WRITE_CONCERN"
  shows "kt_get K (durable K command) k = kt_get K command k"
  using assms by (simp add: durable_def bson_laws_get)

lemma durable_idem: "bson_laws (jb_lib K) \<Longrightarrow> durable K (durable K command) = durable K command"
  by (simp add: durable_def contains_key_def bson_laws_get)

section \<open>Properties\<close>

lemma failure_of_details:
  assumes "\<And>v. kt_get K reply ''writeErrors'' = Some v \<Longrightarrow> \<exists>ds. v = BArray (map BDocument ds)"
    and "\<And>v. kt_get K reply ''writeConcernError'' = Some v \<Longrightarrow> \<exists>d. v = BDocument d"
  shows "failureDetails K reply = None \<longleftrightarrow>
      \<not> has_write_errors (kt_get K reply ''writeErrors'') \<and> \<not> contains_key (jb_lib K) reply ''writeConcernError''"
    and "server_error (jb_lib K) reply =
      (let details = unwrap_or reply (failureDetails K reply)
       in Server (int_code (kt_get K details ''code''))
            (unwrap_or ''MongoDB command failed'' (get_str (jb_lib K) details ''errmsg'')) reply)"
proof -
  have we: "get_array (jb_lib K) reply ''writeErrors'' = None \<and> \<not> has_write_errors (kt_get K reply ''writeErrors'') \<or>
      (\<exists>ds. get_array (jb_lib K) reply ''writeErrors'' = Some (map BDocument ds) \<and>
        has_write_errors (kt_get K reply ''writeErrors'') = (ds \<noteq> []))"
    using assms(1) by (cases "kt_get K reply ''writeErrors''") (fastforce simp: get_array_def)+
  have wc: "contains_key (jb_lib K) reply ''writeConcernError'' =
      (get_document (jb_lib K) reply ''writeConcernError'' \<noteq> None)"
    using assms(2) by (cases "kt_get K reply ''writeConcernError''") (auto simp: accessor_defs)
  show "failureDetails K reply = None \<longleftrightarrow>
      \<not> has_write_errors (kt_get K reply ''writeErrors'') \<and> \<not> contains_key (jb_lib K) reply ''writeConcernError''"
    using we wc by (auto simp: failureDetails_def or_else_def split: option.splits list.splits)
  show "server_error (jb_lib K) reply =
      (let details = unwrap_or reply (failureDetails K reply)
       in Server (int_code (kt_get K details ''code''))
            (unwrap_or ''MongoDB command failed'' (get_str (jb_lib K) details ''errmsg'')) reply)"
    using we by (auto simp: server_error_def failureDetails_def Let_def split: list.splits)
qed

lemma ucast_scast_i32: "ucast (scast (c :: i32) :: i64) = c"
  by transfer (simp add: take_bit_signed_take_bit)

text \<open>Java's reading of a code keeps the number the crate reads.\<close>

lemma code_number:
  "int_code (kt_get K d ''code'') = Some c \<Longrightarrow> map_option toInt (number_at K d ''code'') = Some (ucast c)"
  by (cases "kt_get K d ''code''" rule: int_code.cases) (auto simp: number_at_def as_number_def ucast_scast_i32)

text \<open>C31: The Kotlin and the Rust API agree on what a failed command is. On a reply of the shape
  MongoDB documents (\<open>ok\<close> not a decimal, \<open>writeErrors\<close> an array of documents and \<open>writeConcernError\<close> a
  document where they are present) both accept the reply, unchanged, or both refuse it; a
  refusal for want of an \<open>ok\<close> field is one in both, and any other carries the whole reply,
  the same message unless the reply has none, and the same code, as a 32-bit integer, where the
  crate reads one.\<close>

theorem replies_checked_alike:
  assumes "\<And>n. kt_get K reply ''ok'' \<noteq> Some (BOther n)"
    and "\<And>v. kt_get K reply ''writeErrors'' = Some v \<Longrightarrow> \<exists>ds. v = BArray (map BDocument ds)"
    and "\<And>v. kt_get K reply ''writeConcernError'' = Some v \<Longrightarrow> \<exists>d. v = BDocument d"
  shows "case (checkedReply K reply, validate_response (jb_lib K) reply) of
      (Inr d, Inr d') \<Rightarrow> d = reply \<and> d' = reply
    | (Inl t, Inl e) \<Rightarrow>
        (\<exists>m m'. t = raised_here m \<and> e = InvalidResponse m') \<or>
        (\<exists>m c m' c'. t = thrown (Embedded_mongo_exception m c (Some reply)) \<and> e = Server c' m' reply \<and>
           (m = m' \<or> m' = ''MongoDB command failed'') \<and> (\<forall>n. c' = Some n \<longrightarrow> c = ucast n))
    | _ \<Rightarrow> False"
proof (cases "ok_value (kt_get K reply ''ok'')")
  case None
  then show ?thesis
    using ok_value_number [OF assms(1)] by (simp add: checkedReply_def validate_response_def)
next
  case (Some ok)
  have details: "failureDetails K reply = None \<longleftrightarrow> \<not> has_write_errors (kt_get K reply ''writeErrors'') \<and>
      \<not> contains_key (jb_lib K) reply ''writeConcernError''"
    using assms(2,3) by (rule failure_of_details(1))
  have rust: "server_error (jb_lib K) reply =
      (let details = unwrap_or reply (failureDetails K reply)
       in Server (int_code (kt_get K details ''code''))
            (unwrap_or ''MongoDB command failed'' (get_str (jb_lib K) details ''errmsg'')) reply)"
    using assms(2,3) by (rule failure_of_details(2))
  have kotlin: "map_option toDouble (number_at K reply ''ok'') = Some ok"
    using ok_value_number [OF assms(1)] Some by simp
  define d where "d = unwrap_or reply (failureDetails K reply)"
  have "int_code (kt_get K d ''code'') = Some n \<Longrightarrow>
      unwrap_or NO_ERROR_CODE (map_option toInt (number_at K d ''code'')) = ucast n" for n
    using code_number [of K d n] by auto
  moreover have "unwrap_or x (get_str (jb_lib K) d ''errmsg'') = unwrap_or y (get_str (jb_lib K) d ''errmsg'') \<or>
      unwrap_or y (get_str (jb_lib K) d ''errmsg'') = y" for x y
    by (cases "get_str (jb_lib K) d ''errmsg''") auto
  ultimately show ?thesis
    unfolding checkedReply_def validate_response_def Some kotlin rust
    by (auto simp: details Let_def d_def [symmetric])
qed

definition plain_java :: "(adoc, adoc) java_bson" where
  "plain_java = \<lparr>jb_lib = alist_lib, jb_decimal = (\<lambda>n. None), jb_encode = Inr, jb_decode = Inr, jb_size = (\<lambda>b. 0)\<rparr>"

theorem replies_checked_alike_witness:
  "checkedReply plain_java (ADoc [(''ok'', BInt32 1), (''writeErrors'', BArray [BDocument
       (ADoc [(''code'', BInt32 11000), (''errmsg'', BString ''dup'')])])]) =
     Inl (thrown (Embedded_mongo_exception ''dup'' 11000 (Some (ADoc [(''ok'', BInt32 1),
       (''writeErrors'', BArray [BDocument (ADoc [(''code'', BInt32 11000), (''errmsg'', BString ''dup'')])])]))))"
proof -
  let ?r = "ADoc [(''ok'', BInt32 1), (''writeErrors'', BArray [BDocument
       (ADoc [(''code'', BInt32 11000), (''errmsg'', BString ''dup'')])])]"
  have rust: "validate_response alist_lib ?r = Inl (Server (Some 11000) ''dup'' ?r)"
    by (simp add: validate_response_def server_error_def alist_lib_def accessor_defs Let_def)
  have we: "\<exists>ds. v = BArray (map BDocument ds)" if "kt_get plain_java ?r ''writeErrors'' = Some v" for v
  proof -
    from that have "v = BArray (map BDocument [ADoc [(''code'', BInt32 11000), (''errmsg'', BString ''dup'')]])"
      by (simp add: plain_java_def alist_lib_def)
    then show ?thesis by blast
  qed
  have "case (checkedReply plain_java ?r, validate_response (jb_lib plain_java) ?r) of
      (Inr d, Inr d') \<Rightarrow> d = ?r \<and> d' = ?r
    | (Inl t, Inl e) \<Rightarrow>
        (\<exists>m m'. t = raised_here m \<and> e = InvalidResponse m') \<or>
        (\<exists>m c m' c'. t = thrown (Embedded_mongo_exception m c (Some ?r)) \<and> e = Server c' m' ?r \<and>
           (m = m' \<or> m' = ''MongoDB command failed'') \<and> (\<forall>n. c' = Some n \<longrightarrow> c = ucast n))
    | _ \<Rightarrow> False"
    by (rule replies_checked_alike) (fact we | simp add: plain_java_def alist_lib_def)+
  with rust show ?thesis by (auto simp: plain_java_def split: sum.splits)
qed

end
