(* ===== verification/Kotlin_Client.thy ===== *)
theory Kotlin_Client
  imports Kotlin_Base Android_Bridge Floors
begin

text \<open>
  The Android library \<open>android/embedded-mongodb\<close>: the limits an application names
  (\<open>StorageOptions.kt\<close>), the engine over the four native methods (\<open>Engine.kt\<close>, \<open>NativeBridge.kt\<close>), the
  database object (\<open>EmbeddedMongo.kt\<close>, \<open>MainThreadGuard.kt\<close>), the free-disk floors (\<open>FreeDiskFloor.kt\<close>,
  \<open>FreeDiskFloorAtOpen.kt\<close>), the check of the volume (\<open>Storage.kt\<close>) and opening (\<open>Opening.kt\<close>).

  An \<open>Engine\<close> is a record of functions of its state, so the database object works on the native
  engine and on a test's alike. Android's answers are arguments: whether the caller is on the main
  thread, whether the directory is one after \<open>mkdirs\<close>, how many bytes the volume can give. A
  coroutine's cancellation is an argument too, for an open with the point it arrives at. What the floor rules rely on of the engine is the locale
  \<open>kotlin_floor_engine\<close>, interpreted on the engine of the library's own tests.
\<close>

section \<open>Storage options\<close>

datatype CacheSize_kt = CacheSize_kt (cache_mebibytes: i32)
datatype JournalFileSize_kt = JournalFileSize_kt (journal_kibibytes: i32)
datatype JournalPreallocation = PREALLOC_ON | PREALLOC_OFF
datatype FreeDiskFloor_kt = FreeDiskFloor_kt (floor_mebibytes: i32)

fun JournalPreallocation_slot :: "JournalPreallocation \<Rightarrow> i64" where
  "JournalPreallocation_slot PREALLOC_ON = 1"
| "JournalPreallocation_slot PREALLOC_OFF = 2"

record StorageOptions =
  so_cacheSize :: "CacheSize_kt option"
  so_journalFileSize :: "JournalFileSize_kt option"
  so_journalPreallocation :: "JournalPreallocation option"
  so_freeDiskFloor :: "FreeDiskFloor_kt option"

definition inRange :: "string \<Rightarrow> string \<Rightarrow> i32 \<Rightarrow> i32 \<Rightarrow> i32 \<Rightarrow> 'd throwable + i32" where
  "inRange name unit v low high =
     (if sint low \<le> sint v \<and> sint v \<le> sint high then Inr v
      else Inl (thrown (Illegal_argument (name @ '' must be between '' @ show_int (sint low) @ '' and '' @
             show_int (sint high) @ '' '' @ unit @ '', got '' @ show_int (sint v)))))"

definition CacheSize_ofMebibytes :: "i32 \<Rightarrow> 'd throwable + CacheSize_kt" where
  "CacheSize_ofMebibytes mebibytes =
     map_ok CacheSize_kt (inRange ''cache size'' ''MiB'' mebibytes 1 10000000)"

definition JournalFileSize_ofKibibytes :: "i32 \<Rightarrow> 'd throwable + JournalFileSize_kt" where
  "JournalFileSize_ofKibibytes kibibytes =
     map_ok JournalFileSize_kt (inRange ''journal file size'' ''KiB'' kibibytes 100 (2 * 1024 * 1024))"

definition FreeDiskFloor_ofMebibytes :: "i32 \<Rightarrow> 'd throwable + FreeDiskFloor_kt" where
  "FreeDiskFloor_ofMebibytes mebibytes =
     map_ok FreeDiskFloor_kt (inRange ''free disk floor'' ''MiB'' mebibytes 1 0x7FFFFFFF)"

definition FreeDiskFloor_bytes :: "FreeDiskFloor_kt \<Rightarrow> i64" where
  "FreeDiskFloor_bytes floor = scast (floor_mebibytes floor) * BYTES_PER_MEBIBYTE"

text \<open>The limits a caller can have: each came out of its \<open>of\<close> function.\<close>

definition StorageOptions_wf :: "StorageOptions \<Rightarrow> bool" where
  "StorageOptions_wf options \<longleftrightarrow>
     (\<forall>c. so_cacheSize options = Some c \<longrightarrow> 1 \<le> sint (cache_mebibytes c) \<and> sint (cache_mebibytes c) \<le> 10000000) \<and>
     (\<forall>j. so_journalFileSize options = Some j \<longrightarrow>
        100 \<le> sint (journal_kibibytes j) \<and> sint (journal_kibibytes j) \<le> 2097152) \<and>
     (\<forall>f. so_freeDiskFloor options = Some f \<longrightarrow> 1 \<le> sint (floor_mebibytes f))"

section \<open>The engine behind the native methods\<close>

record ('e, 'd, 'b) engine_kt =
  eng_command :: "string \<Rightarrow> 'b \<Rightarrow> 'e \<Rightarrow> ('d throwable + 'b) \<times> 'e"
  eng_close :: "'e \<Rightarrow> ('d throwable + unit) \<times> 'e"

definition UNSET :: i64 where "UNSET = 0"
definition CLOSED :: i64 where "CLOSED = 0"

definition indexOfLast :: "('a \<Rightarrow> bool) \<Rightarrow> 'a list \<Rightarrow> int" where
  "indexOfLast P xs = int (length (dropWhile (\<lambda>x. \<not> P x) (rev xs))) - 1"

definition engineSlots :: "StorageOptions \<Rightarrow> i64 list" where
  "engineSlots options =
     (let slots = [unwrap_or UNSET (map_option (\<lambda>c. scast (cache_mebibytes c)) (so_cacheSize options)),
                   unwrap_or UNSET (map_option (\<lambda>j. scast (journal_kibibytes j)) (so_journalFileSize options)),
                   unwrap_or UNSET (map_option JournalPreallocation_slot (so_journalPreallocation options))]
      in take (nat (indexOfLast (\<lambda>s. s \<noteq> UNSET) slots + 1)) slots)"

text \<open>A native method as Kotlin sees it return or throw. \<open>pending\<close> is an exception the JVM had already
  raised; \<open>raised\<close> is how raising the bridge's own went.\<close>

record jvm =
  jvm_pending :: bool
  jvm_raised :: "string + unit"

fun exception_thrown :: "exception \<Rightarrow> 'd throwable" where
  "exception_thrown Already_pending = thrown (Other_throwable ''the exception already pending'')"
| "exception_thrown (EmbeddedMongoException m c) = thrown (Embedded_mongo_exception m c None)"
| "exception_thrown (RuntimeException m) = thrown (Other_throwable m)"

definition native_method :: "jvm \<Rightarrow> 'r body \<Rightarrow> 'd throwable + 'r" where
  "native_method vm body =
     (case resolve None (jvm_pending vm) (jvm_raised vm) (map_body Some body) of
        (r, None) \<Rightarrow> Inr (the r)
      | (_, Some x) \<Rightarrow> Inl (exception_thrown x))"

record 'c native_engine =
  ne_handle :: i64
  ne_registry :: "'c registry"

definition openHandle :: "'c native_engine \<Rightarrow> 'd throwable + i64" where
  "openHandle self =
     (if ne_handle self \<noteq> CLOSED then Inr (ne_handle self)
      else Inl (thrown (Illegal_state ''the embedded MongoDB database is closed'')))"

definition NativeEngine_command ::
  "(string, i64 list, 'b) jni_env \<Rightarrow> ('c, 'd) safe_client \<Rightarrow> jvm \<Rightarrow> string \<Rightarrow> 'b \<Rightarrow> 'c native_engine
     \<Rightarrow> ('d throwable + 'b) \<times> 'c native_engine" where
  "NativeEngine_command J S vm db command self =
     (and_then (openHandle self) (\<lambda>handle.
        native_method vm (Answers (bridge_run_command J S handle (Some db) (Some command) (ne_registry self)))),
      self)"

definition NativeEngine_close ::
  "('c, 'd) safe_client \<Rightarrow> jvm \<Rightarrow> 'c native_engine \<Rightarrow> ('d throwable + unit) \<times> 'c native_engine" where
  "NativeEngine_close S vm self =
     (let closing = ne_handle self; self' = self\<lparr>ne_handle := CLOSED\<rparr> in
      if closing \<noteq> CLOSED then
        let (r, reg) = bridge_close S closing (ne_registry self)
        in (native_method vm (Answers r), self'\<lparr>ne_registry := reg\<rparr>)
      else (Inr (), self'))"

definition NativeEngine ::
  "(string, i64 list, 'b) jni_env \<Rightarrow> ('c, 'd) safe_client \<Rightarrow> jvm \<Rightarrow> ('c native_engine, 'd, 'b) engine_kt" where
  "NativeEngine J S vm =
     \<lparr>eng_command = NativeEngine_command J S vm, eng_close = NativeEngine_close S vm\<rparr>"

definition NativeEngine_open ::
  "(string, i64 list, 'b) jni_env \<Rightarrow> ('c, 'd) safe_client \<Rightarrow> jvm \<Rightarrow> i64 \<Rightarrow> (string \<Rightarrow> string) \<Rightarrow> string
     \<Rightarrow> StorageOptions \<Rightarrow> 'c registry \<Rightarrow> ('d throwable + 'c native_engine) \<times> 'c registry" where
  "NativeEngine_open J S vm hash absolutePath directory options reg =
     (let path = absolutePath directory; slots = engineSlots options;
          (r, reg') = (if slots = [] then bridge_open J S hash (Some path) reg
                       else bridge_open_with_options J S hash (Some path) (Some slots) reg)
      in (map_ok (\<lambda>handle. \<lparr>ne_handle = handle, ne_registry = reg'\<rparr>) (native_method vm (Answers r)), reg'))"

section \<open>The database object\<close>

definition complaint :: "string \<Rightarrow> string" where
  "complaint operation = operation @ '' on the main thread blocks the UI for as long as the engine takes, which is '' @
     ''long enough to trigger an ANR. Call it from a background thread, or use the '' @
     ''suspending API, which dispatches onto the database thread.''"

definition guard_reject :: "bool \<Rightarrow> string \<Rightarrow> 'd throwable + unit" where
  "guard_reject main operation =
     (if \<not> main then Inr () else Inl (thrown (Illegal_state (complaint operation))))"

definition guard_warn :: "bool \<Rightarrow> string \<Rightarrow> string list" where
  "guard_warn main operation = (if \<not> main then [] else [complaint operation])"

record 'e EmbeddedMongo =
  em_engine :: 'e
  em_closed :: bool
  em_thread_down :: bool
  em_warnings :: "string list"

definition EmbeddedMongo_new :: "'e \<Rightarrow> 'e EmbeddedMongo" where
  "EmbeddedMongo_new engine =
     \<lparr>em_engine = engine, em_closed = False, em_thread_down = False, em_warnings = []\<rparr>"

definition checkOpen :: "'e EmbeddedMongo \<Rightarrow> 'd throwable + unit" where
  "checkOpen self =
     (if \<not> em_closed self then Inr ()
      else Inl (thrown (Illegal_state ''the embedded MongoDB database is closed'')))"

definition runCommandBlocking ::
  "('d, 'b) java_bson \<Rightarrow> ('e, 'd, 'b) engine_kt \<Rightarrow> bool \<Rightarrow> string \<Rightarrow> 'd \<Rightarrow> 'e EmbeddedMongo
     \<Rightarrow> ('d throwable + 'd) \<times> 'e EmbeddedMongo" where
  "runCommandBlocking K E main db command self =
     (case and_then (guard_reject main ''Running a MongoDB command'') (\<lambda>_.
           and_then (checkOpen self) (\<lambda>_. BsonCodec_encode K (durable K command))) of
        Inl t \<Rightarrow> (Inl t, self)
      | Inr encoded \<Rightarrow>
          (let (r, e') = eng_command E db encoded (em_engine self)
           in (and_then r (\<lambda>b. and_then (BsonCodec_decode K b) (checkedReply K)), self\<lparr>em_engine := e'\<rparr>)))"

text \<open>\<open>withContext\<close> starts nothing for a caller that is already cancelled, and drops the answer for one
  that is cancelled while the command runs.\<close>

datatype job = Active | Cancelled_before | Cancelled_during

definition runCommand_kt ::
  "('d, 'b) java_bson \<Rightarrow> ('e, 'd, 'b) engine_kt \<Rightarrow> job \<Rightarrow> string \<Rightarrow> 'd \<Rightarrow> 'e EmbeddedMongo
     \<Rightarrow> ('d throwable + 'd) \<times> 'e EmbeddedMongo" where
  "runCommand_kt K E job db command self =
     (case checkOpen self of
        Inl t \<Rightarrow> (Inl t, self)
      | Inr _ \<Rightarrow>
          (case job of
             Cancelled_before \<Rightarrow> (Inl (thrown Cancellation), self)
           | Cancelled_during \<Rightarrow>
               (Inl (thrown Cancellation), snd (runCommandBlocking K E False db command self))
           | Active \<Rightarrow> runCommandBlocking K E False db command self))"

definition EmbeddedMongo_close_kt ::
  "('e, 'd, 'b) engine_kt \<Rightarrow> bool \<Rightarrow> 'e EmbeddedMongo \<Rightarrow> ('d throwable + unit) \<times> 'e EmbeddedMongo" where
  "EmbeddedMongo_close_kt E main self =
     (let self1 = self\<lparr>em_warnings := em_warnings self @ guard_warn main ''Closing an embedded MongoDB database''\<rparr> in
      if em_closed self1 then (Inr (), self1)
      else let (r, e') = eng_close E (em_engine self1)
           in (r, self1\<lparr>em_closed := True, em_engine := e', em_thread_down := True\<rparr>))"

section \<open>The free-disk floors\<close>

text \<open>A command to \<open>admin\<close> on a database. The floors reported are the pair of the Rust crate, one number in
  the unit of each knob.\<close>

type_synonym ('s, 'd) admin_kt = "'s \<Rightarrow> 'd \<Rightarrow> ('d throwable + 'd) \<times> 's"

definition index_build_knob :: "('d, 'b) java_bson \<Rightarrow> i64 \<Rightarrow> 'd" where
  "index_build_knob K n = doc_of (jb_lib K) [(''setParameter'', BInt32 1), (INDEX_BUILD_FLOOR, BInt64 n)]"

definition spilling_knob :: "('d, 'b) java_bson \<Rightarrow> i64 \<Rightarrow> 'd" where
  "spilling_knob K n = doc_of (jb_lib K) [(''setParameter'', BInt32 1), (QUERY_SPILLING_FLOOR, BInt64 n)]"

definition reported_commands_kt :: "('d, 'b) java_bson \<Rightarrow> ReportedFloors \<Rightarrow> 'd list" where
  "reported_commands_kt K floors =
     [index_build_knob K (IndexBuildFloor_mebibytes (rf_index_build floors)),
      spilling_knob K (QuerySpillingFloor_bytes (rf_query_spilling floors))]"

definition freeDiskFloorCommands :: "('d, 'b) java_bson \<Rightarrow> FreeDiskFloor_kt \<Rightarrow> 'd list" where
  "freeDiskFloorCommands K floor =
     [index_build_knob K (scast (floor_mebibytes floor)), spilling_knob K (FreeDiskFloor_bytes floor)]"

definition reportedFloorsCommand :: "('d, 'b) java_bson \<Rightarrow> 'd" where
  "reportedFloorsCommand K =
     doc_of (jb_lib K) [(''getParameter'', BInt32 1), (INDEX_BUILD_FLOOR, BInt32 1), (QUERY_SPILLING_FLOOR, BInt32 1)]"

definition floorOf :: "('d, 'b) java_bson \<Rightarrow> 'd \<Rightarrow> string \<Rightarrow> 'd throwable + i64" where
  "floorOf K reply name = ok_or (raised_here (''getParameter has no '' @ name)) (longOrNull K reply name)"

definition reportedFloors :: "('d, 'b) java_bson \<Rightarrow> 'd \<Rightarrow> 'd throwable + ReportedFloors" where
  "reportedFloors K reply =
     and_then (floorOf K reply INDEX_BUILD_FLOOR) (\<lambda>i.
     and_then (floorOf K reply QUERY_SPILLING_FLOOR) (\<lambda>q.
       Inr (ReportedFloors_new (IndexBuildFloor i) (QuerySpillingFloor q))))"

fun send_all :: "('s, 'd) admin_kt \<Rightarrow> 'd list \<Rightarrow> 's \<Rightarrow> ('d throwable + unit) \<times> 's" where
  "send_all run [] self = (Inr (), self)"
| "send_all run (knob # knobs) self =
     (case run self knob of
        (Inl t, self') \<Rightarrow> (Inl t, self')
      | (Inr _, self') \<Rightarrow> send_all run knobs self')"

definition freeDiskFloors ::
  "('d, 'b) java_bson \<Rightarrow> ('s, 'd) admin_kt \<Rightarrow> 's \<Rightarrow> ('d throwable + ReportedFloors) \<times> 's" where
  "freeDiskFloors K run self =
     (let (r, self') = run self (reportedFloorsCommand K) in (and_then r (reportedFloors K), self'))"

definition restore ::
  "('d, 'b) java_bson \<Rightarrow> ('s, 'd) admin_kt \<Rightarrow> ReportedFloors \<Rightarrow> 'd throwable \<Rightarrow> 's \<Rightarrow> 'd throwable \<times> 's" where
  "restore K run before failure self =
     (case send_all run (reported_commands_kt K before) self of
        (Inl restoring, self') \<Rightarrow> (addSuppressed failure restoring, self')
      | (Inr _, self') \<Rightarrow> (failure, self'))"

definition setFreeDiskFloor ::
  "('d, 'b) java_bson \<Rightarrow> ('s, 'd) admin_kt \<Rightarrow> FreeDiskFloor_kt \<Rightarrow> 's \<Rightarrow> ('d throwable + unit) \<times> 's" where
  "setFreeDiskFloor K run floor self =
     (case freeDiskFloors K run self of
        (Inl t, self1) \<Rightarrow> (Inl t, self1)
      | (Inr before, self1) \<Rightarrow>
          (case send_all run (freeDiskFloorCommands K floor) self1 of
             (Inr _, self2) \<Rightarrow> (Inr (), self2)
           | (Inl failure, self2) \<Rightarrow>
               (let (failure', self3) = restore K run before failure self2 in (Inl failure', self3))))"

definition restoreFreeDiskFloors ::
  "('d, 'b) java_bson \<Rightarrow> ('s, 'd) admin_kt \<Rightarrow> ReportedFloors \<Rightarrow> 's \<Rightarrow> ('d throwable + unit) \<times> 's" where
  "restoreFreeDiskFloors K run floors self = send_all run (reported_commands_kt K floors) self"

text \<open>\<open>EngineFloorDefaults\<close>: the floors recorded for the process are passed along.\<close>

definition EngineFloorDefaults_of_kt ::
  "('d, 'b) java_bson \<Rightarrow> ('s, 'd) admin_kt \<Rightarrow> ReportedFloors option \<Rightarrow> 's
     \<Rightarrow> ('d throwable + ReportedFloors) \<times> ReportedFloors option \<times> 's" where
  "EngineFloorDefaults_of_kt K run recorded self =
     (case recorded of
        Some floors \<Rightarrow> (Inr floors, recorded, self)
      | None \<Rightarrow>
          (case freeDiskFloors K run self of
             (Inl t, self') \<Rightarrow> (Inl t, None, self')
           | (Inr floors, self') \<Rightarrow> (Inr floors, Some floors, self')))"

definition establish_attempt ::
  "('d, 'b) java_bson \<Rightarrow> ('s, 'd) admin_kt \<Rightarrow> FreeDiskFloor_kt option \<Rightarrow> ReportedFloors option \<Rightarrow> 's
     \<Rightarrow> ('d throwable + unit) \<times> ReportedFloors option \<times> 's" where
  "establish_attempt K run requested recorded self =
     (case EngineFloorDefaults_of_kt K run recorded self of
        (Inl t, recorded', self1) \<Rightarrow> (Inl t, recorded', self1)
      | (Inr engineOwn, recorded', self1) \<Rightarrow>
          (let (r, self2) = (case requested of
               None \<Rightarrow> restoreFreeDiskFloors K run engineOwn self1
             | Some floor \<Rightarrow> setFreeDiskFloor K run floor self1)
           in (r, recorded', self2)))"

definition establishFreeDiskFloor ::
  "('d, 'b) java_bson \<Rightarrow> ('s, 'd) admin_kt \<Rightarrow> ('s \<Rightarrow> ('d throwable + unit) \<times> 's) \<Rightarrow> FreeDiskFloor_kt option
     \<Rightarrow> ReportedFloors option \<Rightarrow> 's \<Rightarrow> ('d throwable + unit) \<times> ReportedFloors option \<times> 's" where
  "establishFreeDiskFloor K run close requested recorded self =
     (case establish_attempt K run requested recorded self of
        (Inr _, recorded', self') \<Rightarrow> (Inr (), recorded', self')
      | (Inl failure, recorded', self') \<Rightarrow>
          (case close self' of
             (Inl closing, self'') \<Rightarrow> (Inl (addSuppressed failure closing), recorded', self'')
           | (Inr _, self'') \<Rightarrow> (Inl failure, recorded', self'')))"

section \<open>Room on the volume\<close>

definition DEFAULT_REQUIRED_FREE_BYTES :: i64 where
  "DEFAULT_REQUIRED_FREE_BYTES = 256 * BYTES_PER_MEBIBYTE"

definition DEFAULT_JOURNAL_KIBIBYTES :: i32 where "DEFAULT_JOURNAL_KIBIBYTES = 8 * 1024"

definition OPEN_MARGIN_BYTES :: i64 where "OPEN_MARGIN_BYTES = BYTES_PER_MEBIBYTE"

definition max_i64 :: "i64 \<Rightarrow> i64 \<Rightarrow> i64" where
  "max_i64 a b = (if sint b \<le> sint a then a else b)"

definition min_i64 :: "i64 \<Rightarrow> i64 \<Rightarrow> i64" where
  "min_i64 a b = (if sint a \<le> sint b then a else b)"

definition bytesToOpen :: "StorageOptions \<Rightarrow> i64" where
  "bytesToOpen options =
     (let kibibytes = unwrap_or DEFAULT_JOURNAL_KIBIBYTES (map_option journal_kibibytes (so_journalFileSize options));
          files = (if so_journalPreallocation options = Some PREALLOC_ON then 2 else 1)
      in scast kibibytes * 1024 * files + OPEN_MARGIN_BYTES)"

definition requiredFreeBytes :: "StorageOptions \<Rightarrow> i64" where
  "requiredFreeBytes options =
     max_i64 (bytesToOpen options)
       (min_i64 DEFAULT_REQUIRED_FREE_BYTES
          (unwrap_or DEFAULT_REQUIRED_FREE_BYTES (map_option FreeDiskFloor_bytes (so_freeDiskFloor options))))"

definition checkAllocatable :: "i64 \<Rightarrow> StorageOptions \<Rightarrow> 'd throwable + unit" where
  "checkAllocatable allocatable options =
     (let required = requiredFreeBytes options in
      if sint required \<le> sint allocatable then Inr ()
      else Inl (thrown (Insufficient_storage allocatable required)))"

definition checkStorage :: "i64 option \<Rightarrow> StorageOptions \<Rightarrow> 'd throwable + unit" where
  "checkStorage allocatable options =
     (case allocatable of None \<Rightarrow> Inr () | Some n \<Rightarrow> checkAllocatable n options)"

section \<open>Opening\<close>

text \<open>What Android and the process answer to an open: the main thread, the directory after \<open>mkdirs\<close>,
  the volume (\<open>None\<close> when the platform will not say; \<open>None\<close> of the outer option for the overload that
  does not ask) and the absolute path.\<close>

record android =
  an_main :: bool
  an_is_directory :: "string \<Rightarrow> bool"
  an_allocatable :: "string \<Rightarrow> i64 option option"
  an_absolute :: "string \<Rightarrow> string"
  an_hash :: i64
  an_jvm :: jvm

definition prepare :: "android \<Rightarrow> string \<Rightarrow> 'd throwable + unit" where
  "prepare A directory =
     (if an_is_directory A directory then Inr ()
      else Inl (thrown (Illegal_argument (directory @
             '' cannot hold a database: it exists and is not a directory''))))"

definition admin_of ::
  "('d, 'b) java_bson \<Rightarrow> ('e, 'd, 'b) engine_kt \<Rightarrow> bool \<Rightarrow> ('e EmbeddedMongo, 'd) admin_kt" where
  "admin_of K E main self command = runCommandBlocking K E main ''admin'' command self"

definition opened_kt ::
  "('d, 'b) java_bson \<Rightarrow> (string, i64 list, 'b) jni_env \<Rightarrow> ('c, 'd) safe_client \<Rightarrow> android \<Rightarrow> string
     \<Rightarrow> StorageOptions \<Rightarrow> ReportedFloors option \<Rightarrow> 'c registry
     \<Rightarrow> ('d throwable + 'c native_engine EmbeddedMongo) \<times> ReportedFloors option \<times> 'c registry" where
  "opened_kt K J S A directory options recorded reg =
     (case NativeEngine_open J S (an_jvm A) (an_hash A) (an_absolute A) directory options reg of
        (Inl t, reg1) \<Rightarrow> (Inl t, recorded, reg1)
      | (Inr engine, reg1) \<Rightarrow>
          (let E = NativeEngine J S (an_jvm A);
               (r, recorded', self) = establishFreeDiskFloor K (admin_of K E (an_main A))
                  (EmbeddedMongo_close_kt E (an_main A)) (so_freeDiskFloor options) recorded
                  (EmbeddedMongo_new engine)
           in (map_ok (\<lambda>_. self) r, recorded', ne_registry (em_engine self))))"

definition openBlocking ::
  "('d, 'b) java_bson \<Rightarrow> (string, i64 list, 'b) jni_env \<Rightarrow> ('c, 'd) safe_client \<Rightarrow> android \<Rightarrow> string
     \<Rightarrow> StorageOptions \<Rightarrow> ReportedFloors option \<Rightarrow> 'c registry
     \<Rightarrow> ('d throwable + 'c native_engine EmbeddedMongo) \<times> ReportedFloors option \<times> 'c registry" where
  "openBlocking K J S A directory options recorded reg =
     (case and_then (guard_reject (an_main A) ''Opening an embedded MongoDB database'') (\<lambda>_.
           and_then (prepare A directory) (\<lambda>_.
             case an_allocatable A directory of
               None \<Rightarrow> Inr ()
             | Some allocatable \<Rightarrow> checkStorage allocatable options)) of
        Inl t \<Rightarrow> (Inl t, recorded, reg)
      | Inr _ \<Rightarrow> opened_kt K J S A directory options recorded reg)"

text \<open>
  The suspending open. Its caller stays, or is cancelled by the time the engine is up, which
  \<open>ensureActive\<close> sees, or is cancelled after that and before it resumes: the block runs on another
  dispatcher, so \<open>withContext\<close> resumes its caller by a dispatch that drops a value for a caller
  cancelled by then, \<open>NonCancellable\<close> or not (an exception it delivers).
\<close>

datatype open_caller = Stays | Cancelled_starting | Cancelled_resuming

definition openedOrClosed ::
  "('e, 'd, 'b) engine_kt \<Rightarrow> open_caller \<Rightarrow> 'd throwable + 'e EmbeddedMongo
     \<Rightarrow> ('d throwable + 'e EmbeddedMongo) \<times> 'e EmbeddedMongo option" where
  "openedOrClosed E caller r =
     (case r of
        Inl t \<Rightarrow> (Inl t, None)
      | Inr database \<Rightarrow>
          (case caller of
             Stays \<Rightarrow> (Inr database, Some database)
           | Cancelled_starting \<Rightarrow>
               (case EmbeddedMongo_close_kt E False database of
                  (Inl closing, database') \<Rightarrow> (Inl (addSuppressed (thrown Cancellation) closing), Some database')
                | (Inr _, database') \<Rightarrow> (Inl (thrown Cancellation), Some database'))
           | Cancelled_resuming \<Rightarrow> (Inl (thrown Cancellation), Some database)))"

definition open_kt ::
  "('d, 'b) java_bson \<Rightarrow> (string, i64 list, 'b) jni_env \<Rightarrow> ('c, 'd) safe_client \<Rightarrow> android \<Rightarrow> open_caller \<Rightarrow> string
     \<Rightarrow> StorageOptions \<Rightarrow> ReportedFloors option \<Rightarrow> 'c registry
     \<Rightarrow> ('d throwable + 'c native_engine EmbeddedMongo) \<times> ReportedFloors option \<times> 'c registry" where
  "open_kt K J S A caller directory options recorded reg =
     (let (r, recorded', reg1) = openBlocking K J S (A\<lparr>an_main := False\<rparr>) directory options recorded reg;
          (r', database) = openedOrClosed (NativeEngine J S (an_jvm A)) caller r
      in (r', recorded', case database of None \<Rightarrow> reg1 | Some self \<Rightarrow> ne_registry (em_engine self)))"

section \<open>What the floor rules rely on\<close>

locale kotlin_floor_engine =
  fixes K :: "('d, 'b) java_bson"
    and run :: "('s, 'd) admin_kt"
    and in_force :: "'s \<Rightarrow> ReportedFloors"
  assumes kt_read_keeps: "run self (reportedFloorsCommand K) = (r, self') \<Longrightarrow> in_force self' = in_force self"
    and kt_read: "run self (reportedFloorsCommand K) = (Inr reply, self') \<Longrightarrow>
      reportedFloors K reply = Inr floors \<Longrightarrow> floors = in_force self"
    and kt_set_index_build: "run self (index_build_knob K n) = (r, self') \<Longrightarrow>
      in_force self' = (case r of Inl _ \<Rightarrow> in_force self
        | Inr _ \<Rightarrow> (in_force self)\<lparr>rf_index_build := IndexBuildFloor n\<rparr>)"
    and kt_set_spilling: "run self (spilling_knob K n) = (r, self') \<Longrightarrow>
      in_force self' = (case r of Inl _ \<Rightarrow> in_force self
        | Inr _ \<Rightarrow> (in_force self)\<lparr>rf_query_spilling := QuerySpillingFloor n\<rparr>)"
begin

lemma kt_reported:
  assumes "freeDiskFloors K run self = (r, self')"
  shows "in_force self' = in_force self" and "r = Inr floors \<Longrightarrow> floors = in_force self"
  using assms kt_read_keeps [of self] kt_read [of self]
  by (auto simp: freeDiskFloors_def and_then_Inr_iff split: prod.splits)

text \<open>Both knobs, or the first of them, or neither.\<close>

lemma kt_sent:
  assumes "send_all run [index_build_knob K i, spilling_knob K q] self = (r, self')"
  shows "r = Inr () \<Longrightarrow> in_force self' = ReportedFloors_new (IndexBuildFloor i) (QuerySpillingFloor q)"
    and "r \<noteq> Inr () \<Longrightarrow> in_force self' = in_force self \<or>
      in_force self' = (in_force self)\<lparr>rf_index_build := IndexBuildFloor i\<rparr>"
proof -
  obtain r1 s1 where one: "run self (index_build_knob K i) = (r1, s1)" by fastforce
  obtain r2 s2 where two: "run s1 (spilling_knob K q) = (r2, s2)" by fastforce
  from assms one two kt_set_index_build [OF one] kt_set_spilling [OF two]
  show "r = Inr () \<Longrightarrow> in_force self' = ReportedFloors_new (IndexBuildFloor i) (QuerySpillingFloor q)"
    and "r \<noteq> Inr () \<Longrightarrow> in_force self' = in_force self \<or>
      in_force self' = (in_force self)\<lparr>rf_index_build := IndexBuildFloor i\<rparr>"
    by (cases r1; cases r2; auto simp: ReportedFloors_new_def)+
qed

lemma kt_restored:
  assumes "restore K run before failure self = (failure', self')"
  shows "failure' = failure \<Longrightarrow> in_force self' = before" and "\<exists>ts. suppressed failure' = suppressed failure @ ts"
proof -
  obtain r s where r: "send_all run (reported_commands_kt K before) self = (r, s)" by fastforce
  have eta: "ReportedFloors_new (IndexBuildFloor (IndexBuildFloor_mebibytes (rf_index_build before)))
      (QuerySpillingFloor (QuerySpillingFloor_bytes (rf_query_spilling before))) = before"
    by (cases before; cases "rf_index_build before"; cases "rf_query_spilling before") (auto simp: ReportedFloors_new_def)
  have grown: "addSuppressed failure t \<noteq> failure" for t
    by (cases failure) auto
  show "failure' = failure \<Longrightarrow> in_force self' = before" and "\<exists>ts. suppressed failure' = suppressed failure @ ts"
    using assms r kt_sent(1) [OF r [unfolded reported_commands_kt_def]] eta grown
    by (auto simp: restore_def split: sum.splits)
qed

lemma kt_moved:
  assumes "setFreeDiskFloor K run floor self = (r, self')"
  shows "r = Inr () \<Longrightarrow> in_force self' =
      ReportedFloors_new (IndexBuildFloor (scast (floor_mebibytes floor))) (QuerySpillingFloor (FreeDiskFloor_bytes floor))"
    and "r = Inl t \<Longrightarrow> in_force self' = in_force self \<or>
      (\<exists>t0 self0 t1 self1. send_all run (reported_commands_kt K (in_force self)) self0 = (Inl t1, self1) \<and> t = addSuppressed t0 t1)"
proof -
  obtain b s1 where b: "freeDiskFloors K run self = (b, s1)" by fastforce
  obtain m s2 where m: "send_all run (freeDiskFloorCommands K floor) s1 = (m, s2)" by fastforce
  note read = kt_reported [OF b] and sent = kt_sent [OF m [unfolded freeDiskFloorCommands_def]]
  show "r = Inr () \<Longrightarrow> in_force self' =
      ReportedFloors_new (IndexBuildFloor (scast (floor_mebibytes floor))) (QuerySpillingFloor (FreeDiskFloor_bytes floor))"
    using assms b m sent(1) by (auto simp: setFreeDiskFloor_def split: sum.splits prod.splits)
  assume t: "r = Inl t"
  show "in_force self' = in_force self \<or>
      (\<exists>t0 self0 t1 self1. send_all run (reported_commands_kt K (in_force self)) self0 = (Inl t1, self1) \<and> t = addSuppressed t0 t1)"
  proof (cases b)
    case (Inl e)
    with assms b read(1) show ?thesis by (auto simp: setFreeDiskFloor_def)
  next
    case (Inr before)
    then have before: "before = in_force self" by (rule read(2))
    from assms b m t Inr obtain failure where f: "m = Inl failure" by (cases m) (auto simp: setFreeDiskFloor_def)
    obtain p s3 where p: "send_all run (reported_commands_kt K before) s2 = (p, s3)" by fastforce
    with assms b m t Inr f have "self' = s3" "t = (case p of Inl t1 \<Rightarrow> addSuppressed failure t1 | Inr _ \<Rightarrow> failure)"
      by (auto simp: setFreeDiskFloor_def restore_def split: sum.splits)
    moreover have "p = Inr () \<Longrightarrow> in_force s3 = before"
      using kt_restored(1) [of before failure s2 failure s3] p by (simp add: restore_def)
    ultimately show ?thesis using before p by (cases p) auto
  qed
qed

text \<open>What an open establishes, and what it records.\<close>

lemma kt_established:
  assumes "establish_attempt K run requested recorded self = (r, recorded', self')"
  shows "r = Inr () \<Longrightarrow> recorded' \<noteq> None \<and> in_force self' =
      (case requested of None \<Rightarrow> the recorded'
       | Some floor \<Rightarrow> ReportedFloors_new (IndexBuildFloor (scast (floor_mebibytes floor)))
           (QuerySpillingFloor (FreeDiskFloor_bytes floor)))"
    and "recorded' = (case recorded of Some f \<Rightarrow> Some f | None \<Rightarrow> recorded')"
    and "recorded = None \<Longrightarrow> recorded' = Some f \<Longrightarrow> f = in_force self"
proof -
  obtain d recorded1 s1 where d: "EngineFloorDefaults_of_kt K run recorded self = (d, recorded1, s1)" by (metis surj_pair)
  obtain q s2 where q: "freeDiskFloors K run self = (q, s2)" by fastforce
  have rec: "recorded' = recorded1"
    using assms d by (auto simp: establish_attempt_def split: sum.splits prod.splits)
  show "recorded' = (case recorded of Some f \<Rightarrow> Some f | None \<Rightarrow> recorded')"
    using d rec by (auto simp: EngineFloorDefaults_of_kt_def split: option.splits)
  show "recorded = None \<Longrightarrow> recorded' = Some f \<Longrightarrow> f = in_force self"
    using d rec q kt_reported(2) [OF q] by (auto simp: EngineFloorDefaults_of_kt_def split: sum.splits)
  show "recorded' \<noteq> None \<and> in_force self' =
      (case requested of None \<Rightarrow> the recorded'
       | Some floor \<Rightarrow> ReportedFloors_new (IndexBuildFloor (scast (floor_mebibytes floor)))
           (QuerySpillingFloor (FreeDiskFloor_bytes floor)))" if ok: "r = Inr ()"
  proof -
    from assms d ok obtain own where own: "d = Inr own" by (cases d) (auto simp: establish_attempt_def)
    with d have "recorded1 = Some own"
      by (auto simp: EngineFloorDefaults_of_kt_def split: option.splits sum.splits prod.splits)
    moreover have "in_force self' = own" if "requested = None"
      using assms d own ok that kt_restored(1) [of own "thrown Cancellation" s1 "thrown Cancellation" self']
      by (auto simp: establish_attempt_def restoreFreeDiskFloors_def restore_def split: prod.splits)
    moreover have "in_force self' = ReportedFloors_new (IndexBuildFloor (scast (floor_mebibytes floor)))
           (QuerySpillingFloor (FreeDiskFloor_bytes floor))" if "requested = Some floor" for floor
      using assms d own ok that kt_moved(1) [of floor s1 "Inr ()" self']
      by (auto simp: establish_attempt_def split: prod.splits)
    ultimately show ?thesis using rec by (cases requested) auto
  qed
qed

end

section \<open>What a call leaves alone\<close>

text \<open>What every command keeps, reading and moving the floors keeps.\<close>

locale kept_by_commands =
  fixes run :: "('s, 'd) admin_kt" and P :: "'s \<Rightarrow> bool"
  assumes command_keeps: "run self command = (r, self') \<Longrightarrow> P self \<Longrightarrow> P self'"
begin

lemma send_all_keeps: "send_all run knobs self = (r, self') \<Longrightarrow> P self \<Longrightarrow> P self'"
  by (induction knobs arbitrary: self)
    (auto split: prod.splits sum.splits dest: command_keeps)

lemma freeDiskFloors_keeps: "freeDiskFloors K run self = (r, self') \<Longrightarrow> P self \<Longrightarrow> P self'"
  by (auto simp: freeDiskFloors_def split: prod.splits dest: command_keeps)

lemma restore_keeps: "restore K run before failure self = (t, self') \<Longrightarrow> P self \<Longrightarrow> P self'"
  by (auto simp: restore_def split: prod.splits sum.splits dest: send_all_keeps)

lemma setFreeDiskFloor_keeps: "setFreeDiskFloor K run floor self = (r, self') \<Longrightarrow> P self \<Longrightarrow> P self'"
  by (auto simp: setFreeDiskFloor_def split: prod.splits sum.splits
      dest: send_all_keeps freeDiskFloors_keeps restore_keeps)

lemma defaults_keep: "EngineFloorDefaults_of_kt K run recorded self = (r, recorded', self') \<Longrightarrow> P self \<Longrightarrow> P self'"
  by (auto simp: EngineFloorDefaults_of_kt_def split: option.splits prod.splits sum.splits dest: freeDiskFloors_keeps)

lemma establish_attempt_keeps:
  "establish_attempt K run requested recorded self = (r, recorded', self') \<Longrightarrow> P self \<Longrightarrow> P self'"
  by (auto simp: establish_attempt_def restoreFreeDiskFloors_def split: option.splits prod.splits sum.splits
      dest: defaults_keep send_all_keeps setFreeDiskFloor_keeps)

text \<open>An attempt that fails is followed by a close of what it kept.\<close>

lemma establish_cases:
  assumes "establishFreeDiskFloor K run close requested recorded self = (r, recorded', self')" and "P self"
  shows "case r of
      Inr _ \<Rightarrow> P self' \<and> establish_attempt K run requested recorded self = (Inr (), recorded', self')
    | Inl t \<Rightarrow> \<exists>failure self1 c. establish_attempt K run requested recorded self = (Inl failure, recorded', self1) \<and>
        P self1 \<and> close self1 = (c, self') \<and> t = (case c of Inl closing \<Rightarrow> addSuppressed failure closing | Inr _ \<Rightarrow> failure)"
proof -
  obtain a recorded1 s1 where a: "establish_attempt K run requested recorded self = (a, recorded1, s1)" by (metis surj_pair)
  from establish_attempt_keeps [OF a assms(2)] assms(1) a show ?thesis
    by (cases a; cases "close s1"; cases "fst (close s1)") (auto simp: establishFreeDiskFloor_def)
qed

end

lemma run_keeps_native:
  assumes "runCommandBlocking K (NativeEngine J S vm) main db command self = (r, self')"
  shows "self' = self"
  using assms
  by (auto simp: runCommandBlocking_def NativeEngine_def NativeEngine_command_def split: sum.splits prod.splits)

interpretation native_frame:
  kept_by_commands "admin_of K (NativeEngine J S vm) main" "\<lambda>self. self = self0"
  for K :: "('d, 'b) java_bson" and J :: "(string, i64 list, 'b) jni_env" and S :: "('c, 'd) safe_client" and vm main self0
  by unfold_locales (auto simp: admin_of_def dest: run_keeps_native)

section \<open>The handle of an open\<close>

lemma bridge_issue_cases:
  assumes "bridge_issue S hash p options reg = (r, reg')"
  shows "case r of
      Inl _ \<Rightarrow> rg_entries reg' = rg_entries reg \<and> rg_heap reg' = rg_heap reg
    | Inr handle \<Rightarrow> \<exists>client hid. client_open S p options = Inr client \<and>
        Registry_insert hash client reg = (Some hid, reg') \<and> handle = HandleId_get hid"
  using assms
  by (auto simp: bridge_issue_def Registry_issue_def Registry_insert_def map_err_def
      split: sum.splits prod.splits option.splits)

lemma native_method_answers [simp]:
  "native_method vm (Answers (Inr r)) = Inr r"
  "native_method vm (Answers (Inl e)) = Inl (exception_thrown (throw (jvm_pending vm) (jvm_raised vm) e))"
  by (simp_all add: native_method_def resolve_def)

text \<open>Every open is one of the two entry points, with the options it takes.\<close>

lemma NativeEngine_open_cases:
  assumes "NativeEngine_open J S vm hash absolutePath directory options reg = (r, reg')"
  shows "case r of
      Inl _ \<Rightarrow> rg_entries reg' = rg_entries reg \<and> rg_heap reg' = rg_heap reg
    | Inr engine \<Rightarrow> \<exists>p o' client hid. jni_string J (absolutePath directory) = Inr p \<and>
        (if engineSlots options = [] then o' = None
         else \<exists>slots opts. read_slots J (Some (engineSlots options)) = Inr slots \<and> open_options slots = Inr opts \<and> o' = Some opts) \<and>
        client_open S p o' = Inr client \<and> Registry_insert hash client reg = (Some hid, reg') \<and>
        engine = \<lparr>ne_handle = HandleId_get hid, ne_registry = reg'\<rparr>"
proof -
  obtain b where b: "(if engineSlots options = [] then bridge_open J S hash (Some (absolutePath directory)) reg
      else bridge_open_with_options J S hash (Some (absolutePath directory)) (Some (engineSlots options)) reg) = (b, reg')"
    "r = map_ok (\<lambda>handle. \<lparr>ne_handle = handle, ne_registry = reg'\<rparr>) (native_method vm (Answers b))"
    using assms by (auto simp: NativeEngine_open_def Let_def split: prod.splits)
  show ?thesis
  proof (cases "engineSlots options = []")
    case True
    with b bridge_issue_cases [of S hash _ None reg b reg'] show ?thesis
      by (cases "jni_string J (absolutePath directory)"; cases b) (fastforce simp: bridge_open_def)+
  next
    case False
    let ?a = "and_then (from_jni (jni_string J (absolutePath directory))) (\<lambda>p.
             and_then (read_slots J (Some (engineSlots options))) (\<lambda>slots.
               and_then (open_options slots) (\<lambda>opts. Inr (p, opts))))"
    show ?thesis
    proof (cases ?a)
      case (Inl e)
      with False b show ?thesis by (auto simp: bridge_open_with_options_def)
    next
      case (Inr po)
      obtain p opts where po: "po = (p, opts)" by fastforce
      with Inr obtain slots where "jni_string J (absolutePath directory) = Inr p"
          "read_slots J (Some (engineSlots options)) = Inr slots" "open_options slots = Inr opts"
        by (cases "jni_string J (absolutePath directory)") (auto simp: and_then_Inr_iff)
      with False b Inr po bridge_issue_cases [of S hash p "Some opts" reg b reg'] show ?thesis
        by (cases b) (auto simp: bridge_open_with_options_def)
    qed
  qed
qed

text \<open>Closing the database takes the entry of its handle out of the registry.\<close>

lemma close_takes_out:
  assumes "Registry_insert hash client reg = (Some hid, reg1)" and "map_of (rg_entries reg) hid = None"
    and "HandleId_new (HandleId_get hid) = Some hid"
    and "em_engine self = \<lparr>ne_handle = HandleId_get hid, ne_registry = reg1\<rparr>" and "\<not> em_closed self"
    and "EmbeddedMongo_close_kt (NativeEngine J S vm) main self = (c, self')"
  shows "em_closed self' \<and> em_thread_down self' \<and> ne_handle (em_engine self') = CLOSED \<and>
    map_of (rg_entries (ne_registry (em_engine self'))) = map_of (rg_entries reg) \<and>
    rg_heap (ne_registry (em_engine self')) = rg_heap reg @ [None] \<and>
    c = native_method vm (Answers (EmbeddedClient_close S client))"
proof -
  have id: "handle_id (HandleId_get hid) = Inr hid" using assms(3) by (simp add: handle_id_def)
  have nz: "HandleId_get hid \<noteq> CLOSED"
    using assms(3) by (auto simp: HandleId_new_def CLOSED_def split: if_splits)
  note ins = insert_resolves [OF assms(1)]
  obtain d reg2 where d: "Registry_close (EmbeddedClient_close S) hid reg1 = (d, reg2)" by fastforce
  then have gone: "d = EmbeddedClient_close S client" "rg_entries reg2 = AList.delete hid (rg_entries reg1)"
      "rg_heap reg2 = rg_heap reg @ [None]"
    using ins by (auto simp: Registry_close_def Registry_remove_def Entry_take_def)
  have "rg_entries reg1 = AList.update hid (length (rg_heap reg)) (rg_entries reg)"
    using assms(1) by (auto simp: Registry_insert_def split: prod.splits option.splits)
  then have "map_of (rg_entries reg2) = map_of (rg_entries reg)"
    using gone(2) assms(2) by (auto simp: fun_eq_iff AList.delete_conv' AList.update_conv')
  with gone d id nz assms(4,5,6) show ?thesis
    by (auto simp: EmbeddedMongo_close_kt_def NativeEngine_def NativeEngine_close_def bridge_close_def Let_def)
qed

text \<open>An open on a registry: a database the caller holds, or nothing new.\<close>

definition open_outcome ::
  "('c, 'd) safe_client \<Rightarrow> 'c registry \<Rightarrow> 'd throwable + 'c native_engine EmbeddedMongo \<Rightarrow> 'c registry \<Rightarrow> bool" where
  "open_outcome S reg r reg' =
     (case r of
        Inl _ \<Rightarrow> map_of (rg_entries reg') = map_of (rg_entries reg) \<and>
          (rg_heap reg' = rg_heap reg \<or> rg_heap reg' = rg_heap reg @ [None])
      | Inr self \<Rightarrow> \<not> em_closed self \<and> \<not> em_thread_down self \<and> ne_registry (em_engine self) = reg' \<and>
          (\<exists>hid p o' client. handle_id (ne_handle (em_engine self)) = Inr hid \<and> client_open S p o' = Inr client \<and>
             map_of (rg_entries reg) hid = None \<and>
             map_of (rg_entries reg') hid = Some (length (rg_heap reg)) \<and> rg_heap reg' = rg_heap reg @ [Some client]))"

lemma inserted_fresh:
  assumes "registry_reachable sy" and "Registry_insert hash client (ry_registry sy) = (Some hid, reg)"
  shows "map_of (rg_entries (ry_registry sy)) hid = None"
proof -
  have ids: "ids_ok sy" using handles.reach_inv [OF assms(1)] by (simp add: registry_inv_def)
  moreover obtain counter where "take_next hash (rg_counter (ry_registry sy)) = (Some hid, counter)"
    using assms(2) by (auto simp: Registry_insert_def split: prod.splits option.splits)
  ultimately have "hid \<notin> set (ry_issued sy)" using fresh_handle [of sy hash "Some hid" counter] by auto
  with ids show ?thesis by (auto simp: ids_ok_def map_of_eq_None_iff)
qed

lemma openBlocking_outcome:
  assumes reach: "registry_reachable sy"
    and run: "openBlocking K J S A directory options recorded (ry_registry sy) = (r, recorded', reg')"
  shows "open_outcome S (ry_registry sy) r reg' \<and>
    (\<forall>self. r = Inr self \<longrightarrow> (\<exists>hid client. Registry_insert (an_hash A) client (ry_registry sy) = (Some hid, reg') \<and>
       map_of (rg_entries (ry_registry sy)) hid = None \<and> HandleId_new (HandleId_get hid) = Some hid \<and>
       self = EmbeddedMongo_new \<lparr>ne_handle = HandleId_get hid, ne_registry = reg'\<rparr>))"
proof -
  let ?reg = "ry_registry sy" and ?E = "NativeEngine J S (an_jvm A)"
  obtain o1 reg1 where o1: "NativeEngine_open J S (an_jvm A) (an_hash A) (an_absolute A) directory options ?reg = (o1, reg1)"
    by fastforce
  note cases = NativeEngine_open_cases [OF o1]
  have refused: ?thesis if "r = Inl t" "reg' = ?reg" for t using that by (simp add: open_outcome_def)
  show ?thesis
  proof (cases "opened_kt K J S A directory options recorded ?reg = (r, recorded', reg')")
    case False
    with run obtain t where "r = Inl t" "reg' = ?reg" by (auto simp: openBlocking_def split: sum.splits)
    then show ?thesis by (rule refused)
  next
    case opened: True
    show ?thesis
    proof (cases o1)
      case (Inl t)
      with opened o1 cases show ?thesis by (auto simp: opened_kt_def open_outcome_def)
    next
      case (Inr engine)
      then obtain p o' client hid where c: "client_open S p o' = Inr client"
          "Registry_insert (an_hash A) client ?reg = (Some hid, reg1)" "engine = \<lparr>ne_handle = HandleId_get hid, ne_registry = reg1\<rparr>"
        using cases by auto
      note pos = inserted_positive [OF reach c(2)] and fresh = inserted_fresh [OF reach c(2)]
      obtain e recorded1 self where e: "establishFreeDiskFloor K (admin_of K ?E (an_main A))
          (EmbeddedMongo_close_kt ?E (an_main A)) (so_freeDiskFloor options) recorded (EmbeddedMongo_new engine) = (e, recorded1, self)"
        by (metis surj_pair)
      with opened o1 Inr have r: "r = map_ok (\<lambda>_. self) e" "reg' = ne_registry (em_engine self)"
        by (auto simp: opened_kt_def Let_def)
      note established = native_frame.establish_cases [OF e refl]
      have id: "handle_id (HandleId_get hid) = Inr hid" using pos by (simp add: handle_id_def)
      show ?thesis
      proof (cases e)
        case (Inl t)
        with established obtain k where k: "EmbeddedMongo_close_kt ?E (an_main A) (EmbeddedMongo_new engine) = (k, self)"
          by auto
        have "map_of (rg_entries reg') = map_of (rg_entries ?reg) \<and> rg_heap reg' = rg_heap ?reg @ [None]"
          using close_takes_out [OF c(2) fresh pos _ _ k] c(3) r(2) by (simp add: EmbeddedMongo_new_def)
        with Inl r show ?thesis by (simp add: open_outcome_def)
      next
        case (Inr u)
        with established have self: "self = EmbeddedMongo_new engine" by simp
        with insert_resolves [OF c(2)] Inr r c fresh pos id show ?thesis
          by (auto simp: open_outcome_def EmbeddedMongo_new_def)
      qed
    qed
  qed
qed

section \<open>The engine of the tests\<close>

text \<open>\<open>Fakes.kt\<close>: it answers \<open>getParameter\<close> with what \<open>setParameter\<close> last wrote, and refuses one knob.\<close>

record 'd fake_kt =
  fk_floors :: ReportedFloors
  fk_refuse :: "string option"
  fk_closes :: nat
  fk_commands :: "'d list"
  fk_close_failure :: "'d throwable option"

definition okReply :: "'d bson_lib \<Rightarrow> (string \<times> 'd bson) list \<Rightarrow> 'd" where
  "okReply B kvs = doc_of B ((''ok'', BDouble (f64_of_int 1)) # kvs)"

definition engineReporting_reply :: "'d bson_lib \<Rightarrow> 'd \<Rightarrow> 'd fake_kt \<Rightarrow> 'd \<times> 'd fake_kt" where
  "engineReporting_reply B command e =
     (if take 1 (doc_keys B command) = [''getParameter''] then
        (okReply B [(INDEX_BUILD_FLOOR, BInt64 (IndexBuildFloor_mebibytes (rf_index_build (fk_floors e)))),
                    (QUERY_SPILLING_FLOOR, BInt64 (QuerySpillingFloor_bytes (rf_query_spilling (fk_floors e))))], e)
      else case opt_filter (contains_key B command) (fk_refuse e) of
        Some refuse \<Rightarrow>
          (doc_of B [(''ok'', BDouble (f64_of_int 0)), (''errmsg'', BString (''no such parameter '' @ refuse))], e)
      | None \<Rightarrow>
          (okReply B [],
           e\<lparr>fk_floors := ReportedFloors_new
               (case get_i64 B command INDEX_BUILD_FLOOR of
                  Some n \<Rightarrow> IndexBuildFloor n | None \<Rightarrow> rf_index_build (fk_floors e))
               (case get_i64 B command QUERY_SPILLING_FLOOR of
                  Some n \<Rightarrow> QuerySpillingFloor n | None \<Rightarrow> rf_query_spilling (fk_floors e))\<rparr>))"

definition FakeEngine_command ::
  "('d, 'b) java_bson \<Rightarrow> string \<Rightarrow> 'b \<Rightarrow> 'd fake_kt \<Rightarrow> ('d throwable + 'b) \<times> 'd fake_kt" where
  "FakeEngine_command K db b e =
     (case BsonCodec_decode K b of
        Inl t \<Rightarrow> (Inl t, e)
      | Inr decoded \<Rightarrow>
          (let (reply, e') = engineReporting_reply (jb_lib K) decoded (e\<lparr>fk_commands := fk_commands e @ [decoded]\<rparr>)
           in (BsonCodec_encode K reply, e')))"

definition FakeEngine_close :: "'d fake_kt \<Rightarrow> ('d throwable + unit) \<times> 'd fake_kt" where
  "FakeEngine_close e =
     ((case fk_close_failure e of None \<Rightarrow> Inr () | Some t \<Rightarrow> Inl t), e\<lparr>fk_closes := Suc (fk_closes e)\<rparr>)"

definition FakeEngine_kt :: "('d, 'b) java_bson \<Rightarrow> ('d fake_kt, 'd, 'b) engine_kt" where
  "FakeEngine_kt K = \<lparr>eng_command = FakeEngine_command K, eng_close = FakeEngine_close\<rparr>"

definition engineReporting :: "i64 \<Rightarrow> string option \<Rightarrow> 'd throwable option \<Rightarrow> 'd fake_kt" where
  "engineReporting mebibytes refuse closeFailure =
     \<lparr>fk_floors = ReportedFloors_new (IndexBuildFloor mebibytes) (QuerySpillingFloor (mebibytes * 1024 * 1024)),
      fk_refuse = refuse, fk_closes = 0, fk_commands = [], fk_close_failure = closeFailure\<rparr>"

text \<open>A codec that reads back what it wrote.\<close>

definition codec_total :: "('d, 'b) java_bson \<Rightarrow> bool" where
  "codec_total K \<longleftrightarrow> bson_laws (jb_lib K) \<and> (\<forall>d. \<exists>b. jb_encode K d = Inr b \<and> jb_decode K b = Inr d)"

lemma codec_total_round:
  assumes "codec_total K"
  obtains b where "BsonCodec_encode K d = Inr b" "BsonCodec_decode K b = Inr d"
  using assms by (auto simp: codec_total_def BsonCodec_encode_def BsonCodec_decode_def) (metis map_err_simps(2))

lemma admin_fake:
  assumes "codec_total K" and "doc_keys (jb_lib K) command = k # ks" and "k \<notin> set WRITE_COMMANDS"
  shows "admin_of K (FakeEngine_kt K) False self command =
    (if em_closed self then (Inl (thrown (Illegal_state ''the embedded MongoDB database is closed'')), self)
     else let e = em_engine self;
              (reply, e') = engineReporting_reply (jb_lib K) command (e\<lparr>fk_commands := fk_commands e @ [command]\<rparr>)
          in (checkedReply K reply, self\<lparr>em_engine := e'\<rparr>))"
proof (cases "em_closed self")
  case True
  then show ?thesis by (simp add: admin_of_def runCommandBlocking_def guard_reject_def checkOpen_def)
next
  case False
  let ?e = "em_engine self"
  obtain b where b: "BsonCodec_encode K command = Inr b" "BsonCodec_decode K b = Inr command"
    using codec_total_round [OF assms(1)] by blast
  obtain reply e' where r: "engineReporting_reply (jb_lib K) command (?e\<lparr>fk_commands := fk_commands ?e @ [command]\<rparr>) = (reply, e')"
    by fastforce
  obtain c where c: "BsonCodec_encode K reply = Inr c" "BsonCodec_decode K c = Inr reply"
    using codec_total_round [OF assms(1)] by blast
  have "durable K command = command" using assms(2,3) by (simp add: durable_def)
  with False b c r show ?thesis
    by (simp add: admin_of_def runCommandBlocking_def guard_reject_def checkOpen_def FakeEngine_kt_def FakeEngine_command_def)
qed

lemma knob_names:
  "INDEX_BUILD_FLOOR \<noteq> QUERY_SPILLING_FLOOR" "INDEX_BUILD_FLOOR \<noteq> ''ok''" "QUERY_SPILLING_FLOOR \<noteq> ''ok''"
  "INDEX_BUILD_FLOOR \<noteq> ''setParameter''" "QUERY_SPILLING_FLOOR \<noteq> ''setParameter''"
  "INDEX_BUILD_FLOOR \<noteq> ''getParameter''" "QUERY_SPILLING_FLOOR \<noteq> ''getParameter''"
  "INDEX_BUILD_FLOOR \<noteq> ''writeErrors''" "QUERY_SPILLING_FLOOR \<noteq> ''writeErrors''"
  "INDEX_BUILD_FLOOR \<noteq> ''writeConcernError''" "QUERY_SPILLING_FLOOR \<noteq> ''writeConcernError''"
  by (simp_all add: INDEX_BUILD_FLOOR_def QUERY_SPILLING_FLOOR_def)

lemma knob_keys:
  assumes "codec_total K"
  shows "doc_keys (jb_lib K) (index_build_knob K n) = [''setParameter'', INDEX_BUILD_FLOOR]"
    and "doc_keys (jb_lib K) (spilling_knob K n) = [''setParameter'', QUERY_SPILLING_FLOOR]"
    and "doc_keys (jb_lib K) (reportedFloorsCommand K) = [''getParameter'', INDEX_BUILD_FLOOR, QUERY_SPILLING_FLOOR]"
  using assms knob_names knob_names [symmetric]
  by (simp_all add: codec_total_def index_build_knob_def spilling_knob_def reportedFloorsCommand_def doc_keys_doc_of)

lemma not_writes: "''setParameter'' \<notin> set WRITE_COMMANDS" "''getParameter'' \<notin> set WRITE_COMMANDS"
  by (simp_all add: WRITE_COMMANDS_def)

lemma knob_gets:
  assumes "codec_total K"
  shows "get_i64 (jb_lib K) (index_build_knob K n) INDEX_BUILD_FLOOR = Some n"
    and "get_i64 (jb_lib K) (index_build_knob K n) QUERY_SPILLING_FLOOR = None"
    and "get_i64 (jb_lib K) (spilling_knob K n) QUERY_SPILLING_FLOOR = Some n"
    and "get_i64 (jb_lib K) (spilling_knob K n) INDEX_BUILD_FLOOR = None"
  using assms knob_names knob_names [symmetric]
  by (simp_all add: codec_total_def index_build_knob_def spilling_knob_def get_i64_def doc_get_doc_of)

lemma okReply_accepted:
  assumes "codec_total K" and "\<And>k. k \<in> {''ok'', ''writeErrors'', ''writeConcernError''} \<Longrightarrow> k \<notin> fst ` set kvs"
  shows "checkedReply K (okReply (jb_lib K) kvs) = Inr (okReply (jb_lib K) kvs)"
proof -
  have "map_of (rev kvs) k = None" if "k \<in> {''ok'', ''writeErrors'', ''writeConcernError''}" for k
    using assms(2) [OF that] by (simp add: map_of_eq_None_iff)
  then have "kt_get K (okReply (jb_lib K) kvs) ''ok'' = Some (BDouble (f64_of_int 1))"
      "kt_get K (okReply (jb_lib K) kvs) ''writeErrors'' = None" "kt_get K (okReply (jb_lib K) kvs) ''writeConcernError'' = None"
    using assms(1) by (simp_all add: codec_total_def okReply_def doc_get_doc_of map_add_def)
  then show ?thesis
    by (simp add: checkedReply_def number_at_def as_number_def failureDetails_def accessor_defs)
qed

lemma refusal_refused:
  assumes "codec_total K"
  shows "\<exists>t. checkedReply K (doc_of (jb_lib K) [(''ok'', BDouble (f64_of_int 0)), (''errmsg'', BString m)]) = Inl t"
  using assms
  by (simp add: codec_total_def checkedReply_def number_at_def as_number_def doc_get_doc_of failureDetails_def accessor_defs Let_def)

text \<open>The floors a \<open>setParameter\<close> asks for, over the ones in force.\<close>

definition floors_asked :: "'d bson_lib \<Rightarrow> 'd \<Rightarrow> ReportedFloors \<Rightarrow> ReportedFloors" where
  "floors_asked B command floors =
     ReportedFloors_new
       (case get_i64 B command INDEX_BUILD_FLOOR of Some n \<Rightarrow> IndexBuildFloor n | None \<Rightarrow> rf_index_build floors)
       (case get_i64 B command QUERY_SPILLING_FLOOR of Some n \<Rightarrow> QuerySpillingFloor n | None \<Rightarrow> rf_query_spilling floors)"

lemma fake_reply_sets:
  assumes "codec_total K" and "doc_keys (jb_lib K) command = ''setParameter'' # ks"
    and "engineReporting_reply (jb_lib K) command e = (reply, e')"
  shows "fk_floors e' = (case checkedReply K reply of Inl _ \<Rightarrow> fk_floors e
    | Inr _ \<Rightarrow> floors_asked (jb_lib K) command (fk_floors e))"
proof (cases "opt_filter (contains_key (jb_lib K) command) (fk_refuse e)")
  case None
  with assms okReply_accepted [OF assms(1), of "[]"] show ?thesis
    by (auto simp: engineReporting_reply_def floors_asked_def)
next
  case (Some refuse)
  with assms obtain t where "checkedReply K reply = Inl t" "e' = e"
    using refusal_refused [OF assms(1)] by (auto simp: engineReporting_reply_def)
  then show ?thesis by simp
qed

lemma fake_admin_sets:
  assumes total: "codec_total K" and keys: "doc_keys (jb_lib K) command = ''setParameter'' # ks"
    and run: "admin_of K (FakeEngine_kt K) False self command = (r, self')"
  shows "fk_floors (em_engine self') = (case r of Inl _ \<Rightarrow> fk_floors (em_engine self)
    | Inr _ \<Rightarrow> floors_asked (jb_lib K) command (fk_floors (em_engine self)))"
proof (cases "em_closed self")
  case True
  with run show ?thesis by (auto simp: admin_fake [OF total keys not_writes(1)])
next
  case False
  let ?e = "(em_engine self)\<lparr>fk_commands := fk_commands (em_engine self) @ [command]\<rparr>"
  obtain reply e' where reply: "engineReporting_reply (jb_lib K) command ?e = (reply, e')" by fastforce
  with run False have "r = checkedReply K reply" "self' = self\<lparr>em_engine := e'\<rparr>"
    by (auto simp: admin_fake [OF total keys not_writes(1)] Let_def)
  moreover have "fk_floors ?e = fk_floors (em_engine self)" by simp
  ultimately show ?thesis using fake_reply_sets [OF total keys reply] by (cases "checkedReply K reply") simp_all
qed

lemma fake_kt_floor_engine:
  assumes total: "codec_total K"
  shows "kotlin_floor_engine K (admin_of K (FakeEngine_kt K) False) (\<lambda>self. fk_floors (em_engine self))"
proof -
  note laws = total [unfolded codec_total_def, THEN conjunct1]
  note read = admin_fake [OF total knob_keys(3) [OF total] not_writes(2)]
  have reply: "engineReporting_reply (jb_lib K) (reportedFloorsCommand K) e =
      (okReply (jb_lib K) [(INDEX_BUILD_FLOOR, BInt64 (IndexBuildFloor_mebibytes (rf_index_build (fk_floors e)))),
         (QUERY_SPILLING_FLOOR, BInt64 (QuerySpillingFloor_bytes (rf_query_spilling (fk_floors e))))], e)" for e
    by (simp add: engineReporting_reply_def knob_keys [OF total])
  have floors: "reportedFloors K (okReply (jb_lib K) [(INDEX_BUILD_FLOOR, BInt64 (IndexBuildFloor_mebibytes i)),
         (QUERY_SPILLING_FLOOR, BInt64 (QuerySpillingFloor_bytes q))]) = Inr (ReportedFloors_new i q)" for i q
    using knob_names knob_names [symmetric]
    by (cases i; cases q)
      (simp add: reportedFloors_def floorOf_def longOrNull_def number_at_def as_number_def okReply_def doc_get_doc_of [OF laws])
  have accepted: "checkedReply K (okReply (jb_lib K) [(INDEX_BUILD_FLOOR, v), (QUERY_SPILLING_FLOOR, w)]) =
      Inr (okReply (jb_lib K) [(INDEX_BUILD_FLOOR, v), (QUERY_SPILLING_FLOOR, w)])" for v w
    using knob_names knob_names [symmetric] by (intro okReply_accepted [OF total]) auto
  have shape: "ReportedFloors_new (rf_index_build f) (rf_query_spilling f) = f" for f
    by (simp add: ReportedFloors_new_def)
  show ?thesis
  proof
    show "fk_floors (em_engine self') = fk_floors (em_engine self)"
      if "admin_of K (FakeEngine_kt K) False self (reportedFloorsCommand K) = (r, self')" for self r self'
      using that by (auto simp: read reply Let_def split: if_splits)
    show "floors = fk_floors (em_engine self)"
      if "admin_of K (FakeEngine_kt K) False self (reportedFloorsCommand K) = (Inr reply, self')"
        "reportedFloors K reply = Inr floors" for self reply self' floors
      using that by (auto simp: read reply Let_def accepted floors shape split: if_splits)
    show "fk_floors (em_engine self') = (case r of Inl _ \<Rightarrow> fk_floors (em_engine self)
        | Inr _ \<Rightarrow> (fk_floors (em_engine self))\<lparr>rf_index_build := IndexBuildFloor n\<rparr>)"
      if "admin_of K (FakeEngine_kt K) False self (index_build_knob K n) = (r, self')" for self n r self'
      using fake_admin_sets [OF total knob_keys(1) [OF total] that]
      by (simp add: floors_asked_def knob_gets [OF total] ReportedFloors_new_def split: sum.splits)
    show "fk_floors (em_engine self') = (case r of Inl _ \<Rightarrow> fk_floors (em_engine self)
        | Inr _ \<Rightarrow> (fk_floors (em_engine self))\<lparr>rf_query_spilling := QuerySpillingFloor n\<rparr>)"
      if "admin_of K (FakeEngine_kt K) False self (spilling_knob K n) = (r, self')" for self n r self'
      using fake_admin_sets [OF total knob_keys(2) [OF total] that]
      by (simp add: floors_asked_def knob_gets [OF total] ReportedFloors_new_def split: sum.splits)
  qed
qed

lemma plain_java_total: "codec_total plain_java"
  by (simp add: codec_total_def plain_java_def bson_laws_alist)

interpretation fake_kt: kotlin_floor_engine plain_java "admin_of plain_java (FakeEngine_kt plain_java) False"
    "\<lambda>self. fk_floors (em_engine self)"
  by (rule fake_kt_floor_engine [OF plain_java_total])

section \<open>Properties\<close>

text \<open>C13: A Kotlin open keeps the engine or closes it. On a registry in any state it can reach, an open either
  answers a database that is open, under a new handle that resolves to the one client this open
  started; or it throws, and then every handle resolves to what it did before and no entry the open added holds a
  client: the engine it started, if it got that far, was closed. That holds for the blocking open, whatever
  step fails, the free-disk floors included, and for the suspending one when its caller stays or is
  cancelled while the engine starts, in which case it throws. The moment between the check for that and the
  caller's resumption is left out.\<close>

theorem kotlin_open_keeps_or_closes:
  assumes "registry_reachable sy"
  shows "(\<forall>r recorded' reg'. openBlocking K J S A directory options recorded (ry_registry sy) = (r, recorded', reg') \<longrightarrow>
      open_outcome S (ry_registry sy) r reg') \<and>
    (\<forall>caller r recorded' reg'. caller \<noteq> Cancelled_resuming \<and>
      open_kt K J S A caller directory options recorded (ry_registry sy) = (r, recorded', reg') \<longrightarrow>
      open_outcome S (ry_registry sy) r reg' \<and> (caller = Cancelled_starting \<longrightarrow> (\<exists>t. r = Inl t)))"
proof (intro conjI allI impI; (elim conjE)?)
  show "open_outcome S (ry_registry sy) r reg'"
    if "openBlocking K J S A directory options recorded (ry_registry sy) = (r, recorded', reg')" for r recorded' reg'
    using openBlocking_outcome [OF assms that] by blast
  fix caller r recorded' reg'
  assume seen: "caller \<noteq> Cancelled_resuming"
    and opens: "open_kt K J S A caller directory options recorded (ry_registry sy) = (r, recorded', reg')"
  obtain r1 reg1 where b: "openBlocking K J S (A\<lparr>an_main := False\<rparr>) directory options recorded (ry_registry sy) = (r1, recorded', reg1)"
    using opens by (auto simp: open_kt_def split: prod.splits)
  note outcome = openBlocking_outcome [OF assms b]
  have "open_outcome S (ry_registry sy) r reg' \<and> (caller = Cancelled_starting \<longrightarrow> (\<exists>t. r = Inl t))"
  proof (cases "caller = Cancelled_starting \<and> (\<exists>self. r1 = Inr self)")
    case False
    with seen have "caller = Stays \<or> (\<exists>t. r1 = Inl t)" by (cases caller; cases r1) auto
    with opens b outcome have "r = r1 \<and> reg' = reg1"
      by (cases r1) (auto simp: open_kt_def openedOrClosed_def open_outcome_def)
    with False outcome show ?thesis by (cases r1) auto
  next
    case True
    then obtain self hid client where self: "r1 = Inr self" "Registry_insert (an_hash A) client (ry_registry sy) = (Some hid, reg1)"
        "map_of (rg_entries (ry_registry sy)) hid = None" "HandleId_new (HandleId_get hid) = Some hid"
        "self = EmbeddedMongo_new \<lparr>ne_handle = HandleId_get hid, ne_registry = reg1\<rparr>"
      using outcome by auto
    obtain c self' where c: "EmbeddedMongo_close_kt (NativeEngine J S (an_jvm A)) False self = (c, self')" by fastforce
    from close_takes_out [OF self(2-4) _ _ c] self(5)
    have "map_of (rg_entries (ne_registry (em_engine self'))) = map_of (rg_entries (ry_registry sy))"
        "rg_heap (ne_registry (em_engine self')) = rg_heap (ry_registry sy) @ [None]"
      by (simp_all add: EmbeddedMongo_new_def)
    moreover have "(\<exists>t. r = Inl t) \<and> reg' = ne_registry (em_engine self')"
      using opens b True self(1) c by (cases c) (auto simp: open_kt_def openedOrClosed_def)
    ultimately show ?thesis by (auto simp: open_outcome_def)
  qed
  then show "open_outcome S (ry_registry sy) r reg'" "caller = Cancelled_starting \<Longrightarrow> \<exists>t. r = Inl t" by auto
qed

text \<open>An engine that opens and then answers bytes that are no document.\<close>

definition mute_java :: "(adoc, bytes) java_bson" where
  "mute_java = \<lparr>jb_lib = alist_lib, jb_decimal = (\<lambda>n. None), jb_encode = (\<lambda>d. Inr []),
     jb_decode = (\<lambda>b. Inl (True, ''no document'')), jb_size = length\<rparr>"

definition calm_android :: android where
  "calm_android = \<lparr>an_main = False, an_is_directory = (\<lambda>d. True), an_allocatable = (\<lambda>d. Some (Some 1000000000)),
     an_absolute = (\<lambda>d. d), an_hash = 5, an_jvm = \<lparr>jvm_pending = False, jvm_raised = Inr ()\<rparr>\<rparr>"

definition no_options :: StorageOptions where
  "no_options = \<lparr>so_cacheSize = None, so_journalFileSize = None, so_journalPreallocation = None, so_freeDiskFloor = None\<rparr>"

theorem kotlin_open_keeps_or_closes_witness:
  "\<exists>t recorded' reg'. open_kt mute_java plain_jni echo_client calm_android Cancelled_starting ''data'' no_options None
      Registry_new = (Inl t, recorded', reg') \<and> map_of (rg_entries reg') = Map.empty"
proof -
  obtain r recorded' reg' where r: "open_kt mute_java plain_jni echo_client calm_android Cancelled_starting ''data''
      no_options None Registry_new = (r, recorded', reg')" by (metis surj_pair)
  from kotlin_open_keeps_or_closes [OF empty_registry_reachable, THEN conjunct2, rule_format,
      of Cancelled_starting mute_java plain_jni echo_client calm_android "''data''" no_options None r recorded' reg'] r
  show ?thesis by (auto simp: open_outcome_def Registry_new_def)
qed













text \<open>C32: The floors of a Kotlin open. On any engine that applies what it accepts and nothing it refuses,
  a move that returns leaves both floors where the caller asked, each in the unit of its own knob; a move that throws
  leaves both where they were, unless putting them back failed as well and the exception carries
  that failure. An open that returns runs on the floors it named, or on MongoDB's own if it named none; one
  that throws has closed the database; and MongoDB's own floors are recorded once, as they were
  before this library moved anything.\<close>

theorem kotlin_floors_established:
  assumes "kotlin_floor_engine K run in_force"
  shows "(\<forall>floor self r self'. setFreeDiskFloor K run floor self = (r, self') \<longrightarrow>
      (case r of
         Inr _ \<Rightarrow> in_force self' = ReportedFloors_new (IndexBuildFloor (scast (floor_mebibytes floor)))
           (QuerySpillingFloor (FreeDiskFloor_bytes floor))
       | Inl t \<Rightarrow> in_force self' = in_force self \<or>
           (\<exists>t0 self0 t1 self1. send_all run (reported_commands_kt K (in_force self)) self0 = (Inl t1, self1) \<and>
              t = addSuppressed t0 t1))) \<and>
    (\<forall>close requested recorded self r recorded' self'.
       establishFreeDiskFloor K run close requested recorded self = (r, recorded', self') \<longrightarrow>
       (case r of
          Inr _ \<Rightarrow> recorded' \<noteq> None \<and> in_force self' = (case requested of None \<Rightarrow> the recorded'
            | Some floor \<Rightarrow> ReportedFloors_new (IndexBuildFloor (scast (floor_mebibytes floor)))
                (QuerySpillingFloor (FreeDiskFloor_bytes floor)))
        | Inl t \<Rightarrow> \<exists>self1 c. close self1 = (c, self')) \<and>
       (case recorded of Some own \<Rightarrow> recorded' = Some own
        | None \<Rightarrow> recorded' = None \<or> recorded' = Some (in_force self)))"
proof (intro conjI allI impI)
  fix floor self r self' assume "setFreeDiskFloor K run floor self = (r, self')"
  note moved = kotlin_floor_engine.kt_moved [OF assms this]
  show "case r of
         Inr _ \<Rightarrow> in_force self' = ReportedFloors_new (IndexBuildFloor (scast (floor_mebibytes floor)))
           (QuerySpillingFloor (FreeDiskFloor_bytes floor))
       | Inl t \<Rightarrow> in_force self' = in_force self \<or>
           (\<exists>t0 self0 t1 self1. send_all run (reported_commands_kt K (in_force self)) self0 = (Inl t1, self1) \<and>
              t = addSuppressed t0 t1)"
    using moved by (cases r) simp_all
next
  fix close requested recorded self r recorded' self'
  assume e: "establishFreeDiskFloor K run close requested recorded self = (r, recorded', self')"
  have frame: "kept_by_commands run (\<lambda>_. True)" by unfold_locales auto
  note out = kept_by_commands.establish_cases [OF frame e TrueI]
  obtain a self1 where a: "establish_attempt K run requested recorded self = (a, recorded', self1)"
    using out by (cases r) auto
  note established = kotlin_floor_engine.kt_established [OF assms a]
  show "case r of
          Inr _ \<Rightarrow> recorded' \<noteq> None \<and> in_force self' = (case requested of None \<Rightarrow> the recorded'
            | Some floor \<Rightarrow> ReportedFloors_new (IndexBuildFloor (scast (floor_mebibytes floor)))
                (QuerySpillingFloor (FreeDiskFloor_bytes floor)))
        | Inl t \<Rightarrow> \<exists>self1 c. close self1 = (c, self')"
    using out a established(1) by (cases r) auto
  show "case recorded of Some own \<Rightarrow> recorded' = Some own
        | None \<Rightarrow> recorded' = None \<or> recorded' = Some (in_force self)"
    using established(2,3) by (cases recorded; cases recorded') auto
qed

text \<open>The engine of the tests, refusing the second knob.\<close>

definition stubborn :: "adoc fake_kt EmbeddedMongo" where
  "stubborn = EmbeddedMongo_new (engineReporting 500 (Some QUERY_SPILLING_FLOOR) None)"

theorem kotlin_floors_established_witness:
  "\<exists>r self'. setFreeDiskFloor plain_java (admin_of plain_java (FakeEngine_kt plain_java) False) (FreeDiskFloor_kt 32) stubborn =
      (r, self') \<and> (case r of
         Inr _ \<Rightarrow> fk_floors (em_engine self') = ReportedFloors_new (IndexBuildFloor 32) (QuerySpillingFloor 33554432)
       | Inl t \<Rightarrow> fk_floors (em_engine self') = fk_floors (em_engine stubborn) \<or> suppressed t \<noteq> [])"
proof -
  obtain r self' where r: "setFreeDiskFloor plain_java (admin_of plain_java (FakeEngine_kt plain_java) False)
      (FreeDiskFloor_kt 32) stubborn = (r, self')" by fastforce
  from kotlin_floors_established [OF fake_kt_floor_engine [OF plain_java_total], THEN conjunct1, rule_format, OF r] r
  show ?thesis by (auto simp: FreeDiskFloor_bytes_def BYTES_PER_MEBIBYTE_def split: sum.splits)
qed

section \<open>A move that is cancelled\<close>

text \<open>
  The suspending \<open>setFreeDiskFloor\<close> sends every command with \<open>runCommand\<close>, the ones that put the floors
  back included. \<open>Some n\<close> is a caller that will be cancelled after \<open>n\<close> more commands, and stays so.
\<close>

fun admin_suspending ::
  "('d, 'b) java_bson \<Rightarrow> ('e, 'd, 'b) engine_kt \<Rightarrow> (nat option \<times> 'e EmbeddedMongo, 'd) admin_kt" where
  "admin_suspending K E (None, self) command =
     (let (r, self') = runCommand_kt K E Active ''admin'' command self in (r, (None, self')))"
| "admin_suspending K E (Some 0, self) command =
     (let (r, self') = runCommand_kt K E Cancelled_before ''admin'' command self in (r, (Some 0, self')))"
| "admin_suspending K E (Some (Suc n), self) command =
     (let (r, self') = runCommand_kt K E Active ''admin'' command self in (r, (Some n, self')))"

lemma admin_suspending_active:
  assumes "\<not> em_closed self"
  shows "admin_suspending K E (Some (Suc n), self) command =
      (let (r, self') = admin_of K E False self command in (r, (Some n, self')))"
    and "admin_suspending K E (Some 0, self) command = (Inl (thrown Cancellation), (Some 0, self))"
  using assms by (simp_all add: runCommand_kt_def checkOpen_def admin_of_def)

text \<open>What the engine of the tests answers to a read and to a knob it does not refuse.\<close>

lemma fake_reads:
  assumes total: "codec_total K" and open': "\<not> em_closed self"
  shows "\<exists>reply self'. admin_of K (FakeEngine_kt K) False self (reportedFloorsCommand K) = (Inr reply, self') \<and>
      reportedFloors K reply = Inr (fk_floors (em_engine self)) \<and> \<not> em_closed self' \<and>
      fk_floors (em_engine self') = fk_floors (em_engine self) \<and> fk_refuse (em_engine self') = fk_refuse (em_engine self)"
proof -
  let ?f = "fk_floors (em_engine self)"
  let ?reply = "okReply (jb_lib K) [(INDEX_BUILD_FLOOR, BInt64 (IndexBuildFloor_mebibytes (rf_index_build ?f))),
      (QUERY_SPILLING_FLOOR, BInt64 (QuerySpillingFloor_bytes (rf_query_spilling ?f)))]"
  note laws = total [unfolded codec_total_def, THEN conjunct1]
  have accepted: "checkedReply K ?reply = Inr ?reply"
    using knob_names knob_names [symmetric] by (intro okReply_accepted [OF total]) auto
  have floors: "reportedFloors K ?reply = Inr ?f"
    using knob_names knob_names [symmetric]
    by (cases ?f; cases "rf_index_build ?f"; cases "rf_query_spilling ?f")
      (auto simp: reportedFloors_def floorOf_def longOrNull_def number_at_def as_number_def okReply_def
        doc_get_doc_of [OF laws] ReportedFloors_new_def)
  show ?thesis
    unfolding admin_fake [OF total knob_keys(3) [OF total] not_writes(2)]
    using open' accepted floors by (simp add: engineReporting_reply_def knob_keys [OF total] Let_def)
qed

lemma fake_accepts:
  assumes total: "codec_total K" and open': "\<not> em_closed self" and "fk_refuse (em_engine self) = None"
    and keys: "doc_keys (jb_lib K) command = ''setParameter'' # ks"
  shows "\<exists>reply self'. admin_of K (FakeEngine_kt K) False self command = (Inr reply, self') \<and> \<not> em_closed self'"
  unfolding admin_fake [OF total keys not_writes(1)]
  using assms okReply_accepted [OF total, of "[]"]
  by (simp add: engineReporting_reply_def Let_def)

text \<open>C33: Cancelling a move leaves the floors apart. The suspending \<open>setFreeDiskFloor\<close> documents that a failure
  puts the floors back, but a caller cancelled between the two knobs gets a cancellation from
  every command after that, the ones that would put the first knob back included. On the healthy engine of the
  tests, 500 MiB on both knobs, a move to 32 MiB cancelled after the first knob throws the cancellation and leaves the
  index-build floor at 32 MiB and the spilling floor at 500 MiB.\<close>

theorem cancelled_move_leaves_floors_apart:
  "\<exists>t self'. setFreeDiskFloor plain_java (admin_suspending plain_java (FakeEngine_kt plain_java)) (FreeDiskFloor_kt 32)
      (Some 2, EmbeddedMongo_new (engineReporting 500 None None)) = (Inl t, (Some 0, self')) \<and>
    thrown_kind t = Cancellation \<and>
    fk_floors (em_engine self') = ReportedFloors_new (IndexBuildFloor 32) (QuerySpillingFloor (500 * 1024 * 1024))"
proof -
  let ?run = "admin_of plain_java (FakeEngine_kt plain_java) False"
  let ?db = "EmbeddedMongo_new (engineReporting 500 None None) :: adoc fake_kt EmbeddedMongo"
  have db: "\<not> em_closed ?db" "fk_refuse (em_engine ?db) = None" "fk_floors (em_engine ?db) =
      ReportedFloors_new (IndexBuildFloor 500) (QuerySpillingFloor (500 * 1024 * 1024))"
    by (simp_all add: EmbeddedMongo_new_def engineReporting_def)
  obtain reply s1 where read: "?run ?db (reportedFloorsCommand plain_java) = (Inr reply, s1)"
      "reportedFloors plain_java reply = Inr (fk_floors (em_engine ?db))" "\<not> em_closed s1"
      "fk_floors (em_engine s1) = fk_floors (em_engine ?db)" "fk_refuse (em_engine s1) = None"
    using fake_reads [OF plain_java_total db(1)] db(2) by auto
  obtain reply2 s2 where set: "?run s1 (index_build_knob plain_java 32) = (Inr reply2, s2)" "\<not> em_closed s2"
    using fake_accepts [OF plain_java_total read(3,5) knob_keys(1) [OF plain_java_total]] by blast
  have "fk_floors (em_engine s2) = ReportedFloors_new (IndexBuildFloor 32) (QuerySpillingFloor (500 * 1024 * 1024))"
    using fake_kt.kt_set_index_build [OF set(1)] read(4) db(3) by (simp add: ReportedFloors_new_def)
  with db read set show ?thesis
    by (simp add: setFreeDiskFloor_def freeDiskFloors_def restore_def freeDiskFloorCommands_def reported_commands_kt_def
        numeral_2_eq_2 admin_suspending_active del: admin_suspending.simps)
qed

section \<open>Room, without overflow\<close>

lemma sint_i64: "- (2 ^ 63) \<le> x \<Longrightarrow> x < 2 ^ 63 \<Longrightarrow> sint (word_of_int x :: i64) = x"
  by (subst signed_of_int) (simp add: signed_take_bit_int_eq_self)

lemma sint_i32_bounds: "- (2 ^ 31) \<le> sint (w :: i32) \<and> sint w < 2 ^ 31"
  using sint_greater_eq [of w] sint_less [of w] by simp

definition journal_bytes :: "StorageOptions \<Rightarrow> int" where
  "journal_bytes options =
     (case so_journalFileSize options of None \<Rightarrow> 8192 | Some j \<Rightarrow> sint (journal_kibibytes j)) * 1024 *
     (if so_journalPreallocation options = Some PREALLOC_ON then 2 else 1)"

lemma bytesToOpen_exact:
  assumes "StorageOptions_wf options"
  shows "sint (bytesToOpen options) = journal_bytes options + 1048576"
proof -
  define k where "k = (case so_journalFileSize options of None \<Rightarrow> 8192 | Some j \<Rightarrow> sint (journal_kibibytes j))"
  define n where "n = (if so_journalPreallocation options = Some PREALLOC_ON then 2 else 1 :: int)"
  have k: "100 \<le> k" "k \<le> 2097152" using assms by (auto simp: k_def StorageOptions_wf_def split: option.splits)
  have n: "n = 1 \<or> n = 2" by (simp add: n_def)
  have "bytesToOpen options = word_of_int (k * 1024 * n + 1048576)"
    by (auto simp: bytesToOpen_def k_def n_def OPEN_MARGIN_BYTES_def BYTES_PER_MEBIBYTE_def DEFAULT_JOURNAL_KIBIBYTES_def
        signed_eq_0_iff split: option.splits)
  moreover have "0 \<le> k * 1024 * n + 1048576" "k * 1024 * n + 1048576 < 2 ^ 63" using k n by auto
  ultimately show ?thesis using sint_i64 [of "k * 1024 * n + 1048576"] by (simp add: journal_bytes_def k_def n_def)
qed

lemma FreeDiskFloor_bytes_exact: "sint (FreeDiskFloor_bytes floor) = sint (floor_mebibytes floor) * 1048576"
proof -
  have "FreeDiskFloor_bytes floor = word_of_int (sint (floor_mebibytes floor) * 1048576)"
    by (simp add: FreeDiskFloor_bytes_def BYTES_PER_MEBIBYTE_def)
  moreover have "- (2 ^ 63) \<le> sint (floor_mebibytes floor) * 1048576 \<and> sint (floor_mebibytes floor) * 1048576 < 2 ^ 63"
    using sint_i32_bounds [of "floor_mebibytes floor"] by simp
  ultimately show ?thesis by (simp only: sint_i64)
qed

text \<open>C38: The room an open insists on, exactly. For any limits a caller can name, nothing overflows: it is the size of
  the journal files WiredTiger will create, two with a spare and one without, and a mebibyte for the rest, or
  256 MiB, lowered to the floor the caller named if that is less, whichever is more. The volume is refused
  exactly when the platform says it can give fewer bytes than that, the exception carries both
  numbers, and a platform that does not answer refuses nothing.\<close>

theorem room_required_exactly:
  assumes "StorageOptions_wf options"
  shows "sint (requiredFreeBytes options) =
      max (journal_bytes options + 1048576)
        (min 268435456 (case so_freeDiskFloor options of None \<Rightarrow> 268435456
           | Some floor \<Rightarrow> sint (floor_mebibytes floor) * 1048576)) \<and>
    checkStorage None options = (Inr () :: adoc throwable + unit) \<and>
    (\<forall>n. checkStorage (Some n) options =
       (if sint n < sint (requiredFreeBytes options)
        then Inl (thrown (Insufficient_storage n (requiredFreeBytes options))) else Inr () :: adoc throwable + unit))"
  using bytesToOpen_exact [OF assms]
  by (auto simp: requiredFreeBytes_def checkStorage_def checkAllocatable_def max_i64_def min_i64_def
      DEFAULT_REQUIRED_FREE_BYTES_def BYTES_PER_MEBIBYTE_def FreeDiskFloor_bytes_exact Let_def split: option.splits)

theorem room_required_exactly_witness:
  "sint (requiredFreeBytes (no_options\<lparr>so_journalPreallocation := Some PREALLOC_ON, so_freeDiskFloor := Some (FreeDiskFloor_kt 8)\<rparr>)) =
     17825792"
  using room_required_exactly [of "no_options\<lparr>so_journalPreallocation := Some PREALLOC_ON, so_freeDiskFloor := Some (FreeDiskFloor_kt 8)\<rparr>"]
  by (simp add: StorageOptions_wf_def no_options_def journal_bytes_def)

end
