(* ===== verification/Kotlin_Api.thy ===== *)
theory Kotlin_Api
  imports Kotlin_Client
begin

text \<open>
  The cursors of the Kotlin library, \<open>android/embedded-mongodb-core\<close>: a cursor-returning command as a flow
  (\<open>CursorFlow.kt\<close>). A \<open>CommandRunner\<close> is a function that runs a command on a state.

  A flow is what it does to a collector, which keeps a state of its own and may throw at any document:
  cancelled, or because it has seen enough. Commands sent under \<open>NonCancellable\<close> have a runner of their own. The
  loop over the batches may run as long as the engine answers more, so it is a partial function. What an engine does
  with its cursors is the locale \<open>cursor_engine\<close>, interpreted on an engine that holds one; its lemmas are that a flow leaves no cursor
  behind on any way out.
\<close>

section \<open>A cursor\<close>

type_synonym ('e, 'd) runner_kt = "'e \<Rightarrow> string \<Rightarrow> 'd \<Rightarrow> ('d throwable + 'd) \<times> 'e"

definition EXHAUSTED :: i64 where "EXHAUSTED = 0"

definition cursorOf :: "('d, 'b) java_bson \<Rightarrow> 'd \<Rightarrow> 'd throwable + 'd" where
  "cursorOf K reply =
     ok_or (raised_here (''the command returned no cursor (fields: '' @ joinToString (doc_keys (jb_lib K) reply) @ '')''))
       (get_document (jb_lib K) reply ''cursor'')"

definition idOf :: "('d, 'b) java_bson \<Rightarrow> 'd \<Rightarrow> 'd throwable + i64" where
  "idOf K cursor = ok_or (raised_here ''the cursor reply carries no id'') (longOrNull K cursor ''id'')"

definition collectionOf :: "('d, 'b) java_bson \<Rightarrow> 'd \<Rightarrow> 'd throwable + string" where
  "collectionOf K cursor =
     and_then (ok_or (raised_here ''the cursor reply carries no namespace'') (get_str (jb_lib K) cursor ''ns'')) (\<lambda>namespace.
       let collection = (case split_once CHR ''.'' namespace of None \<Rightarrow> [] | Some (_, rest) \<Rightarrow> rest) in
       if collection = []
       then Inl (raised_here (''the cursor namespace `'' @ namespace @ ''` names no collection''))
       else Inr collection)"

fun documents_in :: "string \<Rightarrow> 'd bson list \<Rightarrow> 'd throwable + 'd list" where
  "documents_in name [] = Inr []"
| "documents_in name (v # vs) =
     (case as_document v of
        Some d \<Rightarrow> map_ok (Cons d) (documents_in name vs)
      | None \<Rightarrow> Inl (raised_here (''the cursor '' @ name @ '' holds a value that is not a document'')))"

definition batchOf :: "('d, 'b) java_bson \<Rightarrow> 'd \<Rightarrow> string \<Rightarrow> 'd throwable + 'd list" where
  "batchOf K cursor name =
     and_then (ok_or (raised_here (''the cursor reply carries no '' @ name @ '' array'')) (get_array (jb_lib K) cursor name))
       (documents_in name)"

record 'd CursorPaging =
  cp_database :: string
  cp_collection :: string
  cp_id :: i64
  cp_pending :: "'d list option"

definition CursorPaging_new :: "('d, 'b) java_bson \<Rightarrow> string \<Rightarrow> 'd \<Rightarrow> 'd throwable + 'd CursorPaging" where
  "CursorPaging_new K db opening =
     and_then (cursorOf K opening) (\<lambda>cursor.
     and_then (collectionOf K cursor) (\<lambda>collection.
     and_then (idOf K cursor) (\<lambda>i.
     and_then (batchOf K cursor ''firstBatch'') (\<lambda>batch.
       Inr \<lparr>cp_database = db, cp_collection = collection, cp_id = i, cp_pending = Some batch\<rparr>))))"

definition getMore_command :: "('d, 'b) java_bson \<Rightarrow> i64 \<Rightarrow> string \<Rightarrow> 'd" where
  "getMore_command K i collection =
     doc_of (jb_lib K) [(''getMore'', BInt64 i), (''collection'', BString collection)]"

definition killCursors_command :: "('d, 'b) java_bson \<Rightarrow> string \<Rightarrow> i64 \<Rightarrow> 'd" where
  "killCursors_command K collection i =
     doc_of (jb_lib K) [(''killCursors'', BString collection), (''cursors'', BArray [BInt64 i])]"

text \<open>The id is replaced as soon as it is read, before the batch is.\<close>

definition nextBatch ::
  "('d, 'b) java_bson \<Rightarrow> ('e, 'd) runner_kt \<Rightarrow> 'd CursorPaging \<Rightarrow> 'e
     \<Rightarrow> ('d throwable + 'd list option) \<times> 'd CursorPaging \<times> 'e" where
  "nextBatch K run self e =
     (case cp_pending self of
        Some batch \<Rightarrow> (Inr (Some batch), self\<lparr>cp_pending := None\<rparr>, e)
      | None \<Rightarrow>
          if cp_id self = EXHAUSTED then (Inr None, self, e)
          else case run e (cp_database self) (getMore_command K (cp_id self) (cp_collection self)) of
            (r, e') \<Rightarrow>
              (case and_then r (\<lambda>reply. and_then (cursorOf K reply) (\<lambda>cursor.
                      map_ok (\<lambda>i. (cursor, i)) (idOf K cursor))) of
                 Inl t \<Rightarrow> (Inl t, self, e')
               | Inr (cursor, i) \<Rightarrow> (map_ok Some (batchOf K cursor ''nextBatch''), self\<lparr>cp_id := i\<rparr>, e')))"

definition CursorPaging_kill ::
  "('d, 'b) java_bson \<Rightarrow> ('e, 'd) runner_kt \<Rightarrow> 'd CursorPaging \<Rightarrow> 'e \<Rightarrow> ('d throwable + unit) \<times> 'e" where
  "CursorPaging_kill K run self e =
     (if cp_id self = EXHAUSTED then (Inr (), e)
      else let (r, e') = run e (cp_database self) (killCursors_command K (cp_collection self) (cp_id self))
           in (map_ok (\<lambda>_. ()) r, e'))"

section \<open>A flow\<close>

type_synonym ('d, 'u) collector = "'d \<Rightarrow> 'u \<Rightarrow> 'd throwable option \<times> 'u"

text \<open>
  A flow of documents, or of what they were mapped to, collected on a state of the collector. The operators of
  \<open>kotlinx.coroutines.flow\<close> that the queries end in, \<open>toList\<close>, \<open>firstOrNull\<close> and \<open>map\<close>, are arguments
  of the definitions that use them.
\<close>

type_synonym ('e, 'd, 'x, 'u) flow =
  "('x \<Rightarrow> 'u \<Rightarrow> 'd throwable option \<times> 'u) \<Rightarrow> 'e \<Rightarrow> 'u \<Rightarrow> (('d throwable + unit) \<times> 'e \<times> 'u) option"

type_synonym ('e, 'd, 'x) to_list = "('e, 'd, 'x, 'x list) flow \<Rightarrow> 'e \<Rightarrow> (('d throwable + 'x list) \<times> 'e) option"

type_synonym ('e, 'd) first_or_null =
  "('e, 'd, 'd, 'd option) flow \<Rightarrow> 'e \<Rightarrow> (('d throwable + 'd option) \<times> 'e) option"

fun emit_all :: "('d, 'u) collector \<Rightarrow> 'd list \<Rightarrow> 'u \<Rightarrow> 'd throwable option \<times> 'u" where
  "emit_all emit [] u = (None, u)"
| "emit_all emit (d # ds) u =
     (case emit d u of (Some t, u') \<Rightarrow> (Some t, u') | (None, u') \<Rightarrow> emit_all emit ds u')"

partial_function (option) flow_loop ::
  "('d, 'b) java_bson \<Rightarrow> ('e, 'd) runner_kt \<Rightarrow> ('d, 'u) collector \<Rightarrow> 'd CursorPaging \<Rightarrow> 'e \<Rightarrow> 'u
     \<Rightarrow> ('d throwable option \<times> 'd CursorPaging \<times> 'e \<times> 'u) option" where
  "flow_loop K run emit cursor e u =
     (case nextBatch K run cursor e of
        (r, cursor', e') \<Rightarrow>
          (case r of
             Inl t \<Rightarrow> Some (Some t, cursor', e', u)
           | Inr batch \<Rightarrow>
               (case batch of
                  None \<Rightarrow> Some (None, cursor', e', u)
                | Some ds \<Rightarrow>
                    (case emit_all emit ds u of
                       (thrown', u') \<Rightarrow>
                         (case thrown' of
                            Some t \<Rightarrow> Some (Some t, cursor', e', u')
                          | None \<Rightarrow> flow_loop K run emit cursor' e' u')))))"

text \<open>\<open>uncancelled\<close> is the runner under \<open>NonCancellable\<close>.\<close>

definition documentFlow ::
  "('d, 'b) java_bson \<Rightarrow> ('e, 'd) runner_kt \<Rightarrow> ('e, 'd) runner_kt \<Rightarrow> string \<Rightarrow> 'd \<Rightarrow> ('d, 'u) collector \<Rightarrow> 'e \<Rightarrow> 'u
     \<Rightarrow> (('d throwable + unit) \<times> 'e \<times> 'u) option" where
  "documentFlow K run uncancelled db command emit e u =
     (let (r, e1) = run e db command in
      case and_then r (CursorPaging_new K db) of
        Inl t \<Rightarrow> Some (Inl t, e1, u)
      | Inr cursor \<Rightarrow>
          map_option (\<lambda>(failed, cursor', e2, u').
              let (killed, e3) = CursorPaging_kill K uncancelled cursor' e2
              in (case failed of
                    None \<Rightarrow> killed
                  | Some failure \<Rightarrow>
                      Inl (case killed of Inl killing \<Rightarrow> addSuppressed failure killing | Inr _ \<Rightarrow> failure), e3, u'))
            (flow_loop K run emit cursor e1 u))"

section \<open>What an engine does with its cursors\<close>

text \<open>
  An engine never gives out cursor zero. Asking for more of a cursor opens none, and answers its id
  again, or zero once the engine has let it go; killing it opens none, and once accepted the engine holds it
  no longer.
\<close>

locale cursor_engine =
  fixes K :: "('d, 'b) java_bson" and run uncancelled :: "('e, 'd) runner_kt" and open_cursors :: "'e \<Rightarrow> i64 set"
  assumes never_zero: "EXHAUSTED \<notin> open_cursors e"
    and more_opens_none: "run e db (getMore_command K i coll) = (r, e') \<Longrightarrow> open_cursors e' \<subseteq> open_cursors e"
    and more_ends: "run e db (getMore_command K i coll) = (Inr reply, e') \<Longrightarrow> cursorOf K reply = Inr cursor \<Longrightarrow>
      idOf K cursor = Inr j \<Longrightarrow> j = i \<or> j = EXHAUSTED \<and> i \<notin> open_cursors e'"
    and kill_opens_none: "uncancelled e db (killCursors_command K coll i) = (r, e') \<Longrightarrow> open_cursors e' \<subseteq> open_cursors e"
    and kill_ends: "uncancelled e db (killCursors_command K coll i) = (Inr reply, e') \<Longrightarrow> i \<notin> open_cursors e'"
begin

lemma batch_keeps:
  assumes "nextBatch K run self e = (r, self', e')"
  shows "open_cursors e' \<subseteq> open_cursors e" and "cp_database self' = cp_database self"
    and "cp_collection self' = cp_collection self"
    and "cp_id self' = cp_id self \<or> cp_id self' = EXHAUSTED \<and> cp_id self \<notin> open_cursors e'"
proof -
  obtain q e1 where q: "run e (cp_database self) (getMore_command K (cp_id self) (cp_collection self)) = (q, e1)" by fastforce
  note keeps = more_opens_none [OF q]
  have ends: "j = cp_id self \<or> j = EXHAUSTED \<and> cp_id self \<notin> open_cursors e1"
    if "q = Inr reply" "cursorOf K reply = Inr cursor" "idOf K cursor = Inr j" for reply cursor j
    using more_ends that q by blast
  show "open_cursors e' \<subseteq> open_cursors e" "cp_database self' = cp_database self"
      "cp_collection self' = cp_collection self"
    using assms q keeps by (auto simp: nextBatch_def split: option.splits if_splits sum.splits)
  show "cp_id self' = cp_id self \<or> cp_id self' = EXHAUSTED \<and> cp_id self \<notin> open_cursors e'"
    using assms q ends
    by (auto simp: nextBatch_def result_iffs split: option.splits if_splits sum.splits) metis+
qed

definition kept :: "'d CursorPaging \<Rightarrow> 'e \<Rightarrow> 'd CursorPaging \<Rightarrow> 'e \<Rightarrow> bool" where
  "kept self e self' e' \<longleftrightarrow> open_cursors e' \<subseteq> open_cursors e \<and> cp_database self' = cp_database self \<and>
     cp_collection self' = cp_collection self \<and>
     (cp_id self' = cp_id self \<or> cp_id self' = EXHAUSTED \<and> cp_id self \<notin> open_cursors e')"

lemma kept_trans: "kept a e b e1 \<Longrightarrow> kept b e1 c e2 \<Longrightarrow> kept a e c e2"
  by (auto simp: kept_def)

lemma loop_keeps:
  assumes "flow_loop K run emit cursor e u = Some (failed, cursor', e', u')"
  shows "kept cursor e cursor' e'"
proof -
  have "K' = K \<longrightarrow> run' = run \<longrightarrow> (case y of (failed, cursor', e', u') \<Rightarrow> kept cursor e cursor' e')"
    if "flow_loop K' run' emit cursor e u = Some y" for K' run' and emit :: "('d, 'u) collector" and cursor e u y
  proof (rule flow_loop.raw_induct [OF _ that], intro impI, goal_cases)
    case (1 loop K' run' emit cursor e u y)
    obtain r cursor1 e1 where n: "nextBatch K run cursor e = (r, cursor1, e1)" by (metis prod_cases3)
    have step: "kept cursor e cursor1 e1" using batch_keeps [OF n] by (simp add: kept_def)
    with 1 n show ?case
      by (auto split: sum.splits option.splits prod.splits dest!: 1(1) intro: kept_trans)
  qed
  from this [OF assms] show ?thesis by simp
qed

text \<open>After a flow the cursor it opened is gone, or the failure to kill it is reported.\<close>

lemma flow_cleans_up:
  assumes "documentFlow K run uncancelled db command emit e u = Some (r, e', u')"
    and "run e db command = (Inr reply, e1)" and "CursorPaging_new K db reply = Inr cursor"
  shows "open_cursors e' \<subseteq> open_cursors e1 - {cp_id cursor} \<or>
    (\<exists>killing. (r = Inl killing \<or> (\<exists>failure. r = Inl (addSuppressed failure killing))) \<and>
       (\<exists>e2. uncancelled e2 db (killCursors_command K (cp_collection cursor) (cp_id cursor)) = (Inl killing, e')))"
proof -
  from assms obtain failed cursor' e2 u2 where loop: "flow_loop K run emit cursor e1 u = Some (failed, cursor', e2, u2)"
    by (auto simp: documentFlow_def)
  note kept = loop_keeps [OF loop, unfolded kept_def]
  obtain killed e3 where kill: "CursorPaging_kill K uncancelled cursor' e2 = (killed, e3)" by fastforce
  from assms loop kill have out: "e' = e3" "r = (case failed of None \<Rightarrow> killed
      | Some failure \<Rightarrow> Inl (case killed of Inl killing \<Rightarrow> addSuppressed failure killing | Inr _ \<Rightarrow> failure))"
    by (auto simp: documentFlow_def)
  have db: "cp_database cursor = db" using assms(3) by (auto simp: CursorPaging_new_def result_iffs)
  show ?thesis
  proof (cases "cp_id cursor' = EXHAUSTED")
    case True
    with kill have "e3 = e2" by (auto simp: CursorPaging_kill_def)
    moreover have "cp_id cursor \<notin> open_cursors e2" using kept True never_zero [of e2] by auto
    ultimately show ?thesis using kept out(1) by auto
  next
    case False
    with kept have "cp_id cursor' = cp_id cursor" "cp_collection cursor' = cp_collection cursor" "cp_database cursor' = db"
      using db by auto
    with kill False obtain q where q: "uncancelled e2 db (killCursors_command K (cp_collection cursor) (cp_id cursor)) = (q, e3)"
        "killed = map_ok (\<lambda>_. ()) q"
      by (auto simp: CursorPaging_kill_def split: prod.splits)
    show ?thesis
    proof (cases q)
      case (Inl killing)
      with q out show ?thesis by (cases failed) auto
    next
      case (Inr reply')
      with q kill_opens_none [OF q(1)] kill_ends [of e2 db "cp_collection cursor" "cp_id cursor" reply' e3] kept out(1)
      show ?thesis by auto
    qed
  qed
qed

end

section \<open>What a flow delivers\<close>

text \<open>
  \<open>serves_kt K run db coll e i docs z\<close>: from state \<open>e\<close>, asking for more of cursor \<open>i\<close> until its id is zero answers
  \<open>docs\<close>, in batches of any size, and leaves the engine in \<open>z\<close>.
\<close>

inductive serves_kt ::
  "('d, 'b) java_bson \<Rightarrow> ('e, 'd) runner_kt \<Rightarrow> string \<Rightarrow> string \<Rightarrow> 'e \<Rightarrow> i64 \<Rightarrow> 'd list \<Rightarrow> 'e \<Rightarrow> bool"
  for K run db coll where
  ends: "serves_kt K run db coll e EXHAUSTED [] e"
| more: "i \<noteq> EXHAUSTED \<Longrightarrow> run e db (getMore_command K i coll) = (Inr reply, e1) \<Longrightarrow> cursorOf K reply = Inr cursor \<Longrightarrow>
    idOf K cursor = Inr j \<Longrightarrow> batchOf K cursor ''nextBatch'' = Inr ds \<Longrightarrow> serves_kt K run db coll e1 j docs z \<Longrightarrow>
    serves_kt K run db coll e i (ds @ docs) z"

lemma emit_all_pure: "(\<And>d u. emit d u = (None, f u d)) \<Longrightarrow> emit_all emit ds u = (None, foldl f u ds)"
  by (induction ds arbitrary: u) simp_all

lemma loop_delivers:
  assumes "serves_kt K run db coll e i docs z" and "\<And>d u. emit d u = (None, f u d)"
  shows "flow_loop K run emit \<lparr>cp_database = db, cp_collection = coll, cp_id = i, cp_pending = None\<rparr> e u =
    Some (None, \<lparr>cp_database = db, cp_collection = coll, cp_id = EXHAUSTED, cp_pending = None\<rparr>, z, foldl f u docs)"
  using assms(1)
proof (induction arbitrary: u)
  case (ends e)
  then show ?case by (subst flow_loop.simps) (simp add: nextBatch_def)
next
  case (more i e reply e1 cursor j ds docs z)
  have "emit_all emit ds u = (None, foldl f u ds)" by (rule emit_all_pure) (rule assms(2))
  with more show ?case by (subst flow_loop.simps) (simp add: nextBatch_def)
qed

lemma flow_delivers:
  assumes "run e db command = (Inr reply, e1)"
    and "CursorPaging_new K db reply = Inr \<lparr>cp_database = db, cp_collection = coll, cp_id = i, cp_pending = Some first\<rparr>"
    and "serves_kt K run db coll e1 i docs z" and "\<And>d u. emit d u = (None, f u d)"
  shows "documentFlow K run uncancelled db command emit e u = Some (Inr (), z, foldl f u (first @ docs))"
proof -
  have "emit_all emit first u = (None, foldl f u first)" by (rule emit_all_pure) (rule assms(4))
  then have "flow_loop K run emit \<lparr>cp_database = db, cp_collection = coll, cp_id = i, cp_pending = Some first\<rparr> e1 u =
      Some (None, \<lparr>cp_database = db, cp_collection = coll, cp_id = EXHAUSTED, cp_pending = None\<rparr>, z, foldl f u (first @ docs))"
    using loop_delivers [OF assms(3,4), where u = "foldl f u first"]
    by (subst flow_loop.simps) (simp add: nextBatch_def)
  with assms(1,2) show ?thesis by (simp add: documentFlow_def CursorPaging_kill_def)
qed

section \<open>An engine that holds a cursor\<close>

text \<open>A test's engine answers from a function of the decoded command; the documents of the replies are those of the tests.\<close>

definition scripted :: "('d, 'b) java_bson \<Rightarrow> ('d \<Rightarrow> 's \<Rightarrow> 'd \<times> 's) \<Rightarrow> ('s, 'd, 'b) engine_kt" where
  "scripted K respond =
     \<lparr>eng_command = (\<lambda>db b e.
        case BsonCodec_decode K b of
          Inl t \<Rightarrow> (Inl t, e)
        | Inr decoded \<Rightarrow> (let (reply, e') = respond decoded e in (BsonCodec_encode K reply, e'))),
      eng_close = (\<lambda>e. (Inr (), e))\<rparr>"

definition cursorReply :: "'d bson_lib \<Rightarrow> i64 \<Rightarrow> string \<Rightarrow> 'd list \<Rightarrow> 'd" where
  "cursorReply B i batch documents =
     okReply B [(''cursor'', BDocument (doc_of B [(''id'', BInt64 i), (''ns'', BString ''shop.orders''),
        (batch, BArray (map BDocument documents))]))]"

text \<open>Cursor 7, with the batches it has left.\<close>

definition paged :: "adoc list list \<Rightarrow> adoc \<Rightarrow> adoc list list option \<Rightarrow> adoc \<times> adoc list list option" where
  "paged batches command e =
     (case doc_get alist_lib command ''getMore'' of
        Some v \<Rightarrow>
          (case e of
             Some bs \<Rightarrow>
               if v \<noteq> BInt64 7 then (ADoc [(''ok'', BInt32 0), (''code'', BInt32 43)], e)
               else if length bs \<le> 1 then (cursorReply alist_lib 0 ''nextBatch'' (concat bs), None)
               else (cursorReply alist_lib 7 ''nextBatch'' (hd bs), Some (tl bs))
           | None \<Rightarrow> (ADoc [(''ok'', BInt32 0), (''code'', BInt32 43)], e))
      | None \<Rightarrow>
          (case doc_get alist_lib command ''killCursors'' of
             Some _ \<Rightarrow> (okReply alist_lib [], if doc_get alist_lib command ''cursors'' = Some (BArray [BInt64 7]) then None else e)
           | None \<Rightarrow> (cursorReply alist_lib 7 ''firstBatch'' [], Some batches)))"

definition paged_open :: "adoc list list option EmbeddedMongo \<Rightarrow> i64 set" where
  "paged_open self = (case em_engine self of None \<Rightarrow> {} | Some _ \<Rightarrow> {7})"

definition paged_run :: "adoc list list \<Rightarrow> job \<Rightarrow> (adoc list list option EmbeddedMongo, adoc) runner_kt" where
  "paged_run batches job self db command =
     runCommand_kt plain_java (scripted plain_java (paged batches)) job db command self"

lemma scripted_runs:
  assumes "codec_total K" and "durable K command = command" and "\<not> em_closed self"
    and "respond command (em_engine self) = (reply, e')"
  shows "runCommandBlocking K (scripted K respond) False db command self = (checkedReply K reply, self\<lparr>em_engine := e'\<rparr>)"
proof -
  obtain b where b: "BsonCodec_encode K command = Inr b" "BsonCodec_decode K b = Inr command"
    using codec_total_round [OF assms(1)] by blast
  obtain c where c: "BsonCodec_encode K reply = Inr c" "BsonCodec_decode K c = Inr reply"
    using codec_total_round [OF assms(1)] by blast
  from b c assms show ?thesis
    by (simp add: runCommandBlocking_def guard_reject_def checkOpen_def scripted_def)
qed

text \<open>A command runs, or throws and leaves the cursor as the run would, or is never sent.\<close>

lemma paged_run_cases:
  assumes "paged_run batches job self db command = (r, self')" and "durable plain_java command = command"
    and "paged batches command (em_engine self) = (reply, e')"
  shows "r = checkedReply plain_java reply \<and> em_engine self' = e' \<or>
    (\<exists>t. r = Inl t) \<and> (em_engine self' = e' \<or> em_engine self' = em_engine self)"
proof (cases "em_closed self")
  case True
  with assms(1) show ?thesis by (auto simp: paged_run_def runCommand_kt_def checkOpen_def)
next
  case False
  note ran = scripted_runs [where respond = "paged batches", OF plain_java_total assms(2) False assms(3), of db]
  with assms(1) False show ?thesis
    by (cases job) (auto simp: paged_run_def runCommand_kt_def checkOpen_def)
qed

lemma cursor_commands_plain:
  "durable plain_java (getMore_command plain_java i coll) = getMore_command plain_java i coll"
  "durable plain_java (killCursors_command plain_java coll i) = killCursors_command plain_java coll i"
  by (simp_all add: durable_def getMore_command_def killCursors_command_def plain_java_def doc_of_def alist_lib_def WRITE_COMMANDS_def)

lemma cursor_commands_get:
  "doc_get alist_lib (getMore_command plain_java i coll) ''getMore'' = Some (BInt64 i)"
  "doc_get alist_lib (killCursors_command plain_java coll i) ''getMore'' = None"
  "doc_get alist_lib (killCursors_command plain_java coll i) ''killCursors'' = Some (BString coll)"
  "doc_get alist_lib (killCursors_command plain_java coll i) ''cursors'' = Some (BArray [BInt64 i])"
  by (simp_all add: getMore_command_def killCursors_command_def plain_java_def doc_of_def alist_lib_def)

lemma cursorReply_reads:
  assumes "batch \<noteq> ''id''" and "batch \<noteq> ''ns''"
  shows "checkedReply plain_java (cursorReply alist_lib i batch ds) = Inr (cursorReply alist_lib i batch ds)"
    and "\<exists>cursor. cursorOf plain_java (cursorReply alist_lib i batch ds) = Inr cursor \<and> idOf plain_java cursor = Inr i \<and>
      collectionOf plain_java cursor = Inr ''orders'' \<and> batchOf plain_java cursor batch = Inr ds"
proof -
  have docs: "documents_in batch (map BDocument ds) = Inr ds" by (induction ds) simp_all
  show "checkedReply plain_java (cursorReply alist_lib i batch ds) = Inr (cursorReply alist_lib i batch ds)"
    unfolding cursorReply_def using okReply_accepted [OF plain_java_total, of "[(''cursor'', v)]" for v]
    by (auto simp: plain_java_def)
  show "\<exists>cursor. cursorOf plain_java (cursorReply alist_lib i batch ds) = Inr cursor \<and> idOf plain_java cursor = Inr i \<and>
      collectionOf plain_java cursor = Inr ''orders'' \<and> batchOf plain_java cursor batch = Inr ds"
    using assms docs
    by (simp add: cursorReply_def cursorOf_def idOf_def collectionOf_def batchOf_def okReply_def plain_java_def doc_of_def
        alist_lib_def accessor_defs longOrNull_def number_at_def as_number_def)
qed

text \<open>What this engine answers to the two cursor commands.\<close>

lemma paged_answers:
  "paged batches (getMore_command plain_java i coll) e =
     (case e of
        Some bs \<Rightarrow>
          if i \<noteq> 7 then (ADoc [(''ok'', BInt32 0), (''code'', BInt32 43)], e)
          else if length bs \<le> 1 then (cursorReply alist_lib 0 ''nextBatch'' (concat bs), None)
          else (cursorReply alist_lib 7 ''nextBatch'' (hd bs), Some (tl bs))
      | None \<Rightarrow> (ADoc [(''ok'', BInt32 0), (''code'', BInt32 43)], e))"
  "paged batches (killCursors_command plain_java coll i) e = (okReply alist_lib [], if i = 7 then None else e)"
  by (simp_all add: paged_def cursor_commands_get split: option.split)

lemma refusal_thrown: "\<exists>t. checkedReply plain_java (ADoc [(''ok'', BInt32 0), (''code'', BInt32 43)]) = Inl t"
  by (simp add: checkedReply_def number_at_def as_number_def plain_java_def alist_lib_def Let_def)

interpretation paged_cursors: cursor_engine plain_java "paged_run batches job" "paged_run batches Active" paged_open
  for batches job
proof (unfold_locales, goal_cases)
  case (1 e)
  then show ?case by (simp add: paged_open_def EXHAUSTED_def split: option.split)
next
  case (2 e db i coll r e')
  obtain reply s where p: "paged batches (getMore_command plain_java i coll) (em_engine e) = (reply, s)" by fastforce
  from paged_run_cases [OF 2 cursor_commands_plain(1) p] p show ?case
    by (auto simp: paged_answers paged_open_def split: option.splits if_splits)
next
  case (3 e db i coll reply' e' cursor j)
  obtain reply s where p: "paged batches (getMore_command plain_java i coll) (em_engine e) = (reply, s)" by fastforce
  from paged_run_cases [OF 3(1) cursor_commands_plain(1) p]
  have ran: "checkedReply plain_java reply = Inr reply'" "em_engine e' = s" by auto
  have nb: "''nextBatch'' \<noteq> ''id''" "''nextBatch'' \<noteq> ''ns''" by simp_all
  from p ran(1) refusal_thrown obtain k ds where k: "reply = cursorReply alist_lib k ''nextBatch'' ds" "k = i \<or> k = 0 \<and> s = None"
    by (auto simp: paged_answers split: option.splits if_splits)
  with ran(1) cursorReply_reads(1) [OF nb] have "reply' = reply" by simp
  with 3(2,3) k(1) cursorReply_reads(2) [OF nb, of k ds] have "j = k" by auto
  with k(2) ran(2) show ?case by (auto simp: paged_open_def EXHAUSTED_def)
next
  case (4 e db coll i r e')
  from paged_run_cases [OF 4 cursor_commands_plain(2) paged_answers(2)] show ?case
    by (auto simp: paged_open_def split: option.splits if_splits)
next
  case (5 e db coll i reply e')
  from paged_run_cases [OF 5 cursor_commands_plain(2) paged_answers(2)] show ?case
    by (auto simp: paged_open_def split: option.splits if_splits)
qed

section \<open>A query's cursor\<close>

text \<open>C14: a flow of documents over an engine that keeps the cursor laws, once its opening reply has been read: whatever
  the collector does (throwing and aborting included) and whatever the engine answers, if the flow ends then the
  cursor it opened is closed, or the flow fails with the very failure of the command that was to kill it (suppressed
  under the first failure when there is one). And when the engine serves the cursor to its end, the flow ends, gives a
  collector that accepts everything the first batch and then every further document in order, and sends nothing
  else.\<close>

theorem flow_delivers_and_cleans_up:
  fixes run uncancelled :: "('e, 'd) runner_kt" and emit :: "('d, 'u) collector"
  assumes "cursor_engine K run uncancelled open_cursors"
    and "run e db command = (Inr reply, e1)" and "CursorPaging_new K db reply = Inr cursor"
  shows "(\<forall>r e' u'. documentFlow K run uncancelled db command emit e u = Some (r, e', u') \<longrightarrow>
      open_cursors e' \<subseteq> open_cursors e1 - {cp_id cursor} \<or>
      (\<exists>killing. (r = Inl killing \<or> (\<exists>failure. r = Inl (addSuppressed failure killing))) \<and>
         (\<exists>e2. uncancelled e2 db (killCursors_command K (cp_collection cursor) (cp_id cursor)) = (Inl killing, e')))) \<and>
    (\<forall>f docs z. (\<forall>d v. emit d v = (None, f v d)) \<longrightarrow>
      serves_kt K run db (cp_collection cursor) e1 (cp_id cursor) docs z \<longrightarrow>
      documentFlow K run uncancelled db command emit e u = Some (Inr (), z, foldl f u (the (cp_pending cursor) @ docs)))"
proof (intro conjI allI impI)
  fix r e' u'
  assume "documentFlow K run uncancelled db command emit e u = Some (r, e', u')"
  from cursor_engine.flow_cleans_up [OF assms(1) this assms(2,3)]
  show "open_cursors e' \<subseteq> open_cursors e1 - {cp_id cursor} \<or>
      (\<exists>killing. (r = Inl killing \<or> (\<exists>failure. r = Inl (addSuppressed failure killing))) \<and>
         (\<exists>e2. uncancelled e2 db (killCursors_command K (cp_collection cursor) (cp_id cursor)) = (Inl killing, e')))" .
next
  fix f docs z
  assume "\<forall>d v. emit d v = (None, f v d)" and serves: "serves_kt K run db (cp_collection cursor) e1 (cp_id cursor) docs z"
  then have pure: "emit d v = (None, f v d)" for d v by simp
  from assms(3) obtain first where first: "CursorPaging_new K db reply =
      Inr \<lparr>cp_database = db, cp_collection = cp_collection cursor, cp_id = cp_id cursor, cp_pending = Some first\<rparr>"
    by (auto simp: CursorPaging_new_def result_iffs)
  with assms(3) have "the (cp_pending cursor) = first" by (cases cursor) simp
  with flow_delivers [OF assms(2) first serves pure]
  show "documentFlow K run uncancelled db command emit e u = Some (Inr (), z, foldl f u (the (cp_pending cursor) @ docs))"
    by simp
qed

text \<open>A collector that keeps what it is given.\<close>

definition append_to :: "('d, 'd list) collector" where
  "append_to d ds = (None, ds @ [d])"

definition paged_client :: "adoc list list option \<Rightarrow> adoc list list option EmbeddedMongo" where
  "paged_client e = EmbeddedMongo_new e"

definition find_demo :: adoc where
  "find_demo = ADoc [(''find'', BString ''orders'')]"

lemma paged_finds:
  "paged_run batches Active (paged_client None) db find_demo =
     (Inr (cursorReply alist_lib 7 ''firstBatch'' []), paged_client (Some batches))"
  "CursorPaging_new plain_java db (cursorReply alist_lib 7 ''firstBatch'' []) =
     Inr \<lparr>cp_database = db, cp_collection = ''orders'', cp_id = 7, cp_pending = Some []\<rparr>"
proof -
  have "durable plain_java find_demo = find_demo"
    by (simp add: durable_def find_demo_def plain_java_def doc_of_def alist_lib_def WRITE_COMMANDS_def)
  moreover have "paged batches find_demo None = (cursorReply alist_lib 7 ''firstBatch'' [], Some batches)"
    by (simp add: paged_def find_demo_def alist_lib_def)
  ultimately show "paged_run batches Active (paged_client None) db find_demo =
     (Inr (cursorReply alist_lib 7 ''firstBatch'' []), paged_client (Some batches))"
    using scripted_runs [where respond = "paged batches" and self = "paged_client None", OF plain_java_total] cursorReply_reads(1)
    by (simp add: paged_run_def runCommand_kt_def checkOpen_def paged_client_def EmbeddedMongo_new_def)
  show "CursorPaging_new plain_java db (cursorReply alist_lib 7 ''firstBatch'' []) =
     Inr \<lparr>cp_database = db, cp_collection = ''orders'', cp_id = 7, cp_pending = Some []\<rparr>"
    using cursorReply_reads(2) [of "''firstBatch''" 7 "[]"] by (auto simp: CursorPaging_new_def)
qed

lemma paged_serves:
  "batches \<noteq> [] \<Longrightarrow> serves_kt plain_java (paged_run bs Active) db ''orders'' (paged_client (Some batches)) 7 (concat batches) (paged_client None)"
proof (induction batches)
  case (Cons b batches)
  let ?e = "paged_client (Some (b # batches))"
  let ?i = "if batches = [] then 0 else 7" and ?s = "if batches = [] then None else Some batches"
  have "paged bs (getMore_command plain_java 7 ''orders'') (em_engine ?e) = (cursorReply alist_lib ?i ''nextBatch'' b, ?s)"
    by (auto simp: paged_answers paged_client_def EmbeddedMongo_new_def le_Suc_eq)
  from scripted_runs [where respond = "paged bs", OF plain_java_total cursor_commands_plain(1) _ this, of db]
  have "paged_run bs Active ?e db (getMore_command plain_java 7 ''orders'') =
      (Inr (cursorReply alist_lib ?i ''nextBatch'' b), paged_client ?s)"
    using cursorReply_reads(1) by (simp add: paged_run_def runCommand_kt_def checkOpen_def paged_client_def EmbeddedMongo_new_def)
  moreover obtain cursor where "cursorOf plain_java (cursorReply alist_lib ?i ''nextBatch'' b) = Inr cursor"
      "idOf plain_java cursor = Inr ?i" "batchOf plain_java cursor ''nextBatch'' = Inr b"
    using cursorReply_reads(2) [of "''nextBatch''" ?i b] by auto
  moreover have "serves_kt plain_java (paged_run bs Active) db ''orders'' (paged_client ?s) ?i (concat batches) (paged_client None)"
    using Cons.IH serves_kt.ends [of plain_java "paged_run bs Active" db "''orders''" "paged_client None"]
    by (auto simp: EXHAUSTED_def)
  ultimately show ?case
    using serves_kt.more [of 7 "paged_run bs Active" ?e db plain_java "''orders''" _ _ cursor ?i b "concat batches" "paged_client None"]
    by (simp add: EXHAUSTED_def)
qed simp

theorem flow_delivers_and_cleans_up_witness:
  "cursor_engine plain_java (paged_run [[ADoc []], [ADoc [(''n'', BInt32 1)]]] Active)
     (paged_run [[ADoc []], [ADoc [(''n'', BInt32 1)]]] Active) paged_open \<and>
   documentFlow plain_java (paged_run [[ADoc []], [ADoc [(''n'', BInt32 1)]]] Active)
     (paged_run [[ADoc []], [ADoc [(''n'', BInt32 1)]]] Active) ''shop'' find_demo append_to (paged_client None) [] =
     Some (Inr (), paged_client None, [ADoc [], ADoc [(''n'', BInt32 1)]])"
proof -
  let ?run = "paged_run [[ADoc []], [ADoc [(''n'', BInt32 1)]]] Active"
  let ?cursor = "\<lparr>cp_database = ''shop'', cp_collection = ''orders'', cp_id = 7, cp_pending = Some []\<rparr>"
  have engine: "cursor_engine plain_java ?run ?run paged_open" by (rule paged_cursors.cursor_engine_axioms)
  have "serves_kt plain_java ?run ''shop'' (cp_collection ?cursor) (paged_client (Some [[ADoc []], [ADoc [(''n'', BInt32 1)]]]))
      (cp_id ?cursor) [ADoc [], ADoc [(''n'', BInt32 1)]] (paged_client None)"
    using paged_serves [of "[[ADoc []], [ADoc [(''n'', BInt32 1)]]]"] by simp
  moreover have "\<forall>(d :: adoc) v. append_to d v = (None, v @ [d])" by (simp add: append_to_def)
  ultimately have "documentFlow plain_java ?run ?run ''shop'' find_demo append_to (paged_client None) [] =
     Some (Inr (), paged_client None, foldl (\<lambda>v d. v @ [d]) [] (the (cp_pending ?cursor) @ [ADoc [], ADoc [(''n'', BInt32 1)]]))"
    using flow_delivers_and_cleans_up [where emit = append_to and u = "[]" and db = "''shop''", OF engine paged_finds(1) paged_finds(2),
        THEN conjunct2, THEN spec [where x = "\<lambda>v d. v @ [d]"]] by simp
  with engine show ?thesis by simp
qed

text \<open>A caller cancelled while the opening command runs never learns the cursor's id, and the engine keeps the cursor.\<close>

lemma cancelled_opening_leaves_a_cursor:
  "\<exists>self t. documentFlow plain_java (paged_run batches Cancelled_during) (paged_run batches Active) db find_demo append_to
     (paged_client None) [] = Some (Inl t, self, []) \<and> paged_open (paged_client None) = {} \<and> paged_open self = {7}"
proof -
  have "\<exists>t. paged_run batches Cancelled_during (paged_client None) db find_demo = (Inl t, paged_client (Some batches))"
    using paged_finds(1) [of batches db]
    by (auto simp: paged_run_def runCommand_kt_def checkOpen_def paged_client_def EmbeddedMongo_new_def split: prod.splits)
  then show ?thesis
    by (auto simp: documentFlow_def paged_open_def paged_client_def EmbeddedMongo_new_def)
qed

end
