(* ===== verification/Kotlin_Crud.thy ===== *)
theory Kotlin_Crud
  imports Kotlin_Api
begin

text \<open>
  The rest of the document API of the Kotlin library: databases and collections (\<open>MongoDatabase.kt\<close>, \<open>MongoCollection.kt\<close>),
  the two queries (\<open>FindQuery.kt\<close>, \<open>AggregateQuery.kt\<close>) and the operations that are one command each, inserts,
  updates, deletes, counts, \<open>distinct\<close>, \<open>findAndModify\<close>, indexes and drops. Each operation builds its command, sends it
  through the \<open>CommandRunner\<close> and reads the reply; a command is built by a definition of its own, so that the lemmas can
  speak about what is sent. A filter, a sort or an update is the document it converts to. \<open>ObjectId()\<close> is a generator
  that is passed along, and the text Kotlin gives a BSON value is an argument.

  The lemmas are that a command that writes is journalled by the client, except the creation of a collection with its own
  concern and an aggregation with \<open>$out\<close> or \<open>$merge\<close>, what an insert stores and reports, and that a reply that cannot be
  accounted for is an exception.
\<close>

section \<open>Databases and collections\<close>

record MongoCollection =
  mc_database :: string
  mc_name :: string

definition getCollection :: "string \<Rightarrow> string \<Rightarrow> MongoCollection" where
  "getCollection database name = \<lparr>mc_database = database, mc_name = name\<rparr>"

definition namespace_kt :: "MongoCollection \<Rightarrow> string" where
  "namespace_kt self = mc_database self @ ''.'' @ mc_name self"

definition collection_runCommand :: "('e, 'd) runner_kt \<Rightarrow> MongoCollection \<Rightarrow> 'd \<Rightarrow> 'e \<Rightarrow> ('d throwable + 'd) \<times> 'e" where
  "collection_runCommand run self command e = run e (mc_database self) command"

text \<open>\<open>Document.putAll\<close> and the \<open>apply\<close> blocks that append what is there.\<close>

definition putAll :: "'d bson_lib \<Rightarrow> 'd \<Rightarrow> 'd \<Rightarrow> 'd" where
  "putAll B d other =
     foldl (\<lambda>d k. case doc_get B other k of Some v \<Rightarrow> doc_insert B d k v | None \<Rightarrow> d) d (doc_keys B other)"

definition appending :: "string \<Rightarrow> ('a \<Rightarrow> 'd bson) \<Rightarrow> 'a option \<Rightarrow> (string \<times> 'd bson) list" where
  "appending k f v = (case v of None \<Rightarrow> [] | Some x \<Rightarrow> [(k, f x)])"

definition map_fst_result :: "('a \<Rightarrow> 't + 'b) \<Rightarrow> ('t + 'a) \<times> 'e \<Rightarrow> ('t + 'b) \<times> 'e" where
  "map_fst_result f p = (and_then (fst p) f, snd p)"

text \<open>\<open>ignoring\<close> takes the codes it is given for success.\<close>

definition ignoring :: "i32 list \<Rightarrow> ('d throwable + 'a) \<times> 'e \<Rightarrow> ('d throwable + unit) \<times> 'e" where
  "ignoring codes p =
     ((case fst p of
         Inr _ \<Rightarrow> Inr ()
       | Inl t \<Rightarrow>
           (case thrown_kind t of
              Embedded_mongo_exception _ c _ \<Rightarrow> if c \<in> set codes then Inr () else Inl t
            | _ \<Rightarrow> Inl t)), snd p)"

definition create_command :: "('d, 'b) java_bson \<Rightarrow> string \<Rightarrow> 'd option \<Rightarrow> 'd" where
  "create_command K name options =
     (let create = doc_of (jb_lib K) [(''create'', BString name)]
      in case options of None \<Rightarrow> create | Some d \<Rightarrow> putAll (jb_lib K) create d)"

definition createCollection ::
  "('d, 'b) java_bson \<Rightarrow> ('e, 'd) runner_kt \<Rightarrow> string \<Rightarrow> string \<Rightarrow> 'd option \<Rightarrow> 'e \<Rightarrow> ('d throwable + unit) \<times> 'e" where
  "createCollection K run db name options e =
     map_fst_result (\<lambda>_. Inr ()) (run e db (create_command K name options))"

definition dropDatabase_command :: "('d, 'b) java_bson \<Rightarrow> 'd" where
  "dropDatabase_command K = doc_of (jb_lib K) [(''dropDatabase'', BInt32 1)]"

definition database_drop_kt ::
  "('d, 'b) java_bson \<Rightarrow> ('e, 'd) runner_kt \<Rightarrow> string \<Rightarrow> 'e \<Rightarrow> ('d throwable + unit) \<times> 'e" where
  "database_drop_kt K run db e = ignoring [NAMESPACE_NOT_FOUND] (run e db (dropDatabase_command K))"

definition drop_command_kt :: "('d, 'b) java_bson \<Rightarrow> string \<Rightarrow> 'd" where
  "drop_command_kt K name = doc_of (jb_lib K) [(''drop'', BString name)]"

definition collection_drop_kt ::
  "('d, 'b) java_bson \<Rightarrow> ('e, 'd) runner_kt \<Rightarrow> MongoCollection \<Rightarrow> 'e \<Rightarrow> ('d throwable + unit) \<times> 'e" where
  "collection_drop_kt K run self e =
     ignoring [NAMESPACE_NOT_FOUND] (collection_runCommand run self (drop_command_kt K (mc_name self)) e)"

definition listCollections_command :: "('d, 'b) java_bson \<Rightarrow> 'd" where
  "listCollections_command K = doc_of (jb_lib K) [(''listCollections'', BInt32 1), (''nameOnly'', BBoolean True)]"

definition listCollectionNames ::
  "('d, 'b) java_bson
     \<Rightarrow> (('d \<Rightarrow> 'd throwable + string) \<Rightarrow> ('e, 'd, 'd, string list) flow \<Rightarrow> ('e, 'd, string, string list) flow)
     \<Rightarrow> ('e, 'd, string) to_list \<Rightarrow> ('e, 'd) runner_kt \<Rightarrow> ('e, 'd) runner_kt \<Rightarrow> string \<Rightarrow> 'e
     \<Rightarrow> (('d throwable + string list) \<times> 'e) option" where
  "listCollectionNames K mapping toList run uncancelled db e =
     toList (mapping (\<lambda>entry. ok_or (raised_here ''listCollections named no collection'') (get_str (jb_lib K) entry ''name''))
       (documentFlow K run uncancelled db (listCollections_command K))) e"

section \<open>Find\<close>

record 'd FindQuery =
  fq_collection :: MongoCollection
  fq_filter :: "'d option"
  fq_sort :: "'d option"
  fq_projection :: "'d option"
  fq_skip :: "i32 option"
  fq_limit :: "i32 option"
  fq_batchSize :: "i32 option"
  fq_hint :: "'d bson option"

definition collection_find :: "MongoCollection \<Rightarrow> 'd option \<Rightarrow> 'd FindQuery" where
  "collection_find self condition =
     \<lparr>fq_collection = self, fq_filter = condition, fq_sort = None, fq_projection = None, fq_skip = None,
      fq_limit = None, fq_batchSize = None, fq_hint = None\<rparr>"

definition FindQuery_filter :: "'d \<Rightarrow> 'd FindQuery \<Rightarrow> 'd FindQuery" where
  "FindQuery_filter d self = self\<lparr>fq_filter := Some d\<rparr>"

definition FindQuery_sort :: "'d \<Rightarrow> 'd FindQuery \<Rightarrow> 'd FindQuery" where
  "FindQuery_sort d self = self\<lparr>fq_sort := Some d\<rparr>"

definition FindQuery_projection :: "'d \<Rightarrow> 'd FindQuery \<Rightarrow> 'd FindQuery" where
  "FindQuery_projection d self = self\<lparr>fq_projection := Some d\<rparr>"

definition FindQuery_skip :: "i32 \<Rightarrow> 'd FindQuery \<Rightarrow> 'd throwable + 'd FindQuery" where
  "FindQuery_skip n self =
     (if 0 \<le> sint n then Inr (self\<lparr>fq_skip := Some n\<rparr>)
      else Inl (thrown (Illegal_argument (''cannot skip '' @ show_int (sint n) @ '' documents''))))"

definition FindQuery_limit :: "i32 \<Rightarrow> 'd FindQuery \<Rightarrow> 'd throwable + 'd FindQuery" where
  "FindQuery_limit n self =
     (if 0 \<le> sint n then Inr (self\<lparr>fq_limit := Some n\<rparr>)
      else Inl (thrown (Illegal_argument (''cannot limit a query to '' @ show_int (sint n) @ '' documents''))))"

definition FindQuery_batchSize :: "i32 \<Rightarrow> 'd FindQuery \<Rightarrow> 'd throwable + 'd FindQuery" where
  "FindQuery_batchSize n self =
     (if 0 < sint n then Inr (self\<lparr>fq_batchSize := Some n\<rparr>)
      else Inl (thrown (Illegal_argument (''a batch of '' @ show_int (sint n) @ '' documents holds nothing''))))"

definition FindQuery_hint :: "'d \<Rightarrow> 'd FindQuery \<Rightarrow> 'd FindQuery" where
  "FindQuery_hint d self = self\<lparr>fq_hint := Some (BDocument d)\<rparr>"

definition FindQuery_hintString :: "string \<Rightarrow> 'd FindQuery \<Rightarrow> 'd FindQuery" where
  "FindQuery_hintString name self = self\<lparr>fq_hint := Some (BString name)\<rparr>"

definition FindQuery_command :: "('d, 'b) java_bson \<Rightarrow> 'd FindQuery \<Rightarrow> 'd" where
  "FindQuery_command K self =
     doc_of (jb_lib K) ((''find'', BString (mc_name (fq_collection self))) #
       appending ''filter'' BDocument (fq_filter self) @
       appending ''sort'' BDocument (fq_sort self) @
       appending ''projection'' BDocument (fq_projection self) @
       appending ''skip'' BInt32 (fq_skip self) @
       appending ''limit'' BInt32 (fq_limit self) @
       appending ''batchSize'' BInt32 (fq_batchSize self) @
       appending ''hint'' (\<lambda>h. h) (fq_hint self))"

definition FindQuery_asFlow ::
  "('d, 'b) java_bson \<Rightarrow> ('e, 'd) runner_kt \<Rightarrow> ('e, 'd) runner_kt \<Rightarrow> 'd FindQuery \<Rightarrow> ('e, 'd, 'd, 'u) flow" where
  "FindQuery_asFlow K run uncancelled self =
     documentFlow K run uncancelled (mc_database (fq_collection self)) (FindQuery_command K self)"

definition FindQuery_toList ::
  "('d, 'b) java_bson \<Rightarrow> ('e, 'd, 'd) to_list \<Rightarrow> ('e, 'd) runner_kt \<Rightarrow> ('e, 'd) runner_kt \<Rightarrow> 'd FindQuery \<Rightarrow> 'e
     \<Rightarrow> (('d throwable + 'd list) \<times> 'e) option" where
  "FindQuery_toList K toList run uncancelled self e = toList (FindQuery_asFlow K run uncancelled self) e"

text \<open>\<open>limit(1)\<close> never throws.\<close>

definition FindQuery_firstOrNull ::
  "('d, 'b) java_bson \<Rightarrow> ('e, 'd) first_or_null \<Rightarrow> ('e, 'd) runner_kt \<Rightarrow> ('e, 'd) runner_kt \<Rightarrow> 'd FindQuery \<Rightarrow> 'e
     \<Rightarrow> (('d throwable + 'd option) \<times> 'e) option" where
  "FindQuery_firstOrNull K firstOrNull run uncancelled self e =
     (case FindQuery_limit 1 self of
        Inl t \<Rightarrow> Some (Inl t, e)
      | Inr q \<Rightarrow> firstOrNull (FindQuery_asFlow K run uncancelled q) e)"

definition FindQuery_first ::
  "('d, 'b) java_bson \<Rightarrow> ('e, 'd) first_or_null \<Rightarrow> ('d \<Rightarrow> string) \<Rightarrow> ('e, 'd) runner_kt \<Rightarrow> ('e, 'd) runner_kt
     \<Rightarrow> 'd FindQuery \<Rightarrow> 'e \<Rightarrow> (('d throwable + 'd) \<times> 'e) option" where
  "FindQuery_first K firstOrNull toJson run uncancelled self e =
     map_option (map_fst_result (ok_or (thrown (Other_throwable (''no document matched '' @ toJson (FindQuery_command K self))))))
       (FindQuery_firstOrNull K firstOrNull run uncancelled self e)"

section \<open>Aggregate\<close>

record 'd AggregateQuery =
  aq_collection :: MongoCollection
  aq_pipeline :: "'d list"
  aq_batchSize :: "i32 option"
  aq_allowDiskUse :: "bool option"
  aq_hint :: "'d bson option"

definition collection_aggregate :: "MongoCollection \<Rightarrow> 'd list \<Rightarrow> 'd AggregateQuery" where
  "collection_aggregate self stages =
     \<lparr>aq_collection = self, aq_pipeline = stages, aq_batchSize = None, aq_allowDiskUse = None, aq_hint = None\<rparr>"

definition AggregateQuery_pipeline :: "'d list \<Rightarrow> 'd AggregateQuery \<Rightarrow> 'd AggregateQuery" where
  "AggregateQuery_pipeline stages self = self\<lparr>aq_pipeline := stages\<rparr>"

definition AggregateQuery_append :: "'d list \<Rightarrow> 'd AggregateQuery \<Rightarrow> 'd AggregateQuery" where
  "AggregateQuery_append stages self = self\<lparr>aq_pipeline := aq_pipeline self @ stages\<rparr>"

definition AggregateQuery_batchSize :: "i32 \<Rightarrow> 'd AggregateQuery \<Rightarrow> 'd throwable + 'd AggregateQuery" where
  "AggregateQuery_batchSize n self =
     (if 0 < sint n then Inr (self\<lparr>aq_batchSize := Some n\<rparr>)
      else Inl (thrown (Illegal_argument (''a batch of '' @ show_int (sint n) @ '' documents holds nothing''))))"

definition AggregateQuery_allowDiskUse :: "bool \<Rightarrow> 'd AggregateQuery \<Rightarrow> 'd AggregateQuery" where
  "AggregateQuery_allowDiskUse spill self = self\<lparr>aq_allowDiskUse := Some spill\<rparr>"

definition AggregateQuery_hint :: "'d \<Rightarrow> 'd AggregateQuery \<Rightarrow> 'd AggregateQuery" where
  "AggregateQuery_hint d self = self\<lparr>aq_hint := Some (BDocument d)\<rparr>"

definition AggregateQuery_hintString :: "string \<Rightarrow> 'd AggregateQuery \<Rightarrow> 'd AggregateQuery" where
  "AggregateQuery_hintString name self = self\<lparr>aq_hint := Some (BString name)\<rparr>"

definition AggregateQuery_command :: "('d, 'b) java_bson \<Rightarrow> 'd AggregateQuery \<Rightarrow> 'd" where
  "AggregateQuery_command K self =
     doc_of (jb_lib K) ([(''aggregate'', BString (mc_name (aq_collection self))),
       (''pipeline'', BArray (map BDocument (aq_pipeline self))),
       (''cursor'', BDocument (doc_of (jb_lib K) (appending ''batchSize'' BInt32 (aq_batchSize self))))] @
       appending ''allowDiskUse'' BBoolean (aq_allowDiskUse self) @
       appending ''hint'' (\<lambda>h. h) (aq_hint self))"

definition WRITING_STAGES :: "string list" where
  "WRITING_STAGES = [''$out'', ''$merge'']"

definition pipeline_writes :: "('d, 'b) java_bson \<Rightarrow> 'd list \<Rightarrow> bool" where
  "pipeline_writes K stages =
     (case rev stages of
        [] \<Rightarrow> False
      | stage # _ \<Rightarrow> (case doc_keys (jb_lib K) stage of [] \<Rightarrow> False | k # _ \<Rightarrow> k \<in> set WRITING_STAGES))"

definition limitedToOne :: "('d, 'b) java_bson \<Rightarrow> 'd AggregateQuery \<Rightarrow> 'd AggregateQuery" where
  "limitedToOne K self =
     (if pipeline_writes K (aq_pipeline self) then self
      else AggregateQuery_append [doc_of (jb_lib K) [(''$limit'', BInt32 1)]] self)"

definition AggregateQuery_asFlow ::
  "('d, 'b) java_bson \<Rightarrow> ('e, 'd) runner_kt \<Rightarrow> ('e, 'd) runner_kt \<Rightarrow> 'd AggregateQuery \<Rightarrow> ('e, 'd, 'd, 'u) flow" where
  "AggregateQuery_asFlow K run uncancelled self =
     documentFlow K run uncancelled (mc_database (aq_collection self)) (AggregateQuery_command K self)"

definition AggregateQuery_toList ::
  "('d, 'b) java_bson \<Rightarrow> ('e, 'd, 'd) to_list \<Rightarrow> ('e, 'd) runner_kt \<Rightarrow> ('e, 'd) runner_kt \<Rightarrow> 'd AggregateQuery \<Rightarrow> 'e
     \<Rightarrow> (('d throwable + 'd list) \<times> 'e) option" where
  "AggregateQuery_toList K toList run uncancelled self e = toList (AggregateQuery_asFlow K run uncancelled self) e"

definition AggregateQuery_firstOrNull ::
  "('d, 'b) java_bson \<Rightarrow> ('e, 'd) first_or_null \<Rightarrow> ('e, 'd) runner_kt \<Rightarrow> ('e, 'd) runner_kt \<Rightarrow> 'd AggregateQuery \<Rightarrow> 'e
     \<Rightarrow> (('d throwable + 'd option) \<times> 'e) option" where
  "AggregateQuery_firstOrNull K firstOrNull run uncancelled self e =
     firstOrNull (AggregateQuery_asFlow K run uncancelled (limitedToOne K self)) e"

definition AggregateQuery_first ::
  "('d, 'b) java_bson \<Rightarrow> ('e, 'd) first_or_null \<Rightarrow> ('e, 'd) runner_kt \<Rightarrow> ('e, 'd) runner_kt \<Rightarrow> 'd AggregateQuery \<Rightarrow> 'e
     \<Rightarrow> (('d throwable + 'd) \<times> 'e) option" where
  "AggregateQuery_first K firstOrNull run uncancelled self e =
     map_option (map_fst_result (ok_or (thrown (Other_throwable ''the pipeline produced no documents''))))
       (AggregateQuery_firstOrNull K firstOrNull run uncancelled self e)"

section \<open>Inserts\<close>

text \<open>\<open>ObjectId()\<close> is drawn from a state of ids.\<close>

definition withId :: "('d, 'b) java_bson \<Rightarrow> ('i \<Rightarrow> nat \<times> 'i) \<Rightarrow> 'd \<Rightarrow> 'i \<Rightarrow> 'd \<times> 'i" where
  "withId K new_oid d ids =
     (if contains_key (jb_lib K) d ''_id'' then (d, ids)
      else let (n, ids') = new_oid ids in (doc_insert (jb_lib K) d ''_id'' (BObjectId n), ids'))"

fun withIds :: "('d, 'b) java_bson \<Rightarrow> ('i \<Rightarrow> nat \<times> 'i) \<Rightarrow> 'd list \<Rightarrow> 'i \<Rightarrow> 'd list \<times> 'i" where
  "withIds K new_oid [] ids = ([], ids)"
| "withIds K new_oid (d # ds) ids =
     (let (stored, ids1) = withId K new_oid d ids; (rest, ids2) = withIds K new_oid ds ids1
      in (stored # rest, ids2))"

definition insert_command_kt :: "('d, 'b) java_bson \<Rightarrow> string \<Rightarrow> 'd list \<Rightarrow> bool \<Rightarrow> 'd" where
  "insert_command_kt K name documents ordered =
     doc_of (jb_lib K) [(''insert'', BString name), (''documents'', BArray (map BDocument documents)),
       (''ordered'', BBoolean ordered)]"

definition insert_kt ::
  "('d, 'b) java_bson \<Rightarrow> ('e, 'd) runner_kt \<Rightarrow> MongoCollection \<Rightarrow> 'd list \<Rightarrow> bool \<Rightarrow> 'e \<Rightarrow> ('d throwable + unit) \<times> 'e" where
  "insert_kt K run self documents ordered e =
     map_fst_result (\<lambda>reply. and_then (requiredLong K reply ''n'') (\<lambda>inserted.
         if inserted = word_of_nat (length documents) then Inr ()
         else Inl (raised_here (''the engine stored '' @ show_int (sint inserted) @ '' of '' @
           show_nat (length documents) @ '' documents without reporting an error''))))
       (collection_runCommand run self (insert_command_kt K (mc_name self) documents ordered) e)"

definition insertOne_kt ::
  "('d, 'b) java_bson \<Rightarrow> ('i \<Rightarrow> nat \<times> 'i) \<Rightarrow> ('e, 'd) runner_kt \<Rightarrow> MongoCollection \<Rightarrow> 'd \<Rightarrow> 'i \<Rightarrow> 'e
     \<Rightarrow> ('d throwable + 'd bson option) \<times> 'i \<times> 'e" where
  "insertOne_kt K new_oid run self document ids e =
     (let (stored, ids') = withId K new_oid document ids;
          (r, e') = insert_kt K run self [stored] True e
      in (map_ok (\<lambda>_. kt_get K stored ''_id'') r, ids', e'))"

definition insertMany_kt ::
  "('d, 'b) java_bson \<Rightarrow> ('i \<Rightarrow> nat \<times> 'i) \<Rightarrow> ('e, 'd) runner_kt \<Rightarrow> MongoCollection \<Rightarrow> 'd list \<Rightarrow> bool \<Rightarrow> 'i \<Rightarrow> 'e
     \<Rightarrow> ('d throwable + (nat \<times> 'd bson option) list) \<times> 'i \<times> 'e" where
  "insertMany_kt K new_oid run self documents ordered ids e =
     (if documents = []
      then (Inl (thrown (Illegal_argument ''an insert of no documents is a command the engine rejects'')), ids, e)
      else let (stored, ids') = withIds K new_oid documents ids;
               (r, e') = insert_kt K run self stored ordered e
           in (map_ok (\<lambda>_. enumerate 0 (map (\<lambda>d. kt_get K d ''_id'') stored)) r, ids', e'))"

section \<open>Updates\<close>

record 'd UpdateResult_kt =
  ur_matchedCount :: i64
  ur_modifiedCount :: i64
  ur_upsertedId :: "'d bson option"

definition update_command_kt :: "('d, 'b) java_bson \<Rightarrow> string \<Rightarrow> 'd \<Rightarrow> 'd \<Rightarrow> bool \<Rightarrow> bool \<Rightarrow> 'd" where
  "update_command_kt K name condition change multi upsert =
     doc_of (jb_lib K) [(''update'', BString name),
       (''updates'', BArray [BDocument (doc_of (jb_lib K) [(''q'', BDocument condition), (''u'', BDocument change),
          (''multi'', BBoolean multi), (''upsert'', BBoolean upsert)])])]"

definition upsertedId :: "('d, 'b) java_bson \<Rightarrow> 'd \<Rightarrow> 'd bson option" where
  "upsertedId K reply =
     (case get_array (jb_lib K) reply ''upserted'' of
        None \<Rightarrow> None
      | Some vs \<Rightarrow> (case documents_of vs of [] \<Rightarrow> None | d # _ \<Rightarrow> kt_get K d ''_id''))"

definition update_kt ::
  "('d, 'b) java_bson \<Rightarrow> ('e, 'd) runner_kt \<Rightarrow> MongoCollection \<Rightarrow> 'd \<Rightarrow> 'd \<Rightarrow> bool \<Rightarrow> bool \<Rightarrow> 'e
     \<Rightarrow> ('d throwable + 'd UpdateResult_kt) \<times> 'e" where
  "update_kt K run self condition change multi upsert e =
     map_fst_result (\<lambda>reply. and_then (requiredLong K reply ''n'') (\<lambda>n.
         Inr \<lparr>ur_matchedCount = n, ur_modifiedCount = unwrap_or 0 (longOrNull K reply ''nModified''),
              ur_upsertedId = upsertedId K reply\<rparr>))
       (collection_runCommand run self (update_command_kt K (mc_name self) condition change multi upsert) e)"

definition updateOne_kt ::
  "('d, 'b) java_bson \<Rightarrow> ('e, 'd) runner_kt \<Rightarrow> MongoCollection \<Rightarrow> 'd \<Rightarrow> 'd \<Rightarrow> bool \<Rightarrow> 'e
     \<Rightarrow> ('d throwable + 'd UpdateResult_kt) \<times> 'e" where
  "updateOne_kt K run self condition change upsert e = update_kt K run self condition change False upsert e"

definition updateMany_kt ::
  "('d, 'b) java_bson \<Rightarrow> ('e, 'd) runner_kt \<Rightarrow> MongoCollection \<Rightarrow> 'd \<Rightarrow> 'd \<Rightarrow> bool \<Rightarrow> 'e
     \<Rightarrow> ('d throwable + 'd UpdateResult_kt) \<times> 'e" where
  "updateMany_kt K run self condition change upsert e = update_kt K run self condition change True upsert e"

definition holds_operators :: "('d, 'b) java_bson \<Rightarrow> 'd \<Rightarrow> bool" where
  "holds_operators K d \<longleftrightarrow> (\<exists>k\<in>set (doc_keys (jb_lib K) d). take 1 k = ''$'')"

definition replaceOne_kt ::
  "('d, 'b) java_bson \<Rightarrow> ('d \<Rightarrow> string) \<Rightarrow> ('e, 'd) runner_kt \<Rightarrow> MongoCollection \<Rightarrow> 'd \<Rightarrow> 'd \<Rightarrow> bool \<Rightarrow> 'e
     \<Rightarrow> ('d throwable + 'd UpdateResult_kt) \<times> 'e" where
  "replaceOne_kt K toText run self condition replacement upsert e =
     (if holds_operators K replacement
      then (Inl (thrown (Illegal_argument
             (''a replacement is a whole document, not update operators: use updateOne for '' @ toText replacement))), e)
      else update_kt K run self condition replacement False upsert e)"

section \<open>Deletes and counts\<close>

definition delete_command_kt :: "('d, 'b) java_bson \<Rightarrow> string \<Rightarrow> 'd \<Rightarrow> i32 \<Rightarrow> 'd" where
  "delete_command_kt K name condition limit =
     doc_of (jb_lib K) [(''delete'', BString name),
       (''deletes'', BArray [BDocument (doc_of (jb_lib K) [(''q'', BDocument condition), (''limit'', BInt32 limit)])])]"

definition delete_kt ::
  "('d, 'b) java_bson \<Rightarrow> ('e, 'd) runner_kt \<Rightarrow> MongoCollection \<Rightarrow> 'd \<Rightarrow> i32 \<Rightarrow> 'e \<Rightarrow> ('d throwable + i64) \<times> 'e" where
  "delete_kt K run self condition limit e =
     map_fst_result (\<lambda>reply. requiredLong K reply ''n'')
       (collection_runCommand run self (delete_command_kt K (mc_name self) condition limit) e)"

definition deleteOne_kt ::
  "('d, 'b) java_bson \<Rightarrow> ('e, 'd) runner_kt \<Rightarrow> MongoCollection \<Rightarrow> 'd \<Rightarrow> 'e \<Rightarrow> ('d throwable + i64) \<times> 'e" where
  "deleteOne_kt K run self condition e = delete_kt K run self condition 1 e"

definition deleteMany_kt ::
  "('d, 'b) java_bson \<Rightarrow> ('e, 'd) runner_kt \<Rightarrow> MongoCollection \<Rightarrow> 'd \<Rightarrow> 'e \<Rightarrow> ('d throwable + i64) \<times> 'e" where
  "deleteMany_kt K run self condition e = delete_kt K run self condition 0 e"

definition countDocuments_kt ::
  "('d, 'b) java_bson \<Rightarrow> ('e, 'd) first_or_null \<Rightarrow> ('e, 'd) runner_kt \<Rightarrow> ('e, 'd) runner_kt \<Rightarrow> MongoCollection \<Rightarrow> 'd option \<Rightarrow> 'e
     \<Rightarrow> (('d throwable + i64) \<times> 'e) option" where
  "countDocuments_kt K firstOrNull run uncancelled self condition e =
     (let stages = (case condition of None \<Rightarrow> [] | Some d \<Rightarrow> [doc_of (jb_lib K) [(''$match'', BDocument d)]]) @
                   [doc_of (jb_lib K) [(''$count'', BString ''count'')]]
      in map_option (map_fst_result (\<lambda>row. case row of None \<Rightarrow> Inr 0 | Some counted \<Rightarrow> requiredLong K counted ''count''))
           (firstOrNull (AggregateQuery_asFlow K run uncancelled (collection_aggregate self stages)) e))"

definition count_command_kt :: "('d, 'b) java_bson \<Rightarrow> string \<Rightarrow> 'd" where
  "count_command_kt K name = doc_of (jb_lib K) [(''count'', BString name)]"

definition estimatedDocumentCount_kt ::
  "('d, 'b) java_bson \<Rightarrow> ('e, 'd) runner_kt \<Rightarrow> MongoCollection \<Rightarrow> 'e \<Rightarrow> ('d throwable + i64) \<times> 'e" where
  "estimatedDocumentCount_kt K run self e =
     map_fst_result (\<lambda>reply. requiredLong K reply ''n'')
       (collection_runCommand run self (count_command_kt K (mc_name self)) e)"

definition distinct_command_kt :: "('d, 'b) java_bson \<Rightarrow> string \<Rightarrow> string \<Rightarrow> 'd option \<Rightarrow> 'd" where
  "distinct_command_kt K name field condition =
     doc_of (jb_lib K) ([(''distinct'', BString name), (''key'', BString field)] @ appending ''query'' BDocument condition)"

definition distinct_kt ::
  "('d, 'b) java_bson \<Rightarrow> ('e, 'd) runner_kt \<Rightarrow> MongoCollection \<Rightarrow> string \<Rightarrow> 'd option \<Rightarrow> 'e
     \<Rightarrow> ('d throwable + 'd bson list) \<times> 'e" where
  "distinct_kt K run self field condition e =
     map_fst_result (\<lambda>reply. ok_or (raised_here ''distinct answered with no `values` array'') (get_array (jb_lib K) reply ''values''))
       (collection_runCommand run self (distinct_command_kt K (mc_name self) field condition) e)"

section \<open>Find and modify\<close>

datatype ReturnDocument = BEFORE | AFTER

definition findAndModify_command :: "('d, 'b) java_bson \<Rightarrow> string \<Rightarrow> 'd \<Rightarrow> 'd option \<Rightarrow> 'd option \<Rightarrow> (string \<times> 'd bson) list \<Rightarrow> 'd" where
  "findAndModify_command K name condition sorting projection action =
     doc_of (jb_lib K) ([(''findAndModify'', BString name), (''query'', BDocument condition)] @
       appending ''sort'' BDocument sorting @ appending ''fields'' BDocument projection @ action)"

text \<open>\<open>is_null\<close> is what Java decodes to \<open>null\<close>.\<close>

definition findAndModify_kt ::
  "('d, 'b) java_bson \<Rightarrow> ('d bson \<Rightarrow> bool) \<Rightarrow> ('e, 'd) runner_kt \<Rightarrow> MongoCollection \<Rightarrow> 'd \<Rightarrow> 'd option \<Rightarrow> 'd option
     \<Rightarrow> (string \<times> 'd bson) list \<Rightarrow> 'e \<Rightarrow> ('d throwable + 'd option) \<times> 'e" where
  "findAndModify_kt K is_null run self condition sorting projection action e =
     map_fst_result (\<lambda>reply.
         case kt_get K reply ''value'' of
           None \<Rightarrow> Inr None
         | Some v \<Rightarrow>
             if is_null v then Inr None
             else case as_document v of
               Some d \<Rightarrow> Inr (Some d)
             | None \<Rightarrow> Inl (raised_here ''findAndModify answered with a `value` that is not a document''))
       (collection_runCommand run self (findAndModify_command K (mc_name self) condition sorting projection action) e)"

definition changing :: "'d \<Rightarrow> bool \<Rightarrow> ReturnDocument \<Rightarrow> (string \<times> 'd bson) list" where
  "changing change upsert returning =
     [(''update'', BDocument change), (''upsert'', BBoolean upsert), (''new'', BBoolean (returning = AFTER))]"

definition findOneAndUpdate_kt ::
  "('d, 'b) java_bson \<Rightarrow> ('d bson \<Rightarrow> bool) \<Rightarrow> ('e, 'd) runner_kt \<Rightarrow> MongoCollection \<Rightarrow> 'd \<Rightarrow> 'd \<Rightarrow> 'd option \<Rightarrow> 'd option
     \<Rightarrow> bool \<Rightarrow> ReturnDocument \<Rightarrow> 'e \<Rightarrow> ('d throwable + 'd option) \<times> 'e" where
  "findOneAndUpdate_kt K is_null run self condition change sorting projection upsert returning e =
     findAndModify_kt K is_null run self condition sorting projection (changing change upsert returning) e"

definition findOneAndReplace_kt ::
  "('d, 'b) java_bson \<Rightarrow> ('d bson \<Rightarrow> bool) \<Rightarrow> ('d \<Rightarrow> string) \<Rightarrow> ('e, 'd) runner_kt \<Rightarrow> MongoCollection \<Rightarrow> 'd \<Rightarrow> 'd
     \<Rightarrow> 'd option \<Rightarrow> 'd option \<Rightarrow> bool \<Rightarrow> ReturnDocument \<Rightarrow> 'e \<Rightarrow> ('d throwable + 'd option) \<times> 'e" where
  "findOneAndReplace_kt K is_null toText run self condition replacement sorting projection upsert returning e =
     (if holds_operators K replacement
      then (Inl (thrown (Illegal_argument
             (''a replacement is a whole document, not update operators: use findOneAndUpdate for '' @ toText replacement))), e)
      else findAndModify_kt K is_null run self condition sorting projection (changing replacement upsert returning) e)"

definition findOneAndDelete_kt ::
  "('d, 'b) java_bson \<Rightarrow> ('d bson \<Rightarrow> bool) \<Rightarrow> ('e, 'd) runner_kt \<Rightarrow> MongoCollection \<Rightarrow> 'd \<Rightarrow> 'd option \<Rightarrow> 'd option
     \<Rightarrow> 'e \<Rightarrow> ('d throwable + 'd option) \<times> 'e" where
  "findOneAndDelete_kt K is_null run self condition sorting projection e =
     findAndModify_kt K is_null run self condition sorting projection [(''remove'', BBoolean True)] e"

section \<open>Indexes\<close>

definition index_keys :: "('d, 'b) java_bson \<Rightarrow> string list \<Rightarrow> 'd bson \<Rightarrow> 'd throwable + 'd" where
  "index_keys K names v =
     (if names = [] then Inl (thrown (Illegal_argument ''an index over no fields indexes nothing''))
      else Inr (doc_of (jb_lib K) (map (\<lambda>k. (k, v)) names)))"

definition Indexes_ascending :: "('d, 'b) java_bson \<Rightarrow> string list \<Rightarrow> 'd throwable + 'd" where
  "Indexes_ascending K names = index_keys K names (BInt32 1)"

definition Indexes_descending :: "('d, 'b) java_bson \<Rightarrow> string list \<Rightarrow> 'd throwable + 'd" where
  "Indexes_descending K names = index_keys K names (BInt32 (- 1))"

definition Indexes_geo2dsphere :: "('d, 'b) java_bson \<Rightarrow> string list \<Rightarrow> 'd throwable + 'd" where
  "Indexes_geo2dsphere K names = index_keys K names (BString ''2dsphere'')"

definition Indexes_text :: "('d, 'b) java_bson \<Rightarrow> string \<Rightarrow> 'd" where
  "Indexes_text K field = doc_of (jb_lib K) [(field, BString ''text'')]"

definition Indexes_text_all :: "('d, 'b) java_bson \<Rightarrow> 'd" where
  "Indexes_text_all K = doc_of (jb_lib K) [(''$**'', BString ''text'')]"

definition Indexes_hashed :: "('d, 'b) java_bson \<Rightarrow> string \<Rightarrow> 'd" where
  "Indexes_hashed K field = doc_of (jb_lib K) [(field, BString ''hashed'')]"

definition compoundIndex :: "('d, 'b) java_bson \<Rightarrow> 'd list \<Rightarrow> 'd" where
  "compoundIndex K indexes = foldl (putAll (jb_lib K)) (doc_new (jb_lib K)) indexes"

record 'd IndexModel =
  im_keys :: 'd
  io_name :: "string option"
  io_unique :: bool
  io_sparse :: bool
  io_partialFilterExpression :: "'d option"
  io_expireAfterSeconds :: "i64 option"
  io_weights :: "'d option"
  io_defaultLanguage :: "string option"

fun joined_keys :: "string list \<Rightarrow> string" where
  "joined_keys [] = []"
| "joined_keys [k] = k"
| "joined_keys (k # ks) = k @ ''_'' @ joined_keys ks"

definition index_name :: "('d, 'b) java_bson \<Rightarrow> ('d bson option \<Rightarrow> string) \<Rightarrow> 'd IndexModel \<Rightarrow> string" where
  "index_name K toText self =
     (case io_name self of
        Some name \<Rightarrow> name
      | None \<Rightarrow> joined_keys (map (\<lambda>k. k @ ''_'' @ toText (kt_get K (im_keys self) k)) (doc_keys (jb_lib K) (im_keys self))))"

definition specification_kt :: "('d, 'b) java_bson \<Rightarrow> ('d bson option \<Rightarrow> string) \<Rightarrow> 'd IndexModel \<Rightarrow> 'd" where
  "specification_kt K toText self =
     doc_of (jb_lib K) ([(''key'', BDocument (im_keys self)), (''name'', BString (index_name K toText self))] @
       (if io_unique self then [(''unique'', BBoolean True)] else []) @
       (if io_sparse self then [(''sparse'', BBoolean True)] else []) @
       appending ''partialFilterExpression'' BDocument (io_partialFilterExpression self) @
       appending ''expireAfterSeconds'' BInt64 (io_expireAfterSeconds self) @
       appending ''weights'' BDocument (io_weights self) @
       appending ''default_language'' BString (io_defaultLanguage self))"

definition createIndexes_command_kt :: "('d, 'b) java_bson \<Rightarrow> string \<Rightarrow> 'd list \<Rightarrow> 'd" where
  "createIndexes_command_kt K name specifications =
     doc_of (jb_lib K) [(''createIndexes'', BString name), (''indexes'', BArray (map BDocument specifications))]"

definition createIndexes_kt ::
  "('d, 'b) java_bson \<Rightarrow> ('d bson option \<Rightarrow> string) \<Rightarrow> ('e, 'd) runner_kt \<Rightarrow> MongoCollection \<Rightarrow> 'd IndexModel list \<Rightarrow> 'e
     \<Rightarrow> ('d throwable + string option list) \<times> 'e" where
  "createIndexes_kt K toText run self indexes e =
     (if indexes = [] then (Inl (thrown (Illegal_argument ''creating no indexes is a command the engine rejects'')), e)
      else let specifications = map (specification_kt K toText) indexes
           in map_fst_result (\<lambda>_. Inr (map (\<lambda>d. get_str (jb_lib K) d ''name'') specifications))
                (collection_runCommand run self (createIndexes_command_kt K (mc_name self) specifications) e))"

text \<open>\<open>single()\<close> of a list of one.\<close>

definition createIndex_kt ::
  "('d, 'b) java_bson \<Rightarrow> ('d bson option \<Rightarrow> string) \<Rightarrow> ('e, 'd) runner_kt \<Rightarrow> MongoCollection \<Rightarrow> 'd IndexModel \<Rightarrow> 'e
     \<Rightarrow> ('d throwable + string option) \<times> 'e" where
  "createIndex_kt K toText run self model e =
     map_fst_result (\<lambda>names. case names of
          [] \<Rightarrow> Inl (thrown (Other_throwable ''List is empty.''))
        | [name] \<Rightarrow> Inr name
        | _ \<Rightarrow> Inl (thrown (Illegal_argument ''List has more than one element.'')))
       (createIndexes_kt K toText run self [model] e)"

definition listIndexes_command :: "('d, 'b) java_bson \<Rightarrow> string \<Rightarrow> 'd" where
  "listIndexes_command K name = doc_of (jb_lib K) [(''listIndexes'', BString name)]"

definition listIndexes_kt ::
  "('d, 'b) java_bson \<Rightarrow> ('e, 'd, 'd) to_list \<Rightarrow> ('e, 'd) runner_kt \<Rightarrow> ('e, 'd) runner_kt \<Rightarrow> MongoCollection \<Rightarrow> 'e
     \<Rightarrow> (('d throwable + 'd list) \<times> 'e) option" where
  "listIndexes_kt K toList run uncancelled self e =
     toList (documentFlow K run uncancelled (mc_database self) (listIndexes_command K (mc_name self))) e"

definition dropIndexes_command_kt :: "('d, 'b) java_bson \<Rightarrow> string \<Rightarrow> string \<Rightarrow> 'd" where
  "dropIndexes_command_kt K name index = doc_of (jb_lib K) [(''dropIndexes'', BString name), (''index'', BString index)]"

definition dropIndex_kt ::
  "('d, 'b) java_bson \<Rightarrow> ('e, 'd) runner_kt \<Rightarrow> MongoCollection \<Rightarrow> string \<Rightarrow> 'e \<Rightarrow> ('d throwable + unit) \<times> 'e" where
  "dropIndex_kt K run self name e =
     map_fst_result (\<lambda>_. Inr ()) (collection_runCommand run self (dropIndexes_command_kt K (mc_name self) name) e)"

section \<open>What the API sends\<close>

text \<open>
  The commands of the operations above: those that write by their name, an \<open>aggregate\<close> that writes by its last
  stage, and those that only read.
\<close>

inductive api_write :: "('d, 'b) java_bson \<Rightarrow> 'd \<Rightarrow> bool" for K where
  inserts: "api_write K (insert_command_kt K name documents ordered)"
| updates: "api_write K (update_command_kt K name condition change multi upsert)"
| deletes: "api_write K (delete_command_kt K name condition limit)"
| modifies: "api_write K (findAndModify_command K name condition sorting projection (changing change upsert returning))"
| takes: "api_write K (findAndModify_command K name condition sorting projection [(''remove'', BBoolean True)])"
| indexes: "api_write K (createIndexes_command_kt K name specifications)"
| drops_index: "api_write K (dropIndexes_command_kt K name index)"
| drops: "api_write K (drop_command_kt K name)"
| drops_database: "api_write K (dropDatabase_command K)"
| creates: "api_write K (create_command K name options)"

inductive api_writing_aggregate :: "('d, 'b) java_bson \<Rightarrow> 'd \<Rightarrow> bool" for K where
  merges: "pipeline_writes K (aq_pipeline query) \<Longrightarrow> api_writing_aggregate K (AggregateQuery_command K query)"

inductive api_read :: "('d, 'b) java_bson \<Rightarrow> 'd \<Rightarrow> bool" for K where
  finds: "api_read K (FindQuery_command K query)"
| aggregates: "\<not> pipeline_writes K (aq_pipeline query) \<Longrightarrow> api_read K (AggregateQuery_command K query)"
| counts: "api_read K (count_command_kt K name)"
| distincts: "api_read K (distinct_command_kt K name field condition)"
| lists_indexes: "api_read K (listIndexes_command K name)"
| lists_collections: "api_read K (listCollections_command K)"
| pages: "api_read K (getMore_command K i name)"
| kills: "api_read K (killCursors_command K name i)"

lemmas api_command_defs = insert_command_kt_def update_command_kt_def delete_command_kt_def findAndModify_command_def
  changing_def createIndexes_command_kt_def dropIndexes_command_kt_def drop_command_kt_def dropDatabase_command_def
  FindQuery_command_def AggregateQuery_command_def count_command_kt_def distinct_command_kt_def listIndexes_command_def
  listCollections_command_def getMore_command_def killCursors_command_def

lemma doc_of_command:
  assumes "bson_laws B"
  shows "(case doc_keys B (doc_of B ((k, v) # kvs)) of [] \<Rightarrow> True | k' # _ \<Rightarrow> k' \<notin> A) \<longleftrightarrow> k \<notin> A"
proof -
  have "\<exists>ks. doc_keys B (doc_of B ((k, v) # kvs)) = k # ks"
  proof (induction kvs rule: rev_induct)
    case Nil
    show ?case using assms by (simp add: doc_of_def bson_laws_keys)
  next
    case (snoc kv kvs)
    then show ?case using assms by (cases kv) (auto simp: doc_of_def bson_laws_keys)
  qed
  then show ?thesis by auto
qed

lemma putAll_keys:
  assumes "bson_laws B" and "doc_keys B d = k # ks"
  shows "\<exists>ks'. doc_keys B (putAll B d other) = k # ks'"
proof -
  have "\<exists>ks'. doc_keys B (foldl (\<lambda>d k. case doc_get B other k of Some v \<Rightarrow> doc_insert B d k v | None \<Rightarrow> d) d names) = k # ks'"
    for names
    using assms(2)
  proof (induction names arbitrary: d ks)
    case (Cons n names)
    have "\<exists>ks'. doc_keys B (doc_insert B d n v) = k # ks'" for v
      using assms(1) Cons.prems by (simp add: bson_laws_keys)
    with Cons show ?case by (cases "doc_get B other n") fastforce+
  qed simp
  then show ?thesis by (simp add: putAll_def)
qed

lemma putAll_get:
  assumes "bson_laws B" and "doc_get B other k = None"
  shows "doc_get B (putAll B d other) k = doc_get B d k"
proof -
  have "doc_get B (foldl (\<lambda>d k. case doc_get B other k of Some v \<Rightarrow> doc_insert B d k v | None \<Rightarrow> d) d names) k = doc_get B d k"
    for names
  proof (induction names arbitrary: d)
    case (Cons n names)
    then show ?case using assms by (cases "doc_get B other n") (auto simp: bson_laws_get)
  qed simp
  then show ?thesis by (simp add: putAll_def)
qed

text \<open>A command is a write the client adds a write concern to, when its first key says so and it names none.\<close>

definition wants_concern :: "('d, 'b) java_bson \<Rightarrow> 'd \<Rightarrow> bool" where
  "wants_concern K command \<longleftrightarrow>
     \<not> (case doc_keys (jb_lib K) command of [] \<Rightarrow> True | k # _ \<Rightarrow> k \<notin> set WRITE_COMMANDS) \<and> kt_get K command WRITE_CONCERN = None"

text \<open>A collection created with a write concern of the caller's own.\<close>

definition creates_with_own :: "('d, 'b) java_bson \<Rightarrow> 'd \<Rightarrow> bool" where
  "creates_with_own K command \<longleftrightarrow>
     (\<exists>name options. command = create_command K name (Some options) \<and> contains_key (jb_lib K) options WRITE_CONCERN)"

lemma create_wants:
  assumes "bson_laws (jb_lib K)"
    and "case options of None \<Rightarrow> True | Some d \<Rightarrow> \<not> contains_key (jb_lib K) d WRITE_CONCERN"
  shows "wants_concern K (create_command K name options)"
proof -
  let ?create = "doc_of (jb_lib K) [(''create'', BString name)]"
  have "doc_keys (jb_lib K) ?create = [''create'']" "kt_get K ?create WRITE_CONCERN = None"
    using assms(1) by (simp_all add: doc_keys_doc_of doc_get_doc_of WRITE_CONCERN_def)
  moreover from this have "\<exists>ks. doc_keys (jb_lib K) (putAll (jb_lib K) ?create d) = ''create'' # ks" for d
    using putAll_keys [OF assms(1), of ?create "''create''" "[]"] by blast
  then obtain ks where "doc_keys (jb_lib K) (putAll (jb_lib K) ?create d) = ''create'' # ks d" for d by metis
  ultimately show ?thesis using assms
    by (auto simp: wants_concern_def create_command_def Let_def contains_key_def putAll_get WRITE_COMMANDS_def split: option.splits)
qed

lemma api_write_wants:
  assumes "bson_laws (jb_lib K)" and "api_write K command" and "\<not> creates_with_own K command"
  shows "wants_concern K command"
  using assms(2)
proof cases
  case (creates name options)
  with assms(3) create_wants [OF assms(1), of options name] show ?thesis
    by (cases options) (auto simp: creates_with_own_def)
qed (use assms(1) in \<open>auto simp: wants_concern_def api_command_defs appending_def doc_of_command doc_get_doc_of
    WRITE_COMMANDS_def WRITE_CONCERN_def split: option.splits\<close>)

text \<open>\<open>putAll\<close> copies what the options hold.\<close>

lemma putAll_copies:
  assumes "bson_laws B" and "k \<in> set (doc_keys B other)"
  shows "doc_get B (putAll B d other) k = doc_get B other k"
proof -
  have "doc_get B (foldl (\<lambda>d k. case doc_get B other k of Some v \<Rightarrow> doc_insert B d k v | None \<Rightarrow> d) d names) k =
      (if k \<in> set names \<and> doc_get B other k \<noteq> None then doc_get B other k else doc_get B d k)" for names
  proof (induction names arbitrary: d)
    case (Cons n names)
    then show ?case using assms(1) by (cases "doc_get B other n") (auto simp: bson_laws_get)
  qed simp
  with assms show ?thesis by (simp add: putAll_def bson_laws_get(5))
qed

lemma own_concern_kept:
  assumes "bson_laws (jb_lib K)" and "create_command K name (Some options) = command"
    and "contains_key (jb_lib K) options WRITE_CONCERN"
  shows "kt_get K command WRITE_CONCERN = kt_get K options WRITE_CONCERN"
  using assms putAll_copies [OF assms(1), of WRITE_CONCERN options]
  by (auto simp: create_command_def contains_key_def bson_laws_get(5))

lemma aggregate_wants:
  assumes "bson_laws (jb_lib K)"
  shows "\<not> wants_concern K (AggregateQuery_command K query)"
    and "kt_get K (AggregateQuery_command K query) WRITE_CONCERN = None"
  using assms
  by (auto simp: wants_concern_def AggregateQuery_command_def appending_def doc_of_command doc_get_doc_of
      WRITE_COMMANDS_def WRITE_CONCERN_def split: option.splits)

lemma api_read_wants:
  assumes "bson_laws (jb_lib K)" and "api_read K command"
  shows "\<not> wants_concern K command"
  using assms(2)
  by cases (use assms(1) in \<open>simp_all add: wants_concern_def api_command_defs doc_of_command WRITE_COMMANDS_def\<close>)

lemma durable_wants:
  "durable K command =
     (if wants_concern K command
      then doc_insert (jb_lib K) command WRITE_CONCERN (BDocument (doc_of (jb_lib K) [(''w'', BInt32 1), (''j'', BBoolean True)]))
      else command)"
  by (simp add: durable_def wants_concern_def contains_key_def)

text \<open>C15: what the document API writes is journalled, with two exceptions, both stated here. Every command by which an
  operation writes (an insert, update, delete, find-and-modify, the creation and the drop of a collection, a
  database or an index) reaches the engine with a write concern that asks for the journal and with every other field as
  the operation built it. The first exception is a collection created with a write concern of the caller's own: that
  command is sent as it is, with the caller's concern. The second is an \<open>aggregate\<close> whose last stage is \<open>$out\<close> or
  \<open>$merge\<close>: it writes, and is sent as it is, with no write concern at all. Every command that only reads is sent as it
  is. What the engine is given is the encoding of that document and of nothing else.\<close>

theorem api_writes_are_journalled:
  assumes "bson_laws (jb_lib K)"
  shows "(api_write K command \<and> \<not> creates_with_own K command \<longrightarrow>
      kt_get K (durable K command) ''writeConcern'' =
        Some (BDocument (doc_of (jb_lib K) [(''w'', BInt32 1), (''j'', BBoolean True)])) \<and>
      (\<forall>k. k \<noteq> ''writeConcern'' \<longrightarrow> kt_get K (durable K command) k = kt_get K command k)) \<and>
    (\<forall>name options. create_command K name (Some options) = command \<and>
        contains_key (jb_lib K) options ''writeConcern'' \<longrightarrow>
      durable K command = command \<and> kt_get K command ''writeConcern'' = kt_get K options ''writeConcern'') \<and>
    (api_writing_aggregate K command \<longrightarrow>
      durable K command = command \<and> kt_get K command ''writeConcern'' = None) \<and>
    (api_read K command \<longrightarrow> durable K command = command) \<and>
    (\<not> em_closed self \<longrightarrow> BsonCodec_encode K (durable K command) = Inr b \<longrightarrow>
      em_engine (snd (runCommandBlocking K E False db command self)) = snd (eng_command E db b (em_engine self)))"
proof (intro conjI impI allI; (elim conjE)?)
  assume "api_write K command" "\<not> creates_with_own K command"
  note wants = api_write_wants [OF assms this]
  then show "kt_get K (durable K command) ''writeConcern'' =
        Some (BDocument (doc_of (jb_lib K) [(''w'', BInt32 1), (''j'', BBoolean True)]))"
    using assms by (simp add: durable_wants bson_laws_get WRITE_CONCERN_def)
  show "kt_get K (durable K command) k = kt_get K command k" if "k \<noteq> ''writeConcern''" for k
    using that assms by (simp add: durable_get WRITE_CONCERN_def)
next
  fix name options
  assume own: "create_command K name (Some options) = command" "contains_key (jb_lib K) options ''writeConcern''"
  from own_concern_kept [OF assms own(1)] own(2)
  show kept: "kt_get K command ''writeConcern'' = kt_get K options ''writeConcern''" by (simp add: WRITE_CONCERN_def)
  from kept own(2) show "durable K command = command"
    by (auto simp: durable_wants wants_concern_def contains_key_def WRITE_CONCERN_def)
next
  assume "api_writing_aggregate K command"
  then obtain query where "command = AggregateQuery_command K query" by cases
  with aggregate_wants [OF assms] show "durable K command = command" "kt_get K command ''writeConcern'' = None"
    by (auto simp: durable_wants WRITE_CONCERN_def)
next
  assume "api_read K command"
  then show "durable K command = command" using api_read_wants [OF assms] by (simp add: durable_wants)
next
  assume "\<not> em_closed self" "BsonCodec_encode K (durable K command) = Inr b"
  then show "em_engine (snd (runCommandBlocking K E False db command self)) = snd (eng_command E db b (em_engine self))"
    by (simp add: runCommandBlocking_def guard_reject_def checkOpen_def split: prod.split)
qed

definition out_query :: "adoc AggregateQuery" where
  "out_query = collection_aggregate (getCollection ''shop'' ''orders'') [ADoc [(''$out'', BString ''copy'')]]"

theorem api_writes_are_journalled_witness:
  "api_write plain_java (drop_command_kt plain_java ''orders'') \<and>
   kt_get plain_java (durable plain_java (drop_command_kt plain_java ''orders'')) ''writeConcern'' =
     Some (BDocument (doc_of alist_lib [(''w'', BInt32 1), (''j'', BBoolean True)])) \<and>
   api_writing_aggregate plain_java (AggregateQuery_command plain_java out_query) \<and>
   kt_get plain_java (AggregateQuery_command plain_java out_query) ''writeConcern'' = None"
proof -
  have lib: "jb_lib plain_java = alist_lib" by (simp add: plain_java_def)
  have laws: "bson_laws (jb_lib plain_java)" using plain_java_total by (simp add: codec_total_def)
  have drop: "api_write plain_java (drop_command_kt plain_java ''orders'')" by (rule drops)
  have "create_command plain_java name (Some options) \<noteq> drop_command_kt plain_java ''orders''" for name options
  proof -
    have "doc_keys (jb_lib plain_java) (doc_of (jb_lib plain_java) [(''create'', BString name)]) = [''create'']"
      by (simp add: doc_keys_doc_of [OF laws])
    from putAll_keys [OF laws this, of options] show ?thesis
      by (auto simp: create_command_def drop_command_kt_def lib doc_of_def alist_lib_def)
  qed
  then have "\<not> creates_with_own plain_java (drop_command_kt plain_java ''orders'')"
    unfolding creates_with_own_def by metis
  with drop api_writes_are_journalled [OF laws, where command = "drop_command_kt plain_java ''orders''", THEN conjunct1]
  have "kt_get plain_java (durable plain_java (drop_command_kt plain_java ''orders'')) ''writeConcern'' =
     Some (BDocument (doc_of alist_lib [(''w'', BInt32 1), (''j'', BBoolean True)]))" by (simp add: lib)
  moreover have out: "api_writing_aggregate plain_java (AggregateQuery_command plain_java out_query)"
    by (rule merges) (simp add: pipeline_writes_def out_query_def collection_aggregate_def lib alist_lib_def WRITING_STAGES_def)
  with api_writes_are_journalled [OF laws, where command = "AggregateQuery_command plain_java out_query",
      THEN conjunct2, THEN conjunct2, THEN conjunct1]
  have "kt_get plain_java (AggregateQuery_command plain_java out_query) ''writeConcern'' = None" by simp
  ultimately show ?thesis using drop out by blast
qed

section \<open>What an insert stores\<close>

lemma withId_stores:
  assumes "bson_laws (jb_lib K)" and "withId K new_oid d ids = (stored, ids')"
  shows "kt_get K stored ''_id'' \<noteq> None" and "k \<noteq> ''_id'' \<Longrightarrow> kt_get K stored k = kt_get K d k"
    and "kt_get K d ''_id'' \<noteq> None \<Longrightarrow> stored = d"
  using assms by (auto simp: withId_def contains_key_def bson_laws_get split: if_splits prod.splits)

lemma withIds_stores:
  assumes "bson_laws (jb_lib K)" and "withIds K new_oid ds ids = (stored, ids')"
  shows "length stored = length ds \<and> (\<forall>i < length ds. kt_get K (stored ! i) ''_id'' \<noteq> None \<and>
    (\<forall>k. k \<noteq> ''_id'' \<longrightarrow> kt_get K (stored ! i) k = kt_get K (ds ! i) k) \<and>
    (kt_get K (ds ! i) ''_id'' \<noteq> None \<longrightarrow> stored ! i = ds ! i))"
  using assms(2)
proof (induction ds arbitrary: ids stored ids')
  case (Cons d ds)
  obtain s ids1 where one: "withId K new_oid d ids = (s, ids1)" by fastforce
  obtain rest ids2 where more: "withIds K new_oid ds ids1 = (rest, ids2)" by fastforce
  from Cons.prems one more have "stored = s # rest" by simp
  with Cons.IH [OF more] withId_stores [OF assms(1) one] show ?case
    by (auto simp: nth_Cons split: nat.split)
qed simp

text \<open>when \<open>insertMany\<close> returns, the engine was sent one \<open>insert\<close> of as many documents as the caller gave, each the
  caller's own with its \<open>_id\<close> where it had one and otherwise the caller's with a generated \<open>_id\<close>, the engine
  accepted it and reported exactly that many stored; the ids reported are, by position, those of the documents sent.
  An empty list reaches nothing.\<close>

theorem insertMany_reports_what_is_stored:
  assumes "bson_laws (jb_lib K)" and "insertMany_kt K new_oid run self ds ordered ids e = (Inr reported, ids', e')"
  shows "ds \<noteq> [] \<and> (\<exists>stored reply.
    run e (mc_database self) (insert_command_kt K (mc_name self) stored ordered) = (Inr reply, e') \<and>
    longOrNull K reply ''n'' = Some (word_of_nat (length ds)) \<and> length stored = length ds \<and>
    reported = zip [0..<length ds] (map (\<lambda>d. kt_get K d ''_id'') stored) \<and>
    (\<forall>i < length ds. kt_get K (stored ! i) ''_id'' \<noteq> None \<and>
       (\<forall>k. k \<noteq> ''_id'' \<longrightarrow> kt_get K (stored ! i) k = kt_get K (ds ! i) k) \<and>
       (kt_get K (ds ! i) ''_id'' \<noteq> None \<longrightarrow> stored ! i = ds ! i)))"
proof -
  obtain stored ids1 where ids: "withIds K new_oid ds ids = (stored, ids1)" by fastforce
  note stores = withIds_stores [OF assms(1) ids]
  obtain r e1 where r: "run e (mc_database self) (insert_command_kt K (mc_name self) stored ordered) = (r, e1)" by fastforce
  from assms(2) ids r have "ds \<noteq> []" and e1: "e1 = e'" and reported: "reported = enumerate 0 (map (\<lambda>d. kt_get K d ''_id'') stored)"
    and "\<exists>reply. r = Inr reply \<and> longOrNull K reply ''n'' = Some (word_of_nat (length stored))"
    by (auto simp: insertMany_kt_def insert_kt_def collection_runCommand_def map_fst_result_def requiredLong_def result_iffs
        ok_or_def split: if_splits option.splits)
  with r stores show ?thesis by (auto simp: enumerate_eq_zip)
qed

definition storing :: "(nat, adoc) runner_kt" where
  "storing e db command = (Inr (ADoc [(''n'', BInt32 2)]), Suc e)"

theorem insertMany_reports_what_is_stored_witness:
  "insertMany_kt plain_java (\<lambda>n. (n, Suc n)) storing (getCollection ''shop'' ''orders'')
     [ADoc [(''_id'', BInt32 7)], ADoc []] False 40 0 = (Inr [(0, Some (BInt32 7)), (1, Some (BObjectId 40))], 41, 1) \<and>
   (\<exists>stored reply. storing 0 ''shop'' (insert_command_kt plain_java ''orders'' stored False) = (Inr reply, 1) \<and>
      stored ! 0 = ADoc [(''_id'', BInt32 7)] \<and> kt_get plain_java (stored ! 1) ''_id'' \<noteq> None)"
proof -
  let ?shop = "getCollection ''shop'' ''orders''" and ?ds = "[ADoc [(''_id'', BInt32 7)], ADoc []]"
  have lib: "jb_lib plain_java = alist_lib" by (simp add: plain_java_def)
  have laws: "bson_laws (jb_lib plain_java)" using plain_java_total by (simp add: codec_total_def)
  have run: "insertMany_kt plain_java (\<lambda>n. (n, Suc n)) storing ?shop ?ds False 40 0 =
      (Inr [(0, Some (BInt32 7)), (1, Some (BObjectId 40))], 41, 1)"
    by (simp add: insertMany_kt_def insert_kt_def collection_runCommand_def map_fst_result_def requiredLong_def storing_def
        longOrNull_def number_at_def as_number_def withId_def contains_key_def lib alist_lib_def)
  from insertMany_reports_what_is_stored [OF laws run]
  obtain stored reply where "storing 0 ''shop'' (insert_command_kt plain_java ''orders'' stored False) = (Inr reply, 1)"
    and "\<forall>i < length ?ds. kt_get plain_java (stored ! i) ''_id'' \<noteq> None \<and>
       (\<forall>k. k \<noteq> ''_id'' \<longrightarrow> kt_get plain_java (stored ! i) k = kt_get plain_java (?ds ! i) k) \<and>
       (kt_get plain_java (?ds ! i) ''_id'' \<noteq> None \<longrightarrow> stored ! i = ?ds ! i)"
    by (auto simp: getCollection_def)
  moreover from this(2) have "stored ! 0 = ADoc [(''_id'', BInt32 7)]" "kt_get plain_java (stored ! 1) ''_id'' \<noteq> None"
    by (auto simp: lib alist_lib_def)
  ultimately show ?thesis using run by blast
qed

end
