(* ===== verification/Spec2Isabelle.thy ===== *)
theory Spec2Isabelle
  imports Session_Pool Worker_Pool Fake_Engine Wire Android_Bridge Sys_Client Blocking_Client Async_Api Driver_Shims Source_Build Native_Engine Kotlin_Crud
begin

text \<open>
  A verification library of \<^bold>\<open>embedded-mongo\<close>: a MongoDB engine embedded in a process, the
  Rust layers over it and the bindings to other languages. Paths below are under \<open>src/\<close>.

  \<^bold>\<open>The program.\<close> The engine is C++ glue over the MongoDB server sources
  (\<open>embedded-mongodb-sys/native\<close>), reached through a C interface and a \<open>cxx\<close> bridge by the crate
  \<open>embedded-mongodb-sys\<close>. The safe crate (\<open>src/\<close>) opens one engine per process, keeps a pool of native sessions,
  runs commands on them, sets the process's free-disk floors, repairs indexes at open and offers a document
  API, blocking and async; the async half has its own worker threads. Over it sit the JNI crate
  (\<open>embedded-mongodb-android\<close>) with its Kotlin library (\<open>android/\<close>), and the Python and Node bindings, which hand over raw
  wire messages (\<open>embedded-mongodb-wire\<close>) for a Python and a Node package to put in front of their drivers. Build scripts fetch a
  published native library, or build one.

  \<^bold>\<open>Conventions.\<close> A \<open>Result\<close>, and a function that may throw, is a sum with \<open>Inl\<close> for the failure. A structure behind a
  mutex is a record, and a section of code under the lock one function on it. Threads are an
  \<open>inductive\<close> step relation whose steps are those sections, with a waiting thread as a state of its own; its invariants go
  through the locale \<open>invariant_system\<close> of \<open>Prelude\<close>. Machine integers are words of their width where they can wrap.
  What is not in the repository is an argument: the \<open>bson\<close> crate (\<open>bson_lib\<close>, with the laws it documents as the hypotheses
  \<open>bson_laws\<close> and \<open>codec_laws\<close>), the Java BSON library, the server behind the native calls, JNI, the JVM, the file system,
  the clock, the flow operators of \<open>kotlinx.coroutines\<close> and the programs a build script starts.

  \<^bold>\<open>Theories, and what they model.\<close>
  \<^item> \<open>Prelude\<close>, \<open>Bytes\<close>, \<open>Bson_Iface\<close>: the standard library the sources use, little-endian bytes and UTF-8, the document
    interface with a reference implementation \<open>alist_lib\<close>.
  \<^item> \<open>Options\<close> (\<open>embedded-mongodb-sys/src/options.rs\<close>, \<open>src/options.rs\<close>): limits, ranges, concurrency policies.
    \<open>Errors\<close> (\<open>src/error.rs\<close>): the errors and the check of a reply.
  \<^item> \<open>Slot\<close>, \<open>Idles\<close>, \<open>Session_Pool\<close> (\<open>src/pool/\<close>): the slot that ties an interrupt to one command, the
    idle sessions and the reaper, and the pool with its callers as threads: \<open>pool_step\<close>. Lemmas: an interrupt
    reaches only its own command, the pool stays within its ceiling, no sleeper is forgotten.
  \<^item> \<open>Worker_State\<close>, \<open>Worker_Pool\<close> (\<open>src/nonblocking/state.rs\<close>, \<open>queue.rs\<close>, \<open>workers.rs\<close>, \<open>shutdown.rs\<close>): the bookkeeping of
    the async workers and their threads, \<open>worker_step\<close>. Lemmas: the counts a shutdown
    waits for are exact, queued jobs are run, every run of a closing pool is finite and ends with its close answered once and
    with what the engine said; also a way a close can miss the engine.
  \<^item> \<open>Sys_Client\<close> (\<open>embedded-mongodb-sys/src/client.rs\<close>): shared ownership of the engine, its sessions and their killers.
  \<^item> \<open>Native_Engine\<close> (\<open>embedded-mongodb-sys/native\<close>, \<open>cpp/bridge.cc\<close>): the open options as memory, their resolution,
    the life of a runtime as a sequence of calls into the server, exceptions across the C boundary.
  \<^item> \<open>Floors\<close>, \<open>Fake_Engine\<close> (\<open>src/limits/\<close>): the two floors, moved all or nothing and established at every open, over the
    locale \<open>floor_engine\<close>; the test engine interprets it.
  \<^item> \<open>Crud\<close> (\<open>src/insert.rs\<close>, \<open>find.rs\<close>, \<open>aggregate.rs\<close>), \<open>Async_Api\<close> (\<open>src/nonblocking/\<close>): the document API. A cursor refines a
    list (locale \<open>result_stream\<close>). The async engine has the kills that dropped cursors leave queued and a schedule of which
    of them the workers run before each command; in step with that schedule the async calls agree with the blocking ones.
  \<^item> \<open>Index_Repair\<close>, \<open>Repair_Pass\<close> (\<open>src/repair/\<close>): the sweep over all collections, the reports, and the marker file over a
    directory on which every operation may fail and the process may die between any two.
  \<^item> \<open>Blocking_Client\<close> (\<open>src/client.rs\<close>): opening and commands, put together from the theories above, with every event of an
    open in order: the floors are set before the repair starts.
  \<^item> \<open>Wire\<close>, \<open>Bindings\<close>, \<open>Driver_Shims\<close> (\<open>embedded-mongodb-wire\<close>, \<open>-python\<close>, \<open>-node\<close>, \<open>python/\<close>): the wire parser, the Rust half of both
    bindings, and the packages over them: the socket \<open>index.js\<close> serves as a step relation, \<open>serve_step\<close>, and the connection and clients of
    PyMongo. Lemmas: messages do not depend on how their bytes arrive, answers come in order, a client leaves no engine behind.
  \<^item> \<open>Android_Errors\<close>, \<open>Android_Handles\<close>, \<open>Android_Registry\<close>, \<open>Android_Bridge\<close> (\<open>embedded-mongodb-android\<close>): codes
    and option slots, handles, the registry under concurrent calls, the native methods.
  \<^item> \<open>Kotlin_Base\<close>, \<open>Kotlin_Client\<close> (\<open>android/embedded-mongodb\<close>): exceptions and replies, the database object over the native methods,
    the floors and the opens of the Kotlin library, with the points at which the opening coroutine can be cancelled: an open that
    fails or is cancelled leaves no engine behind, except when the cancellation meets the resumption itself.
  \<^item> \<open>Kotlin_Api\<close>, \<open>Kotlin_Crud\<close> (\<open>android/embedded-mongodb-core\<close>): its document API, a cursor as a flow over the locale
    \<open>cursor_engine\<close>, the queries and the operations that are one command each. Lemmas: a flow delivers everything and leaves no
    cursor behind, every write is journalled except a created collection with its own concern and an aggregation that
    writes, an insert reports what it stored.
  \<^item> \<open>Prebuilt\<close>, \<open>Source_Build\<close> (\<open>embedded-mongodb-sys/build*.rs\<close>): choosing, downloading and checking the published library, the
    command line of a build from source, and the link.

  This theory adds the property that spans the most of them: a limit named in Kotlin
  reaches WiredTiger through the slots of the native method, the crate's option types, the C structure and its defaults.

  \<^bold>\<open>Partiality.\<close> No definition runs on fuel. A loop that the server can keep going, a cursor's, is a \<open>partial_function\<close> whose
  value \<open>None\<close> is a call that never returns; \<open>serves\<close> says which servers end a cursor, and for those the calls are shown to
  return. Bounds are the code's own: the
  32-bit counters of the pools, the 31-bit lengths of documents and messages.

  \<^bold>\<open>Not modelled.\<close> The server sources behind the C++ glue, a submodule: each call into them is a step
  that may fail. Bazel, the compilers and the programs a build starts, which are what they answer. The handshake PyMongo is given and the
  \<open>connect\<close> of its pool, which fill in fields of PyMongo's classes; the generated loader of the Node module. Executors
  and coroutine schedulers: a call is one task's, with its cancellation an argument. Examples, benchmarks and tests,
  except the two test engines other theories run on.
\<close>

section \<open>From the limits an application names to WiredTiger\<close>

text \<open>
  The engine crate's two opens over the bridge and the C entry points: a null pointer is a closed client, an
  exception its text. The rest of the native engine (sessions, commands, the clock) is an argument.
\<close>

definition no_native_options :: NativeOpenOptions where
  "no_native_options = \<lparr>cache_size_mb = 0, journal_file_max_kb = 0, journal_prealloc = 0\<rparr>"

definition sys_open ::
  "location \<Rightarrow> 'm performer \<Rightarrow> bool \<Rightarrow> string \<Rightarrow> 'm process \<Rightarrow> string \<Rightarrow> NativeOpenOptions
     \<Rightarrow> sys_error + (runtime \<times> 'm process)" where
  "sys_open location perform allocates initializer_error p path options =
     (case bridge_open_native location perform allocates initializer_error path options p of
        (Inl e, _) \<Rightarrow> Inl (Sys_Native e)
      | (Inr None, _) \<Rightarrow> Inl Sys_Closed
      | (Inr (Some rt), p') \<Rightarrow> Inr (rt, p'))"

definition over_bridge ::
  "location \<Rightarrow> 'm performer \<Rightarrow> bool \<Rightarrow> string \<Rightarrow> 'm process \<Rightarrow> ('s, runtime \<times> 'm process) native
     \<Rightarrow> ('s, runtime \<times> 'm process) native" where
  "over_bridge location perform allocates initializer_error p N =
     N\<lparr>nt_open := (\<lambda>path. sys_open location perform allocates initializer_error p path no_native_options),
       nt_open_with_options := sys_open location perform allocates initializer_error p\<rparr>"

definition client_start :: "('s, 'rt) native \<Rightarrow> string \<Rightarrow> OpenOptions option \<Rightarrow> sys_error + 'rt" where
  "client_start N name options =
     (case options of
        Some opts \<Rightarrow> nt_open_with_options N name (EngineOptions_to_ffi (oo_engine opts))
      | None \<Rightarrow> nt_open N name)"

text \<open>A client of the safe crate is one whose engine started.\<close>

lemma Client_open_starts:
  assumes "Client_open B de N var faults fs recorded (Some name) options = Some od" and "od_client od = Inr c"
  shows "\<exists>rt. client_start N name options = Inr rt"
proof (cases "client_start N name options")
  case (Inl e)
  with assms show ?thesis
    by (auto simp: Client_open_def client_start_def open_failed_def Let_def split: option.splits)
qed simp

lemma started_with:
  assumes "sys_open location perform allocates ie p path options = Inr (rt, p')"
  shows "\<exists>cs. pr_calls p' = pr_calls p @ cs \<and> (\<forall>g. Apply_options g \<in> set cs \<longleftrightarrow> g = applyOptions
    \<lparr>cacheSizeMB = valueOrDefault (cache_size_mb options) kDefaultCacheSizeMB,
     journalFileMaxKB = valueOrDefault (journal_file_max_kb options) kDefaultJournalFileMaxKB,
     journalPrealloc = resolvePrealloc (journal_prealloc options)\<rparr>)"
proof -
  have "bridge_open_native location perform allocates ie path options p = (Inr (Some rt), p')"
    using assms by (auto simp: sys_open_def split: prod.splits sum.splits option.splits)
  then obtain resolved where "resolveOptions location (Some (native_image options)) = Inr resolved"
      "Runtime_new location perform path resolved p = (Inr rt, p')"
    using bridge_opened by blast
  with Runtime_new_options [of location perform path resolved p rt p'] show ?thesis
    by (simp add: resolve_native_image)
qed

text \<open>The slots Kotlin sends, read back with the missing ones zero.\<close>

definition slots_of :: "StorageOptions \<Rightarrow> i64 list" where
  "slots_of options =
     [unwrap_or 0 (map_option (\<lambda>c. scast (cache_mebibytes c)) (so_cacheSize options)),
      unwrap_or 0 (map_option (\<lambda>j. scast (journal_kibibytes j)) (so_journalFileSize options)),
      unwrap_or 0 (map_option JournalPreallocation_slot (so_journalPreallocation options))]"

lemma slots_padded: "take 3 (engineSlots options @ [0, 0, 0]) = slots_of options"
proof -
  have trim: "take 3 (take (nat (indexOfLast (\<lambda>s. s \<noteq> 0) [a, b, c] + 1)) [a, b, c] @ [0, 0, 0]) = [a, b, c]" for a b c :: i64
    by (cases "a = 0"; cases "b = 0"; cases "c = 0") (simp_all add: indexOfLast_def eval_nat_numeral)
  show ?thesis
    unfolding engineSlots_def Let_def UNSET_def slots_of_def by (rule trim)
qed

lemma slots_in_range:
  assumes "StorageOptions_wf options"
  shows "slot_in 1 10000000 (slots_of options ! 0) \<and> slot_in 100 2097152 (slots_of options ! 1) \<and>
    slots_of options ! 2 \<in> {0, 1, 2}"
proof -
  have up: "sint (scast (w :: i32) :: i64) = sint w" for w
    using sint_i32_bounds [of w] sint_i64 [of "sint w"] by simp
  show ?thesis
    using assms
    by (cases "so_cacheSize options"; cases "so_journalFileSize options"; cases "so_journalPreallocation options";
        cases "the (so_journalPreallocation options)")
      (auto simp: StorageOptions_wf_def slots_of_def slot_in_def up)
qed

text \<open>What WiredTiger is to be opened with.\<close>

definition limits_asked :: "StorageOptions \<Rightarrow> ResolvedOptions" where
  "limits_asked options =
     \<lparr>cacheSizeMB = (case so_cacheSize options of None \<Rightarrow> 256 | Some c \<Rightarrow> cache_mebibytes c),
      journalFileMaxKB = (case so_journalFileSize options of None \<Rightarrow> 8192 | Some j \<Rightarrow> journal_kibibytes j),
      journalPrealloc = (so_journalPreallocation options = Some PREALLOC_ON)\<rparr>"

lemma slots_resolved:
  assumes "StorageOptions_wf options"
  shows "\<lparr>cacheSizeMB = valueOrDefault (ucast (slots_of options ! 0)) kDefaultCacheSizeMB,
     journalFileMaxKB = valueOrDefault (ucast (slots_of options ! 1)) kDefaultJournalFileMaxKB,
     journalPrealloc = resolvePrealloc (ucast (slots_of options ! 2))\<rparr> = limits_asked options"
  using assms
  by (cases "so_cacheSize options"; cases "so_journalFileSize options"; cases "so_journalPreallocation options";
      cases "the (so_journalPreallocation options)")
    (auto simp: StorageOptions_wf_def slots_of_def limits_asked_def valueOrDefault_def resolvePrealloc_def ucast_scast_i32
      kDefaultCacheSizeMB_def kDefaultJournalFileMaxKB_def kDefaultJournalPrealloc_def PREALLOC_ENABLED_def PREALLOC_DISABLED_def)

text \<open>C12: The limits an application names in Kotlin are the ones WiredTiger opens with. Take any limits
  that passed their range checks, over a JVM that reads back the strings and arrays it is given. The open is never refused for its options:
  it is one call of the crate's open, on the absolute path, with options \<open>o'\<close> of its own; and when
  the engine started that way opens, the storage settings written before WiredTiger started, once the slots have crossed the
  bridge, the crate's types, the C struct and its defaults, are exactly the cache size, the journal file size and the
  preallocation the application named, with 256 MB, 8 MiB and off for the ones it did not.\<close>

theorem kotlin_limits_reach_wiredtiger:
  assumes "StorageOptions_wf options" and "jni_string J (absolutePath directory) = Inr path"
    and "\<And>xs. jni_len J xs = Inr (length xs)" and "\<And>xs n. n \<le> length xs \<Longrightarrow> jni_region J xs n = Inr (take n xs)"
  shows "\<exists>o'. NativeEngine_open J S vm hash absolutePath directory options reg =
      (let (r, reg') = bridge_issue S hash path o' reg
       in (map_ok (\<lambda>handle. \<lparr>ne_handle = handle, ne_registry = reg'\<rparr>) (native_method vm (Answers r)), reg')) \<and>
    (\<forall>location perform allocates ie p N rt p'.
       client_start (over_bridge location perform allocates ie p N) path o' = Inr (rt, p') \<longrightarrow>
       (\<exists>cs. pr_calls p' = pr_calls p @ cs \<and>
          (\<forall>g. Apply_options g \<in> set cs \<longleftrightarrow> g = applyOptions (limits_asked options))))"
proof (cases "engineSlots options = []")
  case True
  then have zero: "slots_of options = [0, 0, 0]" using slots_padded [of options] by simp
  have "limits_asked options = \<lparr>cacheSizeMB = valueOrDefault 0 kDefaultCacheSizeMB,
     journalFileMaxKB = valueOrDefault 0 kDefaultJournalFileMaxKB, journalPrealloc = resolvePrealloc 0\<rparr>"
    using slots_resolved [OF assms(1)] zero by simp
  then show ?thesis
    using assms(2) True
    by (intro exI [of _ None])
      (auto simp: NativeEngine_open_def bridge_open_def client_start_def over_bridge_def no_native_options_def
        dest!: started_with)
next
  case False
  obtain opts where o: "bridge_open_with_options J S hash (Some (absolutePath directory)) (Some (engineSlots options)) reg =
      bridge_issue S hash path (Some opts) reg"
    and ffi: "EngineOptions_to_ffi (oo_engine opts) = \<lparr>cache_size_mb = ucast (slots_of options ! 0),
      journal_file_max_kb = ucast (slots_of options ! 1), journal_prealloc = ucast (slots_of options ! 2)\<rparr>"
    using option_array_any_length [OF assms(3) assms(4) assms(2) refl, of "engineSlots options" S hash reg]
      slots_in_range [OF assms(1)] unfolding slots_padded by auto
  show ?thesis
    using o False slots_resolved [OF assms(1)]
    by (intro exI [of _ "Some opts"])
      (auto simp: NativeEngine_open_def client_start_def over_bridge_def ffi dest!: started_with)
qed

text \<open>A server that accepts every call.\<close>

definition willing :: "nat performer" where
  "willing c n = (None, Suc n)"

definition no_sessions :: "(nat, runtime \<times> nat process) native" where
  "no_sessions = \<lparr>nt_open = (\<lambda>path. Inl Sys_Closed), nt_open_with_options = (\<lambda>path options. Inl Sys_Closed),
     nt_open_session = (\<lambda>rt. (Inl Sys_Closed, rt)), nt_run_command = (\<lambda>session db command rt. (Inl Sys_Closed, rt)),
     nt_close = (\<lambda>rt. Inr ()), nt_now = (\<lambda>rt. 0), nt_spawned = (\<lambda>rt. Inr ())\<rparr>"

theorem kotlin_limits_reach_wiredtiger_witness:
  "\<exists>o' reg' rt p'. NativeEngine_open plain_jni echo_client (an_jvm calm_android) 5 (\<lambda>d. d) ''data''
      (no_options\<lparr>so_cacheSize := Some (CacheSize_kt 32)\<rparr>) Registry_new =
        (Inr \<lparr>ne_handle = 21474836481, ne_registry = reg'\<rparr>, reg') \<and>
     bridge_issue echo_client 5 ''data'' o' Registry_new = (Inr 21474836481, reg') \<and>
     client_start (over_bridge (\<lambda>n m. m) willing True [] idle_process no_sessions) ''data'' o' = Inr (rt, p') \<and>
     Apply_options (applyOptions \<lparr>cacheSizeMB = 32, journalFileMaxKB = 8192, journalPrealloc = False\<rparr>) \<in> set (pr_calls p')"
proof -
  let ?opts = "no_options\<lparr>so_cacheSize := Some (CacheSize_kt 32)\<rparr>" and ?vm = "an_jvm calm_android"
  have wf: "StorageOptions_wf ?opts" by (simp add: StorageOptions_wf_def no_options_def)
  have "\<exists>o'. NativeEngine_open plain_jni echo_client ?vm 5 (\<lambda>d. d) ''data'' ?opts Registry_new =
      (let (r, reg') = bridge_issue echo_client 5 ''data'' o' Registry_new
       in (map_ok (\<lambda>handle. \<lparr>ne_handle = handle, ne_registry = reg'\<rparr>) (native_method ?vm (Answers r)), reg')) \<and>
    (\<forall>location perform allocates ie p N rt p'.
       client_start (over_bridge location perform allocates ie (p :: nat process) (N :: (nat, _) native)) ''data'' o' = Inr (rt, p') \<longrightarrow>
       (\<exists>cs. pr_calls p' = pr_calls p @ cs \<and> (\<forall>g. Apply_options g \<in> set cs \<longleftrightarrow> g = applyOptions (limits_asked ?opts))))"
    by (rule kotlin_limits_reach_wiredtiger [OF wf]) (simp_all add: plain_jni_def)
  then obtain o' where opens: "NativeEngine_open plain_jni echo_client ?vm 5 (\<lambda>d. d) ''data'' ?opts Registry_new =
      (let (r, reg') = bridge_issue echo_client 5 ''data'' o' Registry_new
       in (map_ok (\<lambda>handle. \<lparr>ne_handle = handle, ne_registry = reg'\<rparr>) (native_method ?vm (Answers r)), reg'))"
    and reaches: "\<And>rt p'. client_start (over_bridge (\<lambda>n m. m) willing True [] idle_process no_sessions) ''data'' o' = Inr (rt, p') \<Longrightarrow>
       \<exists>cs. pr_calls p' = pr_calls idle_process @ cs \<and> (\<forall>g. Apply_options g \<in> set cs \<longleftrightarrow> g = applyOptions (limits_asked ?opts))"
    by blast
  obtain reg' where issued: "bridge_issue echo_client 5 ''data'' o' Registry_new = (Inr 21474836481, reg')"
    by (simp add: bridge_issue_def Registry_issue_def Registry_insert_def Registry_new_def demo_take_next demo_handle_def echo_client_def)
  have "\<exists>rt p'. sys_open (\<lambda>n m. m) willing True [] idle_process ''data'' options = Inr (rt, p')" for options
    by (simp add: sys_open_def bridge_open_native_def c_open_with_options_def resolve_native_image Runtime_new_def
        Runtime_initialize_def uassert_def startup_calls_def call_mongo_def willing_def idle_process_def fresh_runtime_def
        translateErrors_def throw_if_error_def)
  then have "\<exists>rt p'. client_start (over_bridge (\<lambda>n m. m) willing True [] idle_process no_sessions) ''data'' o' = Inr (rt, p')"
    by (cases o') (simp_all add: client_start_def over_bridge_def)
  then obtain rt p' where started: "client_start (over_bridge (\<lambda>n m. m) willing True [] idle_process no_sessions) ''data'' o' = Inr (rt, p')"
    by blast
  from reaches [OF started] have "Apply_options (applyOptions (limits_asked ?opts)) \<in> set (pr_calls p')" by auto
  moreover have "limits_asked ?opts = \<lparr>cacheSizeMB = 32, journalFileMaxKB = 8192, journalPrealloc = False\<rparr>"
    by (simp add: limits_asked_def no_options_def)
  ultimately show ?thesis using opens issued started by (intro exI conjI) auto
qed

end
